(* ===== verification/RR_Prelude.thy ===== *)
theory RR_Prelude
  imports
    Main
    "HOL-Library.Char_ord"
    "HOL-Library.List_Lexorder"
    "HOL-Library.Product_Lexorder"
begin

text \<open>
  What every component theory shares: the result type of a call that can raise, Python's
  string primitives on code points below 256 (one HOL \<open>char\<close> is one such code point),
  insertion-ordered dictionaries, and the lemma collections the proofs rest on.
\<close>

named_theorems model_defs \<open>definitions unfolded when an operation is evaluated\<close>
named_theorems op_defs \<open>definitions of the operations that write the store\<close>
named_theorems gate_defs \<open>definitions of the predicates that gate an operation\<close>

section \<open>Calls that can raise\<close>

text \<open>
  Every exception a modelled call lets through is a value: the exception class and the
  machine-readable \<open>code\<close> the source gives it. The human-readable message is not kept.
\<close>

datatype error =
    LifecycleError string
  | SessionStateConflict string
  | SessionBusy
  | NoResultFound
  | ValueError string
  | KeyError string
  | VisibilityPolicyError string
  | UserOperationError string
  | ScheduledActivateError string
  | GroupAnswersWouldClear nat
  | OverflowError
  | ObjectDeletedError
  | InvitationAlreadySent
  | NotDue
  | DatabaseError string
  | InvalidOperation
  | AssertionError

type_synonym 'a result = "error + 'a"

definition bindE :: "'a result \<Rightarrow> ('a \<Rightarrow> 'b result) \<Rightarrow> 'b result" where
  "bindE r f = (case r of Inl e \<Rightarrow> Inl e | Inr x \<Rightarrow> f x)"

definition raise_unless :: "bool \<Rightarrow> error \<Rightarrow> unit result" where
  "raise_unless ok e = (if ok then Inr () else Inl e)"

lemma bindE_simps [simp]:
  "bindE (Inl e) f = Inl e"
  "bindE (Inr x) f = f x"
  by (simp_all add: bindE_def)

lemma bindE_Inr_iff [simp]: "bindE r f = Inr y \<longleftrightarrow> (\<exists>x. r = Inr x \<and> f x = Inr y)"
  by (cases r) simp_all

lemma bindE_Inl_iff: "bindE r f = Inl e \<longleftrightarrow> r = Inl e \<or> (\<exists>x. r = Inr x \<and> f x = Inl e)"
  by (cases r) simp_all

lemma bindE_assoc: "bindE (bindE r f) g = bindE r (\<lambda>x. bindE (f x) g)"
  by (cases r) simp_all

lemma raise_unless_simps [simp]:
  "raise_unless True e = Inr ()"
  "raise_unless False e = Inl e"
  "raise_unless ok e = Inr u \<longleftrightarrow> ok"
  "raise_unless ok e = Inl e' \<longleftrightarrow> \<not> ok \<and> e' = e"
  by (auto simp: raise_unless_def)

section \<open>Strings\<close>

text \<open>
  \<open>str.isspace\<close>, \<open>str.strip\<close> and \<open>str.lower\<close> on code points below 256. Below 256
  these are exactly Python's Unicode rules: whitespace is 9-13, 28-32, 133 and 160, and
  lower-casing shifts A-Z and the Latin-1 capitals (192-222 but 215) by 32.
\<close>

definition py_space :: "char \<Rightarrow> bool" where
  "py_space c = (let n = (of_char c :: nat) in
     (9 \<le> n \<and> n \<le> 13) \<or> (28 \<le> n \<and> n \<le> 32) \<or> n = 133 \<or> n = 160)"

definition py_strip :: "string \<Rightarrow> string" where
  "py_strip s = rev (dropWhile py_space (rev (dropWhile py_space s)))"

definition py_lower_char :: "char \<Rightarrow> char" where
  "py_lower_char c = (let n = (of_char c :: nat) in
     if (65 \<le> n \<and> n \<le> 90) \<or> (192 \<le> n \<and> n \<le> 222 \<and> n \<noteq> 215)
     then char_of (n + 32) else c)"

definition py_lower :: "string \<Rightarrow> string" where
  "py_lower s = map py_lower_char s"

text \<open>\<open>x or ""\<close> for a column that may be NULL.\<close>

definition or_empty :: "string option \<Rightarrow> string" where
  "or_empty v = (case v of None \<Rightarrow> [] | Some s \<Rightarrow> s)"

lemma or_empty_simps [simp]: "or_empty None = []" "or_empty (Some s) = s"
  by (simp_all add: or_empty_def)

text \<open>\<open>needle in haystack\<close> for strings.\<close>

fun is_substring :: "string \<Rightarrow> string \<Rightarrow> bool" where
  "is_substring n [] = (n = [])"
| "is_substring n (c # cs) = (take (length n) (c # cs) = n \<or> is_substring n cs)"

text \<open>\<open>text.split(",")\<close>: one piece more than there are separators.\<close>

fun split_char :: "char \<Rightarrow> string \<Rightarrow> string list" where
  "split_char d [] = [[]]"
| "split_char d (c # cs) =
     (if c = d then [] # split_char d cs
      else (case split_char d cs of [] \<Rightarrow> [[c]] | p # ps \<Rightarrow> (c # p) # ps))"

text \<open>\<open>[item.strip() for item in text.split(",") if item.strip()]\<close>.\<close>

definition csv_items :: "string \<Rightarrow> string list" where
  "csv_items s = filter (\<lambda>p. p \<noteq> []) (map py_strip (split_char CHR '','' s))"

lemma split_char_nonempty [simp]: "split_char d s \<noteq> []"
  by (induction s) (auto split: list.splits)

lemma py_strip_Nil [simp]: "py_strip [] = []"
  by (simp add: py_strip_def)

lemma dropWhile_rev_dropWhile:
  "dropWhile P (rev (dropWhile P (rev (dropWhile P xs)))) = rev (dropWhile P (rev (dropWhile P xs)))"
proof (cases "dropWhile P xs")
  case Nil
  then show ?thesis by (metis dropWhile.simps(1) rev.simps(1))
next
  case (Cons y ys)
  then have "\<not> P y" by (metis dropWhile_eq_Cons_conv)
  then have "dropWhile P (rev (y # ys)) = dropWhile P (rev ys) @ [y]"
    by (auto simp: dropWhile_append)
  with Cons \<open>\<not> P y\<close> show ?thesis by simp
qed

lemma py_strip_idem [simp]: "py_strip (py_strip s) = py_strip s"
  by (simp add: py_strip_def dropWhile_rev_dropWhile)

lemma of_char_lower:
  "(of_char (py_lower_char c) :: nat) =
     (let n = of_char c in
      if (65 \<le> n \<and> n \<le> 90) \<or> (192 \<le> n \<and> n \<le> 222 \<and> n \<noteq> 215) then n + 32 else n)"
proof -
  have "(of_char c :: nat) < 256" by (rule nat_of_char_less_256)
  then show ?thesis
    by (auto simp: py_lower_char_def Let_def)
qed

lemma py_lower_char_idem [simp]: "py_lower_char (py_lower_char c) = py_lower_char c"
proof -
  have "(of_char (py_lower_char (py_lower_char c)) :: nat) = of_char (py_lower_char c)"
    by (auto simp: of_char_lower Let_def)
  then show ?thesis by simp
qed

lemma py_lower_idem [simp]: "py_lower (py_lower s) = py_lower s"
  by (simp add: py_lower_def comp_def)

lemma py_space_lower [simp]: "py_space (py_lower_char c) = py_space c"
  by (auto simp: py_space_def of_char_lower Let_def)

lemma dropWhile_space_lower:
  "dropWhile py_space (map py_lower_char s) = map py_lower_char (dropWhile py_space s)"
  by (simp add: dropWhile_map comp_def)

lemma py_lower_strip: "py_lower (py_strip s) = py_strip (py_lower s)"
  by (simp add: py_lower_def py_strip_def dropWhile_space_lower rev_map)

section \<open>Lists\<close>

text \<open>\<open>[y for y in map(f, xs) if y is not None]\<close>.\<close>

lemma set_map_filter: "y \<in> set (List.map_filter f xs) \<longleftrightarrow> (\<exists>x \<in> set xs. f x = Some y)"
  by (force simp: List.map_filter_def)

lemma map_filter_simps':
  "List.map_filter f [] = []"
  "List.map_filter f (x # xs) = (case f x of None \<Rightarrow> [] | Some y \<Rightarrow> [y]) @ List.map_filter f xs"
  by (simp_all add: List.map_filter_def split: option.split)

lemma find_key: "inj_on f (set xs) \<Longrightarrow> x \<in> set xs \<Longrightarrow> find (\<lambda>y. f y = f x) xs = Some x"
  by (induction xs) (auto simp: inj_on_def)

section \<open>Insertion-ordered dictionaries\<close>

text \<open>
  A Python dict whose iteration order is read is an association list: storing under a
  present key keeps the key's place, storing under a new one appends it.
\<close>

fun dict_put :: "'k \<Rightarrow> 'v \<Rightarrow> ('k \<times> 'v) list \<Rightarrow> ('k \<times> 'v) list" where
  "dict_put k v [] = [(k, v)]"
| "dict_put k v ((k', v') # d) = (if k = k' then (k, v) # d else (k', v') # dict_put k v d)"

definition dict_get :: "('k \<times> 'v) list \<Rightarrow> 'k \<Rightarrow> 'v option" where
  "dict_get d = map_of d"

definition dict_keys :: "('k \<times> 'v) list \<Rightarrow> 'k list" where
  "dict_keys d = map fst d"

lemma dict_get_put: "dict_get (dict_put k v d) = (dict_get d)(k \<mapsto> v)"
  unfolding dict_get_def by (induction d) (auto simp: fun_eq_iff)

lemma dict_keys_put:
  "dict_keys (dict_put k v d) = (if k \<in> set (dict_keys d) then dict_keys d else dict_keys d @ [k])"
  unfolding dict_keys_def by (induction d) force+

lemma distinct_dict_put: "distinct (dict_keys d) \<Longrightarrow> distinct (dict_keys (dict_put k v d))"
  by (simp add: dict_keys_put)

lemma dom_dict_get: "dom (dict_get d) = set (dict_keys d)"
  by (simp add: dict_get_def dict_keys_def dom_map_of_conv_image_fst)

text \<open>
  What the code relies on in a dictionary: a lookup after a store, and keys kept in the order
  they were first stored. The clients' facts are proved once from that contract.
\<close>

locale ordered_dict =
  fixes empty :: 'd
    and put :: "'k \<Rightarrow> 'v \<Rightarrow> 'd \<Rightarrow> 'd"
    and lookup :: "'d \<Rightarrow> 'k \<Rightarrow> 'v option"
    and order :: "'d \<Rightarrow> 'k list"
  assumes lookup_empty: "lookup empty k = None"
    and order_empty: "order empty = []"
    and lookup_put: "lookup (put k v d) = (lookup d)(k \<mapsto> v)"
    and order_put: "order (put k v d) = (if k \<in> set (order d) then order d else order d @ [k])"
begin

text \<open>A loop that stores, for each item, a value made from the item and the one stored before.\<close>

lemma lookup_loop:
  "lookup (foldl (\<lambda>d x. put (f x) (g x (lookup d (f x))) d) d xs) k
     = foldl (\<lambda>v x. Some (g x v)) (lookup d k) (filter (\<lambda>x. f x = k) xs)"
  by (induction xs arbitrary: d) (auto simp: lookup_put)

lemma lookup_loop_empty:
  "lookup (foldl (\<lambda>d x. put (f x) (g x (lookup d (f x))) d) empty xs) k
     = foldl (\<lambda>v x. Some (g x v)) None (filter (\<lambda>x. f x = k) xs)"
  by (simp add: lookup_loop lookup_empty)

lemma order_loop_set:
  "set (order (foldl (\<lambda>d x. put (f x) (h x d) d) d xs)) = set (order d) \<union> f ` set xs"
  by (induction xs arbitrary: d) (auto simp: order_put)

lemma order_loop_distinct:
  "distinct (order d) \<Longrightarrow> distinct (order (foldl (\<lambda>d x. put (f x) (h x d) d) d xs))"
  by (induction xs arbitrary: d) (simp_all add: order_put)

end

interpretation dict: ordered_dict "[]" dict_put dict_get dict_keys
  by unfold_locales (simp_all add: dict_get_put dict_keys_put, simp_all add: dict_get_def dict_keys_def)

text \<open>\<open>d.setdefault(key, []).append(v)\<close> over a list, and the last-stored-wins loop.\<close>

definition group_into :: "('a \<Rightarrow> 'k) \<Rightarrow> ('a \<Rightarrow> 'v) \<Rightarrow> 'a list \<Rightarrow> ('k \<times> 'v list) list" where
  "group_into key val xs = foldl (\<lambda>d x. dict_put (key x)
     ((case dict_get d (key x) of None \<Rightarrow> [] | Some l \<Rightarrow> l) @ [val x]) d) [] xs"

definition dict_of :: "('a \<Rightarrow> 'k) \<Rightarrow> ('a \<Rightarrow> 'v) \<Rightarrow> 'a list \<Rightarrow> ('k \<times> 'v) list" where
  "dict_of key val xs = foldl (\<lambda>d x. dict_put (key x) (val x) d) [] xs"

lemma group_into_get:
  "dict_get (group_into key val xs) k =
     (let ys = filter (\<lambda>x. key x = k) xs in if ys = [] then None else Some (map val ys))"
proof -
  have "foldl (\<lambda>v x. Some ((case v of None \<Rightarrow> [] | Some l \<Rightarrow> l) @ [val x])) (Some l) ys
      = Some (l @ map val ys)" for l ys
    by (induction ys arbitrary: l) simp_all
  then have "foldl (\<lambda>v x. Some ((case v of None \<Rightarrow> [] | Some l \<Rightarrow> l) @ [val x])) None ys
      = (if ys = [] then None else Some (map val ys))" for ys
    by (cases ys) simp_all
  then show ?thesis
    unfolding group_into_def Let_def
    by (simp only: dict.lookup_loop_empty [where g = "\<lambda>x v. (case v of None \<Rightarrow> [] | Some l \<Rightarrow> l) @ [val x]"])
qed

lemma group_into_keys:
  "set (dict_keys (group_into key val xs)) = key ` set xs"
  "distinct (dict_keys (group_into key val xs))"
  unfolding group_into_def
  by (simp_all only: dict.order_loop_set
      [where h = "\<lambda>x d. (case dict_get d (key x) of None \<Rightarrow> [] | Some l \<Rightarrow> l) @ [val x]"]
      dict.order_loop_distinct [where h = "\<lambda>x d. (case dict_get d (key x) of None \<Rightarrow> [] | Some l \<Rightarrow> l) @ [val x]"]
      dict.order_empty distinct.simps) simp_all

lemma dict_of_get:
  "dict_get (dict_of key val xs) k =
     (let ys = filter (\<lambda>x. key x = k) xs in if ys = [] then None else Some (val (last ys)))"
proof -
  have "foldl (\<lambda>v x. Some (val x)) w ys = (if ys = [] then w else Some (val (last ys)))" for w ys
    by (induction ys arbitrary: w) simp_all
  then show ?thesis
    unfolding dict_of_def Let_def
    by (simp only: dict.lookup_loop_empty [where g = "\<lambda>x v. val x"])
qed

lemma dict_of_keys:
  "set (dict_keys (dict_of key val xs)) = key ` set xs" "distinct (dict_keys (dict_of key val xs))"
  unfolding dict_of_def
  by (simp_all only: dict.order_loop_set [where h = "\<lambda>x d. val x"]
      dict.order_loop_distinct [where h = "\<lambda>x d. val x"] dict.order_empty
      distinct.simps) simp_all

lemma map_of_dict: "dict_get d k = Some v \<Longrightarrow> (k, v) \<in> set d"
  by (simp add: dict_get_def map_of_SomeD)

lemma dict_items: "distinct (dict_keys d) \<Longrightarrow> (k, v) \<in> set d \<longleftrightarrow> dict_get d k = Some v"
  unfolding dict_get_def dict_keys_def by (rule map_of_eq_Some_iff [symmetric])

end
