(* ===== verification/Text_Identity.thy ===== *)
theory Text_Identity
  imports RR_Prelude
begin

text \<open>
  The small text helpers (\<open>app/services/text.py\<close>), the email and account identity
  primitives (\<open>app/services/email_identity.py\<close>) and the roster status fold
  (\<open>app/services/roster_status.py\<close>). Every same-person test of the program reads
  \<open>same_identity\<close>.
\<close>

section \<open>Digits\<close>

definition is_digit :: "char \<Rightarrow> bool" where
  "is_digit c = (48 \<le> (of_char c :: nat) \<and> (of_char c :: nat) \<le> 57)"

definition digit_val :: "char \<Rightarrow> nat" where
  "digit_val c = of_char c - 48"

definition digit_char :: "nat \<Rightarrow> char" where
  "digit_char d = char_of (48 + d)"

definition nat_of_digits :: "string \<Rightarrow> nat" where
  "nat_of_digits s = foldl (\<lambda>a c. 10 * a + digit_val c) 0 s"

text \<open>\<open>str(n)\<close> of a non-negative int.\<close>

fun show_nat :: "nat \<Rightarrow> string" where
  "show_nat n = (if n < 10 then [digit_char n] else show_nat (n div 10) @ [digit_char (n mod 10)])"

declare show_nat.simps [simp del]

lemma of_char_digit_char: "d < 10 \<Longrightarrow> (of_char (digit_char d) :: nat) = 48 + d"
  by (simp add: digit_char_def)

lemma is_digit_digit_char [simp]: "d < 10 \<Longrightarrow> is_digit (digit_char d)"
  by (simp add: is_digit_def of_char_digit_char)

lemma digit_val_digit_char [simp]: "d < 10 \<Longrightarrow> digit_val (digit_char d) = d"
  by (simp add: digit_val_def of_char_digit_char)

lemma digit_val_less: "is_digit c \<Longrightarrow> digit_val c < 10"
  by (auto simp: is_digit_def digit_val_def)

lemma nat_of_digits_snoc [simp]: "nat_of_digits (s @ [c]) = 10 * nat_of_digits s + digit_val c"
  by (simp add: nat_of_digits_def)

lemma nat_of_digits_Nil [simp]: "nat_of_digits [] = 0"
  by (simp add: nat_of_digits_def)

lemma nat_of_digits_append:
  "nat_of_digits (s @ t) = nat_of_digits s * 10 ^ length t + nat_of_digits t"
  by (induction t rule: rev_induct) (simp_all add: algebra_simps flip: append_assoc)

lemma nat_of_digits_less:
  "list_all is_digit s \<Longrightarrow> nat_of_digits s < 10 ^ length s"
proof (induction s rule: rev_induct)
  case Nil
  show ?case by simp
next
  case (snoc c s)
  then have "nat_of_digits s < 10 ^ length s" and "digit_val c < 10"
    by (simp_all add: digit_val_less)
  then show ?case by simp
qed

lemma show_nat_digits: "list_all is_digit (show_nat n)"
  by (induction n rule: show_nat.induct) (subst show_nat.simps, auto)

lemma show_nat_nonempty [simp]: "show_nat n \<noteq> []"
  by (subst show_nat.simps) simp

lemma nat_of_digits_show_nat [simp]: "nat_of_digits (show_nat n) = n"
proof (induction n rule: show_nat.induct)
  case (1 n)
  show ?case
  proof (cases "n < 10")
    case True
    then show ?thesis by (subst show_nat.simps) (simp add: nat_of_digits_def)
  next
    case False
    then show ?thesis using 1 by (subst show_nat.simps) simp
  qed
qed

lemma length_show_nat: "0 < k \<Longrightarrow> n < 10 ^ k \<Longrightarrow> length (show_nat n) \<le> k"
proof (induction n arbitrary: k rule: show_nat.induct)
  case (1 n)
  show ?case
  proof (cases "n < 10")
    case True
    with 1 show ?thesis by (subst show_nat.simps) simp
  next
    case False
    from "1.prems" obtain k' where k: "k = Suc k'" by (cases k) auto
    with "1.prems" False have "0 < k'" by (cases k') auto
    note k = k this
    with "1.prems" have "n div 10 < 10 ^ k'" by (simp add: less_mult_imp_div_less mult.commute)
    with 1 False k show ?thesis by (subst show_nat.simps) simp
  qed
qed

lemma is_digit_not_space: "is_digit c \<Longrightarrow> \<not> py_space c"
  by (auto simp: is_digit_def py_space_def Let_def)

lemma dropWhile_none: "list_all (\<lambda>c. \<not> P c) s \<Longrightarrow> dropWhile P s = s"
  by (cases s) auto

lemma py_strip_no_space: "list_all (\<lambda>c. \<not> py_space c) s \<Longrightarrow> py_strip s = s"
  by (simp add: py_strip_def dropWhile_none)

lemma py_strip_digits: "list_all is_digit s \<Longrightarrow> py_strip s = s"
  by (rule py_strip_no_space) (auto simp: list_all_iff is_digit_not_space)

section \<open>Text helpers\<close>

definition pluralize :: "int \<Rightarrow> string \<Rightarrow> string option \<Rightarrow> string" where
  "pluralize count singular plural =
     (if count = 1 then singular
      else (case plural of Some p \<Rightarrow> p | None \<Rightarrow> singular @ ''s''))"

definition MAX_SQL_INT :: int where
  "MAX_SQL_INT = 2147483647"

text \<open>
  Python's \<open>int(text)\<close> on ASCII digits: past the interpreter's 4300-digit limit it raises
  \<open>ValueError\<close> (CPython's \<open>sys.int_info.default_max_str_digits\<close>), leading zeros counted.
\<close>

definition INT_MAX_STR_DIGITS :: nat where
  "INT_MAX_STR_DIGITS = 4300"

definition py_int_digits :: "string \<Rightarrow> int result" where
  "py_int_digits s = (if length s > INT_MAX_STR_DIGITS then Inl (ValueError ''int'')
                      else Inr (int (nat_of_digits s)))"

text \<open>The values a caller hands \<open>parse_id\<close>: JSON / form values.\<close>

datatype raw = RNone | RBool bool | RInt int | RStr string

definition parse_id :: "raw \<Rightarrow> int option result" where
  "parse_id r = (case r of
       RBool _ \<Rightarrow> Inr None
     | RInt n \<Rightarrow> Inr (if 0 \<le> n \<and> n \<le> MAX_SQL_INT then Some n else None)
     | _ \<Rightarrow>
        (let text = py_strip (case r of RStr s \<Rightarrow> s | _ \<Rightarrow> []) in
         if text = [] \<or> \<not> list_all is_digit text then Inr None
         else bindE (py_int_digits text)
                (\<lambda>value. Inr (if value \<le> MAX_SQL_INT then Some value else None))))"

section \<open>Email and account identity\<close>

definition normalize_email :: "string option \<Rightarrow> string" where
  "normalize_email v = py_lower (py_strip (or_empty v))"

definition normalize_object_id :: "string option \<Rightarrow> string" where
  "normalize_object_id v = py_lower (py_strip (or_empty v))"

text \<open>
  \<open>EMAIL_RE.fullmatch\<close> on the stripped value: a non-empty local part, one \<open>@\<close>, and a
  domain with a dot that is neither its first nor its last character, none of them holding
  \<open>@\<close> or whitespace.
\<close>

definition looks_like_email :: "string option \<Rightarrow> bool" where
  "looks_like_email v =
     (let s = py_strip (or_empty v); l = takeWhile (\<lambda>c. c \<noteq> CHR ''@'') s
      in case dropWhile (\<lambda>c. c \<noteq> CHR ''@'') s of
           [] \<Rightarrow> False
         | _ # d \<Rightarrow> l \<noteq> [] \<and> CHR ''@'' \<notin> set d \<and> list_all (\<lambda>c. \<not> py_space c) s
                      \<and> CHR ''.'' \<in> set (butlast (tl d)))"

definition same_identity ::
  "string option \<Rightarrow> string option \<Rightarrow> string option \<Rightarrow> string option \<Rightarrow> bool" where
  "same_identity a_object_id a_address b_object_id b_address =
     (let a_bound = normalize_object_id a_object_id; b_bound = normalize_object_id b_object_id in
      if a_bound \<noteq> [] \<and> b_bound \<noteq> [] then a_bound = b_bound
      else (let a_key = normalize_email a_address in
            a_key \<noteq> [] \<and> a_key = normalize_email b_address))"

section \<open>Roster status\<close>

definition normalise_status :: "string option \<Rightarrow> (string \<Rightarrow> error) \<Rightarrow> string result" where
  "normalise_status value error_cls =
     (let status = py_lower (py_strip (if or_empty value = [] then ''active'' else or_empty value)) in
      if status \<in> {''active'', ''inactive''} then Inr status
      else Inl (error_cls ''invalid_status''))"

definition status_is_active :: "string option \<Rightarrow> bool" where
  "status_is_active status =
     ((if or_empty status = [] then ''active'' else or_empty status) = ''active'')"

section \<open>Facts the other components use\<close>

lemma normalize_email_idem [simp]:
  "normalize_email (Some (normalize_email v)) = normalize_email v"
  by (simp add: normalize_email_def py_lower_strip)

lemma normalize_object_id_idem [simp]:
  "normalize_object_id (Some (normalize_object_id v)) = normalize_object_id v"
  by (simp add: normalize_object_id_def py_lower_strip)

lemma same_identity_sym: "same_identity a p b q = same_identity b q a p"
  by (auto simp: same_identity_def Let_def)

lemma parse_id_RStr:
  assumes "length (py_strip s) \<le> INT_MAX_STR_DIGITS"
  shows "parse_id (RStr s) = Inr
     (let text = py_strip s in
      if text \<noteq> [] \<and> list_all is_digit text \<and> int (nat_of_digits text) \<le> MAX_SQL_INT
      then Some (int (nat_of_digits text)) else None)"
  using assms by (auto simp: parse_id_def py_int_digits_def Let_def)

lemma py_strip_replicate_digit: "is_digit c \<Longrightarrow> py_strip (replicate n c) = replicate n c"
  by (rule py_strip_digits) (simp add: list_all_iff)

end
