(* ===== verification/Py_Number.thy ===== *)
theory Py_Number
  imports Text_Identity Complex_Main "HOL-Library.Log_Nat"
begin

text \<open>
  The numbers of the program: the decimal literals a form posts (\<open>DECIMAL_PATTERN\<close> in
  \<open>app/services/responses/_branching.py\<close>), what Python's \<open>float\<close> makes of one (an IEEE
  double, the nearest one with ties to even, as an exact rational; \<open>None\<close> for an infinity)
  and what \<open>decimal.Decimal\<close> makes of one.
\<close>

section \<open>Doubles\<close>

text \<open>The exponent of the leading bit of a positive rational.\<close>

definition ilog2 :: "rat \<Rightarrow> int" where
  "ilog2 x = (case quotient_of x of (p, q) \<Rightarrow>
     let k = bitlen p - bitlen q in
     if of_int q * (2::rat) powi k \<le> of_int p then k else k - 1)"

definition round_half_even :: "rat \<Rightarrow> int" where
  "round_half_even x = (let f = \<lfloor>x\<rfloor>; d = x - of_int f in
     if d < 1 / 2 then f else if 1 / 2 < d then f + 1 else if even f then f else f + 1)"

definition float_of :: "rat \<Rightarrow> rat option" where
  "float_of x = (if x = 0 then Some 0
     else let e = max (ilog2 \<bar>x\<bar> - 52) (-1074);
              r = of_int (round_half_even (x / 2 powi e)) * 2 powi e
          in if \<bar>r\<bar> < 2 powi 1024 then Some r else None)"

lemma ilog2_bounds:
  assumes "0 < x"
  shows "2 powi ilog2 x \<le> x" and "x < 2 powi (ilog2 x + 1)"
proof -
  obtain p q where pq: "quotient_of x = (p, q)" by fastforce
  have q: "0 < q" and x: "x = of_int p / of_int q"
    using pq by (simp_all add: quotient_of_denom_pos quotient_of_div)
  with assms have p: "0 < p" by (simp add: zero_less_divide_iff)
  have bp: "2 powi (bitlen p - 1) \<le> (of_int p :: rat)" "(of_int p :: rat) < 2 powi bitlen p"
    and bq: "2 powi (bitlen q - 1) \<le> (of_int q :: rat)" "(of_int q :: rat) < 2 powi bitlen q"
  proof -
    have *: "2 powi (bitlen n - 1) \<le> (of_int n :: rat) \<and> (of_int n :: rat) < 2 powi bitlen n"
      if n: "0 < n" for n :: int
    proof -
      have "2 ^ nat (bitlen n - 1) \<le> n" and "n < 2 ^ nat (bitlen n)"
        using bitlen_bounds [OF n] by simp_all
      then have "(of_int (2 ^ nat (bitlen n - 1)) :: rat) \<le> of_int n"
        and "(of_int n :: rat) < of_int (2 ^ nat (bitlen n))"
        by (simp_all only: of_int_le_iff of_int_less_iff)
      moreover have "1 \<le> bitlen n" using n bitlen_le_iff_power [of n 0]
        by (metis bitlen_nonneg int_one_le_iff_zero_less less_le not_less bitlen_eq_zero_iff)
      ultimately show ?thesis by (simp add: power_int_def)
    qed
    show "2 powi (bitlen p - 1) \<le> (of_int p :: rat)" "(of_int p :: rat) < 2 powi bitlen p"
      "2 powi (bitlen q - 1) \<le> (of_int q :: rat)" "(of_int q :: rat) < 2 powi bitlen q"
      using *[OF p] *[OF q] by simp_all
  qed
  define k where "k = bitlen p - bitlen q"
  have q0: "(0::rat) < of_int q" using q by simp
  have up: "x < 2 powi (k + 1)"
  proof -
    have "(2::rat) powi bitlen p = 2 powi (k + 1) * 2 powi (bitlen q - 1)"
      by (simp add: k_def flip: power_int_add)
    also have "\<dots> \<le> 2 powi (k + 1) * of_int q" using bq(1) by simp
    finally have "of_int p < 2 powi (k + 1) * (of_int q :: rat)" using bp(2) by linarith
    then show ?thesis using q0 by (simp add: x divide_less_eq)
  qed
  have low: "2 powi (k - 1) \<le> x"
  proof -
    have "2 powi (k - 1) * of_int q \<le> 2 powi (k - 1) * (2::rat) powi bitlen q"
      using bq(2) by simp
    also have "\<dots> = 2 powi (bitlen p - 1)" by (simp add: k_def flip: power_int_add)
    finally have "2 powi (k - 1) * of_int q \<le> (of_int p :: rat)" using bp(1) by linarith
    then show ?thesis using q0 by (simp add: x le_divide_eq)
  qed
  have "ilog2 x = (if of_int q * 2 powi k \<le> (of_int p :: rat) then k else k - 1)"
    by (simp add: ilog2_def pq k_def)
  moreover have "of_int q * 2 powi k \<le> (of_int p :: rat) \<longleftrightarrow> 2 powi k \<le> x"
    using q0 by (simp add: x le_divide_eq mult.commute)
  ultimately have i: "ilog2 x = (if 2 powi k \<le> x then k else k - 1)" by simp
  from i low show "2 powi ilog2 x \<le> x" by simp
  from i up show "x < 2 powi (ilog2 x + 1)" by auto
qed

lemma round_half_even_of_int [simp]: "round_half_even (of_int n) = n"
  by (simp add: round_half_even_def)

lemma float_of_int:
  assumes "\<bar>n\<bar> < 2 ^ 53"
  shows "float_of (of_int n) = Some (of_int n)"
proof (cases "n = 0")
  case True
  then show ?thesis by (simp add: float_of_def)
next
  case False
  define x :: rat where "x = \<bar>of_int n\<bar>"
  have x: "0 < x" "x < 2 powi 53"
  proof -
    show "0 < x" using False by (simp add: x_def)
    have "x = of_int \<bar>n\<bar>" by (simp add: x_def)
    also have "\<dots> < of_int (2 ^ 53)" using assms by (simp only: of_int_less_iff)
    finally show "x < 2 powi 53" by simp
  qed
  have "(2::rat) powi ilog2 x < 2 powi 53" using ilog2_bounds(1) [OF x(1)] x(2) by linarith
  then have "ilog2 x < 53" using power_int_increasing [of 53 "ilog2 x" "2::rat"] by (rule_tac ccontr) simp
  define e where "e = max (ilog2 x - 52) (-1074)"
  have e: "e \<le> 0" using \<open>ilog2 x < 53\<close> by (simp add: e_def)
  have "of_int n / (2::rat) powi e = of_int (n * 2 ^ nat (- e))"
    using e by (simp add: power_int_def field_simps)
  then have r: "of_int (round_half_even (of_int n / 2 powi e)) * (2::rat) powi e = of_int n"
    by (metis round_half_even_of_int nonzero_eq_divide_eq power_int_not_zero zero_neq_numeral)
  have "x < 2 powi 1024" using x(2) power_int_strict_increasing [of 53 1024 "2::rat"] by linarith
  then show ?thesis
    using False r by (simp add: float_of_def Let_def flip: x_def e_def)
qed

section \<open>Decimal literals\<close>

text \<open>
  A literal \<open>[+-]?(D+.?D*|.D+)([eE][+-]?D+)?\<close> as its sign, its digits as one natural number
  and its decimal exponent. \<open>None\<close> for any other text: \<open>fullmatch\<close> fails.
\<close>

record literal =
  lit_neg :: bool
  lit_coeff :: nat
  lit_exp :: int

fun take_sign :: "string \<Rightarrow> bool \<times> string" where
  "take_sign [] = (False, [])"
| "take_sign (c # cs) =
     (if c = CHR ''-'' then (True, cs) else if c = CHR ''+'' then (False, cs) else (False, c # cs))"

definition parse_exponent :: "string \<Rightarrow> int option" where
  "parse_exponent s = (case s of
       [] \<Rightarrow> Some 0
     | c # cs \<Rightarrow>
        if c = CHR ''e'' \<or> c = CHR ''E'' then
          (case take_sign cs of (neg, ds) \<Rightarrow>
             if ds \<noteq> [] \<and> list_all is_digit ds
             then Some ((if neg then -1 else 1) * int (nat_of_digits ds)) else None)
        else None)"

definition parse_literal :: "string \<Rightarrow> literal option" where
  "parse_literal s = (case take_sign s of (neg, body) \<Rightarrow>
     let whole = takeWhile is_digit body; rest = dropWhile is_digit body;
         dot = (rest \<noteq> [] \<and> hd rest = CHR ''.'');
         frac = (if dot then takeWhile is_digit (tl rest) else []);
         tail = (if dot then dropWhile is_digit (tl rest) else rest)
     in if whole = [] \<and> frac = [] then None
        else (case parse_exponent tail of
                None \<Rightarrow> None
              | Some e \<Rightarrow> Some \<lparr>lit_neg = neg, lit_coeff = nat_of_digits (whole @ frac),
                                lit_exp = e - int (length frac)\<rparr>))"

definition lit_value :: "literal \<Rightarrow> rat" where
  "lit_value l = (if lit_neg l then -1 else 1) * of_nat (lit_coeff l) * 10 powi lit_exp l"

text \<open>
  \<open>_finite_number\<close>: the double a text spells, \<open>None\<close> when it is not a plain decimal number
  or its double is not finite.
\<close>

definition finite_number :: "string option \<Rightarrow> rat option" where
  "finite_number text = (case parse_literal (py_strip (or_empty text)) of
       None \<Rightarrow> None
     | Some l \<Rightarrow> float_of (lit_value l))"

lemma take_sign_digits: "list_all is_digit s \<Longrightarrow> take_sign s = (False, s)"
  by (cases s) (auto simp: is_digit_def)

lemma parse_literal_digits:
  assumes "s \<noteq> []" "list_all is_digit s"
  shows "parse_literal s = Some \<lparr>lit_neg = False, lit_coeff = nat_of_digits s, lit_exp = 0\<rparr>"
proof -
  have *: "takeWhile is_digit s = s" "dropWhile is_digit s = []"
    using assms(2) by (simp_all add: list_all_iff takeWhile_eq_all_conv)
  show ?thesis
    unfolding parse_literal_def take_sign_digits [OF assms(2)] prod.case Let_def *
    using assms(1) by (simp add: parse_exponent_def)
qed

lemma finite_number_show_nat:
  assumes "n < 2 ^ 53"
  shows "finite_number (Some (show_nat n)) = Some (of_nat n)"
proof -
  have "\<bar>int n\<bar> < 2 ^ 53" using assms by simp
  then have "float_of (of_nat n) = Some (of_nat n)" using float_of_int [of "int n"] by simp
  moreover have "parse_literal (show_nat n) = Some \<lparr>lit_neg = False, lit_coeff = n, lit_exp = 0\<rparr>"
    by (simp add: parse_literal_digits show_nat_digits)
  ultimately show ?thesis
    by (simp add: finite_number_def py_strip_digits show_nat_digits lit_value_def)
qed

end
