(* ===== verification/Rule_Schema.thy ===== *)
theory Rule_Schema
  imports RR_Prelude "HOL-Library.While_Combinator" "HOL-Library.Multiset"
begin

text \<open>
  Assignment rules as data (\<open>app/schemas/rules.py\<close>): predicates, the four kinds of rule, the
  rule set, and the checks the schema makes when a stored payload is read. A rule set's
  \<open>rules_json\<close> is held as the rules it spells. Names: the source's field names with a prefix.
\<close>

section \<open>Data\<close>

datatype combinator = ALL_OF | ANY_OF | PIPELINE

datatype composite_op = AND_OP | OR_OP | NOT_OP

datatype quota_scope = PER_REVIEWER | PER_REVIEWEE

datatype selection_strategy = RANDOM | ROUND_ROBIN

text \<open>
  A predicate's operand. The engine reads a scalar by \<open>str()\<close> only, so a float is held as
  that text. The operator is the literal string.
\<close>

datatype operand = NoOperand | StrOperand string | IntOperand int | FloatOperand string | ListOperand "string list"

record predicate =
  pr_field :: string
  pr_operator :: string
  pr_operand :: operand
  pr_case_sensitive :: bool

record quota =
  q_scope :: quota_scope
  q_min :: "int option"
  q_max :: "int option"
  q_strategy :: selection_strategy
  q_seed :: "int option"

datatype rule =
    FilterRule (rule_id: string) (rule_enabled: bool) (rule_predicate: predicate)
  | MatchRule (rule_id: string) (rule_enabled: bool) (rule_predicate: predicate)
  | QuotaRule (rule_id: string) (rule_enabled: bool) (rule_quota: quota)
  | CompositeRule (rule_id: string) (rule_enabled: bool) (rule_op: composite_op) (rule_children: "rule list")

record rule_set =
  ru_combinator :: combinator
  ru_rules :: "rule list"
  ru_exclude_self :: bool
  ru_seed :: "int option"

section \<open>The checks of a predicate\<close>

definition NULLARY_OPERATORS :: "string list" where
  "NULLARY_OPERATORS = [''is_empty'', ''is_not_empty'']"

definition COMPARE_OPERATORS :: "string list" where
  "COMPARE_OPERATORS = [''same_as'', ''different_from'']"

definition LIST_OPERATORS :: "string list" where
  "LIST_OPERATORS = [''in'', ''not_in'']"

definition REGEX_OPERATORS :: "string list" where
  "REGEX_OPERATORS = [''matches'', ''not_matches'']"

definition PREDICATE_OPERATORS :: "string list" where
  "PREDICATE_OPERATORS = [''equals'', ''not_equals'', ''in'', ''not_in'', ''matches'', ''not_matches'',
     ''is_empty'', ''is_not_empty'', ''same_as'', ''different_from'']"

definition ALLOWED_PREDICATE_FIELDS :: "string list" where
  "ALLOWED_PREDICATE_FIELDS = [''reviewer.email'', ''reviewer.tag1'', ''reviewer.tag2'', ''reviewer.tag3'',
     ''reviewee.email'', ''reviewee.tag1'', ''reviewee.tag2'', ''reviewee.tag3'',
     ''pair_context.tag1'', ''pair_context.tag2'', ''pair_context.tag3'']"

text \<open>\<open>dotted.split(".", 1)[0]\<close>.\<close>

definition field_side :: "string \<Rightarrow> string" where
  "field_side dotted = takeWhile (\<lambda>c. c \<noteq> CHR ''.'') dotted"

definition is_literal :: "operand \<Rightarrow> bool" where
  "is_literal v = (case v of StrOperand _ \<Rightarrow> True | IntOperand _ \<Rightarrow> True | FloatOperand _ \<Rightarrow> True | _ \<Rightarrow> False)"

text \<open>The model validator; \<open>compiles\<close> says whether \<open>re.compile\<close> takes a pattern.\<close>

definition validate_operand :: "(string \<Rightarrow> bool) \<Rightarrow> predicate \<Rightarrow> unit result" where
  "validate_operand compiles p =
     (let oper = pr_operator p in
      if oper \<in> set NULLARY_OPERATORS then raise_unless (pr_operand p = NoOperand) (ValueError ''takes no operand'')
      else if oper \<in> set COMPARE_OPERATORS then
        (case pr_operand p of
           StrOperand other \<Rightarrow>
             if other \<notin> set ALLOWED_PREDICATE_FIELDS then Inl (ValueError ''not a known predicate field'')
             else raise_unless (field_side (pr_field p) \<noteq> field_side other) (ValueError ''compares across populations'')
         | _ \<Rightarrow> Inl (ValueError ''requires a field-name operand''))
      else if oper \<in> set LIST_OPERATORS then
        (case pr_operand p of
           ListOperand (x # xs) \<Rightarrow> Inr ()
         | _ \<Rightarrow> Inl (ValueError ''requires a non-empty list''))
      else if oper \<in> set REGEX_OPERATORS then
        (case pr_operand p of
           StrOperand pattern \<Rightarrow> raise_unless (compiles pattern) (ValueError ''does not compile'')
         | _ \<Rightarrow> Inl (ValueError ''requires a regex string operand''))
      else raise_unless (is_literal (pr_operand p)) (ValueError ''requires a scalar operand''))"

definition validate_predicate :: "(string \<Rightarrow> bool) \<Rightarrow> predicate \<Rightarrow> unit result" where
  "validate_predicate compiles p =
     (if pr_field p \<notin> set ALLOWED_PREDICATE_FIELDS then Inl (ValueError ''unknown predicate field'')
      else if pr_operator p \<notin> set PREDICATE_OPERATORS then Inl (ValueError ''unknown operator'')
      else validate_operand compiles p)"

section \<open>The checks of a rule\<close>

definition validate_min_max :: "quota \<Rightarrow> unit result" where
  "validate_min_max q =
     (case (q_min q, q_max q) of
        (Some lo, Some hi) \<Rightarrow> raise_unless (lo \<le> hi) (ValueError ''quota min exceeds max'')
      | _ \<Rightarrow> Inr ())"

text \<open>\<open>ge=0\<close> on both bounds, then the model validator.\<close>

definition validate_quota :: "quota \<Rightarrow> unit result" where
  "validate_quota q =
     (if (\<exists>lo \<in> set_option (q_min q). lo < 0) \<or> (\<exists>hi \<in> set_option (q_max q). hi < 0)
      then Inl (ValueError ''greater than or equal to 0'')
      else validate_min_max q)"

definition validate_rule_id :: "rule \<Rightarrow> unit result" where
  "validate_rule_id r = raise_unless (1 \<le> length (rule_id r) \<and> length (rule_id r) \<le> 64) (ValueError ''id'')"

text \<open>All of a list's results, or the first error.\<close>

definition all_results :: "'a result list \<Rightarrow> 'a list result" where
  "all_results rs = foldr (\<lambda>r acc. bindE r (\<lambda>x. bindE acc (\<lambda>xs. Inr (x # xs)))) rs (Inr [])"

fun validate_rule :: "(string \<Rightarrow> bool) \<Rightarrow> rule \<Rightarrow> unit result" where
  "validate_rule compiles (FilterRule i e p) =
     bindE (validate_rule_id (FilterRule i e p)) (\<lambda>_. validate_predicate compiles p)"
| "validate_rule compiles (MatchRule i e p) =
     bindE (validate_rule_id (MatchRule i e p)) (\<lambda>_. validate_predicate compiles p)"
| "validate_rule compiles (QuotaRule i e q) =
     bindE (validate_rule_id (QuotaRule i e q)) (\<lambda>_. validate_quota q)"
| "validate_rule compiles (CompositeRule i e oper rs) =
     bindE (validate_rule_id (CompositeRule i e oper rs)) (\<lambda>_.
       if rs = [] then Inl (ValueError ''at least 1 item'')
       else bindE (all_results (map (validate_rule compiles) rs)) (\<lambda>_. Inr ()))"

section \<open>Rule ids are unique in the whole tree\<close>

text \<open>
  \<open>_validate_unique_rule_ids\<close> walks the tree with a stack: it pops the last rule, and a
  composite's children go on top. The state is the ids seen, the stack, and the id that was
  met twice.
\<close>

type_synonym id_walk = "string set \<times> rule list \<times> string option"

definition children_of :: "rule \<Rightarrow> rule list" where
  "children_of r = (case r of CompositeRule _ _ _ rs \<Rightarrow> rs | _ \<Rightarrow> [])"

definition id_walk_step :: "id_walk \<Rightarrow> id_walk" where
  "id_walk_step w = (case w of (seen, stack, dup) \<Rightarrow>
     let r = last stack; rest = butlast stack in
     if rule_id r \<in> seen then (seen, rest, Some (rule_id r))
     else (insert (rule_id r) seen, rest @ children_of r, None))"

definition id_walk_more :: "id_walk \<Rightarrow> bool" where
  "id_walk_more w = (case w of (seen, stack, dup) \<Rightarrow> stack \<noteq> [] \<and> dup = None)"

definition id_walk_from :: "rule list \<Rightarrow> id_walk option" where
  "id_walk_from rules = while_option id_walk_more id_walk_step ({}, rules, None)"

text \<open>\<open>None\<close>: the loop does not end.\<close>

definition validate_unique_rule_ids :: "rule list \<Rightarrow> unit result option" where
  "validate_unique_rule_ids rules =
     map_option (\<lambda>(seen, stack, dup). case dup of None \<Rightarrow> Inr () | Some i \<Rightarrow> Inl (ValueError i)) (id_walk_from rules)"

text \<open>\<open>rules_payload_error\<close>: what a stored list of rules fails with, \<open>None\<close> when it loads.\<close>

definition rules_payload_error :: "(string \<Rightarrow> bool) \<Rightarrow> rule list \<Rightarrow> error option option" where
  "rules_payload_error compiles rules =
     (case all_results (map (validate_rule compiles) rules) of
        Inl e \<Rightarrow> Some (Some e)
      | Inr _ \<Rightarrow> map_option (\<lambda>r. case r of Inl e \<Rightarrow> Some e | Inr _ \<Rightarrow> None) (validate_unique_rule_ids rules))"

section \<open>Facts\<close>

lemma all_results_simps [simp]:
  "all_results [] = Inr []"
  "all_results (r # rs) = bindE r (\<lambda>x. bindE (all_results rs) (\<lambda>xs. Inr (x # xs)))"
  by (simp_all add: all_results_def)

lemma all_results_Inr: "all_results (map Inr xs) = Inr xs"
  by (induction xs) simp_all

lemma all_results_map_Inr: "(\<And>x. x \<in> set xs \<Longrightarrow> f x = Inr (g x)) \<Longrightarrow> all_results (map f xs) = Inr (map g xs)"
  by (induction xs) simp_all

lemma all_results_ok:
  "(\<exists>ys. all_results rs = Inr ys) \<longleftrightarrow> (\<forall>r \<in> set rs. \<exists>y. r = Inr y)"
  by (induction rs) auto

lemma all_results_Inl: "all_results rs = Inl e \<Longrightarrow> Inl e \<in> set rs"
  by (induction rs) (auto simp: bindE_Inl_iff)

lemma all_results_unit: "all_results (map f xs) = Inr us \<Longrightarrow> x \<in> set xs \<Longrightarrow> f x = Inr ()" for f :: "'a \<Rightarrow> unit result"
  using all_results_ok [of "map f xs"] by auto

text \<open>Every id of a tree, and the size the walk uses up.\<close>

fun rule_ids :: "rule \<Rightarrow> string list" where
  "rule_ids (CompositeRule i e oper rs) = i # concat (map rule_ids rs)"
| "rule_ids r = [rule_id r]"

lemma rule_ids_children: "rule_ids r = rule_id r # concat (map rule_ids (children_of r))"
  by (cases r) (simp_all add: children_of_def)

fun rule_count :: "rule \<Rightarrow> nat" where
  "rule_count (CompositeRule i e oper rs) = Suc (sum_list (map rule_count rs))"
| "rule_count r = 1"

lemma rule_count_children: "rule_count r = Suc (sum_list (map rule_count (children_of r)))"
  by (cases r) (simp_all add: children_of_def)

abbreviation id_walk_left :: "id_walk \<Rightarrow> nat" where
  "id_walk_left w \<equiv> sum_list (map rule_count (fst (snd w)))"

text \<open>What the walk keeps: the ids seen and those still on the stack make up the tree's.\<close>

definition id_walk_inv :: "rule list \<Rightarrow> id_walk \<Rightarrow> bool" where
  "id_walk_inv rules w = (case w of (seen, stack, dup) \<Rightarrow>
     (case dup of
        None \<Rightarrow> (\<exists>ids. distinct ids \<and> set ids = seen
                  \<and> mset (ids @ concat (map rule_ids stack)) = mset (concat (map rule_ids rules)))
      | Some i \<Rightarrow> \<not> distinct (concat (map rule_ids rules)) \<and> i \<in> set (concat (map rule_ids rules))))"

lemma id_walk_left_step:
  assumes "id_walk_more w"
  shows "id_walk_left (id_walk_step w) < id_walk_left w"
proof -
  obtain seen stack where w: "w = (seen, stack, None)" "stack \<noteq> []"
    using assms by (auto simp: id_walk_more_def split: prod.splits)
  then obtain rest r where "stack = rest @ [r]" by (metis rev_exhaust)
  with w show ?thesis by (auto simp: id_walk_step_def Let_def rule_count_children [of r])
qed

lemma id_walk_inv_step:
  assumes "id_walk_inv rules w" "id_walk_more w"
  shows "id_walk_inv rules (id_walk_step w)"
proof -
  obtain seen stack where w: "w = (seen, stack, None)" "stack \<noteq> []"
    using assms(2) by (auto simp: id_walk_more_def split: prod.splits)
  then obtain rest r where stack: "stack = rest @ [r]" by (metis rev_exhaust)
  obtain ids where ids: "distinct ids" "set ids = seen"
    "mset (ids @ concat (map rule_ids stack)) = mset (concat (map rule_ids rules))"
    using assms(1) w by (auto simp: id_walk_inv_def)
  have all: "mset (concat (map rule_ids rules))
      = mset (rule_id r # ids @ concat (map rule_ids rest) @ concat (map rule_ids (children_of r)))"
    using ids(3) by (simp add: stack rule_ids_children [of r] ac_simps)
  show ?thesis
  proof (cases "rule_id r \<in> seen")
    case True
    have "\<not> distinct (concat (map rule_ids rules))"
      using mset_eq_imp_distinct_iff [OF all] True ids(2) by simp
    moreover have "rule_id r \<in> set (concat (map rule_ids rules))"
      using mset_eq_setD [OF all] by simp
    ultimately show ?thesis using True
      by (simp add: id_walk_inv_def id_walk_step_def w stack Let_def del: set_concat)
  next
    case False
    then show ?thesis using ids all
      by (auto simp: id_walk_inv_def id_walk_step_def w stack Let_def intro!: exI [of _ "rule_id r # ids"])
  qed
qed

lemma id_walk_decides:
  "\<exists>r. validate_unique_rule_ids rules = Some r
     \<and> (r = Inr () \<longleftrightarrow> distinct (concat (map rule_ids rules)))
     \<and> (\<forall>e. r = Inl e \<longrightarrow> (\<exists>i \<in> set (concat (map rule_ids rules)). e = ValueError i))"
proof -
  have start: "id_walk_inv rules ({}, rules, None)"
    by (simp add: id_walk_inv_def exI [of _ "[]"])
  obtain w where w: "id_walk_from rules = Some w"
    unfolding id_walk_from_def
    using measure_while_option_Some [where P = "id_walk_inv rules" and b = id_walk_more
        and c = id_walk_step and f = id_walk_left, OF _ start] id_walk_inv_step id_walk_left_step by blast
  have inv: "id_walk_inv rules w"
    using while_option_rule [where P = "id_walk_inv rules", OF _ w [unfolded id_walk_from_def] start]
      id_walk_inv_step by blast
  have ended: "\<not> id_walk_more w" using while_option_stop [OF w [unfolded id_walk_from_def]] .
  obtain seen stack dup where parts: "w = (seen, stack, dup)" by (cases w)
  show ?thesis
  proof (cases dup)
    case None
    with ended parts have "stack = []" by (simp add: id_walk_more_def)
    with inv parts None have "distinct (concat (map rule_ids rules))"
      by (auto simp: id_walk_inv_def dest!: mset_eq_imp_distinct_iff)
    then show ?thesis using w parts None
      by (auto simp: validate_unique_rule_ids_def)
  next
    case (Some i)
    with inv parts w show ?thesis
      by (auto simp: id_walk_inv_def validate_unique_rule_ids_def)
  qed
qed

lemma unique_ids_iff: "validate_unique_rule_ids rules = Some (Inr ()) \<longleftrightarrow> distinct (concat (map rule_ids rules))"
  using id_walk_decides [of rules] by auto

text \<open>
  C33. The search for a repeated rule id ends on every tree of rules, and it refuses exactly
  the trees in which some id occurs twice, at whatever depth, naming one that does occur. So
  the check of a stored payload always answers, and it lets a list of rules load exactly when
  every rule passes its own checks and no id is repeated.
\<close>

theorem payload_check_decides:
  "\<exists>r e. validate_unique_rule_ids rules = Some r
     \<and> (r = Inr () \<longleftrightarrow> distinct (concat (map rule_ids rules)))
     \<and> (\<forall>i. r = Inl (ValueError i) \<longrightarrow> i \<in> set (concat (map rule_ids rules)))
     \<and> rules_payload_error compiles rules = Some e
     \<and> (e = None \<longleftrightarrow> list_all (\<lambda>r. validate_rule compiles r = Inr ()) rules \<and> distinct (concat (map rule_ids rules)))"
proof -
  obtain r where r: "validate_unique_rule_ids rules = Some r" "r = Inr () \<longleftrightarrow> distinct (concat (map rule_ids rules))"
    "\<forall>e. r = Inl e \<longrightarrow> (\<exists>i \<in> set (concat (map rule_ids rules)). e = ValueError i)"
    using id_walk_decides by blast
  have valid: "(\<exists>us. all_results (map (validate_rule compiles) rules) = Inr us) \<longleftrightarrow> list_all (\<lambda>r. validate_rule compiles r = Inr ()) rules"
    using all_results_ok [of "map (validate_rule compiles) rules"] by (simp add: list_all_iff)
  show ?thesis
  proof (cases "all_results (map (validate_rule compiles) rules)")
    case (Inl e)
    then show ?thesis using r valid by (auto simp: rules_payload_error_def)
  next
    case (Inr us)
    then show ?thesis using r valid by (cases r) (auto simp: rules_payload_error_def)
  qed
qed

lemma payload_check_decides_witness:
  "validate_unique_rule_ids [CompositeRule ''c'' True AND_OP [QuotaRule ''c'' True \<lparr>q_scope = PER_REVIEWER, q_min = None,
      q_max = Some 2, q_strategy = ROUND_ROBIN, q_seed = None\<rparr>]] = Some (Inl (ValueError ''c''))"
proof -
  let ?rules = "[CompositeRule ''c'' True AND_OP [QuotaRule ''c'' True \<lparr>q_scope = PER_REVIEWER, q_min = None,
      q_max = Some 2, q_strategy = ROUND_ROBIN, q_seed = None\<rparr>]]"
  obtain r where r: "validate_unique_rule_ids ?rules = Some r" "r \<noteq> Inr ()"
    using payload_check_decides [of ?rules "\<lambda>_. True"] by auto
  then obtain e where "r = Inl e" by (cases r) auto
  then show ?thesis using r id_walk_decides [of ?rules] by auto
qed

end
