(* ===== verification/Store.thy ===== *)
theory Store
  imports Text_Identity Rule_Schema Complex_Main
begin

text \<open>
  The rows the services read and write, as one record of tables: \<open>db\<close> is the committed
  database plus the environment a call meets (the wall clock, the session-row locks other
  transactions hold, the name of the clock pass if one runs). The columns are those of
  \<open>app/db/models\<close> that the modelled services use. \<open>app/services/session_guard.py\<close> (the row
  lock and the gate decided under it) and \<open>audit.write_event\<close> are modelled here.
\<close>

section \<open>Times\<close>

text \<open>
  A datetime is microseconds since the epoch. A naive one (SQLite hands those back) is read
  as UTC: \<open>_as_utc\<close>, \<open>_aware\<close> and \<open>_ensure_aware_utc\<close> are one function.
\<close>

datatype stamp = Aware int | Naive int

fun instant :: "stamp \<Rightarrow> int" where
  "instant (Aware t) = t"
| "instant (Naive t) = t"

definition as_utc :: "stamp option \<Rightarrow> int option" where
  "as_utc v = map_option instant v"

abbreviation minutes :: "int \<Rightarrow> int" where
  "minutes n \<equiv> n * 60000000"

abbreviation hours :: "int \<Rightarrow> int" where
  "hours n \<equiv> n * 3600000000"

abbreviation days :: "int \<Rightarrow> int" where
  "days n \<equiv> n * 86400000000"

lemma as_utc_simps [simp]: "as_utc None = None" "as_utc (Some v) = Some (instant v)"
  by (simp_all add: as_utc_def)

section \<open>JSON values\<close>

text \<open>
  A JSON value of an event's detail or of a JSON column. \<open>JTime\<close> is the text \<open>isoformat\<close> spells, kept as the
  datetime \<open>fromisoformat\<close> reads back; \<open>JStr\<close> is any other text.
\<close>

datatype jval = JNull | JBool bool | JInt int | JStr string | JTime stamp | JInts "int list"

section \<open>Tables\<close>

datatype session_status = Draft | Validated | Ready | Expired | Archived

record review_session =
  s_code :: string
  s_status :: session_status
  s_deadline :: "stamp option"
  s_activated_at :: "stamp option"
  s_scheduled_activate_at :: "stamp option"
  s_responses_release_at :: "stamp option"
  s_responses_release_until :: "stamp option"
  s_invite_offsets :: "string list option"
  s_reminder_offsets :: "string list option"
  s_self_reviews :: bool
  s_name :: string
  s_help_contact :: "string option"
  s_overrides :: "(string \<times> jval) list option"

record instrument =
  i_id :: int
  i_session :: int
  i_order :: int
  i_accepting :: bool
  i_deadline_closed_at :: "stamp option"
  i_starts_new_page :: bool
  i_group_kind :: "string option"
  i_rule_set :: "int option"
  i_self_reviews :: bool

record response_field =
  f_id :: int
  f_instrument :: int
  f_key :: string
  f_label :: string
  f_required :: bool
  f_order :: int
  f_visible :: bool
  f_branch_parent :: "int option"
  f_branch_op :: "string option"
  f_branch_value :: "string option"
  f_branch_mode :: "string option"
  f_data_type :: "string option"
  f_min :: "rat option"
  f_max :: "rat option"
  f_step :: "rat option"
  f_list_csv :: "string option"

record reviewer =
  rr_id :: int
  rr_session :: int
  rr_name :: string
  rr_email :: string
  rr_status :: string
  rr_tag1 :: "string option"
  rr_tag2 :: "string option"
  rr_tag3 :: "string option"
  rr_object_id :: "string option"
  rr_directory_mail :: "string option"

record reviewee =
  re_id :: int
  re_session :: int
  re_name :: string
  re_identifier :: string
  re_status :: string
  re_tag1 :: "string option"
  re_tag2 :: "string option"
  re_tag3 :: "string option"
  re_object_id :: "string option"

record relationship =
  rel_session :: int
  rel_reviewer :: int
  rel_reviewee :: int
  rel_status :: string
  rel_tag1 :: "string option"
  rel_tag2 :: "string option"
  rel_tag3 :: "string option"

record assignment =
  a_id :: int
  a_session :: int
  a_reviewer :: int
  a_reviewee :: int
  a_instrument :: int
  a_include :: bool
  a_self_review :: bool

record response =
  r_assignment :: int
  r_field :: int
  r_value :: "string option"
  r_saved_at :: stamp
  r_submitted_at :: "stamp option"
  r_version :: int

record view_policy =
  p_id :: int
  p_instrument :: int
  p_audience :: string
  p_ongoing_granularity :: "string option"
  p_ongoing_identification :: "string option"
  p_release_granularity :: "string option"
  p_release_identification :: "string option"
  p_reviewer_identity :: "string option"

text \<open>A session's rule set; \<open>rules_json\<close> is the list of rules it spells, checked or not.\<close>

record session_rule_set =
  sr_id :: int
  sr_session :: int
  sr_combinator :: string
  sr_exclude_self :: bool
  sr_seed :: "int option"
  sr_rules :: "rule list"

record invitation =
  inv_id :: int
  inv_session :: int
  inv_reviewer :: int
  inv_token_hash :: string
  inv_status :: string
  inv_sent_at :: "stamp option"
  inv_opened_at :: "stamp option"
  inv_last_reminder_at :: "stamp option"

record outbox_row =
  ob_id :: int
  ob_session :: int
  ob_reviewer :: "int option"
  ob_invitation :: "int option"
  ob_kind :: string
  ob_to_email :: string
  ob_cc_emails :: "string option"
  ob_bcc_emails :: "string option"
  ob_subject :: string
  ob_body :: string
  ob_status :: string
  ob_created_at :: stamp
  ob_sent_at :: "stamp option"
  ob_error :: "string option"
  ob_backend :: "string option"
  ob_from_address :: "string option"
  ob_correlation :: "string option"

section \<open>The audit log\<close>

datatype payload =
    NoPayload
  | Counts "(string \<times> int) list"
  | Changes "(string \<times> jval \<times> jval) list"
  | Snapshot "(string \<times> jval) list"
  | SetChanges "(string \<times> int) list list" "(string \<times> int) list list"

record audit_event =
  ev_type :: string
  ev_session :: "int option"
  ev_actor :: "int option"
  ev_payload :: payload
  ev_reason :: "string option"
  ev_refs :: "(string \<times> int) list"
  ev_context :: "(string \<times> jval) list"
  ev_created_at :: stamp

section \<open>The database and its environment\<close>

datatype row_lock = Unlocked | SharedLock | ExclusiveLock

record db =
  sessions :: "int \<Rightarrow> review_session option"
  instruments :: "instrument list"
  fields_tbl :: "response_field list"
  reviewers :: "reviewer list"
  reviewees :: "reviewee list"
  relationships :: "relationship list"
  assignments :: "assignment list"
  responses :: "response list"
  policies :: "view_policy list"
  rule_sets :: "session_rule_set list"
  invitations :: "invitation list"
  outbox :: "outbox_row list"
  audit_log :: "audit_event list"
  wall :: int
  postgres :: bool
  held :: "int \<Rightarrow> row_lock"
  fired_by :: "string option"

text \<open>\<open>now or datetime.now(UTC)\<close>.\<close>

definition now_or :: "int option \<Rightarrow> db \<Rightarrow> int" where
  "now_or now d = (case now of Some n \<Rightarrow> n | None \<Rightarrow> wall d)"

definition upd_session :: "int \<Rightarrow> (review_session \<Rightarrow> review_session) \<Rightarrow> db \<Rightarrow> db" where
  "upd_session sid f d = d\<lparr>sessions := (sessions d)(sid := map_option f (sessions d sid))\<rparr>"

definition upd_instruments :: "int \<Rightarrow> (instrument \<Rightarrow> instrument) \<Rightarrow> db \<Rightarrow> db" where
  "upd_instruments sid f d =
     d\<lparr>instruments := map (\<lambda>i. if i_session i = sid then f i else i) (instruments d)\<rparr>"

definition session_instruments :: "db \<Rightarrow> int \<Rightarrow> instrument list" where
  "session_instruments d sid = filter (\<lambda>i. i_session i = sid) (instruments d)"

text \<open>
  \<open>_with_fired_by\<close>: inside the clock's pass every event whose schema allows a context carries
  \<open>fired_by\<close>. \<open>EVENT_SCHEMAS\<close> allows \<open>context\<close> for these of the modelled event types.
\<close>

definition context_allowed :: "string list" where
  "context_allowed =
     [''session.activated'', ''session.expired'', ''session.deadline_reached'',
      ''session.scheduled_activation_skipped'', ''session.scheduled_activation_retry'',
      ''session.scheduled_activation_failed_persistent'', ''session.scheduled_event_failed'',
      ''session.release_window_opened'', ''session.release_window_ended'',
      ''session.scheduled_invites_skipped'', ''session.scheduled_invites_fired'',
      ''session.scheduled_invites_handled'', ''session.scheduled_reminders_skipped'',
      ''session.scheduled_reminders_fired'', ''session.scheduled_reminders_handled'',
      ''invitation.sent'', ''reminders.sent'', ''responses_received.queued'',
      ''email.sent'', ''email.send_failed'', ''instrument.closed'']"

definition with_fired_by ::
  "db \<Rightarrow> string \<Rightarrow> (string \<times> jval) list \<Rightarrow> (string \<times> jval) list" where
  "with_fired_by d ty ctx = (case fired_by d of
       None \<Rightarrow> ctx
     | Some src \<Rightarrow> if ty \<in> set context_allowed then dict_put ''fired_by'' (JStr src) ctx else ctx)"

definition write_event ::
  "string \<Rightarrow> int option \<Rightarrow> int option \<Rightarrow> payload \<Rightarrow> string option \<Rightarrow> (string \<times> int) list
     \<Rightarrow> (string \<times> jval) list \<Rightarrow> db \<Rightarrow> db" where
  "write_event ty actor sid pl reason refs ctx d =
     d\<lparr>audit_log := audit_log d @
        [\<lparr>ev_type = ty, ev_session = sid, ev_actor = actor, ev_payload = pl, ev_reason = reason,
          ev_refs = refs, ev_context = with_fired_by d ty ctx, ev_created_at = Aware (wall d)\<rparr>]\<rparr>"

section \<open>The session-row lock and its gate\<close>

text \<open>
  \<open>lock_session\<close>: on Postgres a lock another transaction holds past \<open>LOCK_TIMEOUT_MS\<close> raises
  \<open>SessionBusy\<close>; two shared lockers do not wait on each other; SQLite never waits. The row
  read is the committed one, and \<open>scalar_one\<close> raises when there is none.
\<close>

definition lock_conflicts :: "row_lock \<Rightarrow> bool \<Rightarrow> bool" where
  "lock_conflicts h shared = (case h of
      Unlocked \<Rightarrow> False | SharedLock \<Rightarrow> \<not> shared | ExclusiveLock \<Rightarrow> True)"

definition lock_session :: "db \<Rightarrow> int \<Rightarrow> bool \<Rightarrow> review_session result" where
  "lock_session d sid shared =
     (if postgres d \<and> lock_conflicts (held d sid) shared then Inl SessionBusy
      else (case sessions d sid of None \<Rightarrow> Inl NoResultFound | Some s \<Rightarrow> Inr s))"

definition require_state ::
  "db \<Rightarrow> int \<Rightarrow> (review_session \<Rightarrow> bool) \<Rightarrow> string \<Rightarrow> bool \<Rightarrow> review_session result" where
  "require_state d sid allowed code shared =
     bindE (lock_session d sid shared) (\<lambda>locked.
       if \<not> allowed locked then Inl (SessionStateConflict code) else Inr locked)"

lemma lock_session_Inr:
  "lock_session d sid sh = Inr s \<Longrightarrow> sessions d sid = Some s"
  by (auto simp: lock_session_def split: if_splits option.splits)

lemma lock_session_free:
  "sessions d sid = Some s \<Longrightarrow> held d sid = Unlocked \<Longrightarrow> lock_session d sid sh = Inr s"
  by (simp add: lock_session_def lock_conflicts_def)

lemma require_state_Inr:
  "require_state d sid ok c sh = Inr s \<longleftrightarrow> lock_session d sid sh = Inr s \<and> ok s"
  by (auto simp: require_state_def)

section \<open>Frame facts\<close>

lemma upd_session_simps [simp]:
  "sessions (upd_session sid f d) = (sessions d)(sid := map_option f (sessions d sid))"
  "instruments (upd_session sid f d) = instruments d"
  "fields_tbl (upd_session sid f d) = fields_tbl d"
  "reviewers (upd_session sid f d) = reviewers d"
  "reviewees (upd_session sid f d) = reviewees d"
  "relationships (upd_session sid f d) = relationships d"
  "assignments (upd_session sid f d) = assignments d"
  "responses (upd_session sid f d) = responses d"
  "policies (upd_session sid f d) = policies d"
  "rule_sets (upd_session sid f d) = rule_sets d"
  "invitations (upd_session sid f d) = invitations d"
  "outbox (upd_session sid f d) = outbox d"
  "audit_log (upd_session sid f d) = audit_log d"
  "wall (upd_session sid f d) = wall d"
  "postgres (upd_session sid f d) = postgres d"
  "held (upd_session sid f d) = held d"
  "fired_by (upd_session sid f d) = fired_by d"
  by (simp_all add: upd_session_def)

lemma upd_instruments_simps [simp]:
  "sessions (upd_instruments sid f d) = sessions d"
  "instruments (upd_instruments sid f d) =
     map (\<lambda>i. if i_session i = sid then f i else i) (instruments d)"
  "fields_tbl (upd_instruments sid f d) = fields_tbl d"
  "reviewers (upd_instruments sid f d) = reviewers d"
  "reviewees (upd_instruments sid f d) = reviewees d"
  "relationships (upd_instruments sid f d) = relationships d"
  "assignments (upd_instruments sid f d) = assignments d"
  "responses (upd_instruments sid f d) = responses d"
  "policies (upd_instruments sid f d) = policies d"
  "rule_sets (upd_instruments sid f d) = rule_sets d"
  "invitations (upd_instruments sid f d) = invitations d"
  "outbox (upd_instruments sid f d) = outbox d"
  "audit_log (upd_instruments sid f d) = audit_log d"
  "wall (upd_instruments sid f d) = wall d"
  "postgres (upd_instruments sid f d) = postgres d"
  "held (upd_instruments sid f d) = held d"
  "fired_by (upd_instruments sid f d) = fired_by d"
  by (simp_all add: upd_instruments_def)

lemma write_event_simps [simp]:
  "sessions (write_event ty a s pl rs rf cx d) = sessions d"
  "instruments (write_event ty a s pl rs rf cx d) = instruments d"
  "fields_tbl (write_event ty a s pl rs rf cx d) = fields_tbl d"
  "reviewers (write_event ty a s pl rs rf cx d) = reviewers d"
  "reviewees (write_event ty a s pl rs rf cx d) = reviewees d"
  "relationships (write_event ty a s pl rs rf cx d) = relationships d"
  "assignments (write_event ty a s pl rs rf cx d) = assignments d"
  "responses (write_event ty a s pl rs rf cx d) = responses d"
  "policies (write_event ty a s pl rs rf cx d) = policies d"
  "rule_sets (write_event ty a s pl rs rf cx d) = rule_sets d"
  "invitations (write_event ty a s pl rs rf cx d) = invitations d"
  "outbox (write_event ty a s pl rs rf cx d) = outbox d"
  "wall (write_event ty a s pl rs rf cx d) = wall d"
  "postgres (write_event ty a s pl rs rf cx d) = postgres d"
  "held (write_event ty a s pl rs rf cx d) = held d"
  "fired_by (write_event ty a s pl rs rf cx d) = fired_by d"
  by (simp_all add: write_event_def)

lemma map_ev_type_write_event [simp]:
  "map ev_type (audit_log (write_event ty a s pl rs rf cx d)) = map ev_type (audit_log d) @ [ty]"
  by (simp add: write_event_def)

lemma audit_log_write_event:
  "\<exists>e. audit_log (write_event ty a s pl rs rf cx d) = audit_log d @ [e] \<and> ev_type e = ty
      \<and> ev_session e = s \<and> ev_actor e = a \<and> ev_reason e = rs \<and> ev_payload e = pl"
  by (simp add: write_event_def)

section \<open>An empty database\<close>

definition blank_db :: db where
  "blank_db = \<lparr>sessions = Map.empty, instruments = [], fields_tbl = [], reviewers = [],
     reviewees = [], relationships = [], assignments = [], responses = [], policies = [], rule_sets = [],
     invitations = [], outbox = [], audit_log = [], wall = 0, postgres = True, held = (\<lambda>_. Unlocked), fired_by = None\<rparr>"

end
