(* ===== verification/Branching.thy ===== *)
theory Branching
  imports Py_Number Store
begin

text \<open>
  Branching between an instrument's response fields: \<open>app/services/responses/_branching.py\<close>
  (conditions, which fields apply, which are required, the structure rules) and
  \<open>app/services/responses/_branch_rule.py\<close> (a closed branch holds no value). A field's
  \<open>by_id\<close> dictionary is a map from ids to fields; an answer mapping read with \<open>.get\<close> is a
  function to \<open>string option\<close>.
\<close>

section \<open>Conditions\<close>

definition NUMERIC_OPS :: "string list" where
  "NUMERIC_OPS = [''eq'', ''ne'', ''gt'', ''ge'', ''lt'', ''le'']"

definition LIST_OPS :: "string list" where
  "LIST_OPS = [''is'', ''is_not'']"

definition RANGE_OPS :: "string list" where
  "RANGE_OPS = [''in_inc'', ''in_exc'', ''out_inc'', ''out_exc'']"

definition RANGE_SEPARATOR :: string where
  "RANGE_SEPARATOR = '' to ''"

definition BRANCH_MODE_SHOW :: string where "BRANCH_MODE_SHOW = ''show''"
definition BRANCH_MODE_REQUIRE :: string where "BRANCH_MODE_REQUIRE = ''require''"

definition MAX_BRANCH_DEPTH :: nat where "MAX_BRANCH_DEPTH = 2"

definition PARENT_DATA_TYPES :: "string list" where
  "PARENT_DATA_TYPES = [''Integer'', ''Decimal'', ''List'']"

text \<open>\<open>text.split(sep)\<close> for a separator of any length: leftmost, not overlapping.\<close>

fun split_str :: "string \<Rightarrow> string \<Rightarrow> string list" where
  "split_str sep [] = [[]]"
| "split_str sep (c # cs) =
     (if sep \<noteq> [] \<and> take (length sep) (c # cs) = sep
      then [] # split_str sep (drop (length sep - 1) cs)
      else (case split_str sep cs of [] \<Rightarrow> [[c]] | p # ps \<Rightarrow> (c # p) # ps))"

text \<open>The reasons a condition or a branch is refused, one per message of the source.\<close>

datatype branch_fault =
    StringParent | ListOpNeeded | NoOptionChosen | MissingOptions "string list"
  | ChooseComparison | NeedsNumber | NeedsRange | LowNeedsNumber | HighNeedsNumber | LowNotBelowHigh
  | ParentMissing | BranchLoop | BranchTooDeep | NeedsAnchor | GovernsNothing | NotContiguous

definition list_items :: "string option \<Rightarrow> string list" where
  "list_items text = csv_items (or_empty text)"

definition parse_range :: "string option \<Rightarrow> (rat \<times> rat) option" where
  "parse_range text =
     (case split_str RANGE_SEPARATOR (or_empty text) of
        [a, b] \<Rightarrow> (case (finite_number (Some a), finite_number (Some b)) of
                     (Some low, Some high) \<Rightarrow> if low < high then Some (low, high) else None
                   | _ \<Rightarrow> None)
      | _ \<Rightarrow> None)"

text \<open>\<open>value.strip() or None\<close>.\<close>

definition strip_or_none :: "string \<Rightarrow> string option" where
  "strip_or_none v = (let s = py_strip v in if s = [] then None else Some s)"

definition canonical_condition_value :: "string option \<Rightarrow> string option \<Rightarrow> string option" where
  "canonical_condition_value op value = (case value of
       None \<Rightarrow> None
     | Some v \<Rightarrow>
        (case (op, split_str RANGE_SEPARATOR v) of
           (Some t, [a, b]) \<Rightarrow>
             if t \<in> set RANGE_OPS then Some (py_strip a @ RANGE_SEPARATOR @ py_strip b)
             else strip_or_none v
         | _ \<Rightarrow> strip_or_none v))"

text \<open>\<open>text.endswith(t)\<close> and \<open>text.startswith(t)\<close>.\<close>

definition ends_with :: "string \<Rightarrow> string \<Rightarrow> bool" where
  "ends_with s t = (length t \<le> length s \<and> drop (length s - length t) s = t)"

definition starts_with :: "string \<Rightarrow> string \<Rightarrow> bool" where
  "starts_with s t = (take (length t) s = t)"

text \<open>The ends \<open>range_error\<close> judges: Save strips the joined value, so one part may be missing.\<close>

definition range_parts :: "string option \<Rightarrow> string list" where
  "range_parts value =
     (let parts = split_str RANGE_SEPARATOR (or_empty value) in
      case parts of
        [p] \<Rightarrow>
          (let text = py_strip p in
           if text = ''to'' \<or> ends_with text '' to'' then [take (length text - 2) text, []]
           else if starts_with text ''to '' then [[], drop 2 text]
           else parts)
      | _ \<Rightarrow> parts)"

definition range_error :: "string option \<Rightarrow> branch_fault option" where
  "range_error value =
     (case range_parts value of
        [a, b] \<Rightarrow>
          (case finite_number (Some a) of None \<Rightarrow> Some LowNeedsNumber
           | Some low \<Rightarrow>
              (case finite_number (Some b) of None \<Rightarrow> Some HighNeedsNumber
               | Some high \<Rightarrow> if \<not> low < high then Some LowNotBelowHigh else None))
      | _ \<Rightarrow> Some NeedsRange)"

definition condition_error ::
  "string option \<Rightarrow> string option \<Rightarrow> string option \<Rightarrow> string option \<Rightarrow> branch_fault option" where
  "condition_error data_type list_csv op value =
     (case data_type of None \<Rightarrow> Some StringParent
      | Some dt \<Rightarrow>
        if dt \<notin> set PARENT_DATA_TYPES then Some StringParent
        else if dt = ''List'' then
          (if op \<notin> Some ` set LIST_OPS then Some ListOpNeeded
           else (let chosen = list_items value in
             if chosen = [] then Some NoOptionChosen
             else (let missing = filter (\<lambda>x. x \<notin> set (list_items list_csv)) chosen in
               if missing \<noteq> [] then Some (MissingOptions missing) else None)))
        else if op \<in> Some ` set RANGE_OPS then range_error value
        else if op \<notin> Some ` set NUMERIC_OPS then Some ChooseComparison
        else if finite_number value = None then Some NeedsNumber
        else None)"

section \<open>Open branches\<close>

definition branch_mode :: "response_field option \<Rightarrow> string" where
  "branch_mode parent =
     (if (case parent of None \<Rightarrow> None | Some p \<Rightarrow> f_branch_mode p) = Some BRANCH_MODE_REQUIRE
      then BRANCH_MODE_REQUIRE else BRANCH_MODE_SHOW)"

definition compare_range :: "string \<Rightarrow> rat \<Rightarrow> rat \<Rightarrow> rat \<Rightarrow> bool" where
  "compare_range op low x high =
     (if op = ''in_inc'' then low \<le> x \<and> x \<le> high
      else if op = ''in_exc'' then low < x \<and> x < high
      else if op = ''out_inc'' then x \<le> low \<or> high \<le> x
      else x < low \<or> high < x)"

definition compare_number :: "string \<Rightarrow> rat \<Rightarrow> rat \<Rightarrow> bool" where
  "compare_number op left right =
     (if op = ''eq'' then left = right
      else if op = ''ne'' then left \<noteq> right
      else if op = ''gt'' then right < left
      else if op = ''ge'' then right \<le> left
      else if op = ''lt'' then left < right
      else if op = ''le'' then left \<le> right
      else False)"

definition branch_is_open :: "response_field \<Rightarrow> string option \<Rightarrow> bool" where
  "branch_is_open parent answer =
     (let op = or_empty (f_branch_op parent); value = f_branch_value parent in
      if op = [] \<or> py_strip (or_empty answer) = [] then False
      else if op \<in> set LIST_OPS then
        (let chosen = py_strip (or_empty answer) \<in> set (list_items value) in
         if op = ''is'' then chosen else \<not> chosen)
      else if op \<in> set RANGE_OPS then
        (case (finite_number answer, parse_range value) of
           (Some x, Some (low, high)) \<Rightarrow> compare_range op low x high
         | _ \<Rightarrow> False)
      else (case (finite_number answer, finite_number value) of
           (Some left, Some right) \<Rightarrow> compare_number op left right
         | _ \<Rightarrow> False))"

text \<open>\<open>{field.id: field for field in field_list}\<close>: a later field takes a repeated id.\<close>

definition by_id :: "response_field list \<Rightarrow> int \<Rightarrow> response_field option" where
  "by_id fs = map_of (rev (map (\<lambda>f. (f_id f, f)) fs))"

definition parent_of :: "response_field list \<Rightarrow> response_field \<Rightarrow> response_field option" where
  "parent_of fs f = (case f_branch_parent f of None \<Rightarrow> None | Some p \<Rightarrow> by_id fs p)"

lemma by_id_Some: "by_id fs k = Some f \<Longrightarrow> f \<in> set fs \<and> f_id f = k"
  unfolding by_id_def by (auto dest: map_of_SomeD)

lemma by_id_self:
  assumes "distinct (map f_id fs)" "f \<in> set fs"
  shows "by_id fs (f_id f) = Some f"
proof -
  have "distinct (map fst (rev (map (\<lambda>f. (f_id f, f)) fs)))"
    using assms(1) by (simp add: rev_map [symmetric] comp_def)
  moreover have "(f_id f, f) \<in> set (rev (map (\<lambda>f. (f_id f, f)) fs))" using assms(2) by auto
  ultimately show ?thesis unfolding by_id_def by (rule map_of_is_SomeI)
qed

section \<open>The walk up a field's parents\<close>

text \<open>
  The loop of \<open>branch_depth\<close>: the ids seen so far are a finite set that grows inside the ids
  of the fields, so the walk ends; meeting an id again is \<open>None\<close>.
\<close>

function depth_loop ::
  "response_field list \<Rightarrow> int set \<Rightarrow> nat \<Rightarrow> int option \<Rightarrow> nat option" where
  "depth_loop fs seen depth None = Some depth"
| "depth_loop fs seen depth (Some p) =
     (if p \<in> seen then None
      else (case by_id fs p of
              None \<Rightarrow> Some (depth + 1)
            | Some parent \<Rightarrow> depth_loop fs (insert p seen) (depth + 1) (f_branch_parent parent)))"
  by pat_completeness auto
termination
proof (relation "measure (\<lambda>(fs, seen, _, _). card (f_id ` set fs - seen))", simp)
  fix fs seen and depth :: nat and p parent
  assume "p \<notin> seen" "by_id fs p = Some parent"
  then have "f_id ` set fs - insert p seen \<subset> f_id ` set fs - seen" by (auto dest: by_id_Some)
  then show "((fs, insert p seen, depth + 1, f_branch_parent parent), fs, seen, depth, Some p)
      \<in> measure (\<lambda>(fs, seen, _, _). card (f_id ` set fs - seen))"
    by (simp add: psubset_card_mono)
qed

definition branch_depth :: "response_field list \<Rightarrow> response_field \<Rightarrow> nat option" where
  "branch_depth fs f = depth_loop fs {f_id f} 0 (f_branch_parent f)"

text \<open>
  The inner \<open>applies\<close> of \<open>applicable_field_ids\<close>, its \<open>memo\<close> dictionary threaded through.
\<close>

type_synonym memo = "int \<Rightarrow> bool option"

text \<open>A parent lets its governed fields be answered: require mode, or the branch is open.\<close>

definition lets_through :: "response_field \<Rightarrow> (int \<Rightarrow> string option) \<Rightarrow> bool" where
  "lets_through parent ans =
     (branch_mode (Some parent) = BRANCH_MODE_REQUIRE \<or> branch_is_open parent (ans (f_id parent)))"

function applies ::
  "response_field list \<Rightarrow> (int \<Rightarrow> string option) \<Rightarrow> memo \<Rightarrow> int set \<Rightarrow> response_field \<Rightarrow> bool \<times> memo" where
  "applies fs ans memo seen f =
     (case memo (f_id f) of
        Some b \<Rightarrow> (b, memo)
      | None \<Rightarrow>
         (case f_branch_parent f of
            None \<Rightarrow> (True, memo(f_id f \<mapsto> True))
          | Some p \<Rightarrow>
             (case by_id fs p of
                None \<Rightarrow> (False, memo(f_id f \<mapsto> False))
              | Some parent \<Rightarrow>
                 if f_id parent \<in> seen then (False, memo(f_id f \<mapsto> False))
                 else (let (up, memo') = applies fs ans memo (insert (f_id f) seen) parent;
                           r = (up \<and> lets_through parent ans)
                       in (r, memo'(f_id f \<mapsto> r))))))"
  by pat_completeness auto
termination
proof (relation "measure (\<lambda>(fs, _, _, seen, f). 2 * card (f_id ` set fs - seen)
         + (if f_id f \<in> seen then 1 else 0) + (if f_id f \<in> f_id ` set fs then 0 else 2))", simp)
  fix fs :: "response_field list" and ans :: "int \<Rightarrow> string option" and memo :: memo
    and seen :: "int set" and f parent :: response_field and p
  assume par: "by_id fs p = Some parent" and new: "f_id parent \<notin> seen"
  let ?I = "f_id ` set fs"
  have in_I: "f_id parent \<in> ?I" using par by (auto dest: by_id_Some)
  have mono: "card (?I - insert (f_id f) seen) \<le> card (?I - seen)"
    by (rule card_mono) auto
  have strict: "card (?I - insert (f_id f) seen) < card (?I - seen)"
    if "f_id f \<in> ?I" "f_id f \<notin> seen"
    by (rule psubset_card_mono) (use that in auto)
  show "((fs, ans, memo, insert (f_id f) seen, parent), fs, ans, memo, seen, f)
      \<in> measure (\<lambda>(fs, _, _, seen, f). 2 * card (f_id ` set fs - seen)
         + (if f_id f \<in> seen then 1 else 0) + (if f_id f \<in> f_id ` set fs then 0 else 2))"
    unfolding in_measure prod.case using in_I new mono strict
    by (cases "f_id f \<in> seen"; cases "f_id f \<in> ?I") (simp_all add: insert_absorb)
qed

declare applies.simps [simp del]

text \<open>\<open>{field.id for field in field_list if applies(field, frozenset())}\<close>.\<close>

fun applicable_loop ::
  "response_field list \<Rightarrow> (int \<Rightarrow> string option) \<Rightarrow> memo \<Rightarrow> response_field list \<Rightarrow> int set" where
  "applicable_loop fs ans memo [] = {}"
| "applicable_loop fs ans memo (f # rest) =
     (let (b, memo') = applies fs ans memo {} f
      in (if b then {f_id f} else {}) \<union> applicable_loop fs ans memo' rest)"

definition applicable_field_ids :: "response_field list \<Rightarrow> (int \<Rightarrow> string option) \<Rightarrow> int set" where
  "applicable_field_ids fs ans = applicable_loop fs ans Map.empty fs"

definition required_field_ids :: "response_field list \<Rightarrow> (int \<Rightarrow> string option) \<Rightarrow> int set" where
  "required_field_ids fs ans =
     (let applicable = applicable_field_ids fs ans in
      f_id ` set (filter (\<lambda>f. f_id f \<in> applicable \<and>
        (case parent_of fs f of
           Some parent \<Rightarrow>
             if branch_mode (Some parent) = BRANCH_MODE_REQUIRE
             then f_visible f \<and> branch_is_open parent (ans (f_id parent)) else f_required f
         | None \<Rightarrow> f_required f)) fs))"

definition may_be_required_field_ids :: "response_field list \<Rightarrow> int set" where
  "may_be_required_field_ids fs =
     f_id ` set (filter (\<lambda>f.
       (case parent_of fs f of
          Some parent \<Rightarrow>
            if branch_mode (Some parent) = BRANCH_MODE_REQUIRE then f_visible f else f_required f
        | None \<Rightarrow> f_required f)) fs)"

section \<open>Hidden parents\<close>

text \<open>
  \<open>hide_below_hidden_parents\<close> writes \<open>visible\<close> on the very objects its walk reads, so the list
  is threaded through the loop. \<open>hide_walk\<close> is the inner loop: whether a hidden field is met.
\<close>

function hide_walk :: "response_field list \<Rightarrow> int set \<Rightarrow> int option \<Rightarrow> bool" where
  "hide_walk fs seen None = False"
| "hide_walk fs seen (Some p) =
     (case by_id fs p of
        None \<Rightarrow> False
      | Some parent \<Rightarrow>
         if f_id parent \<in> seen then False
         else if \<not> f_visible parent then True
         else hide_walk fs (insert (f_id parent) seen) (f_branch_parent parent))"
  by pat_completeness auto
termination
proof (relation "measure (\<lambda>(fs, seen, _). card (f_id ` set fs - seen))", simp)
  fix fs seen p parent
  assume "by_id fs p = Some parent" "f_id parent \<notin> seen"
  then have "f_id ` set fs - insert (f_id parent) seen \<subset> f_id ` set fs - seen"
    by (auto dest: by_id_Some)
  then show "((fs, insert (f_id parent) seen, f_branch_parent parent), fs, seen, Some p)
      \<in> measure (\<lambda>(fs, seen, _). card (f_id ` set fs - seen))"
    by (simp add: psubset_card_mono)
qed

definition hide_field :: "int \<Rightarrow> response_field \<Rightarrow> response_field" where
  "hide_field k g = (if f_id g = k then g\<lparr>f_visible := False\<rparr> else g)"

definition hide_step :: "response_field list \<Rightarrow> response_field \<Rightarrow> response_field list" where
  "hide_step fs f =
     (if hide_walk fs {f_id f} (f_branch_parent f) then map (hide_field (f_id f)) fs else fs)"

definition hide_below_hidden_parents :: "response_field list \<Rightarrow> response_field list" where
  "hide_below_hidden_parents fs = foldl hide_step fs fs"

section \<open>The structure rules\<close>

text \<open>
  The first loop of \<open>branch_structure_errors\<close>: what one governed field contributes. A field
  with a missing parent is skipped by \<open>continue\<close> and so governs nothing.
\<close>

definition governed_fault :: "response_field list \<Rightarrow> response_field \<Rightarrow> branch_fault option" where
  "governed_fault fs f =
     (case f_branch_parent f of None \<Rightarrow> None
      | Some p \<Rightarrow>
         (case by_id fs p of None \<Rightarrow> Some ParentMissing
          | Some parent \<Rightarrow>
             (case branch_depth fs f of None \<Rightarrow> Some BranchLoop
              | Some depth \<Rightarrow> if MAX_BRANCH_DEPTH < depth then Some BranchTooDeep else None)))"

text \<open>\<open>governed_by_parent.get(parent_id, [])\<close>; a key is present when the list is not empty.\<close>

definition governed_by_parent :: "response_field list \<Rightarrow> int \<Rightarrow> response_field list" where
  "governed_by_parent fs k = (if by_id fs k = None then []
      else filter (\<lambda>f. f_branch_parent f = Some k) fs)"

definition has_anchor :: "response_field list \<Rightarrow> bool" where
  "has_anchor fs = list_ex (\<lambda>f. f_required f \<and> f_visible f \<and> f_branch_parent f = None) fs"

definition anchor_fault :: "response_field list \<Rightarrow> response_field \<Rightarrow> branch_fault option" where
  "anchor_fault fs f =
     (if \<not> has_anchor fs \<and> f_branch_parent f \<noteq> None \<and> f_id f \<in> may_be_required_field_ids fs
         \<and> f_visible f then Some NeedsAnchor else None)"

definition condition_fault :: "response_field list \<Rightarrow> response_field \<Rightarrow> branch_fault option" where
  "condition_fault fs f =
     (let has_condition = (or_empty (f_branch_op f) \<noteq> [] \<or> or_empty (f_branch_value f) \<noteq> []
                           \<or> or_empty (f_branch_mode f) \<noteq> []) in
      if governed_by_parent fs (f_id f) \<noteq> []
      then condition_error (f_data_type f) (f_list_csv f) (f_branch_op f) (f_branch_value f)
      else if has_condition then Some GovernsNothing else None)"

text \<open>
  \<open>descendants\<close>: the loop with an explicit stack, popped at its end. Each pop either leaves a
  shorter stack or puts a new id in \<open>out\<close>.
\<close>

definition push_child :: "int \<Rightarrow> int set \<times> int list \<Rightarrow> response_field \<Rightarrow> int set \<times> int list" where
  "push_child parent_id st child = (case st of (out, stack) \<Rightarrow>
     if f_id child \<noteq> parent_id \<and> f_id child \<notin> out
     then (insert (f_id child) out, stack @ [f_id child]) else (out, stack))"

lemma push_child_simps:
  "f_id c \<noteq> pid \<Longrightarrow> f_id c \<notin> out
     \<Longrightarrow> push_child pid (out, stack) c = (insert (f_id c) out, stack @ [f_id c])"
  "f_id c = pid \<or> f_id c \<in> out \<Longrightarrow> push_child pid (out, stack) c = (out, stack)"
  by (auto simp: push_child_def)

lemma push_children_cases:
  assumes "foldl (push_child pid) (out, stack) cs = (out', stack')"
  shows "out \<subseteq> out' \<and> out' \<subseteq> out \<union> f_id ` set cs \<and> (out' = out \<longrightarrow> stack' = stack)"
  using assms
proof (induction cs arbitrary: out stack)
  case Nil
  then show ?case by simp
next
  case (Cons c cs)
  show ?case
  proof (cases "f_id c \<noteq> pid \<and> f_id c \<notin> out")
    case True
    then have "foldl (push_child pid) (insert (f_id c) out, stack @ [f_id c]) cs = (out', stack')"
      using Cons.prems by (simp add: push_child_simps)
    from Cons.IH [OF this] True show ?thesis by auto
  next
    case False
    then have "foldl (push_child pid) (out, stack) cs = (out', stack')"
      using Cons.prems by (simp add: push_child_simps)
    from Cons.IH [OF this] show ?thesis by auto
  qed
qed

function descend :: "response_field list \<Rightarrow> int \<Rightarrow> int set \<Rightarrow> int list \<Rightarrow> int set" where
  "descend fs pid out stack =
     (if stack = [] then out
      else (let (out', stack') = foldl (push_child pid) (out, butlast stack)
                                   (governed_by_parent fs (last stack))
            in descend fs pid out' stack'))"
  by pat_completeness auto
termination
proof (relation "measures [\<lambda>(fs, _, out, _). card (f_id ` set fs - out), \<lambda>(_, _, _, stack). length stack]", simp)
  fix fs pid out and stack :: "int list" and z out' stack'
  assume ne: "stack \<noteq> []"
    and z: "z = foldl (push_child pid) (out, butlast stack) (governed_by_parent fs (last stack))"
    and st: "(out', stack') = z"
  have *: "out \<subseteq> out' \<and> out' \<subseteq> out \<union> f_id ` set fs \<and> (out' = out \<longrightarrow> stack' = butlast stack)"
    using push_children_cases [OF st [unfolded z, symmetric]]
    by (auto simp: governed_by_parent_def split: if_splits)
  show "((fs, pid, out', stack'), fs, pid, out, stack)
      \<in> measures [\<lambda>(fs, _, out, _). card (f_id ` set fs - out), \<lambda>(_, _, _, stack). length stack]"
  proof (cases "out' = out")
    case True
    with * ne show ?thesis by simp
  next
    case False
    then have "f_id ` set fs - out' \<subset> f_id ` set fs - out" using * by auto
    then show ?thesis by (simp add: psubset_card_mono)
  qed
qed

declare descend.simps [simp del]

definition descendants :: "response_field list \<Rightarrow> int \<Rightarrow> int set" where
  "descendants fs pid = descend fs pid {} [pid]"

text \<open>
  The last loop: \<open>following\<close> is the slice after the parent, as long as the branch.
\<close>

fun contiguity_faults ::
  "response_field list \<Rightarrow> response_field list \<Rightarrow> (string \<times> branch_fault) list" where
  "contiguity_faults fs [] = []"
| "contiguity_faults fs (f # rest) =
     (let below = descendants fs (f_id f) in
      (if governed_by_parent fs (f_id f) \<noteq> [] \<and> f_id ` set (take (card below) rest) \<noteq> below
       then [(f_label f, NotContiguous)] else []) @ contiguity_faults fs rest)"

definition faults_of ::
  "(response_field \<Rightarrow> branch_fault option) \<Rightarrow> response_field list \<Rightarrow> (string \<times> branch_fault) list" where
  "faults_of g fs = concat (map (\<lambda>f. case g f of None \<Rightarrow> [] | Some e \<Rightarrow> [(f_label f, e)]) fs)"

definition branch_structure_errors :: "response_field list \<Rightarrow> (string \<times> branch_fault) list" where
  "branch_structure_errors fs =
     faults_of (governed_fault fs) fs @ faults_of (anchor_fault fs) fs
       @ faults_of (condition_fault fs) fs @ contiguity_faults fs (sort_key f_order fs)"

section \<open>A closed branch holds no value\<close>

definition closed_governed_field_ids ::
  "response_field list \<Rightarrow> (int \<Rightarrow> string option) \<Rightarrow> int set" where
  "closed_governed_field_ids fs ans =
     (let applicable = applicable_field_ids fs ans in
      f_id ` set (filter (\<lambda>f. f_branch_parent f \<noteq> None \<and> f_id f \<notin> applicable) fs))"

text \<open>
  \<open>drop_closed_branch_answers\<close>: only the fields in a branch or with a condition are read, and
  of an assignment's rows only those for such fields.
\<close>

definition branch_fields :: "db \<Rightarrow> int set \<Rightarrow> response_field list" where
  "branch_fields d instrument_ids =
     filter (\<lambda>f. f_instrument f \<in> instrument_ids \<and> (f_branch_parent f \<noteq> None \<or> f_branch_op f \<noteq> None))
       (fields_tbl d)"

definition instrument_of :: "db \<Rightarrow> int \<Rightarrow> int option" where
  "instrument_of d aid = map_option a_instrument (find (\<lambda>a. a_id a = aid) (assignments d))"

text \<open>\<open>{row.response_field_id: row.value for row in rows}\<close>, read with \<open>.get\<close>.\<close>

definition answers_of :: "response list \<Rightarrow> int \<Rightarrow> int \<Rightarrow> string option" where
  "answers_of rows aid k =
     (case map_of (rev (map (\<lambda>r. (r_field r, r_value r)) (filter (\<lambda>r. r_assignment r = aid) rows))) k of
        None \<Rightarrow> None | Some v \<Rightarrow> v)"

definition drop_closed_branch_answers :: "db \<Rightarrow> int set \<Rightarrow> db \<times> nat" where
  "drop_closed_branch_answers d ids =
     (let instrument_ids = a_instrument ` set (filter (\<lambda>a. a_id a \<in> ids) (assignments d));
          branched = branch_fields d instrument_ids in
      if \<not> list_ex (\<lambda>f. f_branch_parent f \<noteq> None) branched then (d, 0)
      else (let rows = filter (\<lambda>r. r_assignment r \<in> ids \<and> r_field r \<in> f_id ` set branched) (responses d);
                doomed = (\<lambda>r. r \<in> set rows \<and>
                  (case instrument_of d (r_assignment r) of None \<Rightarrow> False
                   | Some iid \<Rightarrow> r_field r \<in> closed_governed_field_ids
                        (filter (\<lambda>f. f_instrument f = iid) branched)
                        (answers_of rows (r_assignment r))))
            in (d\<lparr>responses := filter (\<lambda>r. \<not> doomed r) (responses d)\<rparr>,
                length (filter doomed rows))))"

section \<open>Which fields apply\<close>

text \<open>
  The reference reading: a field applies when every step up to a field outside any branch
  lets it through. A chain that loops never gets there.
\<close>

inductive chain_open :: "response_field list \<Rightarrow> (int \<Rightarrow> string option) \<Rightarrow> response_field \<Rightarrow> bool"
  for fs ans where
  chain_root: "f_branch_parent f = None \<Longrightarrow> chain_open fs ans f"
| chain_step: "parent_of fs f = Some g \<Longrightarrow> chain_open fs ans g \<Longrightarrow> lets_through g ans
     \<Longrightarrow> chain_open fs ans f"

inductive_simps chain_open_iff: "chain_open fs ans f"

abbreviation up :: "response_field list \<Rightarrow> response_field \<Rightarrow> response_field \<Rightarrow> bool" where
  "up fs x y \<equiv> parent_of fs x = Some y"

lemma parent_of_mem: "parent_of fs f = Some g \<Longrightarrow> g \<in> set fs \<and> f_branch_parent f = Some (f_id g)"
  by (auto simp: parent_of_def dest: by_id_Some split: option.splits)

lemma up_cycle_shift:
  assumes "(up fs)\<^sup>+\<^sup>+ f f" "up fs f g"
  shows "(up fs)\<^sup>+\<^sup>+ g g"
proof -
  have "(up fs)\<^sup>*\<^sup>* g f" using assms by (auto elim: converse_tranclpE)
  then show ?thesis using assms(2) by (rule rtranclp_into_tranclp1)
qed

lemma chain_open_acyclic: "chain_open fs ans f \<Longrightarrow> \<not> (up fs)\<^sup>+\<^sup>+ f f"
proof (induction rule: chain_open.induct)
  case (chain_root f)
  show ?case
  proof
    assume "(up fs)\<^sup>+\<^sup>+ f f"
    then obtain g where "up fs f g" by (auto elim: converse_tranclpE)
    with chain_root show False by (simp add: parent_of_def)
  qed
next
  case (chain_step f g)
  then show ?case by (blast dest: up_cycle_shift)
qed

definition memo_ok :: "response_field list \<Rightarrow> (int \<Rightarrow> string option) \<Rightarrow> memo \<Rightarrow> bool" where
  "memo_ok fs ans memo =
     (\<forall>g \<in> set fs. \<forall>b. memo (f_id g) = Some b \<longrightarrow> b = chain_open fs ans g)"

definition seen_below :: "response_field list \<Rightarrow> int set \<Rightarrow> response_field \<Rightarrow> bool" where
  "seen_below fs seen f = (\<forall>k \<in> seen. \<exists>g \<in> set fs. f_id g = k \<and> (up fs)\<^sup>+\<^sup>+ g f)"

lemma memo_ok_upd:
  assumes "distinct (map f_id fs)" "f \<in> set fs" "memo_ok fs ans memo" "b = chain_open fs ans f"
  shows "memo_ok fs ans (memo(f_id f \<mapsto> b))"
  using assms unfolding memo_ok_def
  by (metis by_id_self fun_upd_apply option.inject)

lemma applies_correct:
  assumes "distinct (map f_id fs)"
  shows "f \<in> set fs \<Longrightarrow> memo_ok fs ans memo \<Longrightarrow> seen_below fs seen f
    \<Longrightarrow> applies fs ans memo seen f = (b, memo')
    \<Longrightarrow> b = chain_open fs ans f \<and> memo_ok fs ans memo'"
  using assms
proof (induction fs ans memo seen f arbitrary: b memo' rule: applies.induct)
  case (1 fs ans memo seen f)
  note d = \<open>distinct (map f_id fs)\<close> and mem = \<open>f \<in> set fs\<close> and ok = \<open>memo_ok fs ans memo\<close>
    and run = \<open>applies fs ans memo seen f = (b, memo')\<close>
  note step = applies.simps [of fs ans memo seen f]
  note upd = memo_ok_upd [OF d mem ok refl]
  show ?case
  proof (cases "memo (f_id f)")
    case (Some v)
    then show ?thesis using run ok mem by (simp add: step memo_ok_def)
  next
    case fresh: None
    show ?thesis
    proof (cases "f_branch_parent f")
      case None
      then have "chain_open fs ans f" by (rule chain_root)
      then show ?thesis using run fresh None upd by (simp add: step)
    next
      case (Some p)
      show ?thesis
      proof (cases "by_id fs p")
        case None
        then have "\<not> chain_open fs ans f" using Some by (simp add: chain_open_iff [of fs ans f] parent_of_def)
        then show ?thesis using run fresh Some None upd by (simp add: step)
      next
        case parent: (Some g)
        then have upfg: "up fs f g" and g: "g \<in> set fs"
          using Some by (auto simp: parent_of_def dest: by_id_Some)
        show ?thesis
        proof (cases "f_id g \<in> seen")
          case True
          then obtain g' where "g' \<in> set fs" "f_id g' = f_id g" "(up fs)\<^sup>+\<^sup>+ g' f"
            using \<open>seen_below fs seen f\<close> by (auto simp: seen_below_def)
          then have "(up fs)\<^sup>+\<^sup>+ g f" using by_id_self [OF d] g by (metis option.inject)
          then have "(up fs)\<^sup>+\<^sup>+ f f" using upfg by (rule_tac tranclp_into_tranclp2)
          then have "\<not> chain_open fs ans f" by (blast dest: chain_open_acyclic)
          then show ?thesis using run fresh Some parent True upd by (simp add: step)
        next
          case False
          obtain u m where rec: "applies fs ans memo (insert (f_id f) seen) g = (u, m)" by fastforce
          have "seen_below fs (insert (f_id f) seen) g"
            using \<open>seen_below fs seen f\<close> upfg mem
            by (auto simp: seen_below_def intro: tranclp.trancl_into_trancl)
          from "1.IH" [OF fresh Some parent False g ok this rec d]
          have u: "u = chain_open fs ans g" and m: "memo_ok fs ans m" by auto
          have "chain_open fs ans f = (u \<and> lets_through g ans)"
            using u upfg Some by (auto simp: chain_open_iff [of fs ans f])
          then have co: "(u \<and> lets_through g ans) = chain_open fs ans f" by simp
          have "(u \<and> lets_through g ans, m(f_id f \<mapsto> (u \<and> lets_through g ans))) = (b, memo')"
            using run fresh Some parent False rec by (auto simp: step Let_def)
          then show ?thesis using memo_ok_upd [OF d mem m refl] unfolding co by auto
        qed
      qed
    qed
  qed
qed

lemma applicable_loop_correct:
  assumes "distinct (map f_id fs)" "memo_ok fs ans memo" "set gs \<subseteq> set fs"
  shows "applicable_loop fs ans memo gs = f_id ` {f \<in> set gs. chain_open fs ans f}"
  using assms(2-3)
proof (induction gs arbitrary: memo)
  case Nil
  then show ?case by simp
next
  case (Cons f gs)
  obtain b m where run: "applies fs ans memo {} f = (b, m)" by fastforce
  have "b = chain_open fs ans f \<and> memo_ok fs ans m"
    by (rule applies_correct [OF assms(1) _ Cons.prems(1) _ run])
      (use Cons.prems in \<open>auto simp: seen_below_def\<close>)
  with Cons run show ?case by auto
qed

lemma applicable_iff_chain:
  assumes "distinct (map f_id fs)"
  shows "applicable_field_ids fs ans = f_id ` {f \<in> set fs. chain_open fs ans f}"
  unfolding applicable_field_ids_def
  by (rule applicable_loop_correct [OF assms]) (auto simp: memo_ok_def)

lemma applicable_mem:
  assumes "distinct (map f_id fs)" "f \<in> set fs"
  shows "f_id f \<in> applicable_field_ids fs ans \<longleftrightarrow> chain_open fs ans f"
  using assms by_id_self [OF assms(1)] by (auto simp: applicable_iff_chain image_iff) (metis option.inject)


text \<open>
  C1. On any instrument whose field ids are distinct, the memoised walk of
  \<open>applicable_field_ids\<close>, with its \<open>seen\<close> set and shared \<open>memo\<close>, returns exactly the ids of
  the fields whose whole chain of parents is open; the order the fields are met in, stale
  answers below a closed ancestor and loops of parents do not change the result.
\<close>

theorem applicable_field_ids_is_chain_open:
  assumes "distinct (map f_id fs)"
  shows "applicable_field_ids fs ans = f_id ` {f \<in> set fs. chain_open fs ans f}"
  by (rule applicable_iff_chain [OF assms])

definition demo_field :: "int \<Rightarrow> int option \<Rightarrow> string option \<Rightarrow> string option \<Rightarrow> response_field" where
  "demo_field k parent op val =
     \<lparr>f_id = k, f_instrument = 1, f_key = ''k'', f_label = ''L'', f_required = (parent = None),
      f_order = k, f_visible = True, f_branch_parent = parent, f_branch_op = op,
      f_branch_value = val, f_branch_mode = None, f_data_type = Some ''List'', f_min = None,
      f_max = None, f_step = None, f_list_csv = Some ''yes,no''\<rparr>"

definition demo_fields :: "response_field list" where
  "demo_fields = [demo_field 3 (Some 2) None None, demo_field 2 (Some 1) (Some ''is'') (Some ''yes''),
     demo_field 1 None (Some ''is'') (Some ''yes'')]"

lemma branch_is_open_list:
  assumes "or_empty (f_branch_op f) = ''is''"
  shows "branch_is_open f ans = (py_strip (or_empty ans) \<noteq> []
     \<and> py_strip (or_empty ans) \<in> set (list_items (f_branch_value f)))"
  using assms by (auto simp: branch_is_open_def LIST_OPS_def Let_def)

lemma demo_distinct: "distinct (map f_id demo_fields)"
  by (simp add: demo_fields_def demo_field_def)

lemma demo_open:
  "branch_is_open (demo_field k p (Some ''is'') (Some ''yes'')) (Some ''yes'')"
  "\<not> branch_is_open (demo_field k p (Some ''is'') (Some ''yes'')) (Some ''no'')"
  "\<not> branch_is_open (demo_field k p (Some ''is'') (Some ''yes'')) None"
  by (code_simp)+

lemma applicable_field_ids_is_chain_open_witness:
  "applicable_field_ids demo_fields (Map.empty(1 \<mapsto> ''no'', 2 \<mapsto> ''yes''))
     = f_id ` {f \<in> set demo_fields. chain_open demo_fields (Map.empty(1 \<mapsto> ''no'', 2 \<mapsto> ''yes'')) f}
   \<and> applicable_field_ids demo_fields (Map.empty(1 \<mapsto> ''no'', 2 \<mapsto> ''yes'')) = {1}"
proof -
  have "applicable_field_ids demo_fields (Map.empty(1 \<mapsto> ''no'', 2 \<mapsto> ''yes'')) = {1}"
    by code_simp
  then show ?thesis using applicable_field_ids_is_chain_open [OF demo_distinct] by simp
qed

section \<open>Required fields\<close>

lemma required_applicable: "required_field_ids fs ans \<subseteq> applicable_field_ids fs ans"
  by (auto simp: required_field_ids_def Let_def)

lemma required_may_be: "required_field_ids fs ans \<subseteq> may_be_required_field_ids fs"
  by (auto simp: required_field_ids_def may_be_required_field_ids_def Let_def
      split: option.splits if_splits)

section \<open>Structure\<close>

lemma faults_of_Nil: "faults_of g fs = [] \<longleftrightarrow> (\<forall>f \<in> set fs. g f = None)"
  by (auto simp: faults_of_def split: option.splits)

lemma condition_error_op: "condition_error dt csv op v = None \<Longrightarrow> or_empty op \<noteq> []"
proof (rule ccontr)
  assume ok: "condition_error dt csv op v = None" and "\<not> or_empty op \<noteq> []"
  then have "op \<notin> Some ` set LIST_OPS" "op \<notin> Some ` set RANGE_OPS" "op \<notin> Some ` set NUMERIC_OPS"
    by (auto simp: LIST_OPS_def RANGE_OPS_def NUMERIC_OPS_def)
  then have "condition_error dt csv op v \<noteq> None"
    by (simp add: condition_error_def split: option.split)
  with ok show False by simp
qed

text \<open>What an instrument with no structure error looks like.\<close>

definition well_branched :: "response_field list \<Rightarrow> bool" where
  "well_branched fs =
     (\<forall>f \<in> set fs. f_branch_parent f \<noteq> None \<longrightarrow>
        (\<exists>g. parent_of fs f = Some g \<and> or_empty (f_branch_op g) \<noteq> []
           \<and> (f_branch_parent g = None
              \<or> (\<exists>h. parent_of fs g = Some h \<and> f_branch_parent h = None))))"

lemma governs_parent:
  assumes "f \<in> set fs" "parent_of fs f = Some g"
  shows "f \<in> set (governed_by_parent fs (f_id g))"
  using assms by (auto simp: governed_by_parent_def parent_of_def dest: by_id_Some split: option.splits)

lemma depth_loop_ge: "depth_loop fs seen n p = Some m \<Longrightarrow> n \<le> m"
proof (induction fs seen n p rule: depth_loop.induct)
  case (1 fs seen depth)
  then show ?case by simp
next
  case (2 fs seen depth p)
  then show ?case by (auto split: if_splits option.splits)
qed

lemma branch_depth_le_2:
  assumes "branch_depth fs f = Some n" "n \<le> 2" "parent_of fs f = Some g" "f_branch_parent g \<noteq> None"
  shows "parent_of fs g = None \<or> (\<exists>h. parent_of fs g = Some h \<and> f_branch_parent h = None)"
proof -
  obtain p q where p: "f_branch_parent f = Some p" "by_id fs p = Some g"
    and q: "f_branch_parent g = Some q"
    using assms(3,4) by (auto simp: parent_of_def split: option.splits)
  then have 1: "depth_loop fs {p, f_id f} 1 (Some q) = Some n"
    using assms(1) by (auto simp: branch_depth_def split: if_splits)
  show ?thesis
  proof (cases "by_id fs q")
    case None
    then show ?thesis using q by (simp add: parent_of_def)
  next
    case (Some h)
    have "f_branch_parent h = None"
    proof (cases "f_branch_parent h")
      case (Some r)
      then have "depth_loop fs (insert q {p, f_id f}) 2 (Some r) = Some n"
        using 1 \<open>by_id fs q = Some h\<close> by (auto simp: numeral_2_eq_2 split: if_splits)
      then have "3 \<le> n" by (auto split: if_splits option.splits dest: depth_loop_ge)
      with assms(2) show ?thesis by simp
    qed simp
    with Some q show ?thesis by (simp add: parent_of_def)
  qed
qed

lemma no_structure_error_well_branched:
  assumes "branch_structure_errors fs = []" "distinct (map f_id fs)"
  shows "well_branched fs"
  unfolding well_branched_def
proof (intro ballI impI)
  fix f assume f: "f \<in> set fs" "f_branch_parent f \<noteq> None"
  have gov: "\<And>f. f \<in> set fs \<Longrightarrow> governed_fault fs f = None"
    and cond: "\<And>f. f \<in> set fs \<Longrightarrow> condition_fault fs f = None"
    using assms(1) by (auto simp: branch_structure_errors_def faults_of_Nil)
  obtain g n where g: "parent_of fs f = Some g" "branch_depth fs f = Some n" "n \<le> 2"
    using gov [OF f(1)] f(2)
    by (auto simp: governed_fault_def parent_of_def MAX_BRANCH_DEPTH_def split: option.splits if_splits)
  have gm: "g \<in> set fs" using g(1) by (auto dest: parent_of_mem)
  have op: "or_empty (f_branch_op g) \<noteq> []"
    using cond [OF gm] governs_parent [OF f(1) g(1)] condition_error_op
    by (auto simp: condition_fault_def split: if_splits)
  have "f_branch_parent g = None \<or> (\<exists>h. parent_of fs g = Some h \<and> f_branch_parent h = None)"
    using branch_depth_le_2 [OF g(2,3,1)] gov [OF gm]
    by (auto simp: governed_fault_def parent_of_def split: option.splits)
  with g(1) op show "\<exists>g. parent_of fs f = Some g \<and> or_empty (f_branch_op g) \<noteq> []
           \<and> (f_branch_parent g = None
              \<or> (\<exists>h. parent_of fs g = Some h \<and> f_branch_parent h = None))" by blast
qed

section \<open>Descendants\<close>

definition child_of :: "response_field list \<Rightarrow> int \<Rightarrow> int \<Rightarrow> bool" where
  "child_of fs k p = (k \<in> f_id ` set (governed_by_parent fs p))"

lemma push_children_result:
  assumes "foldl (push_child pid) (out, stack) cs = (out', stack')"
  shows "out' = out \<union> (f_id ` set cs - {pid}) \<and> set stack' = set stack \<union> (out' - out)"
  using assms
proof (induction cs arbitrary: out stack)
  case Nil
  then show ?case by simp
next
  case (Cons c cs)
  show ?case
  proof (cases "f_id c \<noteq> pid \<and> f_id c \<notin> out")
    case True
    then have "foldl (push_child pid) (insert (f_id c) out, stack @ [f_id c]) cs = (out', stack')"
      using Cons.prems by (simp add: push_child_simps)
    from Cons.IH [OF this] True show ?thesis by auto
  next
    case False
    then have "foldl (push_child pid) (out, stack) cs = (out', stack')"
      using Cons.prems by (simp add: push_child_simps)
    from Cons.IH [OF this] False show ?thesis by auto
  qed
qed

lemma descend_closed:
  assumes "\<forall>x \<in> insert pid out - set stack. \<forall>k. child_of fs k x \<longrightarrow> k \<in> insert pid out"
    and "out \<subseteq> {k. k \<noteq> pid \<and> (child_of fs)\<^sup>+\<^sup>+ k pid}" and "set stack \<subseteq> insert pid out"
  shows "descend fs pid out stack \<subseteq> {k. k \<noteq> pid \<and> (child_of fs)\<^sup>+\<^sup>+ k pid}
    \<and> out \<subseteq> descend fs pid out stack
    \<and> (\<forall>x \<in> insert pid (descend fs pid out stack). \<forall>k. child_of fs k x
          \<longrightarrow> k \<in> insert pid (descend fs pid out stack))"
  using assms
proof (induction fs pid out stack rule: descend.induct)
  case (1 fs pid out stack)
  note unf = descend.simps [of fs pid out stack]
  show ?case
  proof (cases "stack = []")
    case True
    then have "descend fs pid out stack = out" using descend.simps [of fs pid out "[]"] by simp
    then show ?thesis using "1.prems"(1,2) True by simp
  next
    case False
    define x where "x = last stack"
    obtain out' stack' where run:
      "foldl (push_child pid) (out, butlast stack) (governed_by_parent fs x) = (out', stack')"
      by fastforce
    note res = push_children_result [OF run]
    have set_stack: "set stack = insert x (set (butlast stack))"
      using False unfolding x_def by (metis append_butlast_last_id list.set(1,2) set_append Un_insert_right sup_bot_right)
    have out': "out' = out \<union> ({k. child_of fs k x} - {pid})"
      using res by (auto simp: child_of_def)
    have x_in: "x \<in> insert pid out" using set_stack "1.prems"(3) by auto
    have reach: "(child_of fs)\<^sup>+\<^sup>+ k pid" if "child_of fs k x" for k
      using that x_in "1.prems"(2) by (auto intro: tranclp_into_tranclp2)
    have "\<forall>y \<in> insert pid out' - set stack'. \<forall>k. child_of fs k y \<longrightarrow> k \<in> insert pid out'"
    proof (intro ballI allI impI)
      fix y k assume y: "y \<in> insert pid out' - set stack'" and k: "child_of fs k y"
      show "k \<in> insert pid out'"
      proof (cases "y = x")
        case True
        with k out' show ?thesis by auto
      next
        case False
        then have "y \<in> insert pid out - set stack" using y res set_stack by auto
        then show ?thesis using "1.prems"(1) k out' by blast
      qed
    qed
    moreover have "out' \<subseteq> {k. k \<noteq> pid \<and> (child_of fs)\<^sup>+\<^sup>+ k pid}"
      using out' "1.prems"(2) reach by auto
    moreover have "set stack' \<subseteq> insert pid out'"
      using res set_stack "1.prems"(3) by auto
    moreover have "descend fs pid out stack = descend fs pid out' stack'"
      using False run by (simp add: unf x_def)
    ultimately show ?thesis
      using "1.IH" [OF False refl run [unfolded x_def, symmetric]] out' by auto
  qed
qed

lemma descendants_eq:
  "descendants fs pid = {k. k \<noteq> pid \<and> (child_of fs)\<^sup>+\<^sup>+ k pid}"
proof -
  note c = descend_closed [of pid "{}" "[pid]" fs, folded descendants_def]
  have "k \<in> insert pid (descendants fs pid)" if "(child_of fs)\<^sup>+\<^sup>+ k pid" for k
    using that by (induction rule: converse_tranclp_induct) (use c in auto)
  with c show ?thesis by auto
qed

lemma contiguity_faults_Nil:
  assumes "contiguity_faults fs xs = []" "xs = pre @ f # rest" "governed_by_parent fs (f_id f) \<noteq> []"
  shows "f_id ` set (take (card (descendants fs (f_id f))) rest) = descendants fs (f_id f)"
  using assms
proof (induction pre arbitrary: xs)
  case Nil
  then show ?case by (auto simp: Let_def split: if_splits)
next
  case (Cons a pre)
  then show ?case by (auto simp: Let_def)
qed

section \<open>The save rule\<close>

lemma distinct_filter_ids: "distinct (map f_id fs) \<Longrightarrow> distinct (map f_id (filter P fs))"
  by (simp add: distinct_map_filter)

lemma parent_of_sub:
  assumes "distinct (map f_id fs)" "parent_of (filter P fs) f = Some g"
  shows "parent_of fs f = Some g" "P g"
proof -
  from parent_of_mem [OF assms(2)] have g: "g \<in> set fs" "P g" "f_branch_parent f = Some (f_id g)"
    by auto
  then show "parent_of fs f = Some g" "P g"
    using by_id_self [OF assms(1), of g] by (simp_all add: parent_of_def)
qed

lemma chain_open_sub:
  assumes "distinct (map f_id fs)" "chain_open (filter P fs) ans f"
    and "\<And>g. g \<in> set fs \<Longrightarrow> P g \<Longrightarrow> chain_open (filter P fs) ans g \<Longrightarrow> ans (f_id g) = ans' (f_id g)"
  shows "chain_open fs ans' f"
  using assms(2)
proof (induction rule: chain_open.induct)
  case (chain_root f)
  then show ?case by (rule chain_open.chain_root)
next
  case (chain_step f g)
  have "g \<in> set fs" "P g" using parent_of_mem [OF chain_step.hyps(1)] by auto
  with chain_step assms(3) have "lets_through g ans'" by (metis lets_through_def)
  with chain_step parent_of_sub(1) [OF assms(1)] show ?case by (blast intro: chain_open.chain_step)
qed

lemma chain_open_sup:
  assumes "distinct (map f_id fs)" "chain_open fs ans f"
    and "\<And>f g. f \<in> set fs \<Longrightarrow> parent_of fs f = Some g \<Longrightarrow> P g"
    and "\<And>g. g \<in> set fs \<Longrightarrow> P g \<Longrightarrow> ans (f_id g) = ans' (f_id g)" and "f \<in> set fs"
  shows "chain_open (filter P fs) ans' f"
  using assms(2,5)
proof (induction rule: chain_open.induct)
  case (chain_root f)
  then show ?case by (simp add: chain_open.chain_root)
next
  case (chain_step f g)
  have g: "g \<in> set fs" "P g" "f_branch_parent f = Some (f_id g)"
    using parent_of_mem [OF chain_step.hyps(1)] assms(3) chain_step by auto
  have "parent_of (filter P fs) f = Some g"
    using by_id_self [OF distinct_filter_ids [OF assms(1)], of g P] g by (simp add: parent_of_def)
  moreover have "lets_through g ans'" using chain_step g assms(4) by (metis lets_through_def)
  ultimately show ?case using chain_step g by (blast intro: chain_open.chain_step)
qed

lemma answers_of_filter:
  assumes "\<And>r. r \<in> set rows \<Longrightarrow> r_assignment r = aid \<Longrightarrow> r_field r = k \<Longrightarrow> P r"
  shows "answers_of (filter P rows) aid k = answers_of rows aid k"
proof -
  have "map_of (rev (map (\<lambda>r. (r_field r, r_value r)) (filter (\<lambda>r. r_assignment r = aid) (filter P rows)))) k
      = map_of (rev (map (\<lambda>r. (r_field r, r_value r)) (filter (\<lambda>r. r_assignment r = aid) rows))) k"
    using assms by (induction rows) (auto simp: map_add_def split: option.splits)
  then show ?thesis by (simp add: answers_of_def)
qed

abbreviation instrument_fields :: "db \<Rightarrow> int \<Rightarrow> response_field list" where
  "instrument_fields d iid \<equiv> filter (\<lambda>f. f_instrument f = iid) (fields_tbl d)"

text \<open>The field ids and the assignment ids are the primary keys of their tables.\<close>

definition keyed :: "db \<Rightarrow> bool" where
  "keyed d = (distinct (map f_id (fields_tbl d)) \<and> distinct (map a_id (assignments d)))"

lemma keyed_instrument_of:
  assumes "keyed d" "a \<in> set (assignments d)"
  shows "instrument_of d (a_id a) = Some (a_instrument a)"
proof -
  have *: "find (\<lambda>b. a_id b = a_id a) xs = Some a" if "distinct (map a_id xs)" "a \<in> set xs" for xs
    using that by (induction xs) auto
  show ?thesis using * assms by (simp add: instrument_of_def keyed_def)
qed

lemma keyed_fields: "keyed d \<Longrightarrow> distinct (map f_id (instrument_fields d iid))"
  by (simp add: keyed_def distinct_filter_ids)

lemma keyed_same:
  "keyed d \<Longrightarrow> f \<in> set (fields_tbl d) \<Longrightarrow> g \<in> set (fields_tbl d) \<Longrightarrow> f_id f = f_id g \<Longrightarrow> f = g"
  unfolding keyed_def by (metis by_id_self option.inject)

lemma closed_governed_mem:
  assumes "distinct (map f_id B)" "f \<in> set B"
  shows "f_id f \<in> closed_governed_field_ids B ans
     \<longleftrightarrow> f_branch_parent f \<noteq> None \<and> \<not> chain_open B ans f"
proof -
  have "g = f" if "g \<in> set B" "f_id g = f_id f" for g
    using by_id_self [OF assms(1)] assms(2) that by (metis option.inject)
  then show ?thesis
    using assms applicable_mem [OF assms(1,2)] by (auto simp: closed_governed_field_ids_def Let_def)
qed

definition branchy :: "response_field \<Rightarrow> bool" where
  "branchy f = (f_branch_parent f \<noteq> None \<or> f_branch_op f \<noteq> None)"

lemma well_branched_branchy:
  "well_branched F \<Longrightarrow> f \<in> set F \<Longrightarrow> parent_of F f = Some g \<Longrightarrow> branchy g"
  unfolding well_branched_def branchy_def
  by (metis option.distinct(1) option.inject or_empty_simps(1) parent_of_mem)

lemma chain_open_branchy:
  assumes "distinct (map f_id F)" "well_branched F" "f \<in> set F"
    and "\<And>g. g \<in> set F \<Longrightarrow> branchy g \<Longrightarrow> ans (f_id g) = ans' (f_id g)"
  shows "chain_open (filter branchy F) ans' f = chain_open F ans f"
proof
  assume "chain_open (filter branchy F) ans' f"
  then show "chain_open F ans f" by (rule chain_open_sub [OF assms(1)]) (simp add: assms(4))
next
  assume "chain_open F ans f"
  then show "chain_open (filter branchy F) ans' f"
    using assms(3,4) well_branched_branchy [OF assms(2)]
    by (intro chain_open_sup [OF assms(1), where P = branchy and ans = ans]) auto
qed

lemma drop_survivors:
  assumes k: "keyed d" and a: "a \<in> set (assignments d)" "a_id a \<in> ids"
    and wb: "well_branched (instrument_fields d (a_instrument a))"
    and drop: "drop_closed_branch_answers d ids = (d', n)"
    and f: "f \<in> set (instrument_fields d (a_instrument a))"
    and r: "r \<in> set (responses d)" "r_assignment r = a_id a" "r_field r = f_id f"
  shows "r \<in> set (responses d') \<longleftrightarrow>
     chain_open (instrument_fields d (a_instrument a)) (answers_of (responses d) (a_id a)) f"
proof -
  define F where "F = instrument_fields d (a_instrument a)"
  define I where "I = a_instrument ` set (filter (\<lambda>a. a_id a \<in> ids) (assignments d))"
  define B where "B = branch_fields d I"
  have iid: "a_instrument a \<in> I" using a by (auto simp: I_def)
  have BF: "filter (\<lambda>f. f_instrument f = a_instrument a) B = filter branchy F"
    using iid unfolding B_def F_def branch_fields_def branchy_def filter_filter
    by (intro filter_cong) auto
  have dF: "distinct (map f_id F)" unfolding F_def by (rule keyed_fields [OF k])
  note f' = f [folded F_def] and wb' = wb [folded F_def]
  show ?thesis
  proof (cases "list_ex (\<lambda>f. f_branch_parent f \<noteq> None) B")
    case False
    then have "d' = d" using drop by (simp add: drop_closed_branch_answers_def Let_def I_def B_def)
    moreover have "f_branch_parent f = None"
    proof (rule ccontr)
      assume "f_branch_parent f \<noteq> None"
      then have "f \<in> set (filter branchy F)" using f' by (simp add: branchy_def)
      then have "f \<in> set B" unfolding BF [symmetric] by simp
      with False \<open>f_branch_parent f \<noteq> None\<close> show False by (auto simp: list_ex_iff)
    qed
    ultimately show ?thesis using r by (simp add: chain_root)
  next
    case True
    define rows where "rows = filter (\<lambda>r. r_assignment r \<in> ids \<and> r_field r \<in> f_id ` set B) (responses d)"
    have "d' = d\<lparr>responses := filter (\<lambda>r. \<not> (r \<in> set rows \<and>
        (case instrument_of d (r_assignment r) of None \<Rightarrow> False
         | Some iid \<Rightarrow> r_field r \<in> closed_governed_field_ids
             (filter (\<lambda>f. f_instrument f = iid) B) (answers_of rows (r_assignment r))))) (responses d)\<rparr>"
      using drop True
      unfolding drop_closed_branch_answers_def Let_def I_def [symmetric] B_def [symmetric]
        rows_def [symmetric] by simp
    then have 1: "r \<in> set (responses d') \<longleftrightarrow> \<not> (r \<in> set rows \<and>
        f_id f \<in> closed_governed_field_ids (filter branchy F) (answers_of rows (a_id a)))"
      using r keyed_instrument_of [OF k a(1)] by (simp add: BF)
    have same: "answers_of (responses d) (a_id a) (f_id g) = answers_of rows (a_id a) (f_id g)"
      if "g \<in> set F" "branchy g" for g
    proof -
      have "g \<in> set (filter branchy F)" using that by simp
      then have "g \<in> set B" unfolding BF [symmetric] by simp
      then show ?thesis unfolding rows_def
        by (intro answers_of_filter [symmetric]) (use a in auto)
    qed
    have co: "chain_open (filter branchy F) (answers_of rows (a_id a)) f
        = chain_open F (answers_of (responses d) (a_id a)) f"
      by (rule chain_open_branchy [OF dF wb' f']) (rule same)
    show ?thesis
    proof (cases "branchy f")
      case True
      then have fB: "f \<in> set (filter branchy F)" using f' by simp
      then have "f \<in> set B" unfolding BF [symmetric] by simp
      then have "r \<in> set rows" using r a by (simp add: rows_def)
      then show ?thesis
        using 1 closed_governed_mem [OF distinct_filter_ids [OF dF] fB]
          co True by (auto simp: F_def intro: chain_root)
    next
      case False
      then have open_f: "chain_open F (answers_of (responses d) (a_id a)) f"
        by (intro chain_root) (simp add: branchy_def)
      have "f_id f \<notin> f_id ` set (filter branchy F)"
        using by_id_self [OF dF] f' False by (auto simp: image_iff) (metis option.inject)
      then have "f_id f \<notin> closed_governed_field_ids (filter branchy F) (answers_of rows (a_id a))"
        by (auto simp: closed_governed_field_ids_def Let_def)
      with 1 open_f show ?thesis by (simp add: F_def)
    qed
  qed
qed

lemma chain_open_agree:
  assumes "\<And>g. g \<in> set fs \<Longrightarrow> chain_open fs ans g \<Longrightarrow> ans (f_id g) = ans' (f_id g)"
  shows "chain_open fs ans' f = chain_open fs ans f"
proof
  assume "chain_open fs ans' f"
  then show "chain_open fs ans f"
  proof (induction rule: chain_open.induct)
    case (chain_step f g)
    then have "lets_through g ans" using assms parent_of_mem by (metis lets_through_def)
    with chain_step show ?case by (blast intro: chain_open.chain_step)
  qed (rule chain_root)
next
  assume "chain_open fs ans f"
  then show "chain_open fs ans' f"
  proof (induction rule: chain_open.induct)
    case (chain_step f g)
    then have "lets_through g ans'" using assms parent_of_mem by (metis lets_through_def)
    with chain_step show ?case by (blast intro: chain_open.chain_step)
  qed (rule chain_root)
qed

lemma drop_result:
  assumes "drop_closed_branch_answers d ids = (d', n)"
  shows "d' = d\<lparr>responses := responses d'\<rparr>" and "length (responses d) = length (responses d') + n"
proof -
  have split: "length rs = length (filter (\<lambda>r. \<not> (Q r \<and> P r)) rs) + length (filter P (filter Q rs))"
    for P Q and rs :: "response list" by (induction rs) auto
  have both: "length rs = length (filter (\<lambda>r. \<not> (r \<in> set (filter Q rs) \<and> P r)) rs)
      + length (filter (\<lambda>r. r \<in> set (filter Q rs) \<and> P r) (filter Q rs))" for P Q and rs :: "response list"
  proof -
    have "filter (\<lambda>r. \<not> (r \<in> set (filter Q rs) \<and> P r)) rs = filter (\<lambda>r. \<not> (Q r \<and> P r)) rs"
      "filter (\<lambda>r. r \<in> set (filter Q rs) \<and> P r) (filter Q rs) = filter P (filter Q rs)"
      by (auto intro: filter_cong)
    then show ?thesis using split [of rs Q P] by simp
  qed
  from assms show "d' = d\<lparr>responses := responses d'\<rparr>"
    by (auto simp: drop_closed_branch_answers_def Let_def split: if_splits)
  let ?B = "branch_fields d (a_instrument ` set (filter (\<lambda>a. a_id a \<in> ids) (assignments d)))"
  show "length (responses d) = length (responses d') + n"
  proof (cases "list_ex (\<lambda>f. f_branch_parent f \<noteq> None) ?B")
    case True
    let ?Q = "\<lambda>r. r_assignment r \<in> ids \<and> r_field r \<in> f_id ` set ?B"
    let ?P = "\<lambda>r. case instrument_of d (r_assignment r) of None \<Rightarrow> False
        | Some iid \<Rightarrow> r_field r \<in> closed_governed_field_ids (filter (\<lambda>f. f_instrument f = iid) ?B)
            (answers_of (filter ?Q (responses d)) (r_assignment r))"
    have "(d\<lparr>responses := filter (\<lambda>r. \<not> (r \<in> set (filter ?Q (responses d)) \<and> ?P r)) (responses d)\<rparr>,
        length (filter (\<lambda>r. r \<in> set (filter ?Q (responses d)) \<and> ?P r) (filter ?Q (responses d)))) = (d', n)"
      using assms True unfolding drop_closed_branch_answers_def Let_def by (simp only: not_True_eq_False if_False)
    then have "responses d' = filter (\<lambda>r. \<not> (r \<in> set (filter ?Q (responses d)) \<and> ?P r)) (responses d)"
      "n = length (filter (\<lambda>r. r \<in> set (filter ?Q (responses d)) \<and> ?P r) (filter ?Q (responses d)))" by auto
    then show ?thesis using both [of "responses d" ?Q ?P] by (simp only:)
  next
    case False
    then show ?thesis using assms by (auto simp: drop_closed_branch_answers_def Let_def)
  qed
qed

lemma drop_unnamed_kept:
  assumes "keyed d" "a \<in> set (assignments d)" "drop_closed_branch_answers d ids = (d', n)"
    and "r \<in> set (responses d)" "r_assignment r = a_id a" "r_field r \<notin> f_id ` set (instrument_fields d (a_instrument a))"
  shows "r \<in> set (responses d')"
proof -
  have "f \<notin> f_id ` set (instrument_fields d (a_instrument a))
      \<Longrightarrow> f \<notin> closed_governed_field_ids (filter (\<lambda>f. f_instrument f = a_instrument a) (branch_fields d I)) ans" for f I ans
    by (auto simp: closed_governed_field_ids_def Let_def branch_fields_def)
  with assms show ?thesis
    by (auto simp: drop_closed_branch_answers_def Let_def keyed_instrument_of [OF assms(1,2)] split: if_splits)
qed

lemma drop_responses:
  assumes "drop_closed_branch_answers d ids = (d', n)"
  shows "\<exists>P. responses d' = filter P (responses d) \<and> (\<forall>r. r_assignment r \<notin> ids \<longrightarrow> P r)"
  using assms unfolding drop_closed_branch_answers_def Let_def
  by (auto split: if_splits intro: exI [of _ "\<lambda>_. True"])

text \<open>
  C2. After a save, \<open>drop_closed_branch_answers\<close> keeps of an assignment's rows, in their order,
  exactly those of a field that applies under what it held before (and any row of a field that is
  not the instrument's), those fields still being the ones that apply under what is left (one
  pass is enough). No other assignment's rows change and no other table does, and the number it
  returns is the number of rows it deleted; on every instrument without a structure error.
\<close>

theorem drop_closed_branch_answers_exact:
  assumes "keyed d" and "a \<in> set (assignments d)" "a_id a \<in> ids"
    and "branch_structure_errors (instrument_fields d (a_instrument a)) = []"
    and "drop_closed_branch_answers d ids = (d', n)"
  defines "F \<equiv> instrument_fields d (a_instrument a)"
  shows "filter (\<lambda>r. r_assignment r = a_id a) (responses d')
       = filter (\<lambda>r. r_assignment r = a_id a \<and> (r_field r \<in> f_id ` set F \<longrightarrow>
            r_field r \<in> applicable_field_ids F (answers_of (responses d) (a_id a)))) (responses d)
    \<and> applicable_field_ids F (answers_of (responses d') (a_id a))
       = applicable_field_ids F (answers_of (responses d) (a_id a))
    \<and> filter (\<lambda>r. r_assignment r \<notin> ids) (responses d')
       = filter (\<lambda>r. r_assignment r \<notin> ids) (responses d)
    \<and> d' = d\<lparr>responses := responses d'\<rparr>
    \<and> length (responses d) = length (responses d') + n"
proof -
  have dF: "distinct (map f_id F)" unfolding F_def by (rule keyed_fields [OF assms(1)])
  have wb: "well_branched F"
    using no_structure_error_well_branched assms(4) dF unfolding F_def by blast
  obtain P where P: "responses d' = filter P (responses d)" "\<And>r. r_assignment r \<notin> ids \<Longrightarrow> P r"
    using drop_responses [OF assms(5)] by blast
  have surv: "r \<in> set (responses d') \<longleftrightarrow> chain_open F (answers_of (responses d) (a_id a)) f"
    if "f \<in> set F" "r \<in> set (responses d)" "r_assignment r = a_id a" "r_field r = f_id f" for f r
    using drop_survivors [OF assms(1-3) wb [unfolded F_def] assms(5)] that unfolding F_def by blast
  have "answers_of (responses d) (a_id a) (f_id g) = answers_of (responses d') (a_id a) (f_id g)"
    if "g \<in> set F" "chain_open F (answers_of (responses d) (a_id a)) g" for g
    unfolding P(1) by (rule answers_of_filter [symmetric]) (use surv that P in auto)
  then have "chain_open F (answers_of (responses d') (a_id a)) f
      = chain_open F (answers_of (responses d) (a_id a)) f" for f
    by (rule chain_open_agree)
  then have stable: "applicable_field_ids F (answers_of (responses d') (a_id a))
       = applicable_field_ids F (answers_of (responses d) (a_id a))"
    by (simp add: applicable_iff_chain [OF dF])
  have kept: "r \<in> set (responses d') \<longleftrightarrow> (r_field r \<in> f_id ` set F \<longrightarrow>
        r_field r \<in> applicable_field_ids F (answers_of (responses d) (a_id a)))"
    if r: "r \<in> set (responses d)" "r_assignment r = a_id a" for r
  proof (cases "r_field r \<in> f_id ` set F")
    case True
    then obtain f where f: "f \<in> set F" "r_field r = f_id f" by auto
    show ?thesis using surv [OF f(1) r f(2)] True f applicable_mem [OF dF f(1)] by simp
  next
    case False
    then show ?thesis using drop_unnamed_kept [OF assms(1,2,5) r] by (simp add: F_def)
  qed
  have exact: "filter (\<lambda>r. r_assignment r = a_id a) (responses d')
       = filter (\<lambda>r. r_assignment r = a_id a \<and> (r_field r \<in> f_id ` set F \<longrightarrow>
            r_field r \<in> applicable_field_ids F (answers_of (responses d) (a_id a)))) (responses d)"
    unfolding P(1) filter_filter
  proof (rule filter_cong)
    fix r assume r: "r \<in> set (responses d)"
    show "(P r \<and> r_assignment r = a_id a) = (r_assignment r = a_id a \<and> (r_field r \<in> f_id ` set F \<longrightarrow>
            r_field r \<in> applicable_field_ids F (answers_of (responses d) (a_id a))))"
      using kept [OF r] r by (auto simp: P(1))
  qed simp
  have "filter (\<lambda>r. r_assignment r \<notin> ids) (responses d')
       = filter (\<lambda>r. r_assignment r \<notin> ids) (responses d)"
    unfolding P(1) filter_filter by (rule filter_cong) (use P(2) in auto)
  with exact stable drop_result [OF assms(5)] show ?thesis by blast
qed

definition demo_responses :: "response list" where
  "demo_responses = map (\<lambda>(a, k, v).
     \<lparr>r_assignment = a, r_field = k, r_value = Some v, r_saved_at = Aware 0, r_submitted_at = None,
      r_version = 1\<rparr>)
     [(1, 1, ''no''), (1, 2, ''yes''), (1, 3, ''maybe''), (2, 1, ''no''), (2, 3, ''kept'')]"

definition demo_db :: db where
  "demo_db = blank_db\<lparr>fields_tbl := demo_fields,
     assignments := [\<lparr>a_id = 1, a_session = 1, a_reviewer = 1, a_reviewee = 1, a_instrument = 1,
        a_include = True, a_self_review = False\<rparr>,
       \<lparr>a_id = 2, a_session = 1, a_reviewer = 1, a_reviewee = 2, a_instrument = 1,
        a_include = True, a_self_review = False\<rparr>],
     responses := demo_responses\<rparr>"

lemma drop_closed_branch_answers_exact_witness:
  "responses (fst (drop_closed_branch_answers demo_db {1}))
     = [demo_responses ! 0, demo_responses ! 3, demo_responses ! 4]
   \<and> applicable_field_ids demo_fields
       (answers_of (responses (fst (drop_closed_branch_answers demo_db {1}))) 1)
     = applicable_field_ids demo_fields (answers_of demo_responses 1)"
proof -
  let ?a = "hd (assignments demo_db)"
  have run: "responses (fst (drop_closed_branch_answers demo_db {1}))
     = [demo_responses ! 0, demo_responses ! 3, demo_responses ! 4]" by code_simp
  have k: "keyed demo_db" by code_simp
  have f: "instrument_fields demo_db (a_instrument ?a) = demo_fields" by code_simp
  have e: "branch_structure_errors demo_fields = []" by code_simp
  have a: "?a \<in> set (assignments demo_db)" "a_id ?a \<in> {1}" "a_id ?a = 1"
    by (simp_all add: demo_db_def)
  have "responses demo_db = demo_responses" by (simp add: demo_db_def)
  with run show ?thesis
    using drop_closed_branch_answers_exact [OF k a(1,2) e [folded f] surjective_pairing, unfolded f]
    by (simp add: a(3))
qed

text \<open>
  C3. An instrument without a structure error: every field inside a branch has its parent on
  the instrument, that parent has a condition its own type accepts, no field is more than two
  branches deep, and in field order a parent is followed directly by exactly the fields of its
  branch, the branches inside it included.
\<close>

theorem branch_structure_errors_sound:
  assumes "branch_structure_errors fs = []" and "distinct (map f_id fs)"
  shows "(\<forall>f \<in> set fs. f_branch_parent f \<noteq> None \<longrightarrow>
        (\<exists>g. parent_of fs f = Some g
           \<and> condition_error (f_data_type g) (f_list_csv g) (f_branch_op g) (f_branch_value g) = None
           \<and> (f_branch_parent g = None
              \<or> (\<exists>h. parent_of fs g = Some h \<and> f_branch_parent h = None))))
    \<and> (\<forall>pre f rest. sort_key f_order fs = pre @ f # rest \<longrightarrow> governed_by_parent fs (f_id f) \<noteq> [] \<longrightarrow>
        f_id ` set (take (card {k. k \<noteq> f_id f \<and> (child_of fs)\<^sup>+\<^sup>+ k (f_id f)}) rest)
          = {k. k \<noteq> f_id f \<and> (child_of fs)\<^sup>+\<^sup>+ k (f_id f)})"
proof (intro conjI)
  have wb: "well_branched fs" by (rule no_structure_error_well_branched [OF assms])
  have cond: "condition_error (f_data_type g) (f_list_csv g) (f_branch_op g) (f_branch_value g) = None"
    if "f \<in> set fs" "parent_of fs f = Some g" for f g
  proof -
    have "condition_fault fs g = None" using assms(1) parent_of_mem [OF that(2)]
      by (auto simp: branch_structure_errors_def faults_of_Nil)
    then show ?thesis using governs_parent [OF that]
      by (auto simp: condition_fault_def split: if_splits)
  qed
  show "\<forall>f \<in> set fs. f_branch_parent f \<noteq> None \<longrightarrow>
        (\<exists>g. parent_of fs f = Some g
           \<and> condition_error (f_data_type g) (f_list_csv g) (f_branch_op g) (f_branch_value g) = None
           \<and> (f_branch_parent g = None
              \<or> (\<exists>h. parent_of fs g = Some h \<and> f_branch_parent h = None)))"
    using wb cond unfolding well_branched_def by blast
  have "contiguity_faults fs (sort_key f_order fs) = []"
    using assms(1) by (simp add: branch_structure_errors_def)
  then show "\<forall>pre f rest. sort_key f_order fs = pre @ f # rest \<longrightarrow> governed_by_parent fs (f_id f) \<noteq> [] \<longrightarrow>
        f_id ` set (take (card {k. k \<noteq> f_id f \<and> (child_of fs)\<^sup>+\<^sup>+ k (f_id f)}) rest)
          = {k. k \<noteq> f_id f \<and> (child_of fs)\<^sup>+\<^sup>+ k (f_id f)}"
    using contiguity_faults_Nil unfolding descendants_eq by blast
qed

lemma branch_structure_errors_sound_witness:
  "parent_of demo_fields (demo_field 3 (Some 2) None None) \<noteq> None
   \<and> f_id ` set (take (card {k. k \<noteq> 1 \<and> (child_of demo_fields)\<^sup>+\<^sup>+ k 1}) (tl (rev demo_fields)))
     = {k. k \<noteq> 1 \<and> (child_of demo_fields)\<^sup>+\<^sup>+ k 1}"
proof -
  have e: "branch_structure_errors demo_fields = []" by code_simp
  have s: "sort_key f_order demo_fields = [] @ hd (rev demo_fields) # tl (rev demo_fields)"
    by code_simp
  have h1: "f_id (hd (rev demo_fields)) = 1" by code_simp
  have h2: "governed_by_parent demo_fields 1 \<noteq> []" by code_simp
  have h3: "demo_field 3 (Some 2) None None \<in> set demo_fields" by (simp add: demo_fields_def)
  have h4: "f_branch_parent (demo_field 3 (Some 2) None None) \<noteq> None" by (simp add: demo_field_def)
  note sound = branch_structure_errors_sound [OF e demo_distinct]
  show ?thesis
    using conjunct1 [OF sound, rule_format, OF h3 h4]
      conjunct2 [OF sound, rule_format, OF s] h1 h2 by auto
qed

section \<open>Numeric conditions\<close>

lemma finite_number_nonblank: "finite_number a = Some x \<Longrightarrow> py_strip (or_empty a) \<noteq> []"
  by (auto simp: finite_number_def parse_literal_def parse_exponent_def)

lemma branch_is_open_range:
  assumes "finite_number a = Some x" "parse_range v = Some (lo, hi)" "op \<in> set RANGE_OPS"
  shows "branch_is_open (p\<lparr>f_branch_op := Some op, f_branch_value := v\<rparr>) a = compare_range op lo x hi"
proof -
  have "op \<notin> set LIST_OPS" "op \<noteq> []"
    using assms(3) by (auto simp: RANGE_OPS_def LIST_OPS_def)
  then show ?thesis
    using assms finite_number_nonblank [OF assms(1)] by (simp add: branch_is_open_def Let_def)
qed

lemma branch_is_open_number:
  assumes "finite_number a = Some x" "finite_number v = Some y" "op \<in> set NUMERIC_OPS"
  shows "branch_is_open (p\<lparr>f_branch_op := Some op, f_branch_value := v\<rparr>) a = compare_number op x y"
proof -
  have "op \<notin> set LIST_OPS" "op \<notin> set RANGE_OPS" "op \<noteq> []"
    using assms(3) by (auto simp: RANGE_OPS_def LIST_OPS_def NUMERIC_OPS_def)
  then show ?thesis
    using assms finite_number_nonblank [OF assms(1)] by (simp add: branch_is_open_def Let_def)
qed

lemma range_error_None_iff: "range_error v = None \<longleftrightarrow> parse_range v \<noteq> None"
proof -
  have e: "finite_number (Some []) = None"
    by (simp add: finite_number_def parse_literal_def parse_exponent_def)
  show ?thesis
    unfolding range_error_def range_parts_def parse_range_def Let_def
    by (auto simp: e split: list.splits option.splits if_splits)
qed

text \<open>The condition that opens exactly when this one does not.\<close>

definition opposite_op :: "string \<Rightarrow> string" where
  "opposite_op op = the (map_of
     [(''out_inc'', ''in_exc''), (''in_exc'', ''out_inc''), (''out_exc'', ''in_inc''),
      (''in_inc'', ''out_exc''), (''eq'', ''ne''), (''ne'', ''eq''), (''gt'', ''le''),
      (''le'', ''gt''), (''ge'', ''lt''), (''lt'', ''ge'')] op)"

lemma opposite_op_simps:
  "opposite_op ''out_inc'' = ''in_exc''" "opposite_op ''in_exc'' = ''out_inc''"
  "opposite_op ''out_exc'' = ''in_inc''" "opposite_op ''in_inc'' = ''out_exc''"
  "opposite_op ''eq'' = ''ne''" "opposite_op ''ne'' = ''eq''" "opposite_op ''gt'' = ''le''"
  "opposite_op ''le'' = ''gt''" "opposite_op ''ge'' = ''lt''" "opposite_op ''lt'' = ''ge''"
  by (simp_all add: opposite_op_def)

lemma RANGE_OPS_cases:
  "op \<in> set RANGE_OPS \<longleftrightarrow> op = ''in_inc'' \<or> op = ''in_exc'' \<or> op = ''out_inc'' \<or> op = ''out_exc''"
  by (simp add: RANGE_OPS_def)

lemma NUMERIC_OPS_cases:
  "op \<in> set NUMERIC_OPS \<longleftrightarrow> op = ''eq'' \<or> op = ''ne'' \<or> op = ''gt'' \<or> op = ''ge'' \<or> op = ''lt'' \<or> op = ''le''"
  by (simp add: NUMERIC_OPS_def)

lemma compare_range_opposite:
  assumes "op \<in> set RANGE_OPS"
  shows "compare_range (opposite_op op) lo x hi = (\<not> compare_range op lo x hi)
       \<and> opposite_op op \<in> set RANGE_OPS"
  using assms unfolding RANGE_OPS_cases
  by (elim disjE; simp add: opposite_op_simps compare_range_def not_le not_less)

lemma compare_number_opposite:
  assumes "op \<in> set NUMERIC_OPS"
  shows "compare_number (opposite_op op) x y = (\<not> compare_number op x y)
       \<and> opposite_op op \<in> set NUMERIC_OPS"
  using assms unfolding NUMERIC_OPS_cases
  by (elim disjE; simp add: opposite_op_simps compare_number_def not_le not_less)

text \<open>
  A stored numeric condition always decides a numeric answer, and the operators come in
  opposite pairs: on any answer that is a number, "outside (inclusive)" is open exactly when
  "within (exclusive)" is closed, "outside (exclusive)" exactly when "within (inclusive)" is
  closed, and likewise "not equal"/"equal", "at most"/"more than", "less than"/"at least".
\<close>

theorem numeric_branch_opposites:
  assumes "finite_number answer = Some x"
    and "dt \<in> {''Integer'', ''Decimal''}" and "condition_error (Some dt) csv (Some op) val = None"
  shows "branch_is_open (p\<lparr>f_branch_op := Some (opposite_op op), f_branch_value := val\<rparr>) answer
       = (\<not> branch_is_open (p\<lparr>f_branch_op := Some op, f_branch_value := val\<rparr>) answer)
    \<and> condition_error (Some dt) csv (Some (opposite_op op)) val = None"
proof (cases "op \<in> set RANGE_OPS")
  case True
  then obtain lo hi where v: "parse_range val = Some (lo, hi)"
    using assms(2,3) range_error_None_iff [of val]
    by (auto simp: condition_error_def PARENT_DATA_TYPES_def split: if_splits)
  note opp = compare_range_opposite [OF True, of lo x hi]
  have "range_error val = None" using v by (simp add: range_error_None_iff)
  then show ?thesis
    using branch_is_open_range [OF assms(1) v] opp True assms(2)
    by (auto simp: condition_error_def PARENT_DATA_TYPES_def)
next
  case False
  then obtain y where op: "op \<in> set NUMERIC_OPS" and v: "finite_number val = Some y"
    using assms(2,3) by (auto simp: condition_error_def PARENT_DATA_TYPES_def split: if_splits)
  note opp = compare_number_opposite [OF op, of x y]
  have "opposite_op op \<notin> set RANGE_OPS"
    using opp by (auto simp: NUMERIC_OPS_def RANGE_OPS_def)
  then show ?thesis
    using branch_is_open_number [OF assms(1) v] opp op v assms(2)
    by (auto simp: condition_error_def PARENT_DATA_TYPES_def)
qed

lemma finite_number_digits:
  "finite_number (Some ''2'') = Some 2" "finite_number (Some ''3'') = Some 3"
  "finite_number (Some ''4'') = Some 4"
proof -
  have s: "show_nat 2 = ''2''" "show_nat 3 = ''3''" "show_nat 4 = ''4''" by code_simp+
  show "finite_number (Some ''2'') = Some 2" "finite_number (Some ''3'') = Some 3"
    "finite_number (Some ''4'') = Some 4"
    using finite_number_show_nat [of 2] finite_number_show_nat [of 3] finite_number_show_nat [of 4]
    by (simp_all add: s)
qed

lemma numeric_branch_opposites_witness:
  "branch_is_open ((demo_field 1 None None None)
        \<lparr>f_branch_op := Some ''out_inc'', f_branch_value := Some ''2 to 4''\<rparr>) (Some ''3'')
   = (\<not> branch_is_open ((demo_field 1 None None None)
        \<lparr>f_branch_op := Some ''in_exc'', f_branch_value := Some ''2 to 4''\<rparr>) (Some ''3''))"
proof -
  have "range_parts (Some ''2 to 4'') = [''2'', ''4'']" by code_simp
  then have "range_error (Some ''2 to 4'') = None"
    by (simp add: range_error_def finite_number_digits)
  then have c: "condition_error (Some ''Decimal'') None (Some ''in_exc'') (Some ''2 to 4'') = None"
    by (simp add: condition_error_def PARENT_DATA_TYPES_def RANGE_OPS_def)
  have o: "opposite_op ''in_exc'' = ''out_inc''" by (simp add: opposite_op_def)
  show ?thesis using numeric_branch_opposites [OF finite_number_digits(2) _ c, unfolded o] by blast
qed

section \<open>Hidden parents hide their branch\<close>

definition hidden_above :: "response_field list \<Rightarrow> response_field \<Rightarrow> bool" where
  "hidden_above fs f = (\<exists>g. (up fs)\<^sup>+\<^sup>+ f g \<and> \<not> f_visible g)"

lemma hide_walk_correct:
  assumes d: "distinct (map f_id fs)"
    and "\<forall>x \<in> set fs. f_id x \<in> seen \<longrightarrow> (case f_branch_parent x of None \<Rightarrow> True
      | Some q \<Rightarrow> q \<in> seen \<or> by_id fs q = None \<or> Some q = p)"
    and "\<forall>x \<in> set fs. f_id x \<in> seen \<longrightarrow> f_visible x \<or> f_id x = k"
  shows "hide_walk fs seen p \<Longrightarrow> \<exists>q g h. p = Some q \<and> by_id fs q = Some g
           \<and> (up fs)\<^sup>*\<^sup>* g h \<and> \<not> f_visible h"
    and "\<not> hide_walk fs seen p \<Longrightarrow> p = Some q \<Longrightarrow> by_id fs q = Some g \<Longrightarrow> (up fs)\<^sup>*\<^sup>* g h
           \<Longrightarrow> f_visible h \<or> f_id h = k"
proof -
  show "hide_walk fs seen p \<Longrightarrow> \<exists>q g h. p = Some q \<and> by_id fs q = Some g
           \<and> (up fs)\<^sup>*\<^sup>* g h \<and> \<not> f_visible h"
  proof (induction fs seen p rule: hide_walk.induct)
    case (1 fs seen)
    then show ?case by simp
  next
    case (2 fs seen p)
    then obtain g where g: "by_id fs p = Some g" "f_id g \<notin> seen" by (auto split: option.splits if_splits)
    show ?case
    proof (cases "f_visible g")
      case False
      with g show ?thesis by blast
    next
      case True
      with 2 g obtain q g' h where "f_branch_parent g = Some q" "by_id fs q = Some g'"
        "(up fs)\<^sup>*\<^sup>* g' h" "\<not> f_visible h" by auto
      moreover from this have "up fs g g'" by (simp add: parent_of_def)
      ultimately show ?thesis using g by (blast intro: converse_rtranclp_into_rtranclp)
    qed
  qed
next
  assume "\<not> hide_walk fs seen p" "p = Some q" "by_id fs q = Some g" "(up fs)\<^sup>*\<^sup>* g h"
  then show "f_visible h \<or> f_id h = k" using assms
  proof (induction fs seen p arbitrary: q g rule: hide_walk.induct)
    case (1 fs seen)
    then show ?case by simp
  next
    case (2 fs seen p)
    then have g: "by_id fs p = Some g" "g \<in> set fs" "f_id g = p" by (auto dest: by_id_Some)
    show ?case
    proof (cases "f_id g \<in> seen")
      case True
      have "h \<in> set fs \<and> f_id h \<in> seen" using \<open>(up fs)\<^sup>*\<^sup>* g h\<close>
      proof (induction rule: rtranclp_induct)
        case base
        with g True show ?case by simp
      next
        case (step y z)
        have par: "f_branch_parent y = Some (f_id z)" "z \<in> set fs" "by_id fs (f_id z) = Some z"
          using step.hyps(2) parent_of_mem [OF step.hyps(2)] by (auto simp: parent_of_def)
        with step.IH "2.prems"(6) have "f_id z \<in> seen \<or> Some (f_id z) = Some p" by force
        with True g(3) par show ?case by auto
      qed
      with "2.prems"(7) show ?thesis by blast
    next
      case False
      then have vis: "f_visible g" and rec: "\<not> hide_walk fs (insert (f_id g) seen) (f_branch_parent g)"
        using "2.prems"(1) g by (auto split: if_splits)
      from \<open>(up fs)\<^sup>*\<^sup>* g h\<close> show ?thesis
      proof (cases rule: converse_rtranclpE)
        case base
        with vis show ?thesis by simp
      next
        case (step g')
        then obtain q where q: "f_branch_parent g = Some q" "by_id fs q = Some g'"
          by (auto simp: parent_of_def split: option.splits)
        have same: "x = g" if "x \<in> set fs" "f_id x = f_id g" for x
          using by_id_self [OF "2.prems"(5) that(1)] that g by simp
        show ?thesis
        proof (rule "2.IH" [OF g(1) False _ rec q step(2) "2.prems"(5)])
          show "\<not> \<not> f_visible g" using vis by simp
        next
          show "\<forall>x\<in>set fs. f_id x \<in> insert (f_id g) seen \<longrightarrow> (case f_branch_parent x of
              None \<Rightarrow> True | Some q \<Rightarrow> q \<in> insert (f_id g) seen \<or> by_id fs q = None
                \<or> Some q = f_branch_parent g)"
            using "2.prems"(6) g(3) same by (auto split: option.splits)
        next
          show "\<forall>x\<in>set fs. f_id x \<in> insert (f_id g) seen \<longrightarrow> f_visible x \<or> f_id x = k"
            using "2.prems"(7) vis same by auto
        qed
      qed
    qed
  qed
qed

lemma hide_walk_iff:
  assumes "distinct (map f_id fs)" "f \<in> set fs"
  shows "hide_walk fs {f_id f} (f_branch_parent f) \<Longrightarrow> hidden_above fs f"
    and "hidden_above fs f \<Longrightarrow> f_visible f \<Longrightarrow> hide_walk fs {f_id f} (f_branch_parent f)"
proof -
  have same: "x = f" if "x \<in> set fs" "f_id x = f_id f" for x
    using by_id_self [OF assms(1)] assms(2) that by (metis option.inject)
  have pre: "\<forall>x \<in> set fs. f_id x \<in> {f_id f} \<longrightarrow> (case f_branch_parent x of None \<Rightarrow> True
      | Some q \<Rightarrow> q \<in> {f_id f} \<or> by_id fs q = None \<or> Some q = f_branch_parent f)"
    "\<forall>x \<in> set fs. f_id x \<in> {f_id f} \<longrightarrow> f_visible x \<or> f_id x = f_id f"
    by (auto split: option.splits dest: same)
  note w = hide_walk_correct [OF assms(1) pre]
  show "hidden_above fs f" if "hide_walk fs {f_id f} (f_branch_parent f)"
  proof -
    from w(1) [OF that] obtain q g h where *: "f_branch_parent f = Some q" "by_id fs q = Some g"
      "(up fs)\<^sup>*\<^sup>* g h" "\<not> f_visible h" by blast
    then have "(up fs)\<^sup>+\<^sup>+ f h" by (auto simp: parent_of_def intro: rtranclp_into_tranclp2)
    with *(4) show ?thesis by (auto simp: hidden_above_def)
  qed
  show "hide_walk fs {f_id f} (f_branch_parent f)" if "hidden_above fs f" and "f_visible f"
  proof (rule ccontr)
    assume nw: "\<not> hide_walk fs {f_id f} (f_branch_parent f)"
    obtain h where fh: "(up fs)\<^sup>+\<^sup>+ f h" "\<not> f_visible h" using \<open>hidden_above fs f\<close> by (auto simp: hidden_above_def)
    then obtain g where g: "up fs f g" "(up fs)\<^sup>*\<^sup>* g h" by (auto dest: tranclpD)
    have hm: "h \<in> set fs" using fh(1) by (auto elim: tranclp.cases dest: parent_of_mem)
    from g(1) obtain q where "f_branch_parent f = Some q" "by_id fs q = Some g"
      by (auto simp: parent_of_def split: option.splits)
    from w(2) [OF nw this g(2)] \<open>\<not> f_visible h\<close> have "f_id h = f_id f" by simp
    with same hm \<open>\<not> f_visible h\<close> \<open>f_visible f\<close> show False by blast
  qed
qed

lemma by_id_map:
  assumes "\<And>f. f_id (m f) = f_id f"
  shows "by_id (map m fs) k = map_option m (by_id fs k)"
  using assms by (induction fs) (auto simp: by_id_def map_add_def split: option.splits)

lemma parent_of_map:
  assumes "\<And>f. f_id (m f) = f_id f" "\<And>f. f_branch_parent (m f) = f_branch_parent f"
  shows "parent_of (map m fs) (m f) = map_option m (parent_of fs f)"
  by (simp add: parent_of_def assms by_id_map split: option.split)

lemma up_map_tranclp:
  assumes m: "\<And>f. f_id (m f) = f_id f" "\<And>f. f_branch_parent (m f) = f_branch_parent f"
  shows "(up (map m fs))\<^sup>+\<^sup>+ (m f) z \<longleftrightarrow> (\<exists>y. z = m y \<and> (up fs)\<^sup>+\<^sup>+ f y)"
proof
  assume "(up (map m fs))\<^sup>+\<^sup>+ (m f) z"
  then show "\<exists>y. z = m y \<and> (up fs)\<^sup>+\<^sup>+ f y"
  proof (induction rule: tranclp_induct)
    case (base y)
    then show ?case by (auto simp: parent_of_map [OF m])
  next
    case (step y z)
    then obtain x where x: "y = m x" "(up fs)\<^sup>+\<^sup>+ f x" by blast
    with step.hyps(2) obtain w where "z = m w" "up fs x w" by (auto simp: parent_of_map [OF m])
    moreover from x(2) this(2) have "(up fs)\<^sup>+\<^sup>+ f w" by (rule tranclp.trancl_into_trancl)
    ultimately show ?case by blast
  qed
next
  assume "\<exists>y. z = m y \<and> (up fs)\<^sup>+\<^sup>+ f y"
  then obtain y where y: "z = m y" "(up fs)\<^sup>+\<^sup>+ f y" by blast
  from y(2) have "(up (map m fs))\<^sup>+\<^sup>+ (m f) (m y)"
  proof (induction rule: tranclp_induct)
    case (base y)
    then show ?case by (simp add: parent_of_map [OF m] tranclp.r_into_trancl)
  next
    case (step y z)
    have "up (map m fs) (m y) (m z)" using step.hyps(2) by (simp add: parent_of_map [OF m])
    with step.IH show ?case by (rule tranclp.trancl_into_trancl)
  qed
  with y(1) show "(up (map m fs))\<^sup>+\<^sup>+ (m f) z" by simp
qed

definition mark :: "response_field list \<Rightarrow> int set \<Rightarrow> response_field \<Rightarrow> response_field" where
  "mark fs K g = (if f_id g \<in> K \<and> hidden_above fs g then g\<lparr>f_visible := False\<rparr> else g)"

lemma mark_simps [simp]:
  "f_id (mark fs K g) = f_id g" "f_branch_parent (mark fs K g) = f_branch_parent g"
  "f_visible (mark fs K g) \<longleftrightarrow> f_visible g \<and> \<not> (f_id g \<in> K \<and> hidden_above fs g)"
  by (simp_all add: mark_def)

lemma hidden_above_mark: "hidden_above (map (mark fs K) fs) (mark fs K f) = hidden_above fs f"
proof -
  have "hidden_above (map (mark fs K) fs) (mark fs K f)
      = (\<exists>y. (up fs)\<^sup>+\<^sup>+ f y \<and> \<not> f_visible (mark fs K y))"
    unfolding hidden_above_def up_map_tranclp [of "mark fs K", OF mark_simps(1,2)] by blast
  then show ?thesis by (auto simp: hidden_above_def intro: tranclp_trans)
qed

lemma hide_step_mark:
  assumes "distinct (map f_id fs)" "f \<in> set fs"
  shows "hide_step (map (mark fs K) fs) f = map (mark fs (insert (f_id f) K)) fs"
proof -
  let ?gs = "map (mark fs K) fs"
  have d: "distinct (map f_id ?gs)" using assms(1) by (simp add: comp_def)
  have m: "mark fs K f \<in> set ?gs" using assms(2) by simp
  note walk = hide_walk_iff [OF d m, unfolded hidden_above_mark mark_simps]
  have same: "g = f" if "g \<in> set fs" "f_id g = f_id f" for g
    using by_id_self [OF assms(1)] assms(2) that by (metis option.inject)
  have eq: "g\<lparr>f_visible := False\<rparr> = g" if "\<not> f_visible g" for g :: response_field
    using that by simp
  show ?thesis
  proof (cases "hide_walk ?gs {f_id f} (f_branch_parent f)")
    case True
    with walk(1) have "hidden_above fs f" by blast
    with True show ?thesis
      by (auto simp: hide_step_def hide_field_def mark_def dest: same)
  next
    case False
    with walk(2) have "hidden_above fs f \<Longrightarrow> f_id f \<notin> K \<Longrightarrow> \<not> f_visible f" by blast
    with False show ?thesis
      by (auto simp: hide_step_def mark_def dest: same intro!: eq [symmetric])
  qed
qed

text \<open>
  \<open>hide_below_hidden_parents\<close> hides exactly the fields with a hidden field above them, at
  any depth: one pass in whatever order the fields come settles it, a loop of parents included.
\<close>

theorem hide_below_hidden_parents_exact:
  assumes "distinct (map f_id fs)"
  shows "hide_below_hidden_parents fs
       = map (\<lambda>f. if hidden_above fs f then f\<lparr>f_visible := False\<rparr> else f) fs"
proof -
  have "foldl hide_step (map (mark fs K) fs) gs = map (mark fs (K \<union> f_id ` set gs)) fs"
    if "set gs \<subseteq> set fs" for gs K
    using that by (induction gs arbitrary: K) (simp_all add: hide_step_mark [OF assms])
  from this [of fs "{}"] show ?thesis
    by (simp add: hide_below_hidden_parents_def mark_def cong: map_cong)
qed

lemma hide_below_hidden_parents_exact_witness:
  "map f_visible (hide_below_hidden_parents
      (butlast demo_fields @ [(last demo_fields)\<lparr>f_visible := False\<rparr>])) = [False, False, False]
   \<and> hidden_above (butlast demo_fields @ [(last demo_fields)\<lparr>f_visible := False\<rparr>]) (hd demo_fields)"
proof -
  let ?fs = "butlast demo_fields @ [(last demo_fields)\<lparr>f_visible := False\<rparr>]"
  have d: "distinct (map f_id ?fs)" by code_simp
  have r: "map f_visible (hide_below_hidden_parents ?fs) = [False, False, False]" by code_simp
  have v: "f_visible (hd demo_fields)" by code_simp
  have e: "?fs = hd demo_fields # tl ?fs" by code_simp
  have "hd (map f_visible (hide_below_hidden_parents ?fs)) = False" using r by simp
  then have "hidden_above ?fs (hd demo_fields)"
    using v unfolding hide_below_hidden_parents_exact [OF d]
    by (subst (asm) (2) e) (auto split: if_splits)
  with r show ?thesis by simp
qed

end
