(* ===== verification/Grouping.thy ===== *)
theory Grouping
  imports Branching
begin

text \<open>
  Group-scoped instruments: the boundary codec of \<open>app/services/instruments/_instrument_crud.py\<close>
  (\<open>group_kind\<close>), the pair-context lookup of \<open>app/services/relationships.py\<close>, and
  \<open>app/services/responses/_group_reconciliation.py\<close> (group keys, the fan-out of a group's
  answer, the clearing of groups that gained a member). A Python set of assignment pairs is a
  list here: its members in the order they were added.
\<close>

section \<open>The boundary codec\<close>

definition GROUP_KIND_SENTINEL :: string where "GROUP_KIND_SENTINEL = ''both''"

type_synonym boundary = "(string \<times> string) list"

definition GROUP_BOUNDARY_CODE_BY_SOURCE :: "((string \<times> string) \<times> string) list" where
  "GROUP_BOUNDARY_CODE_BY_SOURCE =
     [((''reviewee'', ''tag_1''), ''r1''), ((''reviewee'', ''tag_2''), ''r2''),
      ((''reviewee'', ''tag_3''), ''r3''), ((''pair_context'', ''1''), ''p1''),
      ((''pair_context'', ''2''), ''p2''), ((''pair_context'', ''3''), ''p3'')]"

definition GROUP_BOUNDARY_SOURCE_BY_CODE :: "(string \<times> (string \<times> string)) list" where
  "GROUP_BOUNDARY_SOURCE_BY_CODE = map (\<lambda>(p, c). (c, p)) GROUP_BOUNDARY_CODE_BY_SOURCE"

text \<open>\<open>if item is not None and item not in out: out.append(item)\<close>.\<close>

definition append_new :: "'a list \<Rightarrow> 'a option \<Rightarrow> 'a list" where
  "append_new out x = (case x of None \<Rightarrow> out | Some v \<Rightarrow> if v \<in> set out then out else out @ [v])"

fun join_char :: "char \<Rightarrow> string list \<Rightarrow> string" where
  "join_char d [] = []"
| "join_char d [p] = p"
| "join_char d (p # ps) = p @ d # join_char d ps"

definition encode_group_kind :: "boundary \<Rightarrow> string" where
  "encode_group_kind pairs =
     (let codes = foldl (\<lambda>codes p. append_new codes (map_of GROUP_BOUNDARY_CODE_BY_SOURCE p)) [] pairs
      in if codes \<noteq> [] then join_char CHR '','' codes else GROUP_KIND_SENTINEL)"

definition decode_group_kind :: "string option \<Rightarrow> boundary" where
  "decode_group_kind group_kind =
     (if or_empty group_kind = [] then []
      else foldl (\<lambda>pairs code. append_new pairs (map_of GROUP_BOUNDARY_SOURCE_BY_CODE (py_strip code)))
             [] (split_char CHR '','' (or_empty group_kind)))"

section \<open>Group keys\<close>

definition list_for_session :: "db \<Rightarrow> int \<Rightarrow> relationship list" where
  "list_for_session d sid =
     sort_key (\<lambda>r. (rel_reviewer r, rel_reviewee r)) (filter (\<lambda>r. rel_session r = sid) (relationships d))"

definition pair_context_lookup :: "db \<Rightarrow> int \<Rightarrow> int \<times> int \<Rightarrow> relationship option" where
  "pair_context_lookup d sid =
     dict_get (dict_of (\<lambda>r. (rel_reviewer r, rel_reviewee r)) id (list_for_session d sid))"

definition reviewer_by_id :: "db \<Rightarrow> int \<Rightarrow> reviewer option" where
  "reviewer_by_id d k = find (\<lambda>r. rr_id r = k) (reviewers d)"

definition reviewee_by_id :: "db \<Rightarrow> int \<Rightarrow> reviewee option" where
  "reviewee_by_id d k = find (\<lambda>r. re_id r = k) (reviewees d)"

text \<open>\<open>getattr(reviewee, source_field, None)\<close> and \<open>getattr(relationship, "tag_" + n, None)\<close>.\<close>

definition reviewee_tag :: "reviewee option \<Rightarrow> string \<Rightarrow> string option" where
  "reviewee_tag r fld = (case r of None \<Rightarrow> None | Some r \<Rightarrow>
     if fld = ''tag_1'' then re_tag1 r else if fld = ''tag_2'' then re_tag2 r
     else if fld = ''tag_3'' then re_tag3 r else None)"

definition relationship_tag :: "relationship \<Rightarrow> string \<Rightarrow> string option" where
  "relationship_tag r n =
     (if n = ''1'' then rel_tag1 r else if n = ''2'' then rel_tag2 r
      else if n = ''3'' then rel_tag3 r else None)"

definition group_key_for_pair ::
  "reviewee option \<Rightarrow> int \<Rightarrow> int \<Rightarrow> boundary \<Rightarrow> (int \<times> int \<Rightarrow> relationship option) \<Rightarrow> string list" where
  "group_key_for_pair reviewee reviewer_id reviewee_id boundary pairs =
     map (\<lambda>(source_type, source_field).
       py_strip (or_empty
         (if source_type = ''reviewee'' then reviewee_tag reviewee source_field
          else (case pairs (reviewer_id, reviewee_id) of
                  Some rel \<Rightarrow> if rel_status rel = ''active'' then relationship_tag rel source_field else None
                | None \<Rightarrow> None)))) boundary"

definition is_catch_all_key :: "string list \<Rightarrow> bool" where
  "is_catch_all_key key = (key \<noteq> [] \<and> list_all (\<lambda>part. part = []) key)"

definition group_instrument_ids :: "db \<Rightarrow> int set \<Rightarrow> int set" where
  "group_instrument_ids d ids =
     i_id ` set (filter (\<lambda>i. i_id i \<in> ids \<and> i_group_kind i \<noteq> None) (instruments d))"

definition boundary_of :: "db \<Rightarrow> int \<Rightarrow> boundary" where
  "boundary_of d iid = (case find (\<lambda>i. i_id i = iid) (instruments d) of
       None \<Rightarrow> [] | Some i \<Rightarrow> decode_group_kind (i_group_kind i))"

text \<open>
  \<open>_group_key_by_assignment\<close>: absent (\<open>None\<close>) for an assignment on a per-reviewee
  instrument. The relationships are read only when some boundary needs them.
\<close>

definition group_key_by_assignment ::
  "db \<Rightarrow> assignment list \<Rightarrow> int set \<Rightarrow> int \<Rightarrow> int \<Rightarrow> string list option" where
  "group_key_by_assignment d assigned gids sid =
     (let needs = (\<exists>iid \<in> gids. list_ex (\<lambda>(t, _). t = ''pair_context'') (boundary_of d iid));
          pairs = (if needs then pair_context_lookup d sid else Map.empty)
      in dict_get (dict_of a_id
            (\<lambda>a. group_key_for_pair (reviewee_by_id d (a_reviewee a)) (a_reviewer a) (a_reviewee a)
                   (boundary_of d (a_instrument a)) pairs)
            (filter (\<lambda>a. a_instrument a \<in> gids) assigned)))"

definition group_keys :: "db \<Rightarrow> assignment list \<Rightarrow> int \<Rightarrow> int \<Rightarrow> string list option" where
  "group_keys d assigned sid =
     group_key_by_assignment d assigned (group_instrument_ids d (a_instrument ` set assigned)) sid"

definition session_position_map :: "db \<Rightarrow> int \<Rightarrow> int \<Rightarrow> nat option" where
  "session_position_map d sid =
     (let ordered = sort_key (\<lambda>i. (i_order i, i_id i)) (session_instruments d sid)
      in dict_get (dict_of fst snd (zip (map i_id ordered) [1..<Suc (length ordered)])))"

section \<open>The groups of an instrument\<close>

type_synonym pair = "int \<times> int"

abbreviation pair_of :: "assignment \<Rightarrow> pair" where
  "pair_of a \<equiv> (a_reviewer a, a_reviewee a)"

definition instrument_members :: "db \<Rightarrow> int \<Rightarrow> assignment list" where
  "instrument_members d iid = filter (\<lambda>a. a_instrument a = iid) (assignments d)"

definition instrument_groups ::
  "db \<Rightarrow> int \<Rightarrow> int \<Rightarrow> pair list list \<times> (pair \<Rightarrow> int option)" where
  "instrument_groups d sid iid =
     (let members = instrument_members d iid;
          ids = dict_of pair_of a_id members;
          keys = group_keys d members sid
      in if list_all (\<lambda>m. keys (a_id m) = None) members
         then (map (\<lambda>p. [p]) (dict_keys ids), dict_get ids)
         else (map snd (group_into (\<lambda>m. (a_reviewer m, the (keys (a_id m)))) pair_of members),
               dict_get ids))"

definition session_group_instrument_ids :: "db \<Rightarrow> int \<Rightarrow> string option \<Rightarrow> int set" where
  "session_group_instrument_ids d sid source_type =
     i_id ` set (filter (\<lambda>i. i_session i = sid \<and> i_group_kind i \<noteq> None \<and>
        (case source_type of None \<Rightarrow> True
         | Some t \<Rightarrow> list_ex (\<lambda>(kind, _). kind = t) (decode_group_kind (i_group_kind i))))
       (instruments d))"

type_synonym partitions = "(int \<times> pair list list) list"

text \<open>The instruments of the set that hold an answer, each with its groups as they are now.\<close>

definition snapshot_group_partitions :: "db \<Rightarrow> int \<Rightarrow> int set \<Rightarrow> partitions" where
  "snapshot_group_partitions d sid ids =
     (let answered = remdups (map a_instrument (filter
            (\<lambda>a. a_instrument a \<in> ids \<and> list_ex (\<lambda>r. r_assignment r = a_id a) (responses d))
            (assignments d)))
      in map (\<lambda>iid. (iid, fst (instrument_groups d sid iid))) answered)"

text \<open>\<open>{pair: group for group in before for pair in group}\<close>.\<close>

definition origins :: "pair list list \<Rightarrow> pair \<Rightarrow> pair list option" where
  "origins before = dict_get (dict_of fst snd (concat (map (\<lambda>g. map (\<lambda>p. (p, g)) g) before)))"

text \<open>\<open>next(iter(group))\<close> is any member: here the first.\<close>

definition keeps_answer :: "pair list \<Rightarrow> (pair \<Rightarrow> pair list option) \<Rightarrow> bool" where
  "keeps_answer grp origin_of =
     (case grp of [] \<Rightarrow> True
      | p # _ \<Rightarrow> (case origin_of p of None \<Rightarrow> False | Some origin \<Rightarrow> set grp \<subseteq> set origin))"

definition changed_assignments :: "db \<Rightarrow> int \<Rightarrow> partitions \<Rightarrow> int set" where
  "changed_assignments d sid before =
     (\<Union>(iid, groups) \<in> set before.
        let origin_of = origins groups; (after, ids) = instrument_groups d sid iid
        in (\<Union>g \<in> set (filter (\<lambda>g. \<not> keeps_answer g origin_of) after). (\<lambda>p. the (ids p)) ` set g))"

definition clear_changed_groups ::
  "db \<Rightarrow> int \<Rightarrow> partitions \<Rightarrow> nat option \<Rightarrow> (db \<times> nat) result" where
  "clear_changed_groups d sid before acknowledged_loss =
     (let changed = changed_assignments d sid before;
          count = length (filter (\<lambda>r. r_assignment r \<in> changed) (responses d)) in
      if changed = {} then Inr (d, 0)
      else bindE (case acknowledged_loss of None \<Rightarrow> Inr ()
             | Some ack \<Rightarrow> if count \<noteq> 0 \<and> count \<noteq> ack then Inl (GroupAnswersWouldClear count) else Inr ())
           (\<lambda>_. Inr (d\<lparr>responses := filter (\<lambda>r. r_assignment r \<notin> changed) (responses d)\<rparr>, count)))"

section \<open>The write fan-out\<close>

record upsert =
  u_assignment :: int
  u_field_key :: string
  u_value :: string

type_synonym group_cell = "int \<times> string list \<times> string"

text \<open>\<open>keys.get(id, ())\<close>.\<close>

definition or_nil :: "'a list option \<Rightarrow> 'a list" where
  "or_nil v = (case v of None \<Rightarrow> [] | Some l \<Rightarrow> l)"

definition fan_instrument :: "assignment list \<Rightarrow> int \<Rightarrow> int option" where
  "fan_instrument assigned = dict_get (dict_of a_id a_instrument assigned)"

definition fan_is_group :: "assignment list \<Rightarrow> int set \<Rightarrow> upsert \<Rightarrow> bool" where
  "fan_is_group assigned gids u = (case fan_instrument assigned (u_assignment u) of
     None \<Rightarrow> False | Some iid \<Rightarrow> iid \<in> gids)"

definition fan_cell ::
  "assignment list \<Rightarrow> (int \<Rightarrow> string list option) \<Rightarrow> upsert \<Rightarrow> group_cell" where
  "fan_cell assigned keys u =
     (the (fan_instrument assigned (u_assignment u)), or_nil (keys (u_assignment u)), u_field_key u)"

definition members_by_group ::
  "assignment list \<Rightarrow> int set \<Rightarrow> (int \<Rightarrow> string list option) \<Rightarrow> int \<times> string list \<Rightarrow> int list" where
  "members_by_group assigned gids keys k = or_nil (dict_get
     (group_into (\<lambda>a. (a_instrument a, or_nil (keys (a_id a)))) a_id
        (filter (\<lambda>a. a_instrument a \<in> gids) assigned)) k)"

definition fan_out ::
  "(int \<times> string list \<Rightarrow> int list) \<Rightarrow> group_cell \<times> string \<Rightarrow> upsert list" where
  "fan_out members c = (case c of ((iid, gk, fk), v) \<Rightarrow>
     map (\<lambda>m. \<lparr>u_assignment = m, u_field_key = fk, u_value = v\<rparr>) (members (iid, gk)))"

definition expand_group_upserts ::
  "upsert list \<Rightarrow> assignment list \<Rightarrow> int set \<Rightarrow> (int \<Rightarrow> string list option) \<Rightarrow> upsert list" where
  "expand_group_upserts upserts assigned gids keys =
     (if gids = {} then upserts
      else filter (\<lambda>u. \<not> fan_is_group assigned gids u) upserts @
           concat (map (fan_out (members_by_group assigned gids keys))
             (dict_of (fan_cell assigned keys) u_value
                (filter (fan_is_group assigned gids) upserts))))"

section \<open>Codec facts\<close>

definition firsts :: "'a list \<Rightarrow> 'a list" where
  "firsts xs = foldl (\<lambda>out x. append_new out (Some x)) [] xs"

lemma append_new_None [simp]: "append_new out None = out"
  by (simp add: append_new_def)

lemma firsts_snoc: "firsts (xs @ [x]) = (if x \<in> set xs then firsts xs else firsts xs @ [x])"
proof -
  have "set (firsts xs) = set xs" for xs :: "'a list"
    by (induction xs rule: rev_induct) (auto simp: firsts_def append_new_def)
  then show ?thesis by (simp add: firsts_def append_new_def)
qed

lemma firsts_Nil [simp]: "firsts [] = []"
  by (simp add: firsts_def)

lemma set_firsts [simp]: "set (firsts xs) = set xs"
  by (induction xs rule: rev_induct) (auto simp: firsts_snoc)

lemma distinct_firsts [simp]: "distinct (firsts xs)"
  by (induction xs rule: rev_induct) (auto simp: firsts_snoc)

lemma firsts_distinct: "distinct xs \<Longrightarrow> firsts xs = xs"
  by (induction xs rule: rev_induct) (auto simp: firsts_snoc)

lemma foldl_append_new:
  "foldl (\<lambda>out x. append_new out (g x)) [] xs = firsts (map (\<lambda>x. the (g x)) (filter (\<lambda>x. g x \<noteq> None) xs))"
  by (induction xs rule: rev_induct) (auto simp: firsts_snoc firsts_def append_new_def split: option.splits)

lemma firsts_map_inj: "inj_on h (set xs) \<Longrightarrow> firsts (map h xs) = map h (firsts xs)"
proof (induction xs rule: rev_induct)
  case Nil
  then show ?case by simp
next
  case (snoc x xs)
  then have "h x \<in> h ` set xs \<longleftrightarrow> x \<in> set xs" by (auto simp: inj_on_def)
  with snoc show ?case by (simp add: firsts_snoc inj_on_def)
qed

lemma split_char_plain: "d \<notin> set p \<Longrightarrow> split_char d p = [p]"
  by (induction p) auto

lemma split_char_append: "d \<notin> set p \<Longrightarrow> split_char d (p @ d # rest) = p # split_char d rest"
  by (induction p) auto

lemma split_join: "ps \<noteq> [] \<Longrightarrow> \<forall>p \<in> set ps. d \<notin> set p \<Longrightarrow> split_char d (join_char d ps) = ps"
  by (induction d ps rule: join_char.induct) (auto simp: split_char_plain split_char_append)

lemma join_char_nonempty: "ps \<noteq> [] \<Longrightarrow> hd ps \<noteq> [] \<Longrightarrow> join_char d ps \<noteq> []"
  by (induction d ps rule: join_char.induct) auto

abbreviation eligible :: "string \<times> string \<Rightarrow> bool" where
  "eligible p \<equiv> map_of GROUP_BOUNDARY_CODE_BY_SOURCE p \<noteq> None"

lemma boundary_code:
  assumes "map_of GROUP_BOUNDARY_CODE_BY_SOURCE p = Some c"
  shows "map_of GROUP_BOUNDARY_SOURCE_BY_CODE (py_strip c) = Some p" "CHR '','' \<notin> set c" "c \<noteq> []"
proof -
  have "(p, c) \<in> set GROUP_BOUNDARY_CODE_BY_SOURCE" using assms by (rule map_of_SomeD)
  moreover have "list_all (\<lambda>(p, c). map_of GROUP_BOUNDARY_SOURCE_BY_CODE (py_strip c) = Some p
      \<and> CHR '','' \<notin> set c \<and> c \<noteq> []) GROUP_BOUNDARY_CODE_BY_SOURCE" by code_simp
  ultimately show "map_of GROUP_BOUNDARY_SOURCE_BY_CODE (py_strip c) = Some p" "CHR '','' \<notin> set c" "c \<noteq> []"
    by (auto simp: list_all_iff)
qed

lemma decode_encode_firsts:
  "decode_group_kind (Some (encode_group_kind ps)) = firsts (filter eligible ps)"
proof -
  define code where "code = (\<lambda>p. the (map_of GROUP_BOUNDARY_CODE_BY_SOURCE p))"
  define D where "D = firsts (filter eligible ps)"
  have inv: "map_of GROUP_BOUNDARY_SOURCE_BY_CODE (py_strip (code p)) = Some p"
    and cm: "CHR '','' \<notin> set (code p)" and ne: "code p \<noteq> []" if "eligible p" for p
    using that boundary_code [of p] by (auto simp: code_def)
  have "inj_on code (set (filter eligible ps))"
  proof (rule inj_onI)
    fix x y assume "x \<in> set (filter eligible ps)" "y \<in> set (filter eligible ps)" and eq: "code x = code y"
    then have "eligible x" "eligible y" by simp_all
    then have "Some x = Some y" using inv eq by (metis (no_types))
    then show "x = y" by simp
  qed
  then have codes: "foldl (\<lambda>codes p. append_new codes (map_of GROUP_BOUNDARY_CODE_BY_SOURCE p)) [] ps
      = map code D"
    unfolding foldl_append_new code_def D_def by (rule firsts_map_inj)
  have el: "\<forall>p \<in> set D. eligible p" by (simp add: D_def)
  show ?thesis
  proof (cases "D = []")
    case True
    have "decode_group_kind (Some GROUP_KIND_SENTINEL) = []" by code_simp
    with True codes have "decode_group_kind (Some (encode_group_kind ps)) = D"
      by (simp add: encode_group_kind_def)
    then show ?thesis by (simp only: D_def)
  next
    case False
    then have split: "split_char CHR '','' (join_char CHR '','' (map code D)) = map code D"
      using el cm by (intro split_join) auto
    then have "join_char CHR '','' (map code D) \<noteq> []"
      using el ne by (intro join_char_nonempty) (use False in \<open>cases D; simp\<close>)+
    then have "decode_group_kind (Some (encode_group_kind ps))
        = firsts (map (\<lambda>c. the (map_of GROUP_BOUNDARY_SOURCE_BY_CODE (py_strip c)))
            (filter (\<lambda>c. map_of GROUP_BOUNDARY_SOURCE_BY_CODE (py_strip c) \<noteq> None) (map code D)))"
      using False codes split
      by (simp add: decode_group_kind_def encode_group_kind_def foldl_append_new)
    also have "\<dots> = firsts D"
      using el inv by (simp add: filter_map comp_def cong: filter_cong map_cong)
    finally show ?thesis by (simp add: D_def firsts_distinct)
  qed
qed

text \<open>
  Storing an instrument's group boundary and reading it back gives the boundary tags that
  were stored, in order, each once; the "no boundary" sentinel reads back as no tag.
\<close>

theorem group_kind_roundtrip:
  "decode_group_kind (Some (encode_group_kind ps))
     = firsts (filter (\<lambda>p. map_of GROUP_BOUNDARY_CODE_BY_SOURCE p \<noteq> None) ps)"
  by (rule decode_encode_firsts)


section \<open>The fan-out reaches the group, once\<close>

lemma dict_of_get_distinct:
  "distinct (map key xs) \<Longrightarrow> x \<in> set xs \<Longrightarrow> dict_get (dict_of key val xs) (key x) = Some (val x)"
proof -
  assume d: "distinct (map key xs)" "x \<in> set xs"
  then have "filter (\<lambda>y. key y = key x) xs = [x]"
    by (induction xs) (auto simp: filter_empty_conv image_iff)
  then show ?thesis by (simp add: dict_of_get)
qed

lemma dict_of_get_None: "dict_get (dict_of key val xs) k = None \<longleftrightarrow> k \<notin> key ` set xs"
  by (auto simp: dict_of_get Let_def filter_empty_conv)

lemma filter_single: "distinct xs \<Longrightarrow> x \<in> set xs \<Longrightarrow> filter (\<lambda>m. m = x) xs = [x]"
  by (induction xs) (auto simp: filter_empty_conv)

lemma filter_concat_map:
  "filter P (concat (map f xs)) = concat (map (\<lambda>x. filter P (f x)) xs)"
  by (induction xs) simp_all

lemma concat_single:
  assumes "distinct (map fst xs)" "\<And>x. x \<in> set xs \<Longrightarrow> fst x \<noteq> k \<Longrightarrow> f x = []"
  shows "concat (map f xs) = (case map_of xs k of None \<Rightarrow> [] | Some v \<Rightarrow> f (k, v))"
  using assms
proof (induction xs)
  case Nil
  then show ?case by simp
next
  case (Cons x xs)
  show ?case
  proof (cases "fst x = k")
    case True
    then have "map_of xs k = None" using Cons.prems(1) by (auto simp: map_of_eq_None_iff)
    moreover have "concat (map f xs) = (case map_of xs k of None \<Rightarrow> [] | Some v \<Rightarrow> f (k, v))"
      by (rule Cons.IH) (use Cons.prems in auto)
    ultimately show ?thesis using True by (cases x) simp
  next
    case False
    have "concat (map f xs) = (case map_of xs k of None \<Rightarrow> [] | Some v \<Rightarrow> f (k, v))"
      by (rule Cons.IH) (use Cons.prems in auto)
    with False Cons.prems(2) [of x] show ?thesis by (cases x) simp
  qed
qed

definition same_group :: "(int \<Rightarrow> string list option) \<Rightarrow> assignment \<Rightarrow> assignment \<Rightarrow> bool" where
  "same_group keys a b = (a_instrument a = a_instrument b \<and> or_nil (keys (a_id a)) = or_nil (keys (a_id b)))"

lemma fan_instrument_Some:
  "distinct (map a_id assigned) \<Longrightarrow> b \<in> set assigned \<Longrightarrow> fan_instrument assigned (a_id b) = Some (a_instrument b)"
  unfolding fan_instrument_def by (rule dict_of_get_distinct)

lemma fan_instrument_None: "fan_instrument assigned k = None \<longleftrightarrow> k \<notin> a_id ` set assigned"
  unfolding fan_instrument_def by (rule dict_of_get_None)

lemma fan_instrument_mem:
  assumes "fan_instrument assigned k = Some iid"
  shows "\<exists>a \<in> set assigned. a_id a = k \<and> a_instrument a = iid"
proof -
  have ne: "filter (\<lambda>a. a_id a = k) assigned \<noteq> []"
    and iid: "iid = a_instrument (last (filter (\<lambda>a. a_id a = k) assigned))"
    using assms by (auto simp: fan_instrument_def dict_of_get Let_def split: if_splits)
  have "last (filter (\<lambda>a. a_id a = k) assigned) \<in> set (filter (\<lambda>a. a_id a = k) assigned)"
    using ne by (rule last_in_set)
  with iid show ?thesis by auto
qed

lemma members_by_group_eq:
  "members_by_group assigned gids keys (iid, gk) = map a_id (filter
     (\<lambda>a. a_instrument a \<in> gids \<and> a_instrument a = iid \<and> or_nil (keys (a_id a)) = gk) assigned)"
  by (auto simp: members_by_group_def group_into_get Let_def or_nil_def)

lemma expand_plain:
  assumes "\<And>a. a \<in> set assigned \<Longrightarrow> a_id a = k \<Longrightarrow> a_instrument a \<notin> gids"
  shows "filter (\<lambda>u. u_assignment u = k) (expand_group_upserts ups assigned gids keys)
     = filter (\<lambda>u. u_assignment u = k) ups"
proof -
  have "u_assignment u = k \<Longrightarrow> \<not> fan_is_group assigned gids u" for u
    using assms by (auto simp: fan_is_group_def dest: fan_instrument_mem split: option.splits)
  then have "filter (\<lambda>u. u_assignment u = k) (filter (\<lambda>u. \<not> fan_is_group assigned gids u) ups)
      = filter (\<lambda>u. u_assignment u = k) ups"
    unfolding filter_filter by (intro filter_cong) auto
  moreover have "filter (\<lambda>u. u_assignment u = k) (fan_out (members_by_group assigned gids keys) c) = []" for c
    using assms by (auto simp: fan_out_def members_by_group_eq filter_empty_conv split: prod.splits)
  ultimately show ?thesis by (simp add: expand_group_upserts_def filter_concat_map)
qed

lemma expand_group_member:
  assumes dist: "distinct (map a_id assigned)" and a: "a \<in> set assigned" "a_instrument a \<in> gids"
  shows "filter (\<lambda>u. u_assignment u = a_id a \<and> u_field_key u = fk) (expand_group_upserts ups assigned gids keys)
     = (let posts = filter (\<lambda>u. u_field_key u = fk
              \<and> (\<exists>b \<in> set assigned. a_id b = u_assignment u \<and> same_group keys b a)) ups
        in if posts = [] then []
           else [\<lparr>u_assignment = a_id a, u_field_key = fk, u_value = u_value (last posts)\<rparr>])"
proof -
  define isg where "isg = fan_is_group assigned gids"
  define cell where "cell = fan_cell assigned keys"
  define gv where "gv = dict_of cell u_value (filter isg ups)"
  define fan where "fan = fan_out (members_by_group assigned gids keys)"
  let ?P = "\<lambda>u. u_assignment u = a_id a \<and> u_field_key u = fk"
  let ?k = "(a_instrument a, or_nil (keys (a_id a)), fk)"
  note inst = fan_instrument_Some [OF dist]
  have same: "b = c" if "b \<in> set assigned" "c \<in> set assigned" "a_id b = a_id c" for b c
    using dist that by (auto simp: distinct_map inj_on_def)
  have exp: "expand_group_upserts ups assigned gids keys
      = filter (\<lambda>u. \<not> isg u) ups @ concat (map fan gv)"
    using a(2) by (auto simp: expand_group_upserts_def isg_def cell_def gv_def fan_def)
  have "filter ?P (filter (\<lambda>u. \<not> isg u) ups) = []"
    using inst [OF a(1)] a(2) by (auto simp: filter_empty_conv isg_def fan_is_group_def)
  moreover have "filter ?P (fan c) = []" if "fst c \<noteq> ?k" for c
  proof -
    obtain iid gk f v where c: "c = ((iid, gk, f), v)" by (cases c) auto
    have "f = fk \<Longrightarrow> a_id a \<notin> set (members_by_group assigned gids keys (iid, gk))"
      using that c same [OF _ a(1)] by (auto simp: members_by_group_eq)
    then show ?thesis by (auto simp: c fan_def fan_out_def filter_empty_conv)
  qed
  then have "filter ?P (concat (map fan gv))
      = (case map_of gv ?k of None \<Rightarrow> [] | Some v \<Rightarrow> filter ?P (fan (?k, v)))"
    unfolding filter_concat_map
    by (rule concat_single [OF dict_of_keys(2) [of cell u_value "filter isg ups",
            folded gv_def, unfolded dict_keys_def]])
  moreover have "filter ?P (fan (?k, v)) = [\<lparr>u_assignment = a_id a, u_field_key = fk, u_value = v\<rparr>]" for v
  proof -
    define ms where "ms = members_by_group assigned gids keys (a_instrument a, or_nil (keys (a_id a)))"
    have "a_id a \<in> set ms" "distinct ms"
      using a dist by (auto simp: ms_def members_by_group_eq distinct_map_filter)
    moreover have "filter ?P (fan (?k, v))
        = map (\<lambda>m. \<lparr>u_assignment = m, u_field_key = fk, u_value = v\<rparr>) (filter (\<lambda>m. m = a_id a) ms)"
      by (simp add: fan_def fan_out_def filter_map comp_def flip: ms_def)
    ultimately show ?thesis by (simp add: filter_single)
  qed
  moreover have "map_of gv ?k = (let posts = filter (\<lambda>u. cell u = ?k) (filter isg ups) in
      if posts = [] then None else Some (u_value (last posts)))"
    unfolding gv_def by (rule dict_of_get [unfolded dict_get_def])
  moreover have "filter (\<lambda>u. cell u = ?k) (filter isg ups)
      = filter (\<lambda>u. u_field_key u = fk
              \<and> (\<exists>b \<in> set assigned. a_id b = u_assignment u \<and> same_group keys b a)) ups"
    unfolding filter_filter
  proof (rule filter_cong [OF refl])
    fix u
    show "(isg u \<and> cell u = ?k) = (u_field_key u = fk
        \<and> (\<exists>b \<in> set assigned. a_id b = u_assignment u \<and> same_group keys b a))"
    proof (cases "u_assignment u \<in> a_id ` set assigned")
      case False
      then have "\<not> isg u" by (simp add: isg_def fan_is_group_def fan_instrument_None [THEN iffD2])
      with False show ?thesis by (metis image_eqI)
    next
      case True
      then obtain b where b: "b \<in> set assigned" "u_assignment u = a_id b" by auto
      have "(\<exists>c \<in> set assigned. a_id c = u_assignment u \<and> same_group keys c a) = same_group keys b a"
        using b same by metis
      then show ?thesis using a(2) inst [OF b(1)]
        by (auto simp: isg_def cell_def fan_is_group_def fan_cell_def same_group_def b(2))
    qed
  qed
  ultimately show ?thesis by (simp add: exp Let_def)
qed


text \<open>
  C4. The write fan-out: every row of a group gets exactly one write per answered field, the
  last value posted for any member of the same group, and a field nobody in the group posted
  is not written; rows outside group-scoped instruments get what was posted for them, in order.
\<close>

theorem expand_group_upserts_exact:
  assumes "distinct (map a_id assigned)" and "a \<in> set assigned"
  shows "filter (\<lambda>u. u_assignment u = a_id a \<and> u_field_key u = fk)
           (expand_group_upserts ups assigned gids keys)
     = (if a_instrument a \<in> gids then
          (let posts = filter (\<lambda>u. u_field_key u = fk
                 \<and> (\<exists>b \<in> set assigned. a_id b = u_assignment u \<and> same_group keys b a)) ups
           in if posts = [] then []
              else [\<lparr>u_assignment = a_id a, u_field_key = fk, u_value = u_value (last posts)\<rparr>])
        else filter (\<lambda>u. u_assignment u = a_id a \<and> u_field_key u = fk) ups)"
proof (cases "a_instrument a \<in> gids")
  case True
  then show ?thesis using expand_group_member [OF assms] by simp
next
  case False
  have "b = a" if "b \<in> set assigned" "a_id b = a_id a" for b
    using assms that by (auto simp: distinct_map inj_on_def)
  then have "filter (\<lambda>u. u_assignment u = a_id a) (expand_group_upserts ups assigned gids keys)
     = filter (\<lambda>u. u_assignment u = a_id a) ups"
    using False by (intro expand_plain) auto
  from arg_cong [OF this, of "filter (\<lambda>u. u_field_key u = fk)"] show ?thesis
    using False by (simp add: conj_commute)
qed

definition demo_assignment :: "int \<Rightarrow> int \<Rightarrow> int \<Rightarrow> assignment" where
  "demo_assignment k reviewee iid =
     \<lparr>a_id = k, a_session = 1, a_reviewer = 1, a_reviewee = reviewee, a_instrument = iid,
      a_include = True, a_self_review = False\<rparr>"

definition demo_assigned :: "assignment list" where
  "demo_assigned = [demo_assignment 1 1 7, demo_assignment 2 2 7, demo_assignment 3 3 7,
     demo_assignment 4 1 8]"

definition demo_keys :: "int \<Rightarrow> string list option" where
  "demo_keys = Map.empty(1 \<mapsto> [''red''], 2 \<mapsto> [''red''], 3 \<mapsto> [''blue''])"

definition demo_upserts :: "upsert list" where
  "demo_upserts = [\<lparr>u_assignment = 1, u_field_key = ''q'', u_value = ''old''\<rparr>,
     \<lparr>u_assignment = 2, u_field_key = ''q'', u_value = ''new''\<rparr>,
     \<lparr>u_assignment = 4, u_field_key = ''q'', u_value = ''own''\<rparr>]"

lemma expand_group_upserts_exact_witness:
  "filter (\<lambda>u. u_assignment u = 1 \<and> u_field_key u = ''q'')
       (expand_group_upserts demo_upserts demo_assigned {7} demo_keys)
     = [\<lparr>u_assignment = 1, u_field_key = ''q'', u_value = ''new''\<rparr>]"
proof -
  have d: "distinct (map a_id demo_assigned)" by code_simp
  have a: "demo_assignment 1 1 7 \<in> set demo_assigned" "a_id (demo_assignment 1 1 7) = 1"
    by (simp_all add: demo_assigned_def demo_assignment_def)
  show ?thesis
    using expand_group_upserts_exact [OF d a(1), of "''q''" demo_upserts "{7}" demo_keys]
    unfolding a(2)
    by (simp add: demo_upserts_def demo_assigned_def demo_assignment_def demo_keys_def
        same_group_def or_nil_def Let_def)
qed


section \<open>Which groups keep their answers\<close>

definition group_of :: "db \<Rightarrow> int \<Rightarrow> assignment \<Rightarrow> pair set" where
  "group_of d sid a =
     (let ms = instrument_members d (a_instrument a); keys = group_keys d ms sid in
      if keys (a_id a) = None then {pair_of a}
      else pair_of ` {m \<in> set ms. a_reviewer m = a_reviewer a \<and> keys (a_id m) = keys (a_id a)})"

text \<open>The primary key of the assignments, and one assignment per pair on an instrument.\<close>

definition keyed_assignments :: "db \<Rightarrow> bool" where
  "keyed_assignments d = (distinct (map a_id (assignments d))
     \<and> distinct (map (\<lambda>a. (a_instrument a, pair_of a)) (assignments d)))"

lemma members_distinct:
  assumes "keyed_assignments d"
  shows "distinct (map a_id (instrument_members d iid))" "distinct (map pair_of (instrument_members d iid))"
proof -
  show "distinct (map a_id (instrument_members d iid))"
    using assms by (simp add: keyed_assignments_def instrument_members_def distinct_map_filter)
  have "distinct (map (\<lambda>a. (a_instrument a, pair_of a)) (instrument_members d iid))"
    using assms by (simp add: keyed_assignments_def instrument_members_def distinct_map_filter)
  moreover have "map (\<lambda>a. (a_instrument a, pair_of a)) (instrument_members d iid)
      = map (Pair iid) (map pair_of (instrument_members d iid))"
    by (simp add: instrument_members_def)
  ultimately show "distinct (map pair_of (instrument_members d iid))"
    by (auto simp: distinct_map inj_on_def)
qed

lemma group_keys_uniform:
  assumes "m \<in> set (instrument_members d iid)"
  shows "group_keys d (instrument_members d iid) sid (a_id m) = None
     \<longleftrightarrow> iid \<notin> group_instrument_ids d (a_instrument ` set (instrument_members d iid))"
  using assms
  by (auto simp: group_keys_def group_key_by_assignment_def Let_def dict_of_get_None
      instrument_members_def image_iff)

lemma instrument_groups_sets:
  assumes "keyed_assignments d"
  shows "set ` set (fst (instrument_groups d sid iid)) = group_of d sid ` set (instrument_members d iid)"
    and "[] \<notin> set (fst (instrument_groups d sid iid))"
proof -
  define ms where "ms = instrument_members d iid"
  define keys where "keys = group_keys d ms sid"
  have inst: "a_instrument m = iid" if "m \<in> set ms" for m
    using that by (simp add: ms_def instrument_members_def)
  have uni: "keys (a_id m) = None \<longleftrightarrow> iid \<notin> group_instrument_ids d (a_instrument ` set ms)"
    if "m \<in> set ms" for m
    using group_keys_uniform that unfolding keys_def ms_def by blast
  have go: "group_of d sid m = (if keys (a_id m) = None then {pair_of m}
      else pair_of ` {n \<in> set ms. a_reviewer n = a_reviewer m \<and> keys (a_id n) = keys (a_id m)})"
    if "m \<in> set ms" for m
    using inst [OF that] by (simp add: group_of_def Let_def keys_def ms_def)
  have "set ` set (fst (instrument_groups d sid iid)) = group_of d sid ` set ms
      \<and> [] \<notin> set (fst (instrument_groups d sid iid))"
  proof (cases "list_all (\<lambda>m. keys (a_id m) = None) ms")
    case True
    then have "fst (instrument_groups d sid iid) = map (\<lambda>p. [p]) (dict_keys (dict_of pair_of a_id ms))"
      by (simp add: instrument_groups_def Let_def keys_def ms_def)
    moreover have "group_of d sid ` set ms = (\<lambda>m. {pair_of m}) ` set ms"
      using True go by (intro image_cong) (auto simp: list_all_iff)
    ultimately show ?thesis by (auto simp: dict_of_keys image_image)
  next
    case False
    define key where "key = (\<lambda>m :: assignment. (a_reviewer m, the (keys (a_id m))))"
    define g where "g = group_into key pair_of ms"
    have some: "keys (a_id m) \<noteq> None" if "m \<in> set ms" for m
      using False uni that by (auto simp: list_all_iff)
    have fst_g: "fst (instrument_groups d sid iid) = map snd g"
      using False by (simp add: instrument_groups_def Let_def keys_def ms_def g_def key_def)
    have "(k, l) \<in> set g \<longleftrightarrow> k \<in> key ` set ms \<and> l = map pair_of (filter (\<lambda>m. key m = k) ms)" for k l
      unfolding dict_items [OF group_into_keys(2) [of key pair_of ms, folded g_def]]
      by (auto simp: g_def group_into_get Let_def filter_empty_conv)
    then have "c \<in> set g \<longleftrightarrow> c \<in> (\<lambda>m. (key m, map pair_of (filter (\<lambda>n. key n = key m) ms))) ` set ms" for c
      by (cases c) (simp only: image_iff prod.inject, blast)
    then have g_set: "set g = (\<lambda>m. (key m, map pair_of (filter (\<lambda>n. key n = key m) ms))) ` set ms"
      by blast
    have eqk: "keys (a_id n) = keys (a_id m) \<longleftrightarrow> the (keys (a_id n)) = the (keys (a_id m))"
      if "m \<in> set ms" "n \<in> set ms" for m n
      using some [OF that(1)] some [OF that(2)] by auto
    have "group_of d sid m = set (map pair_of (filter (\<lambda>n. key n = key m) ms))" if m: "m \<in> set ms" for m
    proof -
      have "{n \<in> set ms. a_reviewer n = a_reviewer m \<and> keys (a_id n) = keys (a_id m)}
          = set (filter (\<lambda>n. key n = key m) ms)"
        using eqk [OF m] by (auto simp: key_def)
      then show ?thesis using go [OF m] some [OF m] by (simp only: if_False set_map)
    qed
    then have "group_of d sid ` set ms = (\<lambda>m. set (map pair_of (filter (\<lambda>n. key n = key m) ms))) ` set ms"
      by (rule image_cong [OF refl])
    then show ?thesis unfolding fst_g set_map g_set image_image by (auto simp: filter_empty_conv)
  qed
  then show "set ` set (fst (instrument_groups d sid iid)) = group_of d sid ` set (instrument_members d iid)"
    "[] \<notin> set (fst (instrument_groups d sid iid))" by (simp_all add: ms_def)
qed

lemma group_of_self: "a \<in> set (assignments d) \<Longrightarrow> pair_of a \<in> group_of d sid a"
  by (auto simp: group_of_def Let_def instrument_members_def)

lemma group_of_member:
  assumes "keyed_assignments d" "a \<in> set (assignments d)" "b \<in> set (assignments d)"
    and "a_instrument b = a_instrument a" "pair_of b \<in> group_of d sid a"
  shows "group_of d sid b = group_of d sid a"
proof -
  let ?ms = "instrument_members d (a_instrument a)"
  have inj: "m = n" if "m \<in> set ?ms" "n \<in> set ?ms" "pair_of m = pair_of n" for m n
    using members_distinct(2) [OF assms(1), unfolded distinct_map] that by (blast dest: inj_onD)
  have mem: "a \<in> set ?ms" "b \<in> set ?ms" using assms by (auto simp: instrument_members_def)
  show ?thesis
  proof (cases "group_keys d ?ms sid (a_id a) = None")
    case True
    then have "pair_of b = pair_of a" using assms(5) by (simp add: group_of_def Let_def)
    then have "b = a" by (rule inj [OF mem(2,1)])
    then show ?thesis by simp
  next
    case False
    have "group_of d sid a = pair_of ` {m \<in> set ?ms. a_reviewer m = a_reviewer a
        \<and> group_keys d ?ms sid (a_id m) = group_keys d ?ms sid (a_id a)}"
      unfolding group_of_def Let_def by (rule if_not_P [OF False])
    with assms(5) have "pair_of b \<in> pair_of ` {m \<in> set ?ms. a_reviewer m = a_reviewer a
        \<and> group_keys d ?ms sid (a_id m) = group_keys d ?ms sid (a_id a)}" by (simp only:)
    then obtain m where m: "m \<in> set ?ms" "pair_of b = pair_of m" "a_reviewer m = a_reviewer a"
        "group_keys d ?ms sid (a_id m) = group_keys d ?ms sid (a_id a)" by blast
    have "b = m" by (rule inj [OF mem(2) m(1,2)])
    with m False assms(4) show ?thesis by (auto simp: group_of_def Let_def)
  qed
qed


lemma origins_Some:
  assumes "origins gs p = Some g"
  shows "g \<in> set gs \<and> p \<in> set g"
  using map_of_dict [OF assms [unfolded origins_def]]
proof -
  assume m: "(p, g) \<in> set (dict_of fst snd (concat (map (\<lambda>g. map (\<lambda>p. (p, g)) g) gs)))"
  have "dict_get (dict_of fst snd xs) k = Some v \<Longrightarrow> (k, v) \<in> set xs" for xs :: "(pair \<times> pair list) list" and k v
    by (auto simp: dict_of_get Let_def split: if_splits dest!: last_in_set) (metis prod.collapse)
  from this [OF assms [unfolded origins_def]] show ?thesis by auto
qed

lemma origins_None: "origins gs p = None \<longleftrightarrow> (\<forall>g \<in> set gs. p \<notin> set g)"
  by (auto simp: origins_def dict_of_get_None image_iff)

lemma keeps_answer_iff:
  assumes "\<And>g h. g \<in> set gs \<Longrightarrow> h \<in> set gs \<Longrightarrow> set g \<inter> set h \<noteq> {} \<Longrightarrow> set g = set h" and "grp \<noteq> []"
  shows "keeps_answer grp (origins gs) \<longleftrightarrow> (\<exists>g \<in> set gs. set grp \<subseteq> set g)"
proof -
  obtain p ps where grp: "grp = p # ps" using assms(2) by (cases grp) auto
  show ?thesis
  proof (cases "origins gs p")
    case None
    then have "\<forall>g \<in> set gs. p \<notin> set g" by (simp add: origins_None)
    with None show ?thesis by (auto simp: grp keeps_answer_def)
  next
    case (Some og)
    have og: "og \<in> set gs" "p \<in> set og" using origins_Some [OF Some] by auto
    have "set g = set og" if "g \<in> set gs" "set grp \<subseteq> set g" for g
      using assms(1) [OF that(1) og(1)] that(2) og(2) by (auto simp: grp)
    then have "(\<exists>g \<in> set gs. set grp \<subseteq> set g) \<longleftrightarrow> set grp \<subseteq> set og" using og(1) by metis
    moreover have "keeps_answer grp (origins gs) \<longleftrightarrow> set grp \<subseteq> set og"
      by (simp add: grp keeps_answer_def Some)
    ultimately show ?thesis by (simp only:)
  qed
qed

lemma snapshot_disjoint:
  assumes "keyed_assignments d" "g \<in> set (fst (instrument_groups d sid iid))"
    "h \<in> set (fst (instrument_groups d sid iid))" "set g \<inter> set h \<noteq> {}"
  shows "set g = set h"
proof -
  have "set g \<in> group_of d sid ` set (instrument_members d iid)"
    "set h \<in> group_of d sid ` set (instrument_members d iid)"
    using assms(2,3) unfolding instrument_groups_sets(1) [OF assms(1), symmetric] by auto
  then obtain m n where mn: "set g = group_of d sid m" "set h = group_of d sid n"
    "m \<in> set (assignments d)" "n \<in> set (assignments d)" "a_instrument m = iid" "a_instrument n = iid"
    by (auto simp: instrument_members_def)
  obtain p where p: "p \<in> group_of d sid m" "p \<in> group_of d sid n" using assms(4) mn by auto
  have "\<exists>b \<in> set (assignments d). a_instrument b = iid \<and> pair_of b = p"
    using p(1) mn by (auto simp: group_of_def Let_def instrument_members_def split: if_splits)
  then obtain b where b: "b \<in> set (assignments d)" "a_instrument b = iid" "pair_of b = p" by auto
  have "group_of d sid b = group_of d sid m" "group_of d sid b = group_of d sid n"
    using group_of_member [OF assms(1) mn(3) b(1)] group_of_member [OF assms(1) mn(4) b(1)] b p mn by auto
  with mn show ?thesis by simp
qed

lemma instrument_groups_ids:
  assumes "keyed_assignments d" "m \<in> set (instrument_members d iid)"
  shows "snd (instrument_groups d sid iid) (pair_of m) = Some (a_id m)"
proof -
  have "snd (instrument_groups d sid iid) = dict_get (dict_of pair_of a_id (instrument_members d iid))"
    by (simp add: instrument_groups_def Let_def)
  then show ?thesis using dict_of_get_distinct [OF members_distinct(2) [OF assms(1)] assms(2)] by metis
qed


lemma in_changed_assignments:
  "x \<in> changed_assignments d sid before \<longleftrightarrow>
     (\<exists>c \<in> set before. \<exists>g \<in> set (fst (instrument_groups d sid (fst c))).
        \<not> keeps_answer g (origins (snd c))
        \<and> (\<exists>p \<in> set g. x = the (snd (instrument_groups d sid (fst c)) p)))"
  unfolding changed_assignments_def Let_def by (simp add: split_beta image_iff) blast

lemma changed_assignments_iff:
  assumes k: "keyed_assignments d" and a: "a \<in> set (assignments d)"
    and dis: "\<And>iid gs g h. (iid, gs) \<in> set before \<Longrightarrow> g \<in> set gs \<Longrightarrow> h \<in> set gs
        \<Longrightarrow> set g \<inter> set h \<noteq> {} \<Longrightarrow> set g = set h"
  shows "a_id a \<in> changed_assignments d sid before \<longleftrightarrow>
     (\<exists>gs. (a_instrument a, gs) \<in> set before \<and> \<not> (\<exists>g \<in> set gs. group_of d sid a \<subseteq> set g))"
proof -
  note sets = instrument_groups_sets [OF k]
  have member: "\<exists>m \<in> set (assignments d). a_instrument m = iid \<and> pair_of m = p
      \<and> snd (instrument_groups d sid iid) p = Some (a_id m) \<and> group_of d sid m = set g"
    if g: "g \<in> set (fst (instrument_groups d sid iid))" and p: "p \<in> set g" for iid g p
  proof -
    have "set g \<in> group_of d sid ` set (instrument_members d iid)"
      using g unfolding sets(1) [symmetric] by auto
    then obtain n where n: "set g = group_of d sid n" "n \<in> set (instrument_members d iid)" by auto
    then have "\<exists>m \<in> set (instrument_members d iid). pair_of m = p"
      using p by (auto simp: group_of_def Let_def instrument_members_def split: if_splits)
    then obtain m where m: "m \<in> set (instrument_members d iid)" "pair_of m = p" by auto
    have "snd (instrument_groups d sid iid) p = Some (a_id m)"
      using instrument_groups_ids [OF k m(1)] m(2) by simp
    moreover have "group_of d sid m = group_of d sid n"
      using m n p by (intro group_of_member [OF k]) (auto simp: instrument_members_def)
    ultimately show ?thesis using m n by (auto simp: instrument_members_def)
  qed
  have keeps: "keeps_answer g (origins gs) = (\<exists>h \<in> set gs. set g \<subseteq> set h)"
    if "(iid, gs) \<in> set before" "g \<noteq> []" for iid gs g
    by (rule keeps_answer_iff [OF dis [OF that(1)] that(2)])
  have same: "m = a" if "m \<in> set (assignments d)" "a_id m = a_id a" for m
    using k a that by (auto simp: keyed_assignments_def distinct_map inj_on_def)
  show ?thesis
  proof
    assume "a_id a \<in> changed_assignments d sid before"
    then obtain iid gs g p where g: "(iid, gs) \<in> set before" "g \<in> set (fst (instrument_groups d sid iid))"
      "\<not> keeps_answer g (origins gs)" "p \<in> set g" "the (snd (instrument_groups d sid iid) p) = a_id a"
    proof -
      from \<open>a_id a \<in> changed_assignments d sid before\<close> obtain c g p where c: "c \<in> set before"
        "g \<in> set (fst (instrument_groups d sid (fst c)))" "\<not> keeps_answer g (origins (snd c))"
        "p \<in> set g" "a_id a = the (snd (instrument_groups d sid (fst c)) p)"
        unfolding in_changed_assignments by blast
      show thesis by (rule that [of "fst c" "snd c" g p]) (use c in simp_all)
    qed
    from member [OF g(2,4)] obtain m where m: "m \<in> set (assignments d)" "a_instrument m = iid"
      "snd (instrument_groups d sid iid) p = Some (a_id m)" "group_of d sid m = set g" by blast
    with g(5) have "m = a" by (intro same) auto
    moreover have "\<not> (\<exists>h \<in> set gs. set g \<subseteq> set h)"
      using g(3) keeps [OF g(1), of g] g(4) by (cases g) auto
    ultimately show "\<exists>gs. (a_instrument a, gs) \<in> set before \<and> \<not> (\<exists>g \<in> set gs. group_of d sid a \<subseteq> set g)"
      using g(1) m by auto
  next
    assume "\<exists>gs. (a_instrument a, gs) \<in> set before \<and> \<not> (\<exists>g \<in> set gs. group_of d sid a \<subseteq> set g)"
    then obtain gs where gs: "(a_instrument a, gs) \<in> set before" "\<not> (\<exists>g \<in> set gs. group_of d sid a \<subseteq> set g)"
      by blast
    have am: "a \<in> set (instrument_members d (a_instrument a))" using a by (simp add: instrument_members_def)
    then have "group_of d sid a \<in> set ` set (fst (instrument_groups d sid (a_instrument a)))"
      unfolding sets(1) by blast
    then obtain g where g: "g \<in> set (fst (instrument_groups d sid (a_instrument a)))" "set g = group_of d sid a"
      by auto
    have "pair_of a \<in> set g" using group_of_self [OF a] g(2) by simp
    moreover have "\<not> keeps_answer g (origins gs)"
      using gs(2) g(2) calculation keeps [OF gs(1), of g] by (cases g) auto
    moreover have "the (snd (instrument_groups d sid (a_instrument a)) (pair_of a)) = a_id a"
      using instrument_groups_ids [OF k am] by simp
    ultimately show "a_id a \<in> changed_assignments d sid before"
      unfolding in_changed_assignments using gs(1) g(1)
      by (intro bexI [of _ "(a_instrument a, gs)"] bexI [of _ g] conjI bexI [of _ "pair_of a"]) simp_all
  qed
qed


definition answered :: "db \<Rightarrow> int set \<Rightarrow> int set" where
  "answered d ids = {a_instrument a | a. a \<in> set (assignments d) \<and> a_instrument a \<in> ids
     \<and> (\<exists>r \<in> set (responses d). r_assignment r = a_id a)}"

lemma snapshot_mem:
  "(iid, gs) \<in> set (snapshot_group_partitions d sid ids)
     \<longleftrightarrow> iid \<in> answered d ids \<and> gs = fst (instrument_groups d sid iid)"
  by (auto simp: snapshot_group_partitions_def answered_def list_ex_iff Let_def)

text \<open>
  C5. Take the groups before a change, change the data, then clear: an answer is kept exactly
  when its assignment's group, as it is now, is contained in one group of before (or its
  instrument held no answer then); everything else of an answered group instrument goes, and
  nothing but answers is touched. When the operator's acknowledged count is not the number that
  would go, the call raises with the right number and changes nothing.
\<close>

theorem clear_changed_groups_exact:
  fixes sid :: int and ids :: "int set"
  assumes k0: "keyed_assignments d0" and k: "keyed_assignments d"
    and a: "a \<in> set (assignments d)" and r: "r \<in> set (responses d)" "r_assignment r = a_id a"
  defines "before \<equiv> snapshot_group_partitions d0 sid ids"
  shows "case clear_changed_groups d sid before ack of
      Inr (d', n) \<Rightarrow>
        (r \<in> set (responses d') \<longleftrightarrow> a_instrument a \<notin> answered d0 ids
           \<or> (\<exists>b \<in> set (assignments d0). a_instrument b = a_instrument a
                 \<and> group_of d sid a \<subseteq> group_of d0 sid b))
        \<and> length (responses d') + n = length (responses d) \<and> d' = d\<lparr>responses := responses d'\<rparr>
        \<and> (ack = None \<or> n = 0 \<or> ack = Some n)
    | Inl e \<Rightarrow> \<exists>n m. ack = Some m \<and> m \<noteq> n \<and> e = GroupAnswersWouldClear n
        \<and> (\<exists>d'. clear_changed_groups d sid before None = Inr (d', n))"
proof -
  define ch where "ch = changed_assignments d sid before"
  have dis: "set g = set h" if "(iid, gs) \<in> set before" "g \<in> set gs" "h \<in> set gs" "set g \<inter> set h \<noteq> {}" for iid gs g h
    using that snapshot_disjoint [OF k0] by (auto simp: before_def snapshot_mem)
  have "a_id a \<in> ch \<longleftrightarrow>
     (\<exists>gs. (a_instrument a, gs) \<in> set before \<and> \<not> (\<exists>g \<in> set gs. group_of d sid a \<subseteq> set g))"
    unfolding ch_def by (rule changed_assignments_iff [OF k a]) (rule dis)
  also have "\<dots> \<longleftrightarrow> a_instrument a \<in> answered d0 ids
      \<and> \<not> (\<exists>g \<in> set ` set (fst (instrument_groups d0 sid (a_instrument a))). group_of d sid a \<subseteq> g)"
    by (auto simp: before_def snapshot_mem)
  also have "set ` set (fst (instrument_groups d0 sid (a_instrument a)))
      = group_of d0 sid ` {b \<in> set (assignments d0). a_instrument b = a_instrument a}"
    by (simp add: instrument_groups_sets [OF k0] instrument_members_def)
  finally have ch: "a_id a \<notin> ch \<longleftrightarrow> a_instrument a \<notin> answered d0 ids
           \<or> (\<exists>b \<in> set (assignments d0). a_instrument b = a_instrument a
                 \<and> group_of d sid a \<subseteq> group_of d0 sid b)" by auto
  have len: "length (filter (\<lambda>r. r_assignment r \<notin> ch) xs) + length (filter (\<lambda>r. r_assignment r \<in> ch) xs)
      = length xs" for xs :: "response list"
    by (induction xs) auto
  show ?thesis
    using ch len [of "responses d"] r
    unfolding clear_changed_groups_def Let_def ch_def [symmetric]
    by (auto split: option.splits sum.splits)
qed


definition demo_reviewee :: "int \<Rightarrow> string \<Rightarrow> reviewee" where
  "demo_reviewee k tag = \<lparr>re_id = k, re_session = 1, re_name = ''N'', re_identifier = ''n@x.org'',
     re_status = ''active'', re_tag1 = Some tag, re_tag2 = None, re_tag3 = None, re_object_id = None\<rparr>"

definition group_db :: db where
  "group_db = blank_db\<lparr>instruments := [\<lparr>i_id = 7, i_session = 1, i_order = 0, i_accepting = True,
        i_deadline_closed_at = None, i_starts_new_page = False, i_group_kind = Some ''r1'', i_rule_set = None, i_self_reviews = True\<rparr>],
     reviewees := [demo_reviewee 1 ''red'', demo_reviewee 2 ''red'', demo_reviewee 3 ''blue''],
     assignments := butlast demo_assigned,
     responses := map (\<lambda>k. \<lparr>r_assignment = k, r_field = 1, r_value = Some ''x'', r_saved_at = Aware 0,
        r_submitted_at = None, r_version = 1\<rparr>) [1, 2, 3]\<rparr>"

text \<open>Reviewee 2 leaves red for blue: red shrinks and is kept, blue gains a member and is cleared.\<close>

definition moved_db :: db where
  "moved_db = group_db\<lparr>reviewees := [demo_reviewee 1 ''red'', demo_reviewee 2 ''blue'', demo_reviewee 3 ''blue'']\<rparr>"

lemma clear_changed_groups_exact_witness:
  "clear_changed_groups moved_db 1 (snapshot_group_partitions group_db 1 {7}) (Some 0)
     = Inl (GroupAnswersWouldClear 2)
   \<and> (\<exists>b \<in> set (assignments group_db). a_instrument b = 7
        \<and> group_of moved_db 1 (demo_assignment 1 1 7) \<subseteq> group_of group_db 1 b)"
proof -
  have k: "keyed_assignments group_db" "keyed_assignments moved_db" by code_simp+
  have a: "demo_assignment 1 1 7 \<in> set (assignments moved_db)"
    by (simp add: moved_db_def group_db_def demo_assigned_def)
  have r: "hd (responses moved_db) \<in> set (responses moved_db)"
    "r_assignment (hd (responses moved_db)) = a_id (demo_assignment 1 1 7)"
    by (simp_all add: moved_db_def group_db_def demo_assignment_def)
  have "case clear_changed_groups moved_db 1 (snapshot_group_partitions group_db 1 {7}) (Some 0) of
      Inl e \<Rightarrow> e = GroupAnswersWouldClear 2 | Inr _ \<Rightarrow> False" by code_simp
  then have run: "clear_changed_groups moved_db 1 (snapshot_group_partitions group_db 1 {7}) (Some 0)
     = Inl (GroupAnswersWouldClear 2)" by (auto split: sum.splits)
  have kept: "case clear_changed_groups moved_db 1 (snapshot_group_partitions group_db 1 {7}) None of
      Inr (d', n) \<Rightarrow> hd (responses moved_db) \<in> set (responses d') | Inl e \<Rightarrow> False" by code_simp
  have ans: "(7::int) \<in> answered group_db {7}"
    unfolding answered_def
    by (intro CollectI exI [of _ "demo_assignment 1 1 7"])
      (simp add: group_db_def demo_assigned_def demo_assignment_def)
  have "a_instrument (demo_assignment 1 1 7) = 7" by (simp add: demo_assignment_def)
  then show ?thesis
    using run kept ans clear_changed_groups_exact [OF k a r, where sid = 1 and ids = "{7}" and ack = None]
    by (auto split: sum.splits)
qed

end
