(* ===== verification/Monitoring.thy ===== *)
theory Monitoring
  imports Grouping "HOL-Library.Multiset"
begin

text \<open>
  The progress figures: \<open>app/services/responses/_rollups.py\<close> (one reviewer's state from their
  assignments) and \<open>app/services/monitoring.py\<close>, which computes the per-reviewer and
  per-reviewee figures twice: an SQL aggregate joined with a Python half, which the app runs,
  and the older Python loop kept as its oracle. An aggregate query is a comprehension over the
  tables; SQL's \<open>ORDER BY\<close> of text is a stable sort by the string.
\<close>

section \<open>Rollup parts\<close>

datatype rollup_parts = RollupParts
  (rp_total: int) (rp_completed: int) (rp_missing: int) (rp_required: int)
  (rp_any: bool) (rp_all: bool)

definition parts_empty :: rollup_parts where
  "parts_empty = RollupParts 0 0 0 0 False True"

definition parts_add :: "rollup_parts \<Rightarrow> rollup_parts \<Rightarrow> rollup_parts" where
  "parts_add p q = RollupParts (rp_total p + rp_total q) (rp_completed p + rp_completed q)
     (rp_missing p + rp_missing q) (rp_required p + rp_required q)
     (rp_any p \<or> rp_any q) (rp_all p \<and> rp_all q)"

text \<open>\<open>__add__\<close> with \<open>empty()\<close> is a commutative monoid: the library's sums apply.\<close>

instantiation rollup_parts :: comm_monoid_add
begin
definition zero_rollup_parts :: rollup_parts where "0 = parts_empty"
definition plus_rollup_parts :: "rollup_parts \<Rightarrow> rollup_parts \<Rightarrow> rollup_parts" where
  "p + q = parts_add p q"
instance
  by standard (auto simp: zero_rollup_parts_def plus_rollup_parts_def parts_empty_def parts_add_def)
end

definition pill_state :: "rollup_parts \<Rightarrow> string" where
  "pill_state p = (if \<not> rp_any p then ''not started''
     else if rp_all p then ''submitted'' else ''in progress'')"

definition responses_for :: "db \<Rightarrow> int \<Rightarrow> response list" where
  "responses_for d aid = filter (\<lambda>r. r_assignment r = aid) (responses d)"

definition nonempty_value :: "response \<Rightarrow> bool" where
  "nonempty_value r = (or_empty (r_value r) \<noteq> [])"

definition answers :: "response list \<Rightarrow> int \<Rightarrow> string option" where
  "answers rows k = (case dict_get (dict_of r_field r_value rows) k of None \<Rightarrow> None | Some v \<Rightarrow> v)"

text \<open>One assignment's contribution: the body of the loop of \<open>rollup_parts_from_assignments\<close>.\<close>

definition rollup_step ::
  "(int \<Rightarrow> response_field list) \<Rightarrow> (int \<Rightarrow> response list) \<Rightarrow> rollup_parts \<Rightarrow> assignment \<Rightarrow> rollup_parts" where
  "rollup_step fields_by_instrument rows_by_assignment p a =
     (let flds = fields_by_instrument (a_instrument a);
          rows = rows_by_assignment (a_id a);
          required_ids = required_field_ids flds (answers rows);
          present_required = r_field ` set (filter nonempty_value rows);
          row_missing = int (card {fid \<in> required_ids. fid \<notin> present_required})
      in RollupParts (rp_total p)
           (rp_completed p + (if required_ids = {} then (if rows \<noteq> [] then 1 else 0)
                              else if row_missing = 0 then 1 else 0))
           (rp_missing p + row_missing)
           (rp_required p + int (card required_ids))
           (rp_any p \<or> rows \<noteq> [])
           (rp_all p \<and> \<not> 0 < row_missing \<and> \<not> list_ex (\<lambda>r. r_submitted_at r = None) rows))"

text \<open>One representative per group: the first assignment of each \<open>(instrument, group key)\<close>.\<close>

fun dedupe_groups ::
  "(int \<Rightarrow> string list option) \<Rightarrow> (int \<times> string list) set \<Rightarrow> assignment list \<Rightarrow> assignment list" where
  "dedupe_groups keys seen [] = []"
| "dedupe_groups keys seen (a # as) =
     (case keys (a_id a) of
        None \<Rightarrow> a # dedupe_groups keys seen as
      | Some k \<Rightarrow>
          if (a_instrument a, k) \<in> seen then dedupe_groups keys seen as
          else a # dedupe_groups keys (insert (a_instrument a, k) seen) as)"

definition rollup_parts_from_assignments ::
  "assignment list \<Rightarrow> (int \<Rightarrow> response_field list) \<Rightarrow> (int \<Rightarrow> string list option)
     \<Rightarrow> (int \<Rightarrow> response list) \<Rightarrow> rollup_parts" where
  "rollup_parts_from_assignments assigned fields_by_instrument keys rows_by_assignment =
     (if assigned = [] then parts_empty
      else (let counted = dedupe_groups keys {} assigned
            in foldl (rollup_step fields_by_instrument rows_by_assignment)
                 (RollupParts (int (length counted)) 0 0 0 False True) counted))"

section \<open>The reads of the response services\<close>

definition reviewer_assignments :: "db \<Rightarrow> int \<Rightarrow> int \<Rightarrow> assignment list" where
  "reviewer_assignments d reviewer_id sid =
     sort_key a_id (filter (\<lambda>a. a_session a = sid \<and> a_reviewer a = reviewer_id \<and> a_include a)
       (assignments d))"

definition instrument_fields_by_id :: "db \<Rightarrow> int set \<Rightarrow> int \<Rightarrow> response_field list" where
  "instrument_fields_by_id d ids iid =
     (if iid \<in> ids then sort_key f_order
        (filter (\<lambda>f. f_instrument f = iid \<and> f_visible f) (fields_tbl d)) else [])"

definition responses_by_assignment ::
  "db \<Rightarrow> int \<Rightarrow> (int \<Rightarrow> bool) \<Rightarrow> int \<Rightarrow> response list" where
  "responses_by_assignment d sid instrument_clause aid =
     filter (\<lambda>r. list_ex (\<lambda>a. a_id a = r_assignment r \<and> a_session a = sid
         \<and> instrument_clause (a_instrument a)) (assignments d)) (responses_for d aid)"

definition reviewer_session_state ::
  "db \<Rightarrow> int \<Rightarrow> int \<Rightarrow> (int \<Rightarrow> string list option) option
     \<Rightarrow> (int \<Rightarrow> response list) option \<Rightarrow> rollup_parts" where
  "reviewer_session_state d reviewer_id sid keys rows =
     (let assigned = reviewer_assignments d reviewer_id sid in
      rollup_parts_from_assignments assigned
        (instrument_fields_by_id d (a_instrument ` set assigned))
        (case keys of Some k \<Rightarrow> k | None \<Rightarrow> group_keys d assigned sid)
        (case rows of Some f \<Rightarrow> f | None \<Rightarrow> responses_for d))"

text \<open>\<open>reviewer_session_state_per_instrument\<close>: the same rollup per instrument.\<close>

definition reviewer_session_state_per_instrument ::
  "db \<Rightarrow> int \<Rightarrow> int \<Rightarrow> (int \<times> rollup_parts) list" where
  "reviewer_session_state_per_instrument d reviewer_id sid =
     (let assigned = reviewer_assignments d reviewer_id sid;
          by_instrument = group_into a_instrument id assigned;
          keys = group_keys d assigned sid
      in map (\<lambda>(iid, as). (iid, rollup_parts_from_assignments as
           (instrument_fields_by_id d (set (dict_keys by_instrument))) keys (responses_for d)))
           by_instrument)"

text \<open>Response cells, a group's duplicates counted once.\<close>

definition session_response_cells :: "db \<Rightarrow> int \<Rightarrow> int" where
  "session_response_cells d sid =
     (let assigned = filter (\<lambda>a. a_session a = sid) (assignments d);
          keys = group_keys d assigned sid;
          cells = concat (map (\<lambda>r. map (\<lambda>a. (a, r_field r))
             (filter (\<lambda>a. a_id a = r_assignment r) assigned)) (responses d))
      in if list_all (\<lambda>a. keys (a_id a) = None) assigned then int (length cells)
         else int (length (filter (\<lambda>(a, k). keys (a_id a) = None) cells))
            + int (card (set (map (\<lambda>(a, k). (a_reviewer a, a_instrument a, the (keys (a_id a)), k))
                 (filter (\<lambda>(a, k). keys (a_id a) \<noteq> None) cells)))))"

section \<open>Per-reviewer progress\<close>

definition assigned_active_reviewers :: "db \<Rightarrow> int \<Rightarrow> reviewer list" where
  "assigned_active_reviewers d sid =
     sort_key rr_email (filter (\<lambda>r. rr_status r = ''active''
        \<and> list_ex (\<lambda>a. a_reviewer a = rr_id r \<and> a_session a = sid \<and> a_include a) (assignments d))
       (reviewers d))"

definition invitations_by_reviewer :: "db \<Rightarrow> int \<Rightarrow> int \<Rightarrow> invitation option" where
  "invitations_by_reviewer d sid =
     dict_get (dict_of inv_reviewer id (filter (\<lambda>i. inv_session i = sid) (invitations d)))"

definition required_governed_instrument_ids :: "db \<Rightarrow> int set" where
  "required_governed_instrument_ids d =
     f_instrument ` set (filter (\<lambda>f. (f_required f \<and> f_branch_parent f \<noteq> None)
        \<or> f_branch_mode f = Some BRANCH_MODE_REQUIRE) (fields_tbl d))"

definition python_routed :: "db \<Rightarrow> instrument \<Rightarrow> bool" where
  "python_routed d i = (i_group_kind i \<noteq> None \<or> i_id i \<in> required_governed_instrument_ids d)"

text \<open>The join with \<open>Instrument\<close> on its primary key.\<close>

definition on_instrument :: "db \<Rightarrow> (instrument \<Rightarrow> bool) \<Rightarrow> int \<Rightarrow> bool" where
  "on_instrument d P iid = list_ex (\<lambda>i. i_id i = iid \<and> P i) (instruments d)"

text \<open>One row of the inner query: an assignment and its counts.\<close>

record assignment_counts =
  ac_key :: int
  ac_rows :: int
  ac_required :: int
  ac_present :: int
  ac_unsubmitted :: int

definition plain_counts :: "db \<Rightarrow> assignment \<Rightarrow> assignment_counts" where
  "plain_counts d a =
     (let rows = responses_for d (a_id a) in
      \<lparr>ac_key = a_reviewer a, ac_rows = int (length rows),
       ac_required = int (length (filter (\<lambda>f. f_required f \<and> f_visible f
            \<and> f_instrument f = a_instrument a) (fields_tbl d))),
       ac_present = int (card (r_field ` set (filter (\<lambda>r. nonempty_value r
            \<and> list_ex (\<lambda>f. f_id f = r_field r \<and> f_required f \<and> f_visible f) (fields_tbl d)) rows))),
       ac_unsubmitted = int (length (filter (\<lambda>r. r_submitted_at r = None) rows))\<rparr>)"

definition ac_missing :: "assignment_counts \<Rightarrow> int" where
  "ac_missing c = ac_required c - ac_present c"

definition ac_completed :: "assignment_counts \<Rightarrow> bool" where
  "ac_completed c = ((ac_required c = 0 \<and> 0 < ac_rows c) \<or> (0 < ac_required c \<and> ac_missing c = 0))"

definition plain_assignments :: "db \<Rightarrow> int \<Rightarrow> assignment list" where
  "plain_assignments d sid = filter (\<lambda>a. a_session a = sid \<and> a_include a
     \<and> on_instrument d (\<lambda>i. i_group_kind i = None
          \<and> i_id i \<notin> required_governed_instrument_ids d) (a_instrument a)) (assignments d)"

text \<open>The outer query: the counts of one reviewer's assignments, summed.\<close>

definition sum_counts :: "assignment_counts list \<Rightarrow> rollup_parts" where
  "sum_counts cs = RollupParts (int (length cs))
     (int (length (filter ac_completed cs)))
     (sum_list (map ac_missing cs))
     (sum_list (map ac_required cs))
     (list_ex (\<lambda>c. 0 < ac_rows c) cs)
     (sum_list (map (\<lambda>c. ac_missing c + ac_unsubmitted c) cs) = 0)"

definition plain_instrument_parts :: "db \<Rightarrow> int \<Rightarrow> int \<Rightarrow> rollup_parts option" where
  "plain_instrument_parts d sid reviewer_id =
     map_option sum_counts
       (dict_get (group_into ac_key id (map (plain_counts d) (plain_assignments d sid))) reviewer_id)"

definition python_assignments :: "db \<Rightarrow> int \<Rightarrow> assignment list" where
  "python_assignments d sid = sort_key a_id (filter (\<lambda>a. a_session a = sid \<and> a_include a
     \<and> on_instrument d (python_routed d) (a_instrument a)) (assignments d))"

definition python_instrument_parts :: "db \<Rightarrow> int \<Rightarrow> int \<Rightarrow> rollup_parts option" where
  "python_instrument_parts d sid reviewer_id =
     (let grouped = python_assignments d sid;
          flds = instrument_fields_by_id d (a_instrument ` set grouped);
          keys = group_keys d grouped sid;
          rows = responses_by_assignment d sid (on_instrument d (python_routed d))
      in map_option (\<lambda>as. rollup_parts_from_assignments as flds keys rows)
           (dict_get (group_into a_reviewer id grouped) reviewer_id))"

record reviewer_progress =
  pr_reviewer :: reviewer
  pr_invitation :: "invitation option"
  pr_assignment_count :: int
  pr_completed_count :: int
  pr_missing_required_count :: int
  pr_required_total :: int
  pr_pill_state :: string
  pr_last_reminder_at :: "stamp option"

definition progress_row ::
  "(int \<Rightarrow> invitation option) \<Rightarrow> (int \<Rightarrow> rollup_parts) \<Rightarrow> reviewer \<Rightarrow> reviewer_progress" where
  "progress_row invs parts_of r =
     (let parts = parts_of (rr_id r); inv = invs (rr_id r) in
      \<lparr>pr_reviewer = r, pr_invitation = inv, pr_assignment_count = rp_total parts,
       pr_completed_count = rp_completed parts, pr_missing_required_count = rp_missing parts,
       pr_required_total = rp_required parts, pr_pill_state = pill_state parts,
       pr_last_reminder_at = (case inv of None \<Rightarrow> None | Some i \<Rightarrow> inv_last_reminder_at i)\<rparr>)"

definition or_parts :: "rollup_parts option \<Rightarrow> rollup_parts" where
  "or_parts p = (case p of None \<Rightarrow> parts_empty | Some q \<Rightarrow> q)"

definition per_reviewer_progress :: "db \<Rightarrow> int \<Rightarrow> reviewer_progress list" where
  "per_reviewer_progress d sid =
     map (progress_row (invitations_by_reviewer d sid)
            (\<lambda>k. parts_add (or_parts (plain_instrument_parts d sid k))
                           (or_parts (python_instrument_parts d sid k))))
       (assigned_active_reviewers d sid)"

text \<open>\<open>_per_reviewer_progress_python\<close>, the oracle.\<close>

definition per_reviewer_progress_python :: "db \<Rightarrow> int \<Rightarrow> reviewer_progress list" where
  "per_reviewer_progress_python d sid =
     (let all_assignments = filter (\<lambda>a. a_session a = sid \<and> a_include a) (assignments d);
          keys = group_keys d all_assignments sid;
          rows = responses_by_assignment d sid (\<lambda>_. True)
      in map (progress_row (invitations_by_reviewer d sid)
               (\<lambda>k. reviewer_session_state d k sid (Some keys) (Some rows)))
           (assigned_active_reviewers d sid))"

definition is_incomplete_state :: "string \<Rightarrow> bool" where
  "is_incomplete_state st = (st \<noteq> ''submitted'')"

record summary_counts =
  sc_assigned :: nat
  sc_invited :: nat
  sc_opened :: nat
  sc_submitted :: nat
  sc_incomplete :: nat

definition summary_counts_of :: "db \<Rightarrow> int \<Rightarrow> summary_counts" where
  "summary_counts_of d sid =
     (let rows = per_reviewer_progress d sid in
      \<lparr>sc_assigned = length rows,
       sc_invited = length (filter (\<lambda>r. case pr_invitation r of None \<Rightarrow> False
           | Some i \<Rightarrow> inv_status i \<noteq> ''pending'') rows),
       sc_opened = length (filter (\<lambda>r. case pr_invitation r of None \<Rightarrow> False
           | Some i \<Rightarrow> inv_status i = ''opened'') rows),
       sc_submitted = length (filter (\<lambda>r. pr_pill_state r = ''submitted'') rows),
       sc_incomplete = length (filter (\<lambda>r. is_incomplete_state (pr_pill_state r)) rows)\<rparr>)"

section \<open>Per-reviewee coverage\<close>

definition classify_coverage :: "int \<Rightarrow> int \<Rightarrow> string" where
  "classify_coverage completed tot =
     (if tot = 0 \<or> completed = 0 then ''no responses''
      else if completed = tot then ''complete''
      else if tot \<le> 2 * completed then ''adequate'' else ''at risk'')"

text \<open>The latest of some stamps, compared as instants.\<close>

definition later :: "int option \<Rightarrow> int option \<Rightarrow> int option" where
  "later x y = (case x of None \<Rightarrow> y | Some a \<Rightarrow> (case y of None \<Rightarrow> Some a | Some b \<Rightarrow> Some (max a b)))"

definition latest_stamp :: "response list \<Rightarrow> int option" where
  "latest_stamp rows = foldr later (map (\<lambda>r. map_option instant (r_submitted_at r)) rows) None"

definition assignment_complete ::
  "response_field list \<Rightarrow> response list \<Rightarrow> bool \<times> int option" where
  "assignment_complete flds rows =
     (if rows = [] then (False, None)
      else (let required_ids = required_field_ids flds (answers rows);
                by_field = dict_get (dict_of r_field id rows)
            in (\<forall>fid \<in> required_ids. case by_field fid of None \<Rightarrow> False
                   | Some r \<Rightarrow> nonempty_value r \<and> r_submitted_at r \<noteq> None,
                latest_stamp rows)))"

definition fields_of_instrument :: "db \<Rightarrow> int \<Rightarrow> response_field list" where
  "fields_of_instrument d iid = filter (\<lambda>f. f_instrument f = iid) (fields_tbl d)"

type_synonym coverage_part = "int \<times> int \<times> int option"

definition coverage_step ::
  "(assignment \<Rightarrow> bool \<times> int option) \<Rightarrow> coverage_part \<Rightarrow> assignment \<Rightarrow> coverage_part" where
  "coverage_step finished p a = (case p of (n, completed, latest) \<Rightarrow>
     (n + 1, completed + (if fst (finished a) then 1 else 0), later latest (snd (finished a))))"

definition python_routed_coverage :: "db \<Rightarrow> int \<Rightarrow> int \<Rightarrow> coverage_part option" where
  "python_routed_coverage d sid =
     (let routed = filter (\<lambda>a. a_session a = sid \<and> a_include a
            \<and> a_instrument a \<in> required_governed_instrument_ids d) (assignments d);
          rows = responses_by_assignment d sid
            (on_instrument d (\<lambda>i. i_id i \<in> required_governed_instrument_ids d))
      in dict_get (foldl (\<lambda>out a. dict_put (a_reviewee a)
           (coverage_step (\<lambda>a. assignment_complete (fields_of_instrument d (a_instrument a)) (rows (a_id a)))
              (case dict_get out (a_reviewee a) of None \<Rightarrow> (0, 0, None) | Some p \<Rightarrow> p) a) out) [] routed))"

text \<open>The SQL half: an assignment is complete when it has a row and every required field of its
  instrument has a non-empty, submitted one.\<close>

definition sql_complete :: "db \<Rightarrow> assignment \<Rightarrow> bool \<times> int option" where
  "sql_complete d a =
     (let rows = responses_for d (a_id a);
          required_total = length (filter (\<lambda>f. f_required f \<and> f_instrument f = a_instrument a) (fields_tbl d));
          satisfied = card (r_field ` set (filter (\<lambda>r. nonempty_value r \<and> r_submitted_at r \<noteq> None
             \<and> list_ex (\<lambda>f. f_id f = r_field r \<and> f_required f) (fields_tbl d)) rows))
      in (rows \<noteq> [] \<and> (required_total = 0 \<or> satisfied = required_total), latest_stamp rows))"

definition sql_coverage :: "db \<Rightarrow> int \<Rightarrow> int \<Rightarrow> coverage_part option" where
  "sql_coverage d sid reviewee_id =
     (let mine = filter (\<lambda>a. a_session a = sid \<and> a_include a
            \<and> a_instrument a \<notin> required_governed_instrument_ids d \<and> a_reviewee a = reviewee_id)
            (assignments d)
      in if mine = [] then None
         else Some (int (length mine), int (length (filter (\<lambda>a. fst (sql_complete d a)) mine)),
                    foldr later (map (\<lambda>a. snd (sql_complete d a)) mine) None))"

record reviewee_coverage =
  cv_reviewee :: reviewee
  cv_reviewer_count :: int
  cv_completed_count :: int
  cv_pill_state :: string
  cv_last_response_at :: "int option"

definition coverage_row :: "reviewee \<Rightarrow> coverage_part \<Rightarrow> reviewee_coverage" where
  "coverage_row r p = (case p of (n, completed, latest) \<Rightarrow>
     \<lparr>cv_reviewee = r, cv_reviewer_count = n, cv_completed_count = completed,
      cv_pill_state = classify_coverage completed n, cv_last_response_at = latest\<rparr>)"

definition per_reviewee_coverage :: "db \<Rightarrow> int \<Rightarrow> reviewee_coverage list" where
  "per_reviewee_coverage d sid =
     map (\<lambda>r. coverage_row r
         (case (sql_coverage d sid (re_id r), python_routed_coverage d sid (re_id r)) of
            (Some p, None) \<Rightarrow> p
          | (None, None) \<Rightarrow> (0, 0, None)
          | (None, Some q) \<Rightarrow> q
          | (Some (c, k, l), Some (c', k', l')) \<Rightarrow> (c + c', k + k', later l l')))
       (sort_key re_identifier (filter (\<lambda>r. re_session r = sid
          \<and> (sql_coverage d sid (re_id r) \<noteq> None \<or> python_routed_coverage d sid (re_id r) \<noteq> None))
        (reviewees d)))"

text \<open>\<open>_per_reviewee_coverage_python\<close>, the oracle.\<close>

definition per_reviewee_coverage_python :: "db \<Rightarrow> int \<Rightarrow> reviewee_coverage list" where
  "per_reviewee_coverage_python d sid =
     (let mine = filter (\<lambda>a. a_session a = sid \<and> a_include a) (assignments d);
          rows = responses_by_assignment d sid (\<lambda>_. True);
          by_reviewee = dict_get (group_into a_reviewee id mine)
      in map (\<lambda>r. coverage_row r
           (foldl (coverage_step (\<lambda>a. assignment_complete (fields_of_instrument d (a_instrument a))
                (rows (a_id a)))) (0, 0, None) (or_nil (by_reviewee (re_id r)))))
           (sort_key re_identifier (filter (\<lambda>r. re_id r \<in> a_reviewee ` set mine) (reviewees d))))"


section \<open>The two halves add up\<close>

lemma parts_simps [simp]:
  "rp_total (p + q) = rp_total p + rp_total q" "rp_completed (p + q) = rp_completed p + rp_completed q"
  "rp_missing (p + q) = rp_missing p + rp_missing q" "rp_required (p + q) = rp_required p + rp_required q"
  "rp_any (p + q) = (rp_any p \<or> rp_any q)" "rp_all (p + q) = (rp_all p \<and> rp_all q)"
  "rp_total 0 = 0" "rp_completed 0 = 0" "rp_missing 0 = 0" "rp_required 0 = 0"
  "\<not> rp_any 0" "rp_all 0"
  by (simp_all add: plus_rollup_parts_def parts_add_def zero_rollup_parts_def parts_empty_def)

text \<open>One assignment alone.\<close>

definition single ::
  "(int \<Rightarrow> response_field list) \<Rightarrow> (int \<Rightarrow> response list) \<Rightarrow> assignment \<Rightarrow> rollup_parts" where
  "single flds rows a = rollup_step flds rows (RollupParts 1 0 0 0 False True) a"

lemma rollup_step_parts:
  "rp_total (rollup_step flds rows p a) = rp_total p"
  "rp_completed (rollup_step flds rows p a) = rp_completed p + rp_completed (single flds rows a)"
  "rp_missing (rollup_step flds rows p a) = rp_missing p + rp_missing (single flds rows a)"
  "rp_required (rollup_step flds rows p a) = rp_required p + rp_required (single flds rows a)"
  "rp_any (rollup_step flds rows p a) = (rp_any p \<or> rp_any (single flds rows a))"
  "rp_all (rollup_step flds rows p a) = (rp_all p \<and> rp_all (single flds rows a))"
  "rp_total (single flds rows a) = 1"
  by (simp_all add: single_def rollup_step_def Let_def)

lemma rollup_loop:
  "rp_total (foldl (rollup_step flds rows) p as) = rp_total p"
  "rp_completed (foldl (rollup_step flds rows) p as) = rp_completed p + rp_completed (sum_list (map (single flds rows) as))"
  "rp_missing (foldl (rollup_step flds rows) p as) = rp_missing p + rp_missing (sum_list (map (single flds rows) as))"
  "rp_required (foldl (rollup_step flds rows) p as) = rp_required p + rp_required (sum_list (map (single flds rows) as))"
  "rp_any (foldl (rollup_step flds rows) p as) = (rp_any p \<or> rp_any (sum_list (map (single flds rows) as)))"
  "rp_all (foldl (rollup_step flds rows) p as) = (rp_all p \<and> rp_all (sum_list (map (single flds rows) as)))"
  by (induction as arbitrary: p) (simp_all add: rollup_step_parts)

lemma rollup_total: "rp_total (sum_list (map (single flds rows) as)) = int (length as)"
  by (induction as) (simp_all add: rollup_step_parts)

lemma rollup_sum:
  "rollup_parts_from_assignments as flds keys rows
     = sum_list (map (single flds rows) (dedupe_groups keys {} as))"
proof -
  have "foldl (rollup_step flds rows) (RollupParts (int (length (dedupe_groups keys {} as))) 0 0 0 False True)
      (dedupe_groups keys {} as) = sum_list (map (single flds rows) (dedupe_groups keys {} as))"
    by (rule rollup_parts.expand) (simp add: rollup_loop rollup_total)
  then show ?thesis
    by (auto simp: rollup_parts_from_assignments_def Let_def zero_rollup_parts_def)
qed

lemma dedupe_split:
  fixes h :: "assignment \<Rightarrow> 'a :: comm_monoid_add"
  assumes "\<And>a. a \<in> set as \<Longrightarrow> P a \<Longrightarrow> keys (a_id a) = None"
  shows "sum_list (map h (dedupe_groups keys seen as))
     = sum_list (map h (filter P as)) + sum_list (map h (dedupe_groups keys seen (filter (\<lambda>a. \<not> P a) as)))"
  using assms
proof (induction keys seen as rule: dedupe_groups.induct)
  case (1 keys seen)
  then show ?case by simp
next
  case (2 keys seen a as)
  then show ?case
    by (cases "P a") (auto simp: add_ac split: option.splits)
qed

lemma dedupe_cong:
  assumes "\<And>a. a \<in> set as \<Longrightarrow> keys (a_id a) = keys' (a_id a)"
  shows "dedupe_groups keys seen as = dedupe_groups keys' seen as"
  using assms by (induction keys seen as rule: dedupe_groups.induct) (auto split: option.splits)

lemma set_dedupe: "set (dedupe_groups keys seen as) \<subseteq> set as"
  by (induction keys seen as rule: dedupe_groups.induct) (auto split: option.splits)

lemma sum_list_sort_key:
  fixes h :: "'b \<Rightarrow> 'a :: comm_monoid_add"
  shows "sum_list (map h (sort_key k xs)) = sum_list (map h xs)"
proof -
  have "sum_mset (mset (map h (sort_key k xs))) = sum_mset (mset (map h xs))" by simp
  then show ?thesis by (simp only: sum_mset_sum_list)
qed


section \<open>Group keys do not depend on the list they are computed over\<close>

lemma decode_sources:
  assumes "p \<in> set (decode_group_kind k)"
  shows "fst p = ''reviewee'' \<or> fst p = ''pair_context''"
proof -
  have "\<exists>c. map_of GROUP_BOUNDARY_SOURCE_BY_CODE c = Some p"
    using assms by (auto simp: decode_group_kind_def foldl_append_new split: if_splits)
  then obtain c where "(c, p) \<in> set GROUP_BOUNDARY_SOURCE_BY_CODE" by (auto dest: map_of_SomeD)
  then show ?thesis by (auto simp: GROUP_BOUNDARY_SOURCE_BY_CODE_def GROUP_BOUNDARY_CODE_BY_SOURCE_def)
qed

lemma group_key_no_pairs:
  assumes "\<not> list_ex (\<lambda>(t, _). t = ''pair_context'') (boundary_of d iid)"
  shows "group_key_for_pair rv r e (boundary_of d iid) pairs = group_key_for_pair rv r e (boundary_of d iid) pairs'"
proof -
  have "fst p = ''reviewee''" if "p \<in> set (boundary_of d iid)" for p
  proof -
    have "fst p = ''reviewee'' \<or> fst p = ''pair_context''"
      using that decode_sources [of p] by (auto simp: boundary_of_def split: option.splits)
    moreover have "fst p \<noteq> ''pair_context''" using that assms by (cases p) (auto simp: list_ex_iff)
    ultimately show ?thesis by simp
  qed
  then show ?thesis by (auto simp: group_key_for_pair_def)
qed

definition canonical_key :: "db \<Rightarrow> int \<Rightarrow> assignment \<Rightarrow> string list option" where
  "canonical_key d sid a =
     (if on_instrument d (\<lambda>i. i_group_kind i \<noteq> None) (a_instrument a)
      then Some (group_key_for_pair (reviewee_by_id d (a_reviewee a)) (a_reviewer a) (a_reviewee a)
             (boundary_of d (a_instrument a)) (pair_context_lookup d sid)) else None)"

lemma group_keys_canonical:
  assumes "distinct (map a_id as)" "a \<in> set as"
  shows "group_keys d as sid (a_id a) = canonical_key d sid a"
proof -
  let ?g = "group_instrument_ids d (a_instrument ` set as)"
  have g: "a_instrument a \<in> ?g \<longleftrightarrow> on_instrument d (\<lambda>i. i_group_kind i \<noteq> None) (a_instrument a)"
    using assms(2) by (fastforce simp: group_instrument_ids_def on_instrument_def list_ex_iff image_iff)
  show ?thesis
  proof (cases "a_instrument a \<in> ?g")
    case False
    have "a_id b \<noteq> a_id a" if "b \<in> set as" "a_instrument b \<in> ?g" for b
      using assms False that by (auto simp: distinct_map inj_on_def)
    then have "a_id a \<notin> a_id ` set (filter (\<lambda>a. a_instrument a \<in> ?g) as)" by (auto simp: image_iff) (metis)
    then show ?thesis using False g
      by (simp add: group_keys_def group_key_by_assignment_def Let_def dict_of_get_None canonical_key_def)
  next
    case True
    then have mem: "a \<in> set (filter (\<lambda>a. a_instrument a \<in> ?g) as)" using assms(2) by simp
    have d: "distinct (map a_id (filter (\<lambda>a. a_instrument a \<in> ?g) as))"
      using assms(1) by (simp add: distinct_map_filter)
    show ?thesis
      using True g group_key_no_pairs [of d "a_instrument a"]
      by (auto simp: group_keys_def group_key_by_assignment_def Let_def canonical_key_def
          dict_of_get_distinct [OF d mem])
  qed
qed


section \<open>The aggregate counts what the loop counts\<close>

text \<open>What the schema and the writers keep: primary keys, the uniqueness of an answer per
  field, and that a row's field, assignment and people belong together.\<close>

definition integrity :: "db \<Rightarrow> bool" where
  "integrity d = (keyed d \<and> distinct (map i_id (instruments d))
     \<and> distinct (map (\<lambda>r. (r_assignment r, r_field r)) (responses d))
     \<and> (\<forall>a \<in> set (assignments d). (\<exists>i \<in> set (instruments d). i_id i = a_instrument a)
          \<and> (\<forall>r \<in> set (reviewees d). re_id r = a_reviewee a \<longrightarrow> re_session r = a_session a))
     \<and> (\<forall>r \<in> set (responses d). \<forall>a \<in> set (assignments d). a_id a = r_assignment r \<longrightarrow>
          (\<exists>f \<in> set (fields_tbl d). f_id f = r_field r \<and> f_instrument f = a_instrument a)))"

lemma integrity_rows_distinct: "integrity d \<Longrightarrow> distinct (map r_field (responses_for d aid))"
proof -
  assume "integrity d"
  then have "distinct (map (\<lambda>r. (r_assignment r, r_field r)) (responses d))" by (simp add: integrity_def)
  then have "inj_on (\<lambda>r. (r_assignment r, r_field r)) (set (responses d))" "distinct (responses d)"
    by (simp_all add: distinct_map)
  then show ?thesis by (auto simp: responses_for_def distinct_map inj_on_def)
qed

lemma ungoverned_required:
  assumes "keyed d" "iid \<notin> required_governed_instrument_ids d"
    and fs: "set fs \<subseteq> {f \<in> set (fields_tbl d). f_instrument f = iid}" "distinct (map f_id fs)"
  shows "required_field_ids fs ans = f_id ` {f \<in> set fs. f_required f}"
proof -
  have free: "f_required f \<Longrightarrow> f_branch_parent f = None" "f_branch_mode f \<noteq> Some BRANCH_MODE_REQUIRE"
    if "f \<in> set fs" for f
    using that assms(2) fs(1) by (auto simp: required_governed_instrument_ids_def image_iff)
  have "f_id f \<in> applicable_field_ids fs ans" if "f \<in> set fs" "f_required f" for f
    using applicable_mem [OF fs(2) that(1)] free(1) [OF that] by (auto intro: chain_root)
  moreover have "branch_mode (Some g) = BRANCH_MODE_SHOW" if "parent_of fs f = Some g" for f g
    using free(2) [of g] parent_of_mem [OF that] by (simp add: branch_mode_def)
  ultimately show ?thesis
    by (auto simp: required_field_ids_def Let_def BRANCH_MODE_SHOW_def BRANCH_MODE_REQUIRE_def
        split: option.splits if_splits intro!: imageI)
qed


lemma keyed_field: "keyed d \<Longrightarrow> f \<in> set (fields_tbl d) \<Longrightarrow> g \<in> set (fields_tbl d) \<Longrightarrow> f_id f = f_id g \<Longrightarrow> f = g"
  by (rule keyed_same)

lemma single_plain:
  assumes i: "integrity d" and a: "a \<in> set (assignments d)"
    and un: "a_instrument a \<notin> required_governed_instrument_ids d"
    and fs: "flds (a_instrument a) = sort_key f_order (filter (\<lambda>f. f_instrument f = a_instrument a \<and> f_visible f) (fields_tbl d))"
    and rs: "rows (a_id a) = responses_for d (a_id a)"
  shows "single flds rows a = sum_counts [plain_counts d a]"
    and "0 \<le> ac_missing (plain_counts d a)" "0 \<le> ac_unsubmitted (plain_counts d a)"
proof -
  have k: "keyed d" using i by (simp add: integrity_def)
  let ?rs = "responses_for d (a_id a)"
  define Q where "Q = {f \<in> set (fields_tbl d). f_required f \<and> f_visible f \<and> f_instrument f = a_instrument a}"
  define R where "R = f_id ` Q"
  define Pr where "Pr = r_field ` set (filter nonempty_value ?rs)"
  have dist: "distinct (map f_id (flds (a_instrument a)))"
    using k by (auto simp: fs keyed_def distinct_map inj_on_def)
  have req: "required_field_ids (flds (a_instrument a)) ans = R" for ans
    unfolding R_def Q_def by (subst ungoverned_required [OF k un _ dist]) (auto simp: fs)
  have finR: "finite R" by (simp add: R_def Q_def)
  have inj: "inj_on f_id Q" using keyed_field [OF k] by (auto simp: inj_on_def Q_def)
  have "card Q = length (filter (\<lambda>f. f_required f \<and> f_visible f \<and> f_instrument f = a_instrument a) (fields_tbl d))"
  proof -
    have "distinct (filter (\<lambda>f. f_required f \<and> f_visible f \<and> f_instrument f = a_instrument a) (fields_tbl d))"
      using k by (simp add: keyed_def distinct_map)
    from distinct_card [OF this] show ?thesis by (simp add: Q_def conj_commute conj_left_commute)
  qed
  then have total: "int (card R) = ac_required (plain_counts d a)"
    by (simp add: R_def card_image [OF inj] plain_counts_def Let_def)
  have "r_field ` set (filter (\<lambda>r. nonempty_value r
            \<and> list_ex (\<lambda>f. f_id f = r_field r \<and> f_required f \<and> f_visible f) (fields_tbl d)) ?rs) = R \<inter> Pr"
  proof -
    have fld: "\<exists>f \<in> set (fields_tbl d). f_id f = r_field r \<and> f_instrument f = a_instrument a"
      if "r \<in> set ?rs" for r
      using i a that by (auto simp: integrity_def responses_for_def)
    have "f \<in> Q" if "r \<in> set ?rs" "f \<in> set (fields_tbl d)" "f_id f = r_field r" "f_required f" "f_visible f" for r f
      using fld [OF that(1)] that keyed_field [OF k] by (auto simp: Q_def) metis
    then show ?thesis by (auto simp: R_def Pr_def Q_def list_ex_iff image_iff) metis+
  qed
  then have present: "ac_present (plain_counts d a) = int (card (R \<inter> Pr))"
    by (simp add: plain_counts_def Let_def)
  have "{fid \<in> R. fid \<notin> Pr} = R - (R \<inter> Pr)" by auto
  then have miss: "int (card {fid \<in> R. fid \<notin> Pr}) = ac_missing (plain_counts d a)"
    using finR by (simp add: ac_missing_def total [symmetric] present card_Diff_subset card_mono of_nat_diff)
  then show "0 \<le> ac_missing (plain_counts d a)" by (metis of_nat_0_le_iff)
  show un0: "0 \<le> ac_unsubmitted (plain_counts d a)" by (simp add: plain_counts_def Let_def)
  have e: "R = {} \<longleftrightarrow> ac_required (plain_counts d a) = 0" using finR by (simp flip: total)
  have r0: "0 \<le> ac_required (plain_counts d a)" by (simp flip: total)
  have rw: "ac_rows (plain_counts d a) = int (length ?rs)" by (simp add: plain_counts_def Let_def)
  have sub: "list_ex (\<lambda>r. r_submitted_at r = None) ?rs \<longleftrightarrow> ac_unsubmitted (plain_counts d a) \<noteq> 0"
    by (simp add: plain_counts_def Let_def filter_empty_conv list_ex_iff)
  show "single flds rows a = sum_counts [plain_counts d a]"
    unfolding single_def rollup_step_def Let_def req rs Pr_def [symmetric] miss sub total e
    using un0 r0 \<open>0 \<le> ac_missing (plain_counts d a)\<close>
    by (auto simp: sum_counts_def rw ac_completed_def)
qed

lemma sum_counts_sum:
  assumes "\<And>c. c \<in> set cs \<Longrightarrow> 0 \<le> ac_missing c \<and> 0 \<le> ac_unsubmitted c"
  shows "sum_counts cs = sum_list (map (\<lambda>c. sum_counts [c]) cs)"
  using assms
proof (induction cs)
  case Nil
  then show ?case by (simp add: sum_counts_def zero_rollup_parts_def parts_empty_def)
next
  case (Cons c cs)
  have "0 \<le> sum_list (map (\<lambda>c. ac_missing c + ac_unsubmitted c) cs)"
    using Cons.prems by (intro sum_list_nonneg) force
  then have "sum_counts (c # cs) = sum_counts [c] + sum_counts cs"
    using Cons.prems [of c] by (intro rollup_parts.expand) (auto simp: sum_counts_def)
  with Cons show ?case by simp
qed


lemma dict_filter_get:
  "or_parts (map_option h (dict_get (group_into key id xs) k)) =
     (let ys = filter (\<lambda>x. key x = k) xs in if ys = [] then parts_empty else h ys)"
  by (simp add: group_into_get or_parts_def Let_def)

lemma instrument_split:
  assumes "integrity d" "a \<in> set (assignments d)"
  shows "on_instrument d (python_routed d) (a_instrument a)
     \<longleftrightarrow> \<not> on_instrument d (\<lambda>i. i_group_kind i = None \<and> i_id i \<notin> required_governed_instrument_ids d) (a_instrument a)"
proof -
  obtain i where i: "i \<in> set (instruments d)" "i_id i = a_instrument a"
    using assms by (auto simp: integrity_def)
  have "inj_on i_id (set (instruments d))" using assms(1) by (simp add: integrity_def distinct_map)
  then have "j = i" if "j \<in> set (instruments d)" "i_id j = i_id i" for j
    using i that by (simp add: inj_onD)
  then have "on_instrument d Q (a_instrument a) \<longleftrightarrow> Q i" for Q
    using i unfolding on_instrument_def list_ex_iff by metis
  then show ?thesis by (auto simp: python_routed_def)
qed

lemma responses_clause:
  assumes "integrity d" "a \<in> set (assignments d)" "a_session a = sid" "P (a_instrument a)"
  shows "responses_by_assignment d sid P (a_id a) = responses_for d (a_id a)"
  unfolding responses_by_assignment_def
  by (rule filter_True) (use assms in \<open>auto simp: responses_for_def list_ex_iff\<close>)

lemma reviewer_parts_agree:
  fixes sid :: int
  assumes i: "integrity d"
  defines "all_as \<equiv> filter (\<lambda>a. a_session a = sid \<and> a_include a) (assignments d)"
  shows "parts_add (or_parts (plain_instrument_parts d sid k)) (or_parts (python_instrument_parts d sid k))
     = reviewer_session_state d k sid (Some (group_keys d all_as sid))
         (Some (responses_by_assignment d sid (\<lambda>_. True)))"
proof -
  let ?A = "reviewer_assignments d k sid"
  let ?P = "\<lambda>a. on_instrument d (\<lambda>i. i_group_kind i = None \<and> i_id i \<notin> required_governed_instrument_ids d) (a_instrument a)"
  define mine where "mine = filter (\<lambda>a. a_reviewer a = k) all_as"
  define grp where "grp = filter (\<lambda>a. a_reviewer a = k) (python_assignments d sid)"
  have dist: "distinct (map a_id (assignments d))" using i by (simp add: integrity_def keyed_def)
  have A: "?A = sort_key a_id mine"
    by (simp add: reviewer_assignments_def mine_def all_as_def conj_ac)
  have setA: "set ?A = set mine" by (simp add: A)
  have mem: "a \<in> set (assignments d) \<and> a_session a = sid \<and> a_include a \<and> a_reviewer a = k"
    if "a \<in> set mine" for a using that by (auto simp: mine_def all_as_def)
  define flds where "flds = instrument_fields_by_id d (a_instrument ` set ?A)"
  define rows where "rows = responses_by_assignment d sid (\<lambda>_. True)"
  define keys where "keys = group_keys d all_as sid"
  have keyv: "keys (a_id a) = canonical_key d sid a" if "a \<in> set mine" for a
    unfolding keys_def by (rule group_keys_canonical)
      (use dist that in \<open>auto simp: all_as_def mine_def distinct_map inj_on_def\<close>)
  have rowsv: "rows (a_id a) = responses_for d (a_id a)" if "a \<in> set mine" for a
    unfolding rows_def using mem [OF that] by (intro responses_clause [OF i]) auto
  have fldsv: "flds (a_instrument a) = sort_key f_order
      (filter (\<lambda>f. f_instrument f = a_instrument a \<and> f_visible f) (fields_tbl d))" if "a \<in> set mine" for a
    using that by (simp add: flds_def instrument_fields_by_id_def setA)
  have grp: "grp = filter (\<lambda>a. \<not> ?P a) ?A"
    using instrument_split [OF i] unfolding grp_def python_assignments_def A mine_def all_as_def
    by (simp add: filter_sort conj_ac) (intro arg_cong [where f = "sort_key a_id"] filter_cong; auto)
  have plain: "filter (\<lambda>a. a_reviewer a = k) (plain_assignments d sid) = filter ?P mine"
    unfolding plain_assignments_def mine_def all_as_def by (simp add: conj_ac)
  have "reviewer_session_state d k sid (Some keys) (Some rows)
      = sum_list (map (single flds rows) (dedupe_groups keys {} ?A))"
    by (simp add: reviewer_session_state_def Let_def flds_def rollup_sum)
  also have "\<dots> = sum_list (map (single flds rows) (filter ?P ?A))
      + sum_list (map (single flds rows) (dedupe_groups keys {} grp))"
    unfolding grp
  proof (rule dedupe_split)
    fix a assume a: "a \<in> set ?A" "?P a"
    then have am: "a \<in> set mine" by (simp add: setA)
    have "\<not> on_instrument d (python_routed d) (a_instrument a)"
      using instrument_split [OF i] mem [OF am] a(2) by blast
    then have "canonical_key d sid a = None"
      by (auto simp: canonical_key_def on_instrument_def python_routed_def list_ex_iff)
    then show "keys (a_id a) = None" using keyv [OF am] by simp
  qed
  also have "sum_list (map (single flds rows) (filter ?P ?A)) = or_parts (plain_instrument_parts d sid k)"
  proof -
    have un: "a_instrument a \<notin> required_governed_instrument_ids d" if "?P a" for a
      using that by (auto simp: on_instrument_def list_ex_iff)
    have one: "single flds rows a = sum_counts [plain_counts d a]"
      "0 \<le> ac_missing (plain_counts d a)" "0 \<le> ac_unsubmitted (plain_counts d a)"
      if "a \<in> set (filter ?P mine)" for a
    proof -
      have a: "a \<in> set mine" "a \<in> set (assignments d)" "?P a" using that mem by auto
      note sp = single_plain [OF i a(2) un [OF a(3)], where flds = flds and rows = rows,
          OF fldsv [OF a(1)] rowsv [OF a(1)]]
      show "single flds rows a = sum_counts [plain_counts d a]"
        "0 \<le> ac_missing (plain_counts d a)" "0 \<le> ac_unsubmitted (plain_counts d a)" by (rule sp)+
    qed
    have "sum_list (map (single flds rows) (filter ?P ?A)) = sum_list (map (single flds rows) (filter ?P mine))"
      by (simp add: A filter_sort sum_list_sort_key)
    also have "\<dots> = sum_list (map (\<lambda>c. sum_counts [c]) (map (plain_counts d) (filter ?P mine)))"
      unfolding map_map comp_def using one(1) by (intro arg_cong [where f = sum_list] map_cong) auto
    also have "\<dots> = sum_counts (map (plain_counts d) (filter ?P mine))"
      by (rule sum_counts_sum [symmetric]) (use one(2,3) in auto)
    finally have s: "sum_list (map (single flds rows) (filter ?P ?A))
        = sum_counts (map (plain_counts d) (filter ?P mine))" .
    have key: "ac_key (plain_counts d a) = a_reviewer a" for a by (simp add: plain_counts_def Let_def)
    have "filter (\<lambda>c. ac_key c = k) (map (plain_counts d) (plain_assignments d sid))
        = map (plain_counts d) (filter ?P mine)"
      unfolding plain [symmetric] by (simp add: filter_map comp_def key)
    moreover have "sum_counts [] = parts_empty" by (simp add: sum_counts_def parts_empty_def)
    ultimately show ?thesis
      unfolding s plain_instrument_parts_def dict_filter_get Let_def by simp
  qed
  also have "sum_list (map (single flds rows) (dedupe_groups keys {} grp)) = or_parts (python_instrument_parts d sid k)"
  proof -
    define ps where "ps = python_assignments d sid"
    define flds' where "flds' = instrument_fields_by_id d (a_instrument ` set ps)"
    define rows' where "rows' = responses_by_assignment d sid (on_instrument d (python_routed d))"
    have gm: "a \<in> set mine" "a \<in> set ps" if "a \<in> set grp" for a
      using that by (auto simp: grp_def ps_def python_assignments_def mine_def all_as_def)
    have dps: "distinct (map a_id ps)"
      using dist by (auto simp: ps_def python_assignments_def distinct_map inj_on_def)
    have "or_parts (python_instrument_parts d sid k)
        = sum_list (map (single flds' rows') (dedupe_groups (group_keys d ps sid) {} grp))"
      unfolding python_instrument_parts_def Let_def dict_filter_get rollup_sum
      by (simp add: grp_def flds'_def rows'_def ps_def zero_rollup_parts_def)
    also have "dedupe_groups (group_keys d ps sid) {} grp = dedupe_groups keys {} grp"
      by (rule dedupe_cong) (use gm keyv group_keys_canonical [OF dps] in simp)
    also have "map (single flds' rows') (dedupe_groups keys {} grp) = map (single flds rows) (dedupe_groups keys {} grp)"
    proof (rule map_cong [OF refl])
      fix a assume "a \<in> set (dedupe_groups keys {} grp)"
      then have g: "a \<in> set grp" using set_dedupe by blast
      have "rows' (a_id a) = rows (a_id a)"
        using rowsv [OF gm(1) [OF g]] mem [OF gm(1) [OF g]] gm(2) [OF g] unfolding rows'_def
        by (subst responses_clause [OF i]) (auto simp: ps_def python_assignments_def)
      moreover have "flds' (a_instrument a) = flds (a_instrument a)"
        using fldsv [OF gm(1) [OF g]] gm(2) [OF g] by (simp add: flds'_def instrument_fields_by_id_def)
      ultimately show "single flds' rows' a = single flds rows a"
        by (simp add: single_def rollup_step_def)
    qed
    finally show ?thesis by simp
  qed
  finally show ?thesis
    by (simp add: plus_rollup_parts_def keys_def rows_def)
qed


text \<open>
  C6. The progress page's query and its oracle agree: on every database whose rows keep the
  schema's keys and references, adding the aggregate over the plain instruments to the Python
  half over the group-scoped and branched ones gives, reviewer by reviewer, the figures of the
  one Python loop over all assignments, the pill and the invitation columns included.
\<close>

theorem per_reviewer_progress_parity:
  assumes "integrity d"
  shows "per_reviewer_progress d sid = per_reviewer_progress_python d sid"
  unfolding per_reviewer_progress_def per_reviewer_progress_python_def Let_def
    reviewer_parts_agree [OF assms] by (rule refl)

section \<open>The reviewee side\<close>

lemma later_assoc: "later (later x y) z = later x (later y z)"
  by (auto simp: later_def max.assoc split: option.splits)

lemma later_commute: "later x y = later y x"
  by (auto simp: later_def max.commute split: option.splits)

lemma later_None [simp]: "later x None = x" "later None x = x"
  by (auto simp: later_def split: option.splits)

lemma foldr_later: "foldr later xs y = later (foldr later xs None) y"
  by (induction xs) (auto simp: later_assoc)

definition coverage_sum :: "(assignment \<Rightarrow> bool \<times> int option) \<Rightarrow> assignment list \<Rightarrow> coverage_part" where
  "coverage_sum f as = (int (length as), int (length (filter (\<lambda>a. fst (f a)) as)),
     foldr later (map (\<lambda>a. snd (f a)) as) None)"

definition coverage_add :: "coverage_part \<Rightarrow> coverage_part \<Rightarrow> coverage_part" where
  "coverage_add p q = (case (p, q) of ((a, b, c), (a', b', c')) \<Rightarrow> (a + a', b + b', later c c'))"

lemma coverage_loop: "foldl (coverage_step f) p as = coverage_add p (coverage_sum f as)"
proof (induction as arbitrary: p)
  case Nil
  then show ?case by (simp add: coverage_add_def coverage_sum_def split: prod.splits)
next
  case (Cons a as)
  then show ?case
    by (simp add: coverage_add_def coverage_sum_def coverage_step_def later_assoc split: prod.splits)
qed

lemma coverage_sum_split:
  "coverage_sum f as = coverage_add (coverage_sum f (filter P as)) (coverage_sum f (filter (\<lambda>a. \<not> P a) as))"
proof (induction as)
  case Nil
  then show ?case by (simp add: coverage_add_def coverage_sum_def)
next
  case (Cons a as)
  have "later x (later y z) = later y (later x z)" for x y z
    by (metis later_assoc later_commute)
  with Cons show ?case by (auto simp: coverage_add_def coverage_sum_def later_assoc split: prod.splits)
qed

lemma coverage_sum_cong: "(\<And>a. a \<in> set as \<Longrightarrow> f a = g a) \<Longrightarrow> coverage_sum f as = coverage_sum g as"
  by (simp add: coverage_sum_def cong: filter_cong map_cong)

lemma sql_complete_agrees:
  assumes i: "integrity d" and a: "a \<in> set (assignments d)"
    and un: "a_instrument a \<notin> required_governed_instrument_ids d"
  shows "sql_complete d a = assignment_complete (fields_of_instrument d (a_instrument a)) (responses_for d (a_id a))"
proof -
  have k: "keyed d" using i by (simp add: integrity_def)
  let ?rs = "responses_for d (a_id a)"
  define Q where "Q = {f \<in> set (fields_tbl d). f_required f \<and> f_instrument f = a_instrument a}"
  define S where "S = r_field ` set (filter (\<lambda>r. nonempty_value r \<and> r_submitted_at r \<noteq> None) ?rs)"
  have inj: "inj_on f_id Q" using keyed_field [OF k] by (auto simp: inj_on_def Q_def)
  have req: "required_field_ids (fields_of_instrument d (a_instrument a)) ans = f_id ` Q" for ans
    by (subst ungoverned_required [OF k un])
      (use k in \<open>auto simp: fields_of_instrument_def Q_def keyed_def distinct_map inj_on_def\<close>)
  have total: "length (filter (\<lambda>f. f_required f \<and> f_instrument f = a_instrument a) (fields_tbl d)) = card (f_id ` Q)"
  proof -
    have "distinct (filter (\<lambda>f. f_required f \<and> f_instrument f = a_instrument a) (fields_tbl d))"
      using k by (simp add: keyed_def distinct_map)
    from distinct_card [OF this] show ?thesis by (simp add: Q_def card_image [OF inj, unfolded Q_def])
  qed
  have sat: "r_field ` set (filter (\<lambda>r. nonempty_value r \<and> r_submitted_at r \<noteq> None
             \<and> list_ex (\<lambda>f. f_id f = r_field r \<and> f_required f) (fields_tbl d)) ?rs) = f_id ` Q \<inter> S"
  proof -
    have fld: "\<exists>f \<in> set (fields_tbl d). f_id f = r_field r \<and> f_instrument f = a_instrument a"
      if "r \<in> set ?rs" for r
      using i a that by (auto simp: integrity_def responses_for_def)
    have "f \<in> Q" if "r \<in> set ?rs" "f \<in> set (fields_tbl d)" "f_id f = r_field r" "f_required f" for r f
    proof -
      from fld [OF that(1)] obtain g where "g \<in> set (fields_tbl d)" "f_id g = r_field r"
        "f_instrument g = a_instrument a" by blast
      moreover from this have "g = f" using that keyed_field [OF k] by auto
      ultimately show ?thesis using that by (simp add: Q_def)
    qed
    then show ?thesis by (auto simp: Q_def S_def list_ex_iff image_iff) metis+
  qed
  have fin: "finite (f_id ` Q)" by (simp add: Q_def)
  have "card (f_id ` Q \<inter> S) = card (f_id ` Q) \<longleftrightarrow> f_id ` Q \<subseteq> S"
    using fin by (metis card_subset_eq inf_le1 inf.absorb_iff1)
  moreover have "card (f_id ` Q) = 0 \<longleftrightarrow> f_id ` Q = {}" using fin by simp
  ultimately have sql: "fst (sql_complete d a) \<longleftrightarrow> ?rs \<noteq> [] \<and> f_id ` Q \<subseteq> S"
    unfolding sql_complete_def Let_def fst_conv total sat by auto
  have by_field: "dict_get (dict_of r_field id ?rs) fid = Some r \<longleftrightarrow> r \<in> set ?rs \<and> r_field r = fid" for fid r
  proof
    assume "dict_get (dict_of r_field id ?rs) fid = Some r"
    then show "r \<in> set ?rs \<and> r_field r = fid"
      by (auto simp: dict_of_get Let_def split: if_splits dest!: last_in_set)
  next
    assume "r \<in> set ?rs \<and> r_field r = fid"
    then show "dict_get (dict_of r_field id ?rs) fid = Some r"
      using dict_of_get_distinct [OF integrity_rows_distinct [OF i], of r "a_id a" id] by auto
  qed
  have bf: "(case dict_get (dict_of r_field id ?rs) fid of None \<Rightarrow> False
         | Some r \<Rightarrow> nonempty_value r \<and> r_submitted_at r \<noteq> None) \<longleftrightarrow> fid \<in> S" for fid
  proof (cases "dict_get (dict_of r_field id ?rs) fid")
    case None
    then have "fid \<notin> r_field ` set ?rs" by (simp only: dict_of_get_None not_False_eq_True)
    with None show ?thesis by (auto simp: S_def)
  next
    case (Some b)
    then have b: "b \<in> set ?rs" "r_field b = fid" using by_field by blast+
    have eq: "r = b" if "r \<in> set ?rs" "r_field r = fid" for r
    proof -
      have "Some b = Some r" unfolding Some [symmetric] by_field using that by simp
      then show ?thesis by simp
    qed
    have "fid \<in> S \<longleftrightarrow> nonempty_value b \<and> r_submitted_at b \<noteq> None"
    proof
      assume "fid \<in> S"
      then obtain r where r: "r \<in> set ?rs" "nonempty_value r" "r_submitted_at r \<noteq> None" "fid = r_field r"
        unfolding S_def by (elim imageE) auto
      with eq [of r] show "nonempty_value b \<and> r_submitted_at b \<noteq> None" by simp
    next
      assume "nonempty_value b \<and> r_submitted_at b \<noteq> None"
      then show "fid \<in> S" using b unfolding S_def by (intro image_eqI [of _ _ b]) simp_all
    qed
    with Some show ?thesis by simp
  qed
  have "snd (sql_complete d a) = latest_stamp ?rs" by (simp add: sql_complete_def Let_def)
  moreover have "latest_stamp [] = None" by (simp add: latest_stamp_def)
  ultimately show ?thesis
    using sql unfolding assignment_complete_def Let_def req bf
    by (cases "?rs = []") (simp_all add: prod_eq_iff subset_eq)
qed


lemma python_routed_coverage_eq:
  "python_routed_coverage d sid k =
     (let as = filter (\<lambda>a. a_session a = sid \<and> a_include a
            \<and> a_instrument a \<in> required_governed_instrument_ids d \<and> a_reviewee a = k) (assignments d);
          rows = responses_by_assignment d sid
            (on_instrument d (\<lambda>i. i_id i \<in> required_governed_instrument_ids d));
          f = (\<lambda>a. assignment_complete (fields_of_instrument d (a_instrument a)) (rows (a_id a)))
      in if as = [] then None else Some (coverage_sum f as))"
proof -
  have loop: "foldl (\<lambda>v a. Some (coverage_step f (case v of None \<Rightarrow> (0, 0, None) | Some p \<Rightarrow> p) a)) (Some p) as
      = Some (foldl (coverage_step f) p as)" for f p as
    by (induction as arbitrary: p) simp_all
  have "foldl (\<lambda>v a. Some (coverage_step f (case v of None \<Rightarrow> (0, 0, None) | Some p \<Rightarrow> p) a)) None as
      = (if as = [] then None else Some (coverage_sum f as))" for f as
  proof (cases as)
    case Nil
    then show ?thesis by simp
  next
    case (Cons a as')
    have "foldl (coverage_step f) (0, 0, None) as = coverage_sum f as"
      by (simp add: coverage_loop coverage_add_def split: prod.splits)
    with Cons loop show ?thesis by simp
  qed
  then show ?thesis
    unfolding python_routed_coverage_def Let_def
    by (simp only: dict.lookup_loop_empty [where g = "\<lambda>a v. coverage_step _ (case v of None \<Rightarrow> (0, 0, None) | Some p \<Rightarrow> p) a"]
        filter_filter conj_assoc)
qed

text \<open>One reviewee's included assignments, and the part each source computes over them.\<close>

definition included_of :: "db \<Rightarrow> int \<Rightarrow> int \<Rightarrow> assignment list" where
  "included_of d sid k = filter (\<lambda>a. a_reviewee a = k) (filter (\<lambda>a. a_session a = sid \<and> a_include a) (assignments d))"

definition completes :: "db \<Rightarrow> assignment \<Rightarrow> bool \<times> int option" where
  "completes d a = assignment_complete (fields_of_instrument d (a_instrument a)) (responses_for d (a_id a))"

definition governed_row :: "db \<Rightarrow> assignment \<Rightarrow> bool" where
  "governed_row d a = (a_instrument a \<in> required_governed_instrument_ids d)"

lemma included_of_mem: "a \<in> set (included_of d sid k) \<Longrightarrow> a \<in> set (assignments d) \<and> a_session a = sid"
  by (simp add: included_of_def)

lemma sql_part:
  assumes i: "integrity d"
  shows "sql_coverage d sid k = (let as = filter (\<lambda>a. \<not> governed_row d a) (included_of d sid k) in
      if as = [] then None else Some (coverage_sum (completes d) as))"
proof -
  have *: "filter (\<lambda>a. a_session a = sid \<and> a_include a \<and> a_instrument a \<notin> required_governed_instrument_ids d
        \<and> a_reviewee a = k) (assignments d)
      = filter (\<lambda>a. \<not> governed_row d a) (included_of d sid k)" by (simp add: included_of_def governed_row_def conj_ac)
  have "coverage_sum (sql_complete d) (filter (\<lambda>a. \<not> governed_row d a) (included_of d sid k))
      = coverage_sum (completes d) (filter (\<lambda>a. \<not> governed_row d a) (included_of d sid k))"
    by (rule coverage_sum_cong)
      (use included_of_mem sql_complete_agrees [OF i] in \<open>auto simp: completes_def governed_row_def\<close>)
  then show ?thesis
    unfolding sql_coverage_def Let_def * by (auto simp: coverage_sum_def)
qed

lemma python_part:
  assumes i: "integrity d"
  shows "python_routed_coverage d sid k = (let as = filter (governed_row d) (included_of d sid k) in
      if as = [] then None else Some (coverage_sum (completes d) as))"
proof -
  let ?rows = "responses_by_assignment d sid (on_instrument d (\<lambda>i. i_id i \<in> required_governed_instrument_ids d))"
  have *: "filter (\<lambda>a. a_session a = sid \<and> a_include a \<and> a_instrument a \<in> required_governed_instrument_ids d
        \<and> a_reviewee a = k) (assignments d)
      = filter (governed_row d) (included_of d sid k)"
    by (simp add: included_of_def governed_row_def [abs_def] conj_ac)
  have "?rows (a_id a) = responses_for d (a_id a)" if "a \<in> set (filter (governed_row d) (included_of d sid k))" for a
  proof (rule responses_clause [OF i])
    show "a \<in> set (assignments d)" "a_session a = sid" using that included_of_mem by auto
    then obtain j where "j \<in> set (instruments d)" "i_id j = a_instrument a"
      using i by (auto simp: integrity_def)
    with that show "on_instrument d (\<lambda>i. i_id i \<in> required_governed_instrument_ids d) (a_instrument a)"
      by (auto simp: on_instrument_def list_ex_iff governed_row_def)
  qed
  then have "coverage_sum (\<lambda>a. assignment_complete (fields_of_instrument d (a_instrument a)) (?rows (a_id a)))
      (filter (governed_row d) (included_of d sid k)) = coverage_sum (completes d) (filter (governed_row d) (included_of d sid k))"
    by (intro coverage_sum_cong) (simp add: completes_def)
  then show ?thesis unfolding python_routed_coverage_eq Let_def * by simp
qed

lemma merged_parts:
  assumes "integrity d"
  shows "(case (sql_coverage d sid k, python_routed_coverage d sid k) of
            (Some p, None) \<Rightarrow> p | (None, None) \<Rightarrow> (0, 0, None) | (None, Some q) \<Rightarrow> q
          | (Some (c, n, l), Some (c', n', l')) \<Rightarrow> (c + c', n + n', later l l')) = coverage_sum (completes d) (included_of d sid k)"
proof -
  have nil: "coverage_sum (completes d) [] = (0, 0, None)" by (simp add: coverage_sum_def)
  show ?thesis
    unfolding coverage_sum_split [of "completes d" "included_of d sid k" "\<lambda>a. \<not> governed_row d a"]
      sql_part [OF assms] python_part [OF assms] Let_def
    by (auto simp: nil coverage_add_def split: prod.splits)
qed

lemma oracle_part:
  assumes i: "integrity d"
  shows "foldl (coverage_step (\<lambda>a. assignment_complete (fields_of_instrument d (a_instrument a))
        (responses_by_assignment d sid (\<lambda>_. True) (a_id a)))) (0, 0, None)
      (or_nil (dict_get (group_into a_reviewee id (filter (\<lambda>a. a_session a = sid \<and> a_include a) (assignments d))) k))
    = coverage_sum (completes d) (included_of d sid k)"
proof -
  have "or_nil (dict_get (group_into a_reviewee id (filter (\<lambda>a. a_session a = sid \<and> a_include a) (assignments d))) k)
      = included_of d sid k"
    by (simp add: or_nil_def group_into_get Let_def included_of_def)
  moreover have "coverage_sum (\<lambda>a. assignment_complete (fields_of_instrument d (a_instrument a))
      (responses_by_assignment d sid (\<lambda>_. True) (a_id a))) (included_of d sid k) = coverage_sum (completes d) (included_of d sid k)"
    by (rule coverage_sum_cong) (use included_of_mem in \<open>auto simp: completes_def responses_clause [OF i]\<close>)
  ultimately show ?thesis by (simp add: coverage_loop coverage_add_def split: prod.splits)
qed

lemma covered_reviewees:
  assumes i: "integrity d"
  shows "filter (\<lambda>r. re_session r = sid \<and> (sql_coverage d sid (re_id r) \<noteq> None
        \<or> python_routed_coverage d sid (re_id r) \<noteq> None)) (reviewees d)
    = filter (\<lambda>r. re_id r \<in> a_reviewee ` set (filter (\<lambda>a. a_session a = sid \<and> a_include a) (assignments d))) (reviewees d)"
proof (rule filter_cong [OF refl])
  fix r assume r: "r \<in> set (reviewees d)"
  let ?mine = "filter (\<lambda>a. a_session a = sid \<and> a_include a) (assignments d)"
  have "re_session r = sid" if "re_id r \<in> a_reviewee ` set ?mine"
    using that i r by (auto simp: integrity_def)
  moreover have "sql_coverage d sid (re_id r) \<noteq> None \<or> python_routed_coverage d sid (re_id r) \<noteq> None
      \<longleftrightarrow> included_of d sid (re_id r) \<noteq> []"
    unfolding sql_part [OF i] python_part [OF i] Let_def
    by (auto simp: filter_empty_conv simp del: not_None_eq split: if_splits)
  moreover have "included_of d sid (re_id r) \<noteq> [] \<longleftrightarrow> re_id r \<in> a_reviewee ` set ?mine"
    unfolding included_of_def filter_empty_conv image_iff by metis
  ultimately show "(re_session r = sid \<and> (sql_coverage d sid (re_id r) \<noteq> None
      \<or> python_routed_coverage d sid (re_id r) \<noteq> None)) = (re_id r \<in> a_reviewee ` set ?mine)" by blast
qed

text \<open>
  C7. The coverage page's query and its oracle agree on every such database: for each reviewee,
  the assignment count, the completed count, the bucket and the latest submission that the SQL
  rollup merged with the Python half reports are those of the one Python loop.
\<close>

theorem per_reviewee_coverage_parity:
  assumes i: "integrity d"
  shows "per_reviewee_coverage d sid = per_reviewee_coverage_python d sid"
  unfolding per_reviewee_coverage_def merged_parts [OF i] covered_reviewees [OF i]
    per_reviewee_coverage_python_def Let_def oracle_part [OF i] by (rule refl)

definition progress_db :: db where
  "progress_db = demo_db\<lparr>instruments := [\<lparr>i_id = 1, i_session = 1, i_order = 0, i_accepting = True,
        i_deadline_closed_at = None, i_starts_new_page = False, i_group_kind = None, i_rule_set = None, i_self_reviews = True\<rparr>,
        \<lparr>i_id = 7, i_session = 1, i_order = 1, i_accepting = True,
        i_deadline_closed_at = None, i_starts_new_page = False, i_group_kind = Some ''r1'', i_rule_set = None, i_self_reviews = True\<rparr>],
     fields_tbl := (demo_field 9 None None None)\<lparr>f_instrument := 7\<rparr> # demo_fields,
     reviewers := [\<lparr>rr_id = 1, rr_session = 1, rr_name = ''R'', rr_email = ''r@x.org'',
        rr_status = ''active'', rr_tag1 = None, rr_tag2 = None, rr_tag3 = None, rr_object_id = None, rr_directory_mail = None\<rparr>],
     reviewees := [demo_reviewee 1 ''red'', demo_reviewee 2 ''red''],
     assignments := assignments demo_db @ [demo_assignment 11 1 7, demo_assignment 12 2 7],
     responses := responses demo_db @ [\<lparr>r_assignment = 11, r_field = 9, r_value = Some ''x'',
        r_saved_at = Aware 0, r_submitted_at = Some (Aware 5), r_version = 1\<rparr>]\<rparr>"

lemma progress_integrity: "integrity progress_db"
proof -
  have "keyed progress_db" by code_simp
  moreover have "distinct (map i_id (instruments progress_db))" by code_simp
  moreover have "distinct (map (\<lambda>r. (r_assignment r, r_field r)) (responses progress_db))" by code_simp
  moreover have "\<forall>a \<in> set (assignments progress_db). (\<exists>i \<in> set (instruments progress_db). i_id i = a_instrument a)
          \<and> (\<forall>r \<in> set (reviewees progress_db). re_id r = a_reviewee a \<longrightarrow> re_session r = a_session a)" by code_simp
  moreover have "\<forall>r \<in> set (responses progress_db). \<forall>a \<in> set (assignments progress_db). a_id a = r_assignment r \<longrightarrow>
          (\<exists>f \<in> set (fields_tbl progress_db). f_id f = r_field r \<and> f_instrument f = a_instrument a)" by code_simp
  ultimately show ?thesis by (simp only: integrity_def simp_thms)
qed

lemma per_reviewer_progress_parity_witness:
  "map (\<lambda>r. (pr_assignment_count r, pr_completed_count r, pr_required_total r, pr_pill_state r))
     (per_reviewer_progress_python progress_db 1) = [(3, 3, 3, ''in progress'')]"
proof -
  have "map (\<lambda>r. (pr_assignment_count r, pr_completed_count r, pr_required_total r, pr_pill_state r))
     (per_reviewer_progress progress_db 1) = [(3, 3, 3, ''in progress'')]" by code_simp
  then show ?thesis by (simp only: per_reviewer_progress_parity [OF progress_integrity])
qed

lemma per_reviewee_coverage_parity_witness:
  "map (\<lambda>c. (cv_reviewer_count c, cv_completed_count c, cv_pill_state c, cv_last_response_at c))
     (per_reviewee_coverage_python progress_db 1)
   = [(2, 1, ''adequate'', Some 5), (2, 0, ''no responses'', None)]"
proof -
  have "map (\<lambda>c. (cv_reviewer_count c, cv_completed_count c, cv_pill_state c, cv_last_response_at c))
     (per_reviewee_coverage progress_db 1)
   = [(2, 1, ''adequate'', Some 5), (2, 0, ''no responses'', None)]" by code_simp
  then show ?thesis by (simp only: per_reviewee_coverage_parity [OF progress_integrity])
qed

end
