(* ===== verification/Lifecycle.thy ===== *)
theory Lifecycle
  imports Monitoring
begin

text \<open>
  The session lifecycle, \<open>app/services/session_lifecycle.py\<close>: the predicates and windows, the
  transitions, the gates and the lazy close at the review's end. An operation is one atomic
  step on the committed database: it locks the session row first and decides on what it reads
  there. What a request read before the lock is a second database, \<open>seen\<close>.
\<close>

section \<open>Predicates and windows\<close>

definition is_ready :: "review_session \<Rightarrow> bool" where "is_ready s = (s_status s = Ready)"
definition is_draft :: "review_session \<Rightarrow> bool" where "is_draft s = (s_status s = Draft)"
definition is_validated :: "review_session \<Rightarrow> bool" where "is_validated s = (s_status s = Validated)"
definition is_expired :: "review_session \<Rightarrow> bool" where "is_expired s = (s_status s = Expired)"
definition is_archived :: "review_session \<Rightarrow> bool" where "is_archived s = (s_status s = Archived)"

definition can_archive :: "review_session \<Rightarrow> bool" where
  "can_archive s = (\<not> is_ready s \<and> \<not> is_archived s)"

definition is_editable :: "review_session \<Rightarrow> bool" where
  "is_editable s = (is_draft s \<or> is_validated s)"

definition review_end :: "review_session \<Rightarrow> int option" where
  "review_end s = (case as_utc (s_deadline s) of
     Some t \<Rightarrow> Some t | None \<Rightarrow> as_utc (s_responses_release_at s))"

definition deadline_has_passed :: "int \<Rightarrow> review_session \<Rightarrow> bool" where
  "deadline_has_passed now s = (case review_end s of None \<Rightarrow> False | Some t \<Rightarrow> t \<le> now)"

definition is_ongoing :: "int \<Rightarrow> review_session \<Rightarrow> bool" where
  "is_ongoing now s = (if \<not> is_ready s then False
     else (case review_end s of None \<Rightarrow> True | Some t \<Rightarrow> now < t))"

definition is_response_release_window_open :: "int \<Rightarrow> review_session \<Rightarrow> bool" where
  "is_response_release_window_open now s =
     (if \<not> is_expired s then False
      else (case as_utc (s_responses_release_at s) of None \<Rightarrow> False
        | Some anchor \<Rightarrow> if now < anchor then False
            else \<not> (case as_utc (s_responses_release_until s) of None \<Rightarrow> False
                     | Some close \<Rightarrow> close \<le> now)))"

definition recall_allowed :: "int \<Rightarrow> review_session \<Rightarrow> bool" where
  "recall_allowed now s = (is_ready s \<and> \<not> deadline_has_passed now s)"

definition session_accepts_responses :: "int \<Rightarrow> review_session \<Rightarrow> instrument \<Rightarrow> bool" where
  "session_accepts_responses now s i =
     (if \<not> is_ready s then False else if \<not> i_accepting i then False
      else \<not> deadline_has_passed now s)"

definition session_status_for_reviewer :: "db \<Rightarrow> int \<Rightarrow> int \<Rightarrow> review_session \<Rightarrow> int \<Rightarrow> string" where
  "session_status_for_reviewer d reviewer_id sid s now =
     (if is_expired s then ''closed''
      else if \<not> is_ready s then ''not opened''
      else (let ids = a_instrument ` set (filter (\<lambda>a. a_session a = sid \<and> a_reviewer a = reviewer_id
                        \<and> a_include a) (assignments d))
            in if list_ex (\<lambda>i. i_id i \<in> ids \<and> session_accepts_responses now s i) (instruments d)
               then ''open'' else ''closed''))"

section \<open>Gates\<close>

definition require_editable :: "db \<Rightarrow> int \<Rightarrow> review_session result" where
  "require_editable d sid = require_state d sid is_editable ''not_editable'' False"

definition require_not_archived :: "db \<Rightarrow> int \<Rightarrow> review_session result" where
  "require_not_archived d sid = require_state d sid (\<lambda>s. \<not> is_archived s) ''archived'' False"

definition require_not_ready :: "db \<Rightarrow> int \<Rightarrow> review_session result" where
  "require_not_ready d sid = require_state d sid (\<lambda>s. \<not> is_ready s) ''session_ready'' False"

definition require_validated_or_ready :: "db \<Rightarrow> int \<Rightarrow> review_session result" where
  "require_validated_or_ready d sid =
     require_state d sid (\<lambda>s. is_validated s \<or> is_ready s) ''not_prepared'' False"

definition require_ready :: "db \<Rightarrow> int \<Rightarrow> review_session result" where
  "require_ready d sid = require_state d sid is_ready ''not_ready'' False"

definition require_accepting_responses :: "db \<Rightarrow> int \<Rightarrow> review_session result" where
  "require_accepting_responses d sid =
     require_state d sid (\<lambda>s. is_ready s \<and> \<not> deadline_has_passed (wall d) s)
       ''not_accepting_responses'' True"

section \<open>Readiness\<close>

datatype severity = SevError | SevWarning | SevInfo

type_synonym issue = "severity \<times> string"

record readiness_report =
  rep_errors :: "issue list"
  rep_warnings :: "issue list"
  rep_info :: "issue list"

definition can_activate :: "readiness_report \<Rightarrow> bool" where
  "can_activate r = (rep_errors r = [])"

definition has_non_blocking_findings :: "readiness_report \<Rightarrow> bool" where
  "has_non_blocking_findings r = (rep_warnings r \<noteq> [])"

definition build_readiness_report :: "issue list \<Rightarrow> readiness_report" where
  "build_readiness_report issues = foldl (\<lambda>r i.
     if fst i = SevError then r\<lparr>rep_errors := rep_errors r @ [i]\<rparr>
     else if fst i = SevWarning then r\<lparr>rep_warnings := rep_warnings r @ [i]\<rparr>
     else r\<lparr>rep_info := rep_info r @ [i]\<rparr>) \<lparr>rep_errors = [], rep_warnings = [], rep_info = []\<rparr> issues"

section \<open>Transitions\<close>

definition set_status :: "session_status \<Rightarrow> int \<Rightarrow> db \<Rightarrow> db" where
  "set_status st sid d = upd_session sid (\<lambda>s. s\<lparr>s_status := st\<rparr>) d"

definition accepting_count :: "db \<Rightarrow> int \<Rightarrow> int" where
  "accepting_count d sid = int (length (filter i_accepting (session_instruments d sid)))"

definition mark_validated :: "int option \<Rightarrow> readiness_report \<Rightarrow> int \<Rightarrow> db \<Rightarrow> db result" where
  "mark_validated user report sid d =
     bindE (lock_session d sid False) (\<lambda>s.
       if is_validated s then Inr d
       else if \<not> is_draft s then Inl (LifecycleError ''not_draft'')
       else if \<not> can_activate report then Inl (LifecycleError ''has_errors'')
       else Inr (write_event ''session.validated'' user (Some sid)
              (Counts [(''warnings'', int (length (rep_warnings report))),
                       (''info'', int (length (rep_info report)))]) None [] []
              (set_status Validated sid d)))"

definition flip_to_draft :: "int option \<Rightarrow> string \<Rightarrow> int \<Rightarrow> db \<Rightarrow> db" where
  "flip_to_draft user reason sid d =
     write_event ''session.invalidated'' user (Some sid) NoPayload (Some reason) [] []
       (set_status Draft sid d)"

text \<open>
  \<open>invalidate_if_validated\<close> and \<open>invalidate_session\<close> take no lock of their own: the caller
  holds it, so the row they read is the committed one.
\<close>

definition invalidate_if_validated :: "int option \<Rightarrow> string \<Rightarrow> int \<Rightarrow> db \<Rightarrow> db" where
  "invalidate_if_validated user reason sid d =
     (case sessions d sid of None \<Rightarrow> d
      | Some s \<Rightarrow> if is_validated s then flip_to_draft user reason sid d else d)"

definition invalidate_session :: "int option \<Rightarrow> string \<Rightarrow> int \<Rightarrow> db \<Rightarrow> db result" where
  "invalidate_session user reason sid d =
     (case sessions d sid of None \<Rightarrow> Inl NoResultFound
      | Some s \<Rightarrow> if is_draft s then Inr d
          else if \<not> is_validated s then Inl (LifecycleError ''not_validated'')
          else Inr (flip_to_draft user reason sid d))"

definition activate_session ::
  "int option \<Rightarrow> readiness_report \<Rightarrow> bool \<Rightarrow> string \<Rightarrow> int \<Rightarrow> db \<Rightarrow> db result" where
  "activate_session user report acknowledge_warnings trigger sid d =
     bindE (lock_session d sid False) (\<lambda>s.
       if \<not> is_validated s then Inl (LifecycleError ''not_validated'')
       else if \<not> can_activate report then Inl (LifecycleError ''has_errors'')
       else if has_non_blocking_findings report \<and> \<not> acknowledge_warnings
         then Inl (LifecycleError ''needs_acknowledge'')
       else Inr (write_event ''session.activated'' user (Some sid)
              (Counts [(''warnings'', int (length (rep_warnings report))),
                       (''info'', int (length (rep_info report))),
                       (''instruments'', int (length (session_instruments d sid)))]) None []
              [(''prev_status'', JStr ''validated''),
               (''override_warnings'', JBool (has_non_blocking_findings report)),
               (''trigger'', JStr trigger)]
              (upd_instruments sid (\<lambda>i. i\<lparr>i_accepting := True, i_deadline_closed_at := None\<rparr>)
                (upd_session sid (\<lambda>s. s\<lparr>s_status := Ready,
                    s_activated_at := (case s_activated_at s of None \<Rightarrow> Some (Aware (wall d)) | Some t \<Rightarrow> Some t),
                    s_scheduled_activate_at := None\<rparr>) d))))"

definition close_all :: "int \<Rightarrow> db \<Rightarrow> db" where
  "close_all sid d = upd_instruments sid (\<lambda>i. i\<lparr>i_accepting := False\<rparr>) d"

definition expire_session :: "int option \<Rightarrow> int \<Rightarrow> db \<Rightarrow> db result" where
  "expire_session user sid d =
     bindE (lock_session d sid False) (\<lambda>s.
       if \<not> is_ready s then Inl (LifecycleError ''not_ready'')
       else Inr (write_event ''session.expired'' user (Some sid)
              (Counts [(''closed_instruments'', accepting_count d sid)]) None [] []
              (set_status Expired sid (close_all sid d))))"

definition session_response_count :: "db \<Rightarrow> int \<Rightarrow> int" where
  "session_response_count d sid = int (length (filter (\<lambda>r.
     list_ex (\<lambda>a. a_id a = r_assignment r \<and> a_session a = sid) (assignments d)) (responses d)))"

definition session_has_responses :: "db \<Rightarrow> int \<Rightarrow> bool" where
  "session_has_responses d sid = list_ex (\<lambda>r.
     list_ex (\<lambda>a. a_id a = r_assignment r \<and> a_session a = sid) (assignments d)) (responses d)"

definition revert_session_to_draft :: "int option \<Rightarrow> bool \<Rightarrow> int \<Rightarrow> db \<Rightarrow> db result" where
  "revert_session_to_draft user confirm sid d =
     bindE (lock_session d sid False) (\<lambda>s.
       if \<not> (is_ready s \<or> is_expired s) then Inl (LifecycleError ''not_ready'')
       else if \<not> confirm then Inl (LifecycleError ''needs_confirm'')
       else Inr (write_event ''session.reverted_to_draft'' user (Some sid)
              (Counts [(''closed_instruments'', accepting_count d sid),
                       (''responses_at_revert'', session_response_count d sid)]) None [] []
              (set_status Draft sid (close_all sid d))))"

definition operator_revert :: "int option \<Rightarrow> bool \<Rightarrow> int \<Rightarrow> db \<Rightarrow> db result" where
  "operator_revert user confirm sid d =
     bindE (lock_session d sid False) (\<lambda>s.
       if is_validated s then invalidate_session user ''operator_revert'' sid d
       else revert_session_to_draft user confirm sid d)"

definition release_responses_now :: "int option \<Rightarrow> int \<Rightarrow> db \<Rightarrow> db result" where
  "release_responses_now user sid d =
     bindE (require_state d sid (\<lambda>s. \<not> is_archived s) ''archived'' False) (\<lambda>s.
       Inr (write_event ''session.responses_released'' user (Some sid)
         (Snapshot [(''responses_release_at'', JTime (Aware (wall d))),
                    (''cleared_until'', JBool (s_responses_release_until s \<noteq> None))]) None [] []
         (upd_session sid (\<lambda>s. s\<lparr>s_responses_release_at := Some (Aware (wall d)),
                                s_responses_release_until := None\<rparr>) d)))"

definition stop_responses_release :: "int option \<Rightarrow> int \<Rightarrow> db \<Rightarrow> db result" where
  "stop_responses_release user sid d =
     bindE (require_state d sid (\<lambda>s. \<not> is_archived s) ''archived'' False) (\<lambda>s.
       Inr (write_event ''session.responses_release_stopped'' user (Some sid)
         (Snapshot [(''responses_release_until'', JTime (Aware (wall d)))]) None [] []
         (upd_session sid (\<lambda>s. s\<lparr>s_responses_release_until := Some (Aware (wall d))\<rparr>) d)))"

fun status_value :: "session_status \<Rightarrow> string" where
  "status_value Draft = ''draft''"
| "status_value Validated = ''validated''"
| "status_value Ready = ''ready''"
| "status_value Expired = ''expired''"
| "status_value Archived = ''archived''"

definition archive_session :: "int option \<Rightarrow> int \<Rightarrow> db \<Rightarrow> db result" where
  "archive_session user sid d =
     bindE (lock_session d sid False) (\<lambda>s.
       if is_archived s then Inl (LifecycleError ''already_archived'')
       else Inr (write_event ''session.archived'' user (Some sid)
              (Changes [(''status'', JStr (status_value (s_status s)), JStr ''archived'')]) None [] []
              (set_status Archived sid (close_all sid d))))"

definition unarchive_session :: "int option \<Rightarrow> int \<Rightarrow> db \<Rightarrow> db result" where
  "unarchive_session user sid d =
     bindE (lock_session d sid False) (\<lambda>s.
       if s_status s \<noteq> Archived then Inl (LifecycleError ''not_archived'')
       else Inr (write_event ''session.unarchived'' user (Some sid)
              (Changes [(''status'', JStr ''archived'', JStr ''draft'')]) None [] []
              (set_status Draft sid d)))"

section \<open>The review's end\<close>

definition end_context :: "review_session \<Rightarrow> (string \<times> jval) list" where
  "end_context s = (case s_deadline s of
     Some t \<Rightarrow> [(''deadline'', JTime (Aware (instant t)))]
   | None \<Rightarrow> [(''release_at'', case review_end s of None \<Rightarrow> JNull | Some t \<Rightarrow> JTime (Aware t))])"

definition end_reason :: "review_session \<Rightarrow> string" where
  "end_reason s = (if s_deadline s \<noteq> None then ''deadline'' else ''release'')"

text \<open>\<open>_expire_at_end\<close>, on the row as it stands; the caller holds the lock.\<close>

definition expire_at_end :: "int \<Rightarrow> int \<Rightarrow> db \<Rightarrow> db" where
  "expire_at_end sid n d =
     (case sessions d sid of None \<Rightarrow> d
      | Some s \<Rightarrow> if \<not> is_ready s then d
          else write_event ''session.expired'' None (Some sid)
                 (Counts [(''closed_instruments'', n)]) (Some (end_reason s)) [] (end_context s)
                 (set_status Expired sid d))"

definition recorded_deadline :: "audit_event \<Rightarrow> int option" where
  "recorded_deadline e = (case dict_get (ev_context e) ''deadline'' of
     Some (JTime t) \<Rightarrow> Some (instant t) | _ \<Rightarrow> None)"

definition deadline_already_recorded :: "db \<Rightarrow> int \<Rightarrow> review_session \<Rightarrow> bool" where
  "deadline_already_recorded d sid s =
     (case s_deadline s of None \<Rightarrow> False
      | Some t \<Rightarrow> list_ex (\<lambda>e. ev_session e = Some sid \<and> ev_type e = ''session.deadline_reached''
            \<and> recorded_deadline e = Some (instant t)) (audit_log d))"

definition write_deadline_reached :: "int \<Rightarrow> db \<Rightarrow> db" where
  "write_deadline_reached sid d =
     (case sessions d sid of None \<Rightarrow> d
      | Some s \<Rightarrow>
          if s_deadline s = None then d
          else if deadline_already_recorded d sid s then d
          else (let progress = summary_counts_of d sid in
            write_event ''session.deadline_reached'' None (Some sid)
              (Counts [(''submitted'', int (sc_submitted progress)),
                       (''assigned'', int (sc_assigned progress))]) None [] (end_context s) d))"

definition closed_at_deadline :: "db \<Rightarrow> int \<Rightarrow> bool" where
  "closed_at_deadline d sid = list_ex (\<lambda>i. i_deadline_closed_at i \<noteq> None) (session_instruments d sid)"

text \<open>The instruments each half of the observer looks for.\<close>

definition closed_instruments :: "db \<Rightarrow> int \<Rightarrow> instrument list" where
  "closed_instruments d sid = filter (\<lambda>i. \<not> i_accepting i) (session_instruments d sid)"

definition open_instruments :: "db \<Rightarrow> int \<Rightarrow> instrument list" where
  "open_instruments d sid =
     filter (\<lambda>i. i_accepting i \<and> i_deadline_closed_at i = None) (session_instruments d sid)"

definition reopen_instrument :: "int \<Rightarrow> db \<Rightarrow> instrument \<Rightarrow> db" where
  "reopen_instrument sid d i =
     write_event ''instrument.opened'' None (Some sid) NoPayload (Some ''session_wide'')
       [(''instrument_id'', i_id i)] []
       (d\<lparr>instruments := map (\<lambda>j. if i_id j = i_id i
            then j\<lparr>i_accepting := True, i_deadline_closed_at := None\<rparr> else j) (instruments d)\<rparr>)"

definition reopen_while_live :: "int \<Rightarrow> db \<Rightarrow> db \<Rightarrow> db result" where
  "reopen_while_live sid seen d =
     (case sessions seen sid of None \<Rightarrow> Inl NoResultFound
      | Some s0 \<Rightarrow>
         if \<not> is_ready s0 then Inr d
         else if closed_instruments seen sid = [] then Inr d
         else bindE (lock_session d sid False) (\<lambda>s.
           if \<not> is_ready s then Inr d
           else Inr (foldl (reopen_instrument sid) d (closed_instruments d sid))))"

definition close_at_end :: "int \<Rightarrow> review_session \<Rightarrow> int \<Rightarrow> db \<Rightarrow> instrument \<Rightarrow> db" where
  "close_at_end sid s now d i =
     write_event ''instrument.closed'' None (Some sid) NoPayload (Some (end_reason s))
       [(''instrument_id'', i_id i)] (end_context s)
       (d\<lparr>instruments := map (\<lambda>j. if i_id j = i_id i
            then j\<lparr>i_accepting := False, i_deadline_closed_at := Some (Aware now)\<rparr> else j) (instruments d)\<rparr>)"

definition observe_deadline :: "int option \<Rightarrow> int \<Rightarrow> db \<Rightarrow> db \<Rightarrow> (db \<times> int) result" where
  "observe_deadline now sid seen d =
     (case sessions seen sid of None \<Rightarrow> Inl NoResultFound
      | Some s0 \<Rightarrow>
        (let current = now_or now d in
         if \<not> deadline_has_passed current s0
         then bindE (reopen_while_live sid seen d) (\<lambda>d'. Inr (d', 0))
         else if open_instruments seen sid = [] then
           (if is_ready s0 then
              bindE (lock_session d sid False) (\<lambda>s.
                if is_ready s \<and> deadline_has_passed current s
                then Inr (expire_at_end sid 0 (write_deadline_reached sid d), 0)
                else Inr (d, 0))
            else Inr (d, 0))
         else bindE (lock_session d sid False) (\<lambda>s.
           if \<not> deadline_has_passed current s then Inr (d, 0)
           else (let is = open_instruments d sid; n = int (length is) in
             if is = [] then Inr (d, 0)
             else Inr (expire_at_end sid n
                    (write_deadline_reached sid (foldl (close_at_end sid s current) d is)), n)))))"

section \<open>One operation of the component\<close>

datatype action =
    MarkValidated readiness_report
  | InvalidateIfValidated string
  | InvalidateSession string
  | Activate readiness_report bool string
  | Expire
  | RevertToDraft bool
  | OperatorRevert bool
  | ReleaseNow
  | StopRelease
  | Archive
  | Unarchive
  | ObserveDeadline "int option" db

fun run_action :: "action \<Rightarrow> int option \<Rightarrow> int \<Rightarrow> db \<Rightarrow> db result" where
  "run_action (MarkValidated rep) u sid d = mark_validated u rep sid d"
| "run_action (InvalidateIfValidated r) u sid d = Inr (invalidate_if_validated u r sid d)"
| "run_action (InvalidateSession r) u sid d = invalidate_session u r sid d"
| "run_action (Activate rep ack trg) u sid d = activate_session u rep ack trg sid d"
| "run_action Expire u sid d = expire_session u sid d"
| "run_action (RevertToDraft c) u sid d = revert_session_to_draft u c sid d"
| "run_action (OperatorRevert c) u sid d = operator_revert u c sid d"
| "run_action ReleaseNow u sid d = release_responses_now u sid d"
| "run_action StopRelease u sid d = stop_responses_release u sid d"
| "run_action Archive u sid d = archive_session u sid d"
| "run_action Unarchive u sid d = unarchive_session u sid d"
| "run_action (ObserveDeadline now seen) u sid d = map_sum id fst (observe_deadline now sid seen d)"

section \<open>What an operation on one session may touch\<close>

definition frame :: "int \<Rightarrow> db \<Rightarrow> db \<Rightarrow> bool" where
  "frame sid d d' =
     ((\<forall>k. k \<noteq> sid \<longrightarrow> sessions d' k = sessions d k)
      \<and> filter (\<lambda>i. i_session i \<noteq> sid) (instruments d') = filter (\<lambda>i. i_session i \<noteq> sid) (instruments d)
      \<and> map (\<lambda>i. (i_id i, i_session i)) (instruments d') = map (\<lambda>i. (i_id i, i_session i)) (instruments d)
      \<and> fields_tbl d' = fields_tbl d \<and> reviewers d' = reviewers d \<and> reviewees d' = reviewees d
      \<and> relationships d' = relationships d \<and> assignments d' = assignments d
      \<and> responses d' = responses d \<and> policies d' = policies d
      \<and> rule_sets d' = rule_sets d \<and> invitations d' = invitations d \<and> outbox d' = outbox d
      \<and> (\<exists>es. audit_log d' = audit_log d @ es \<and> (\<forall>e \<in> set es. ev_session e = Some sid))
      \<and> wall d' = wall d \<and> postgres d' = postgres d \<and> held d' = held d \<and> fired_by d' = fired_by d)"

lemma frame_refl [simp]: "frame sid d d"
  by (simp add: frame_def)

lemma frame_trans:
  assumes "frame sid d d'" "frame sid d' d''"
  shows "frame sid d d''"
proof -
  obtain es es' where "audit_log d' = audit_log d @ es" "\<forall>e \<in> set es. ev_session e = Some sid"
    "audit_log d'' = audit_log d' @ es'" "\<forall>e \<in> set es'. ev_session e = Some sid"
    using assms by (auto simp: frame_def)
  then have "\<exists>xs. audit_log d'' = audit_log d @ xs \<and> (\<forall>e \<in> set xs. ev_session e = Some sid)"
    by (intro exI [of _ "es @ es'"]) auto
  then show ?thesis using assms by (simp add: frame_def)
qed

lemma frame_write_event: "frame sid d (write_event ty a (Some sid) pl rs rf cx d)"
  using audit_log_write_event [of ty a "Some sid" pl rs rf cx d] by (auto simp: frame_def)

lemma frame_upd_session: "frame sid d (upd_session sid f d)"
  by (simp add: frame_def)

lemma filter_other_map:
  assumes "\<And>i. i \<in> set xs \<Longrightarrow> i_session (h i) = i_session i"
    "\<And>i. i \<in> set xs \<Longrightarrow> i_session i \<noteq> sid \<Longrightarrow> h i = i"
  shows "filter (\<lambda>i. i_session i \<noteq> sid) (map h xs) = filter (\<lambda>i. i_session i \<noteq> sid) xs"
  using assms by (induction xs) auto

lemma frame_map_instruments:
  assumes "\<And>i. i \<in> set (instruments d) \<Longrightarrow> i_session (h i) = i_session i \<and> i_id (h i) = i_id i"
    and "\<And>i. i \<in> set (instruments d) \<Longrightarrow> i_session i \<noteq> sid \<Longrightarrow> h i = i"
  shows "frame sid d (d\<lparr>instruments := map h (instruments d)\<rparr>)"
  using assms filter_other_map [of "instruments d" h sid] by (simp add: frame_def)

lemma frame_upd_instruments:
  assumes "\<And>i. i_session (f i) = i_session i" "\<And>i. i_id (f i) = i_id i"
  shows "frame sid d (upd_instruments sid f d)"
  unfolding upd_instruments_def by (rule frame_map_instruments) (auto simp: assms)

lemma frame_ids: "frame sid d d' \<Longrightarrow> map i_id (instruments d') = map i_id (instruments d)"
proof -
  assume "frame sid d d'"
  then have "map (\<lambda>i. (i_id i, i_session i)) (instruments d') = map (\<lambda>i. (i_id i, i_session i)) (instruments d)"
    by (simp add: frame_def)
  from arg_cong [OF this, of "map fst"] show ?thesis by (simp add: comp_def)
qed

text \<open>The primary key of the instruments.\<close>

definition instruments_keyed :: "db \<Rightarrow> bool" where
  "instruments_keyed d = distinct (map i_id (instruments d))"

lemma frame_keyed: "frame sid d d' \<Longrightarrow> instruments_keyed d \<Longrightarrow> instruments_keyed d'"
  by (simp add: instruments_keyed_def frame_ids)

lemma keyed_instrument: "instruments_keyed d \<Longrightarrow> i \<in> set (instruments d) \<Longrightarrow> j \<in> set (instruments d)
    \<Longrightarrow> i_id i = i_id j \<Longrightarrow> i = j"
  by (auto simp: instruments_keyed_def distinct_map inj_on_def)

text \<open>
  The loops over a session's instruments. Their items are read before the loop, so an item is
  known by its id; every item's row stays a row of the session.
\<close>

definition own_ids :: "db \<Rightarrow> int \<Rightarrow> int set" where
  "own_ids d sid = i_id ` set (session_instruments d sid)"

lemma frame_own_ids: "frame sid d d' \<Longrightarrow> own_ids d' sid = own_ids d sid"
proof -
  assume "frame sid d d'"
  then have "map (\<lambda>i. (i_id i, i_session i)) (instruments d') = map (\<lambda>i. (i_id i, i_session i)) (instruments d)"
    by (simp add: frame_def)
  then have "(\<lambda>i. (i_id i, i_session i)) ` set (instruments d') = (\<lambda>i. (i_id i, i_session i)) ` set (instruments d)"
    by (metis list.set_map)
  moreover have "own_ids x sid = {k. (k, sid) \<in> (\<lambda>i. (i_id i, i_session i)) ` set (instruments x)}" for x
    by (auto simp: own_ids_def session_instruments_def)
  ultimately show ?thesis by simp
qed

lemma frame_set_instrument:
  assumes "instruments_keyed d" "i_id i \<in> own_ids d sid"
    and "\<And>j. i_session (h j) = i_session j" "\<And>j. i_id (h j) = i_id j"
  shows "frame sid d (d\<lparr>instruments := map (\<lambda>j. if i_id j = i_id i then h j else j) (instruments d)\<rparr>)"
proof (rule frame_map_instruments)
  fix j assume j: "j \<in> set (instruments d)"
  show "i_session (if i_id j = i_id i then h j else j) = i_session j \<and> i_id (if i_id j = i_id i then h j else j) = i_id j"
    using assms(3,4) by simp
  show "(if i_id j = i_id i then h j else j) = j" if "i_session j \<noteq> sid"
    using assms(1,2) j that
    by (auto simp: own_ids_def session_instruments_def instruments_keyed_def distinct_map inj_on_def)
qed

lemma frame_loop:
  assumes "\<And>d i. instruments_keyed d \<Longrightarrow> i_id i \<in> own_ids d sid \<Longrightarrow> frame sid d (f d i)"
  shows "instruments_keyed d \<Longrightarrow> i_id ` set is \<subseteq> own_ids d sid \<Longrightarrow> frame sid d (foldl f d is)"
proof (induction "is" arbitrary: d)
  case Nil
  show ?case by simp
next
  case (Cons i "is")
  have 1: "frame sid d (f d i)" using Cons.prems by (intro assms) auto
  have "frame sid (f d i) (foldl f (f d i) is)"
    using Cons.prems frame_own_ids [OF 1] by (intro Cons.IH frame_keyed [OF 1]) auto
  with 1 show ?case by (auto intro: frame_trans)
qed

lemma frame_reopen:
  assumes "instruments_keyed d" "i_id i \<in> own_ids d sid"
  shows "frame sid d (reopen_instrument sid d i)"
  unfolding reopen_instrument_def
  by (rule frame_trans [OF frame_set_instrument [OF assms] frame_write_event]) simp_all

lemma frame_close:
  assumes "instruments_keyed d" "i_id i \<in> own_ids d sid"
  shows "frame sid d (close_at_end sid s now d i)"
  unfolding close_at_end_def
  by (rule frame_trans [OF frame_set_instrument [OF assms] frame_write_event]) simp_all

lemma own_filter: "i_id ` set (filter P (session_instruments d sid)) \<subseteq> own_ids d sid"
  by (auto simp: own_ids_def)

lemma frame_event_after: "frame sid d d' \<Longrightarrow> frame sid d (write_event ty a (Some sid) pl rs rf cx d')"
  by (rule frame_trans [OF _ frame_write_event])

lemma frame_status_after: "frame sid d d' \<Longrightarrow> frame sid d (upd_session sid f d')"
  by (rule frame_trans [OF _ frame_upd_session])

lemma frame_close_all: "frame sid d (close_all sid d)"
  unfolding close_all_def by (rule frame_upd_instruments) simp_all

lemmas frame_intros = frame_event_after frame_status_after frame_close_all frame_refl

lemma frame_expire_at_end: "frame sid d d' \<Longrightarrow> frame sid d (expire_at_end sid n d')"
  by (auto simp: expire_at_end_def set_status_def intro!: frame_intros split: option.splits)

lemma frame_write_deadline: "frame sid d d' \<Longrightarrow> frame sid d (write_deadline_reached sid d')"
  by (auto simp: write_deadline_reached_def Let_def intro!: frame_intros split: option.splits)

lemma frame_reopen_while_live:
  assumes "instruments_keyed d" "reopen_while_live sid seen d = Inr d'"
  shows "frame sid d d'"
  using assms frame_loop [of sid "reopen_instrument sid", OF frame_reopen assms(1) own_filter]
  by (auto simp: reopen_while_live_def closed_instruments_def split: option.splits if_splits)

lemma frame_observe:
  assumes "instruments_keyed d" "observe_deadline now sid seen d = Inr (d', n)"
  shows "frame sid d d'"
proof -
  have loop: "frame sid d (foldl (close_at_end sid s (now_or now d)) d (open_instruments d sid))" for s
    unfolding open_instruments_def by (rule frame_loop [OF frame_close assms(1) own_filter])
  show ?thesis
    using assms(2) frame_reopen_while_live [OF assms(1)] loop
    by (auto simp: observe_deadline_def Let_def intro!: frame_expire_at_end frame_write_deadline
        split: option.splits if_splits)
qed

lemmas transition_defs = mark_validated_def flip_to_draft_def invalidate_if_validated_def
  invalidate_session_def activate_session_def expire_session_def revert_session_to_draft_def
  operator_revert_def release_responses_now_def stop_responses_release_def archive_session_def
  unarchive_session_def set_status_def

lemma frame_action:
  assumes "instruments_keyed d" "run_action a u sid d = Inr d'"
  shows "frame sid d d'"
proof (cases a)
  case (ObserveDeadline now seen)
  then show ?thesis using assms frame_observe [OF assms(1)]
    by (cases "observe_deadline now sid seen d") auto
next
  case (Activate rep ack trg)
  have "frame sid d (upd_instruments sid (\<lambda>i. i\<lparr>i_accepting := True, i_deadline_closed_at := None\<rparr>) d')"
    if "frame sid d d'" for d'
    by (rule frame_trans [OF that]) (rule frame_upd_instruments; simp)
  then show ?thesis using assms(2) Activate
    by (auto simp: activate_session_def intro!: frame_intros split: if_splits)
qed (use assms in \<open>auto simp: transition_defs intro!: frame_intros split: if_splits option.splits\<close>)

section \<open>The contract of a session operation\<close>

text \<open>
  What the callers of a per-session operation rely on: a call that succeeds keeps the keys and
  stays inside its session; a call that fails leaves the database as it was.
\<close>

definition attempt :: "('act \<Rightarrow> int \<Rightarrow> db \<Rightarrow> db result) \<Rightarrow> 'act \<times> int \<Rightarrow> db \<Rightarrow> db" where
  "attempt run c d = (case run (fst c) (snd c) d of Inl _ \<Rightarrow> d | Inr d' \<Rightarrow> d')"

locale session_operations =
  fixes run :: "'act \<Rightarrow> int \<Rightarrow> db \<Rightarrow> db result"
  assumes stays_inside: "instruments_keyed d \<Longrightarrow> run a sid d = Inr d' \<Longrightarrow> frame sid d d'"
begin

lemma attempt_frame: "instruments_keyed d \<Longrightarrow> frame (snd c) d (attempt run c d)"
  using stays_inside by (auto simp: attempt_def split: sum.splits)

lemma history:
  fixes cs :: "('act \<times> int) list"
  assumes "instruments_keyed d"
  defines "e \<equiv> foldl (\<lambda>d c. attempt run c d) d cs"
  shows "instruments_keyed e"
    and "responses e = responses d" "assignments e = assignments d"
    and "\<exists>es. audit_log e = audit_log d @ es \<and> (\<forall>x \<in> set es. \<exists>c \<in> set cs. ev_session x = Some (snd c))"
    and "\<And>k. k \<notin> snd ` set cs \<Longrightarrow> sessions e k = sessions d k \<and> session_instruments e k = session_instruments d k"
proof -
  have "instruments_keyed e \<and> responses e = responses d \<and> assignments e = assignments d
    \<and> (\<exists>es. audit_log e = audit_log d @ es \<and> (\<forall>x \<in> set es. \<exists>c \<in> set cs. ev_session x = Some (snd c)))
    \<and> (\<forall>k. k \<notin> snd ` set cs \<longrightarrow> sessions e k = sessions d k \<and> session_instruments e k = session_instruments d k)"
    using assms(1) unfolding e_def
  proof (induction cs arbitrary: d)
    case Nil
    then show ?case by simp
  next
    case (Cons c cs)
    have f: "frame (snd c) d (attempt run c d)" by (rule attempt_frame [OF Cons.prems])
    note IH = Cons.IH [OF frame_keyed [OF f Cons.prems]]
    have inst: "session_instruments (attempt run c d) k = session_instruments d k" if "k \<noteq> snd c" for k
    proof -
      have "filter (\<lambda>i. i_session i = k) (filter (\<lambda>i. i_session i \<noteq> snd c) (instruments x))
          = session_instruments x k" for x
        using that by (auto simp: session_instruments_def intro: filter_cong)
      then show ?thesis using f unfolding frame_def by metis
    qed
    obtain es where "audit_log (attempt run c d) = audit_log d @ es" "\<forall>x \<in> set es. ev_session x = Some (snd c)"
      using f by (auto simp: frame_def)
    moreover obtain es' where "audit_log (foldl (\<lambda>d c. attempt run c d) (attempt run c d) cs) = audit_log (attempt run c d) @ es'"
      "\<forall>x \<in> set es'. \<exists>c \<in> set cs. ev_session x = Some (snd c)"
      using IH by blast
    ultimately have log: "\<exists>es. audit_log (foldl (\<lambda>d c. attempt run c d) d (c # cs)) = audit_log d @ es
        \<and> (\<forall>x \<in> set es. \<exists>c \<in> set (c # cs). ev_session x = Some (snd c))"
      by (intro exI [of _ "es @ es'"]) auto
    show ?case using IH f inst log by (simp add: frame_def)
  qed
  then show "instruments_keyed e" "responses e = responses d" "assignments e = assignments d"
    "\<exists>es. audit_log e = audit_log d @ es \<and> (\<forall>x \<in> set es. \<exists>c \<in> set cs. ev_session x = Some (snd c))"
    "\<And>k. k \<notin> snd ` set cs \<Longrightarrow> sessions e k = sessions d k \<and> session_instruments e k = session_instruments d k"
    by blast+
qed

end

interpretation lifecycle_ops: session_operations "\<lambda>(a, u). run_action a u"
  by unfold_locales (auto intro: frame_action)

abbreviation lifecycle_call :: "action \<times> int option \<Rightarrow> int \<Rightarrow> db \<Rightarrow> db result" where
  "lifecycle_call \<equiv> \<lambda>(a, u). run_action a u"

text \<open>
  No sequence of lifecycle calls, on whatever sessions, in whatever order and whichever of
  them fail, deletes or changes a response or an assignment, rewrites an audit event, or touches
  a session nobody named or its instruments; every event it adds is filed under a session some
  call named.
\<close>

theorem lifecycle_calls_stay_inside:
  fixes calls :: "((action \<times> int option) \<times> int) list"
  assumes "instruments_keyed d"
  defines "e \<equiv> foldl (\<lambda>d c. attempt lifecycle_call c d) d calls"
  shows "responses e = responses d \<and> assignments e = assignments d
    \<and> (\<exists>es. audit_log e = audit_log d @ es \<and> (\<forall>x \<in> set es. \<exists>c \<in> set calls. ev_session x = Some (snd c)))
    \<and> (\<forall>k. k \<notin> snd ` set calls \<longrightarrow> sessions e k = sessions d k \<and> session_instruments e k = session_instruments d k)"
  unfolding e_def using lifecycle_ops.history [OF assms(1), where cs = calls] by blast

definition demo_session :: review_session where
  "demo_session = \<lparr>s_code = ''S'', s_status = Validated, s_deadline = Some (Aware 100), s_activated_at = None,
     s_scheduled_activate_at = None, s_responses_release_at = None, s_responses_release_until = None,
     s_invite_offsets = None, s_reminder_offsets = None, s_self_reviews = True, s_name = ''Review'', s_help_contact = None, s_overrides = None\<rparr>"

definition demo_instrument :: "int \<Rightarrow> int \<Rightarrow> bool \<Rightarrow> instrument" where
  "demo_instrument k sid acc = \<lparr>i_id = k, i_session = sid, i_order = k, i_accepting = acc,
     i_deadline_closed_at = None, i_starts_new_page = False, i_group_kind = None, i_rule_set = None, i_self_reviews = True\<rparr>"

definition lifecycle_demo :: db where
  "lifecycle_demo = blank_db\<lparr>sessions := [1 \<mapsto> demo_session, 2 \<mapsto> demo_session],
     instruments := [demo_instrument 10 1 False, demo_instrument 20 2 False]\<rparr>"

definition clean_report :: readiness_report where
  "clean_report = \<lparr>rep_errors = [], rep_warnings = [], rep_info = []\<rparr>"

lemma lifecycle_demo_keyed: "instruments_keyed lifecycle_demo"
  by code_simp

theorem lifecycle_calls_stay_inside_witness:
  "sessions (foldl (\<lambda>d c. attempt lifecycle_call c d) lifecycle_demo
      [((Activate clean_report False ''manual'', None), 1), ((Expire, None), 1)]) 2 = Some demo_session"
  using conjunct2 [OF conjunct2 [OF conjunct2 [OF lifecycle_calls_stay_inside [OF lifecycle_demo_keyed,
      of "[((Activate clean_report False ''manual'', None), 1), ((Expire, None), 1)]"]]]]
  by (auto simp: lifecycle_demo_def)

end
