(* ===== verification/Lifecycle_History.thy ===== *)
theory Lifecycle_History
  imports Lifecycle
begin

text \<open>
  The lifecycle as a state machine: which transitions a call can make and what each leaves on
  the record, the invariant every reachable database keeps, and the lazy close at the review's
  end under a request that read the session before it got the lock.
\<close>

fun_cases run_action_cases: "run_action a u sid d = Inr d'"

section \<open>The edges\<close>

text \<open>The transition diagram, with the event type each edge is filed under.\<close>

inductive edge :: "session_status \<Rightarrow> string \<Rightarrow> session_status \<Rightarrow> bool" where
  "edge Draft ''session.validated'' Validated"
| "edge Validated ''session.invalidated'' Draft"
| "edge Validated ''session.activated'' Ready"
| "edge Ready ''session.expired'' Expired"
| "edge Ready ''session.reverted_to_draft'' Draft"
| "edge Expired ''session.reverted_to_draft'' Draft"
| "st \<noteq> Archived \<Longrightarrow> edge st ''session.archived'' Archived"
| "edge Archived ''session.unarchived'' Draft"

inductive_cases edge_ReadyE: "edge st ty Ready"

lemma loop_sessions:
  assumes "\<And>d i. sessions (f d i) = sessions d"
  shows "sessions (foldl f d is) = sessions d"
  using assms by (induction "is" arbitrary: d) simp_all

lemma close_at_end_sessions [simp]: "sessions (close_at_end sid s now d i) = sessions d"
  by (simp add: close_at_end_def)

lemma reopen_instrument_sessions [simp]: "sessions (reopen_instrument sid d i) = sessions d"
  by (simp add: reopen_instrument_def)

lemma write_deadline_sessions [simp]: "sessions (write_deadline_reached sid d) = sessions d"
  by (simp add: write_deadline_reached_def Let_def split: option.split)

lemma reopen_while_live_sessions: "reopen_while_live sid seen d = Inr d' \<Longrightarrow> sessions d' = sessions d"
  by (auto simp: reopen_while_live_def loop_sessions split: option.splits if_splits)

lemma expire_at_end_sessions:
  "sessions (expire_at_end sid n d) k = (if k = sid then map_option (\<lambda>s. if is_ready s then s\<lparr>s_status := Expired\<rparr> else s) (sessions d sid)
     else sessions d k)"
  by (auto simp: expire_at_end_def set_status_def is_ready_def split: option.split)

text \<open>What a call of the observer can have done: the four ways it returns.\<close>

lemma observe_cases:
  assumes "observe_deadline now sid seen d = Inr (d', n)"
  obtains (quiet) "d' = d" "n = 0"
  | (healed) s s0 where "sessions seen sid = Some s0" "\<not> deadline_has_passed (now_or now d) s0"
      "sessions d sid = Some s" "is_ready s" "n = 0"
      "d' = foldl (reopen_instrument sid) d (closed_instruments d sid)"
  | (shut) s where "open_instruments seen sid = []" "sessions d sid = Some s" "is_ready s"
      "deadline_has_passed (now_or now d) s" "n = 0"
      "d' = expire_at_end sid 0 (write_deadline_reached sid d)"
  | (closed_now) s where "open_instruments d sid \<noteq> []" "sessions d sid = Some s"
      "deadline_has_passed (now_or now d) s" "n = int (length (open_instruments d sid))"
      "d' = expire_at_end sid n (write_deadline_reached sid
        (foldl (close_at_end sid s (now_or now d)) d (open_instruments d sid)))"
proof (cases "sessions seen sid")
  case None
  then show ?thesis using assms by (simp add: observe_deadline_def)
next
  case (Some s0)
  show ?thesis
  proof (cases "deadline_has_passed (now_or now d) s0")
    case False
    then have "reopen_while_live sid seen d = Inr d'" "n = 0"
      using assms Some by (auto simp: observe_deadline_def Let_def)
    show ?thesis
    proof (cases "d' = d")
      case changed: False
      then have "\<exists>s. lock_session d sid False = Inr s \<and> is_ready s
          \<and> d' = foldl (reopen_instrument sid) d (closed_instruments d sid)"
        using \<open>reopen_while_live sid seen d = Inr d'\<close> Some
        by (simp add: reopen_while_live_def split: if_split_asm)
      then show ?thesis using healed Some False \<open>n = 0\<close> lock_session_Inr by blast
    qed (use \<open>n = 0\<close> quiet in blast)
  next
    case over: True
    show ?thesis
    proof (cases "open_instruments seen sid = []")
      case none_open: True
      show ?thesis
      proof (cases "d' = d \<and> n = 0")
        case True
        then show ?thesis by (intro quiet) simp_all
      next
        case changed: False
        then have "\<exists>s. lock_session d sid False = Inr s \<and> is_ready s \<and> deadline_has_passed (now_or now d) s
            \<and> d' = expire_at_end sid 0 (write_deadline_reached sid d) \<and> n = 0"
          using assms Some over none_open
          by (cases "lock_session d sid False"; cases "is_ready s0")
            (simp_all add: observe_deadline_def Let_def split: if_split_asm)
        then show ?thesis using none_open shut lock_session_Inr by blast
      qed
    next
      case some_open: False
      show ?thesis
      proof (cases "d' = d \<and> n = 0")
        case True
        then show ?thesis by (intro quiet) simp_all
      next
        case False
        then have "\<exists>s. lock_session d sid False = Inr s \<and> deadline_has_passed (now_or now d) s
            \<and> open_instruments d sid \<noteq> [] \<and> n = int (length (open_instruments d sid))
            \<and> d' = expire_at_end sid n (write_deadline_reached sid
                (foldl (close_at_end sid s (now_or now d)) d (open_instruments d sid)))"
          using assms Some over some_open
          by (cases "lock_session d sid False")
            (simp_all add: observe_deadline_def Let_def split: if_split_asm, elim conjE, hypsubst, rule refl)
        then show ?thesis using closed_now lock_session_Inr by blast
      qed
    qed
  qed
qed

lemma observe_sessions:
  assumes "observe_deadline now sid seen d = Inr (d', n)"
  shows "sessions d' = sessions d \<or> (\<exists>s. sessions d sid = Some s \<and> is_ready s
    \<and> deadline_has_passed (now_or now d) s \<and> sessions d' = (sessions d)(sid \<mapsto> s\<lparr>s_status := Expired\<rparr>))"
  using assms
proof (cases rule: observe_cases)
  case (healed s s0)
  then show ?thesis by (simp add: loop_sessions)
next
  case (shut s)
  then show ?thesis by (auto simp: fun_eq_iff expire_at_end_sessions)
next
  case (closed_now s)
  then show ?thesis by (auto simp: fun_eq_iff expire_at_end_sessions loop_sessions)
qed simp

text \<open>What a call left on a session's row and in its part of the log.\<close>

definition logged :: "int \<Rightarrow> string \<Rightarrow> db \<Rightarrow> db \<Rightarrow> bool" where
  "logged sid ty d d' = (\<exists>es e. audit_log d' = audit_log d @ es \<and> e \<in> set es
      \<and> ev_type e = ty \<and> ev_session e = Some sid)"

definition moved :: "int \<Rightarrow> db \<Rightarrow> db \<Rightarrow> bool" where
  "moved sid d d' = (\<exists>s s'. sessions d sid = Some s \<and> sessions d' sid = Some s'
     \<and> (s_status s' = s_status s \<or> (\<exists>ty. edge (s_status s) ty (s_status s') \<and> logged sid ty d d'))
     \<and> (s_activated_at s \<noteq> None \<longrightarrow> s_activated_at s' = s_activated_at s))"

lemma logged_write_event [simp]:
  assumes "audit_log d' = audit_log d"
  shows "logged sid ty d (write_event ty a (Some sid) pl rs rf cx d')"
  using assms audit_log_write_event [of ty a "Some sid" pl rs rf cx d'] by (auto simp: logged_def)

lemma close_all_simps [simp]:
  "sessions (close_all sid d) = sessions d" "audit_log (close_all sid d) = audit_log d"
  by (simp_all add: close_all_def)

lemma moved_event:
  assumes "sessions d sid = Some s" "sessions e sid = Some s'" "audit_log e = audit_log d"
    and "edge (s_status s) ty (s_status s')"
    and "s_activated_at s \<noteq> None \<Longrightarrow> s_activated_at s' = s_activated_at s"
  shows "moved sid d (write_event ty a (Some sid) pl rs rf cx e)"
  using assms logged_write_event [OF assms(3)] unfolding moved_def by auto

lemma moved_unfiled:
  assumes "sessions d sid = Some s" "sessions e sid = Some s'" "s_status s' = s_status s"
    and "s_activated_at s' = s_activated_at s"
  shows "moved sid d (write_event ty a (Some sid) pl rs rf cx e)"
  using assms by (simp add: moved_def)

lemma moved_flip: "sessions d sid = Some s \<Longrightarrow> is_validated s \<Longrightarrow> moved sid d (flip_to_draft u r sid d)"
  by (auto simp: moved_def flip_to_draft_def set_status_def is_validated_def intro: edge.intros)

lemma moved_same: "sessions d sid = Some s \<Longrightarrow> moved sid d d"
  by (simp add: moved_def)

lemmas status_defs = is_ready_def is_draft_def is_validated_def is_expired_def is_archived_def

lemma moved_expire_at_end:
  assumes "frame sid d e" "sessions e = sessions d" "sessions d sid = Some s"
  shows "moved sid d (expire_at_end sid n e)"
proof (cases "is_ready s")
  case False
  then show ?thesis using assms by (simp add: expire_at_end_def moved_def)
next
  case True
  obtain es where "audit_log e = audit_log d @ es" using assms(1) by (auto simp: frame_def)
  moreover obtain x where "audit_log (expire_at_end sid n e) = audit_log e @ [x]"
      "ev_type x = ''session.expired''" "ev_session x = Some sid"
    using assms(2,3) True by (simp add: expire_at_end_def set_status_def write_event_def)
  ultimately have "logged sid ''session.expired'' d (expire_at_end sid n e)"
    unfolding logged_def by (intro exI [of _ "es @ [x]"] exI [of _ x]) simp
  with assms(2,3) True show ?thesis
    by (auto simp: moved_def expire_at_end_sessions is_ready_def intro: edge.intros)
qed

lemma frame_close_loop:
  "instruments_keyed d \<Longrightarrow> frame sid d (foldl (close_at_end sid s now) d (open_instruments d sid))"
  unfolding open_instruments_def by (rule frame_loop [OF frame_close _ own_filter])

lemma moved_observe:
  assumes "sessions d sid = Some s" "observe_deadline now sid seen d = Inr (d', n)"
    and "instruments_keyed d"
  shows "moved sid d d'"
  using assms(2)
proof (cases rule: observe_cases)
  case quiet
  then show ?thesis using assms(1) by (simp add: moved_same)
next
  case (healed s s0)
  then show ?thesis by (simp add: moved_def loop_sessions)
next
  case (shut s)
  then show ?thesis
    using moved_expire_at_end [OF frame_write_deadline [OF frame_refl] write_deadline_sessions] by simp
next
  case (closed_now s)
  then show ?thesis
    using moved_expire_at_end [OF frame_write_deadline [OF frame_close_loop [OF assms(3)]]]
    by (simp add: loop_sessions)
qed

lemma moved_action:
  assumes "instruments_keyed d" "sessions d sid = Some s" "run_action a u sid d = Inr d'"
  shows "moved sid d d'"
proof (cases a)
  case (ObserveDeadline now seen)
  then show ?thesis using assms moved_observe [OF assms(2) _ assms(1)]
    by (cases "observe_deadline now sid seen d") auto
next
  case (InvalidateIfValidated r)
  then show ?thesis using assms moved_flip moved_same by (auto simp: invalidate_if_validated_def split: if_splits)
next
  case (InvalidateSession r)
  then show ?thesis using assms moved_flip moved_same by (auto simp: invalidate_session_def split: if_splits)
next
  case (OperatorRevert c)
  then show ?thesis using assms moved_flip
    by (auto simp: operator_revert_def invalidate_session_def revert_session_to_draft_def status_defs
        set_status_def dest!: lock_session_Inr split: if_splits intro!: moved_event intro: edge.intros)
next
  case ReleaseNow
  then show ?thesis using assms
    by (auto simp: release_responses_now_def require_state_Inr dest!: lock_session_Inr intro!: moved_unfiled)
next
  case StopRelease
  then show ?thesis using assms
    by (auto simp: stop_responses_release_def require_state_Inr dest!: lock_session_Inr intro!: moved_unfiled)
qed (use assms moved_same in \<open>auto simp: transition_defs status_defs
    dest!: lock_session_Inr split: if_splits option.splits intro!: moved_event intro: edge.intros\<close>)

lemma own_rows_list:
  assumes "\<And>i. i_session (f i) = i_session i"
  shows "filter (\<lambda>i. i_session i = sid) (map (\<lambda>i. if i_session i = sid then f i else i) xs)
    = map f (filter (\<lambda>i. i_session i = sid) xs)"
  by (induction xs) (simp_all add: assms)

lemma own_rows:
  "(\<And>i. i_session (f i) = i_session i) \<Longrightarrow> session_instruments (upd_instruments sid f d) sid = map f (session_instruments d sid)"
  by (simp add: session_instruments_def own_rows_list)

lemma activate_session_Inr:
  assumes "activate_session u rep ack trg sid d = Inr d'"
  obtains s s' where "sessions d sid = Some s" "s_status s = Validated" "rep_errors rep = []"
    "rep_warnings rep = [] \<or> ack" "sessions d' = (sessions d)(sid \<mapsto> s')" "s_status s' = Ready"
    "s_activated_at s' \<noteq> None" "s_scheduled_activate_at s' = None"
    "instruments d' = map (\<lambda>i. if i_session i = sid then i\<lparr>i_accepting := True, i_deadline_closed_at := None\<rparr> else i)
       (instruments d)"
proof -
  obtain s where s: "lock_session d sid False = Inr s" "sessions d sid = Some s"
    using assms by (auto simp: activate_session_def dest: lock_session_Inr)
  have ok: "is_validated s" "can_activate rep" "\<not> (has_non_blocking_findings rep \<and> \<not> ack)"
    using assms s by (auto simp: activate_session_def split: if_splits)
  have "sessions d' = (sessions d)(sid \<mapsto> s\<lparr>s_status := Ready,
      s_activated_at := (case s_activated_at s of None \<Rightarrow> Some (Aware (wall d)) | Some t \<Rightarrow> Some t),
      s_scheduled_activate_at := None\<rparr>)"
    and "instruments d' = map (\<lambda>i. if i_session i = sid then i\<lparr>i_accepting := True, i_deadline_closed_at := None\<rparr> else i)
       (instruments d)"
    using assms s ok by (auto simp: activate_session_def)
  with s ok show ?thesis
    by (intro that [of s "s\<lparr>s_status := Ready,
      s_activated_at := (case s_activated_at s of None \<Rightarrow> Some (Aware (wall d)) | Some t \<Rightarrow> Some t),
      s_scheduled_activate_at := None\<rparr>"])
      (auto simp: is_validated_def can_activate_def has_non_blocking_findings_def split: option.split)
qed

lemma only_activation:
  assumes "sessions d sid = Some s" "run_action a u sid d = Inr d'" "sessions d' sid = Some s'"
    and "s_status s \<noteq> Ready" "s_status s' = Ready"
  shows "s_status s = Validated \<and> s_activated_at s' \<noteq> None \<and> s_scheduled_activate_at s' = None
    \<and> (\<forall>i \<in> set (session_instruments d' sid). i_accepting i \<and> i_deadline_closed_at i = None)
    \<and> (\<exists>rep ack trg. a = Activate rep ack trg \<and> rep_errors rep = [] \<and> (rep_warnings rep = [] \<or> ack))"
proof (cases a)
  case (Activate rep ack trg)
  then have "activate_session u rep ack trg sid d = Inr d'" using assms(2) by simp
  then obtain t t' where t: "sessions d sid = Some t" "s_status t = Validated" "rep_errors rep = []"
    "rep_warnings rep = [] \<or> ack" "sessions d' = (sessions d)(sid \<mapsto> t')"
    "s_activated_at t' \<noteq> None" "s_scheduled_activate_at t' = None"
    "instruments d' = map (\<lambda>i. if i_session i = sid then i\<lparr>i_accepting := True, i_deadline_closed_at := None\<rparr> else i)
       (instruments d)"
    by (rule activate_session_Inr)
  have "t = s" "t' = s'" using t(1,5) assms(1,3) by simp_all
  moreover have "\<forall>i \<in> set (session_instruments d' sid). i_accepting i \<and> i_deadline_closed_at i = None"
    by (auto simp: session_instruments_def t(8) own_rows_list)
  ultimately show ?thesis using t Activate by blast
next
  case (ObserveDeadline now seen)
  then obtain n where "observe_deadline now sid seen d = Inr (d', n)"
    using assms(2) by (cases "observe_deadline now sid seen d") auto
  from observe_sessions [OF this] have "s_status s' = s_status s \<or> s_status s' = Expired"
    using assms(1,3) by auto
  then show ?thesis using assms(4,5) by simp
qed (use assms in \<open>auto simp: transition_defs status_defs require_state_Inr close_all_def
    dest!: lock_session_Inr split: if_splits option.splits\<close>)

text \<open>
  C8. Every call that succeeds either leaves the session's status or follows an edge of the
  transition diagram and files that edge's event under the session. The moment of the first
  activation is never overwritten. Only an activation enters \<open>ready\<close>: from \<open>validated\<close>, on a
  report with no errors, its warnings acknowledged, and it leaves the activation stamped, the
  schedule cleared and every instrument of the session open.
\<close>

theorem every_transition_is_an_edge:
  assumes "instruments_keyed d" "sessions d sid = Some s" "run_action a u sid d = Inr d'"
  shows "\<exists>s'. sessions d' sid = Some s'
    \<and> (s_status s' = s_status s \<or> (\<exists>ty. edge (s_status s) ty (s_status s') \<and> logged sid ty d d'))
    \<and> (s_activated_at s \<noteq> None \<longrightarrow> s_activated_at s' = s_activated_at s)
    \<and> (s_status s \<noteq> Ready \<and> s_status s' = Ready \<longrightarrow>
         s_status s = Validated \<and> s_activated_at s' \<noteq> None \<and> s_scheduled_activate_at s' = None
         \<and> (\<forall>i \<in> set (session_instruments d' sid). i_accepting i \<and> i_deadline_closed_at i = None)
         \<and> (\<exists>rep ack trg. a = Activate rep ack trg \<and> rep_errors rep = [] \<and> (rep_warnings rep = [] \<or> ack)))"
proof -
  obtain s' where s': "sessions d' sid = Some s'"
    "s_status s' = s_status s \<or> (\<exists>ty. edge (s_status s) ty (s_status s') \<and> logged sid ty d d')"
    "s_activated_at s \<noteq> None \<longrightarrow> s_activated_at s' = s_activated_at s"
    using moved_action [OF assms] assms(2) by (auto simp: moved_def)
  moreover have "s_status s = Validated \<and> s_activated_at s' \<noteq> None \<and> s_scheduled_activate_at s' = None
         \<and> (\<forall>i \<in> set (session_instruments d' sid). i_accepting i \<and> i_deadline_closed_at i = None)
         \<and> (\<exists>rep ack trg. a = Activate rep ack trg \<and> rep_errors rep = [] \<and> (rep_warnings rep = [] \<or> ack))"
    if "s_status s \<noteq> Ready" "s_status s' = Ready"
    using only_activation [OF assms(2,3) s'(1) that] .
  ultimately show ?thesis by blast
qed

lemma activate_demo:
  "\<exists>d'. run_action (Activate clean_report False ''manual'') None 1 lifecycle_demo = Inr d'"
  by (simp add: activate_session_def lock_session_def lock_conflicts_def lifecycle_demo_def demo_session_def
      blank_db_def is_validated_def can_activate_def clean_report_def has_non_blocking_findings_def)

theorem every_transition_is_an_edge_witness:
  "\<exists>d' s'. run_action (Activate clean_report False ''manual'') None 1 lifecycle_demo = Inr d'
     \<and> sessions d' 1 = Some s' \<and> (s_status s' = Validated \<or> logged 1 ''session.activated'' lifecycle_demo d')"
proof -
  obtain d' where d': "run_action (Activate clean_report False ''manual'') None 1 lifecycle_demo = Inr d'"
    using activate_demo by blast
  have s: "sessions lifecycle_demo 1 = Some demo_session" by (simp add: lifecycle_demo_def)
  from every_transition_is_an_edge [OF lifecycle_demo_keyed s d']
  obtain s' where s': "sessions d' 1 = Some s'"
    "s_status s' = Validated \<or> (\<exists>ty. edge Validated ty (s_status s') \<and> logged 1 ty lifecycle_demo d')"
    by (auto simp: demo_session_def)
  have "s_status s' = Ready"
    using d' s'(1) s by (auto elim!: activate_session_Inr)
  then show ?thesis using d' s' by (auto elim: edge_ReadyE)
qed

section \<open>Reachable databases\<close>

text \<open>
  Everything that can happen to the tables the lifecycle reads: a lifecycle call, with
  \<open>races\<close> also an observer whose request read another database than the one it finds under the
  lock; an edit of a session's instruments, which the setup services make under
  \<open>require_editable\<close>; a change of the session's other columns; a session created or deleted; and
  any change elsewhere, the wall clock and the locks of other transactions included.
\<close>

definition reads_now :: "action \<Rightarrow> db \<Rightarrow> bool" where
  "reads_now a d = (case a of ObserveDeadline now seen \<Rightarrow> seen = d | _ \<Rightarrow> True)"

inductive sys_step :: "bool \<Rightarrow> db \<Rightarrow> db \<Rightarrow> bool" for races :: bool where
  call: "run_action a u sid d = Inr d' \<Longrightarrow> races \<or> reads_now a d \<Longrightarrow> sys_step races d d'"
| editing: "require_editable d sid = Inr s
    \<Longrightarrow> filter (\<lambda>i. i_session i \<noteq> sid) js = filter (\<lambda>i. i_session i \<noteq> sid) (instruments d)
    \<Longrightarrow> instruments_keyed (d\<lparr>instruments := js\<rparr>) \<Longrightarrow> sys_step races d (d\<lparr>instruments := js\<rparr>)"
| reschedule: "sessions d sid = Some s \<Longrightarrow> s_status s' = s_status s \<Longrightarrow> s_activated_at s' = s_activated_at s
    \<Longrightarrow> sys_step races d (d\<lparr>sessions := (sessions d)(sid \<mapsto> s')\<rparr>)"
| create: "sessions d sid = None \<Longrightarrow> s_status s = Draft
    \<Longrightarrow> sys_step races d (d\<lparr>sessions := (sessions d)(sid \<mapsto> s)\<rparr>)"
| remove: "sys_step races d (d\<lparr>sessions := (sessions d)(sid := None),
    instruments := filter (\<lambda>i. i_session i \<noteq> sid) (instruments d)\<rparr>)"
| elsewhere: "sessions d' = sessions d \<Longrightarrow> instruments d' = instruments d \<Longrightarrow> sys_step races d d'"

inductive reachable :: "bool \<Rightarrow> db \<Rightarrow> bool" for races :: bool where
  start: "sessions d = Map.empty \<Longrightarrow> instruments d = [] \<Longrightarrow> reachable races d"
| step: "reachable races d \<Longrightarrow> sys_step races d d' \<Longrightarrow> reachable races d'"

text \<open>The invariant of one session.\<close>

definition session_ok :: "bool \<Rightarrow> db \<Rightarrow> int \<Rightarrow> bool" where
  "session_ok races d sid = (\<forall>s. sessions d sid = Some s \<longrightarrow>
     (s_status s = Ready \<longrightarrow> s_activated_at s \<noteq> None
        \<and> (\<forall>i \<in> set (session_instruments d sid). i_accepting i \<and> i_deadline_closed_at i = None))
     \<and> (s_status s = Expired \<longrightarrow> s_activated_at s \<noteq> None)
     \<and> (\<not> races \<and> s_status s \<in> {Expired, Archived} \<longrightarrow>
          (\<forall>i \<in> set (session_instruments d sid). \<not> i_accepting i)))"

lemma session_ok_iff: "sessions d sid = Some s \<Longrightarrow> session_ok races d sid =
     ((s_status s = Ready \<longrightarrow> s_activated_at s \<noteq> None
        \<and> (\<forall>i \<in> set (session_instruments d sid). i_accepting i \<and> i_deadline_closed_at i = None))
     \<and> (s_status s = Expired \<longrightarrow> s_activated_at s \<noteq> None)
     \<and> (\<not> races \<and> s_status s \<in> {Expired, Archived} \<longrightarrow>
          (\<forall>i \<in> set (session_instruments d sid). \<not> i_accepting i)))"
  by (simp add: session_ok_def)

definition system_ok :: "bool \<Rightarrow> db \<Rightarrow> bool" where
  "system_ok races d = (instruments_keyed d \<and> (\<forall>sid. session_ok races d sid))"

lemma frame_other_instruments: "frame sid d d' \<Longrightarrow> k \<noteq> sid \<Longrightarrow> session_instruments d' k = session_instruments d k"
proof -
  assume f: "frame sid d d'" and k: "k \<noteq> sid"
  have "filter (\<lambda>i. i_session i = k) (filter (\<lambda>i. i_session i \<noteq> sid) (instruments x)) = session_instruments x k" for x
    using k by (auto simp: session_instruments_def intro: filter_cong)
  then show ?thesis using f unfolding frame_def by metis
qed

lemma session_ok_other: "frame sid d d' \<Longrightarrow> k \<noteq> sid \<Longrightarrow> session_ok races d' k = session_ok races d k"
proof -
  assume f: "frame sid d d'" "k \<noteq> sid"
  then have "sessions d' k = sessions d k" by (simp add: frame_def)
  then show ?thesis using frame_other_instruments [OF f] by (simp add: session_ok_def split: option.split)
qed

text \<open>A call keeps the invariant of its own session.\<close>

lemma session_ok_off:
  assumes "sessions d' sid = Some s'" "s_status s' \<in> {Draft, Validated}"
  shows "session_ok races d' sid"
  using assms(2) by (auto simp: session_ok_iff [OF assms(1)])

lemma session_ok_closed:
  assumes "sessions d' sid = Some s'" "s_status s' \<noteq> Ready" "s_status s' = Expired \<Longrightarrow> s_activated_at s' \<noteq> None"
    and "\<And>i. i \<in> set (session_instruments d' sid) \<Longrightarrow> \<not> i_accepting i"
  shows "session_ok races d' sid"
  using assms(2-) by (simp add: session_ok_iff [OF assms(1)])

lemma close_all_closed: "i \<in> set (session_instruments (close_all sid d) sid) \<Longrightarrow> \<not> i_accepting i"
  by (auto simp: close_all_def own_rows)

lemma session_ok_same:
  assumes "session_ok races d sid" "sessions d' sid = Some s'" "sessions d sid = Some s"
    "s_status s' = s_status s" "s_activated_at s' = s_activated_at s" "instruments d' = instruments d"
  shows "session_ok races d' sid"
  using assms by (simp add: session_ok_def session_instruments_def)

lemma session_ok_close_loop:
  assumes "sessions d' sid = Some s'" "s_status s' = Expired" "s_activated_at s' \<noteq> None"
    and "\<not> races \<Longrightarrow> \<forall>i \<in> set (session_instruments d' sid). \<not> i_accepting i"
  shows "session_ok races d' sid"
  using assms(2-) by (simp add: session_ok_iff [OF assms(1)])

text \<open>After the closing loop no instrument of the session is open, and none was opened.\<close>

lemma close_loop_instruments:
  "instruments (foldl (close_at_end sid s now) d is) =
     map (\<lambda>j. if i_id j \<in> i_id ` set is
       then j\<lparr>i_accepting := False, i_deadline_closed_at := Some (Aware now)\<rparr> else j) (instruments d)"
proof (induction "is" arbitrary: d)
  case (Cons i "is")
  show ?case by (simp add: Cons.IH) (auto simp: close_at_end_def)
qed simp

lemma expire_at_end_instruments [simp]: "instruments (expire_at_end sid n d) = instruments d"
  by (auto simp: expire_at_end_def set_status_def split: option.split)

lemma write_deadline_instruments [simp]: "instruments (write_deadline_reached sid d) = instruments d"
  by (auto simp: write_deadline_reached_def Let_def split: option.split)

lemma reopen_loop_instruments:
  "instruments (foldl (reopen_instrument sid) d is) =
     map (\<lambda>j. if i_id j \<in> i_id ` set is
       then j\<lparr>i_accepting := True, i_deadline_closed_at := None\<rparr> else j) (instruments d)"
proof (induction "is" arbitrary: d)
  case (Cons i "is")
  show ?case by (simp add: Cons.IH) (auto simp: reopen_instrument_def)
qed simp

lemma session_ok_ready:
  assumes "session_ok races d sid" "sessions d sid = Some s" "s_status s = Ready"
  shows "open_instruments d sid = session_instruments d sid" "closed_instruments d sid = []"
    "s_activated_at s \<noteq> None"
  using assms by (auto simp: session_ok_def open_instruments_def closed_instruments_def filter_empty_conv
      intro!: filter_True)

lemma session_ok_observe:
  assumes "session_ok races d sid" "observe_deadline now sid seen d = Inr (d', n)" "races \<or> seen = d"
  shows "session_ok races d' sid"
  using assms(2)
proof (cases rule: observe_cases)
  case quiet
  then show ?thesis using assms(1) by simp
next
  case (healed s s0)
  then have "d' = d" using session_ok_ready(2) [OF assms(1)] by (simp add: is_ready_def)
  then show ?thesis using assms(1) by simp
next
  case (shut s)
  have ready: "s_status s = Ready" using shut by (simp add: is_ready_def)
  note ok = session_ok_ready [OF assms(1) \<open>sessions d sid = Some s\<close> ready]
  have "\<forall>i \<in> set (session_instruments d' sid). \<not> i_accepting i" if "\<not> races"
    using shut ok that assms(3) by (simp add: session_instruments_def)
  with shut ready ok show ?thesis
    by (intro session_ok_close_loop [where s' = "s\<lparr>s_status := Expired\<rparr>"]) (simp_all add: expire_at_end_sessions)
next
  case (closed_now s)
  have inst: "instruments d' = map (\<lambda>j. if i_id j \<in> i_id ` set (open_instruments d sid)
      then j\<lparr>i_accepting := False, i_deadline_closed_at := Some (Aware (now_or now d))\<rparr> else j) (instruments d)"
    by (simp add: closed_now(5) close_loop_instruments)
  show ?thesis
  proof (cases "is_ready s")
    case True
    then have ready: "s_status s = Ready" by (simp add: is_ready_def)
    note ok = session_ok_ready [OF assms(1) \<open>sessions d sid = Some s\<close> ready]
    have "\<forall>i \<in> set (session_instruments d' sid). \<not> i_accepting i"
      by (auto simp: session_instruments_def inst ok(1))
    with True ok closed_now(2) show ?thesis
      by (intro session_ok_close_loop [where s' = "s\<lparr>s_status := Expired\<rparr>"])
        (simp_all add: closed_now(5) expire_at_end_sessions loop_sessions)
  next
    case False
    have st: "sessions d' sid = Some s"
      using False by (simp add: closed_now expire_at_end_sessions loop_sessions)
    obtain i where i: "i \<in> set (session_instruments d sid)" "i_accepting i"
      using closed_now(1) by (auto simp: open_instruments_def filter_empty_conv)
    have "s_status s \<noteq> Ready" using False by (simp add: is_ready_def)
    then show ?thesis using i assms(1) by (auto simp: session_ok_iff [OF st] session_ok_iff [OF closed_now(2)])
  qed
qed

lemma session_ok_call:
  assumes "session_ok races d sid" "run_action a u sid d = Inr d'" "races \<or> reads_now a d"
  shows "session_ok races d' sid"
proof (cases a)
  case (ObserveDeadline now seen)
  then obtain n where "observe_deadline now sid seen d = Inr (d', n)"
    using assms(2) by (cases "observe_deadline now sid seen d") auto
  moreover have "races \<or> seen = d" using assms(3) ObserveDeadline by (simp add: reads_now_def)
  ultimately show ?thesis by (rule session_ok_observe [OF assms(1)])
next
  case (Activate rep ack trg)
  then have "activate_session u rep ack trg sid d = Inr d'" using assms(2) by simp
  then show ?thesis by (rule activate_session_Inr) (auto simp: session_ok_def session_instruments_def own_rows_list)
next
  case ReleaseNow
  then show ?thesis using assms
    by (auto simp: release_responses_now_def require_state_Inr dest!: lock_session_Inr
        intro!: session_ok_same [OF assms(1)])
next
  case StopRelease
  then show ?thesis using assms
    by (auto simp: stop_responses_release_def require_state_Inr dest!: lock_session_Inr
        intro!: session_ok_same [OF assms(1)])
next
  case Expire
  then show ?thesis using assms session_ok_ready(3) [OF assms(1)] close_all_closed [of _ sid d]
    by (auto simp: expire_session_def set_status_def is_ready_def session_instruments_def dest!: lock_session_Inr
        split: if_splits intro!: session_ok_closed)
next
  case Archive
  then show ?thesis using assms close_all_closed [of _ sid d]
    by (auto simp: archive_session_def set_status_def session_instruments_def dest!: lock_session_Inr
        split: if_splits intro!: session_ok_closed)
qed (use assms in \<open>auto simp: transition_defs dest!: lock_session_Inr
    split: if_splits option.splits intro: session_ok_off\<close>)

lemma system_ok_step:
  assumes "system_ok races d" "sys_step races d d'"
  shows "system_ok races d'"
  using assms(2)
proof cases
  case (call a u sid)
  have f: "frame sid d d'" using assms(1) call by (intro frame_action) (auto simp: system_ok_def)
  have "session_ok races d' k" for k
    using session_ok_call [OF _ call(1,2)] session_ok_other [OF f, of k] assms(1)
    by (cases "k = sid") (auto simp: system_ok_def)
  then show ?thesis using frame_keyed [OF f] assms(1) by (simp add: system_ok_def)
next
  case (editing sid s js)
  have "session_instruments d' k = session_instruments d k" if "k \<noteq> sid" for k
  proof -
    have "filter (\<lambda>i. i_session i = k) (filter (\<lambda>i. i_session i \<noteq> sid) xs) = filter (\<lambda>i. i_session i = k) xs" for xs
      using that by (auto intro: filter_cong)
    then show ?thesis using editing(1,3) unfolding session_instruments_def by (metis db.select_convs(2) db.surjective db.update_convs(2))
  qed
  moreover have "s_status s \<in> {Draft, Validated}" "sessions d sid = Some s"
    using editing(2) by (auto simp: require_editable_def require_state_Inr is_editable_def status_defs dest: lock_session_Inr)
  moreover have "session_ok races d k" for k using assms(1) by (simp add: system_ok_def)
  ultimately have "session_ok races d' k" for k
    using editing(1) by (cases "k = sid") (auto simp: session_ok_def)
  then show ?thesis using editing by (simp add: system_ok_def)
next
  case (reschedule sid s s')
  then show ?thesis using assms(1)
    by (auto simp: system_ok_def session_ok_def session_instruments_def instruments_keyed_def)
next
  case (create sid s)
  then show ?thesis using assms(1)
    by (auto simp: system_ok_def session_ok_def session_instruments_def instruments_keyed_def)
next
  case (remove sid)
  have "filter (\<lambda>i. i_session i = k) (filter (\<lambda>i. i_session i \<noteq> sid) xs) = filter (\<lambda>i. i_session i = k) xs"
    if "k \<noteq> sid" for k xs
    using that by (auto intro: filter_cong)
  then show ?thesis using assms(1) remove
    by (auto simp: system_ok_def session_ok_def session_instruments_def instruments_keyed_def distinct_map_filter)
next
  case elsewhere
  then show ?thesis using assms(1)
    by (simp add: system_ok_def session_ok_def session_instruments_def instruments_keyed_def)
qed

lemma reachable_ok: "reachable races d \<Longrightarrow> system_ok races d"
proof (induction rule: reachable.induct)
  case (start d)
  then show ?case by (simp add: system_ok_def session_ok_def instruments_keyed_def)
next
  case (step d d')
  from step.IH step.hyps(2) show ?case by (rule system_ok_step)
qed

text \<open>
  C9. In every database any history of calls, edits and interruptions can reach: a \<open>ready\<close>
  session has been activated and has every instrument accepting, none of them stamped as closed
  by the end, so accepting is session-wide; an \<open>expired\<close> session has been activated. If no
  observer decided on instruments it read before another transaction changed them, an expired
  or archived session has no accepting instrument.
\<close>

theorem accepting_is_session_wide:
  assumes "reachable races d" "sessions d sid = Some s"
  shows "(s_status s = Ready \<longrightarrow> s_activated_at s \<noteq> None
        \<and> (\<forall>i \<in> set (session_instruments d sid). i_accepting i \<and> i_deadline_closed_at i = None))
     \<and> (s_status s = Expired \<longrightarrow> s_activated_at s \<noteq> None)
     \<and> (\<not> races \<and> s_status s \<in> {Expired, Archived} \<longrightarrow>
          (\<forall>i \<in> set (session_instruments d sid). \<not> i_accepting i))"
proof -
  have "session_ok races d sid" using reachable_ok [OF assms(1)] by (simp add: system_ok_def)
  then show ?thesis unfolding session_ok_iff [OF assms(2)] .
qed

definition draft_demo :: db where
  "draft_demo = blank_db\<lparr>sessions := [1 \<mapsto> demo_session\<lparr>s_status := Draft\<rparr>],
     instruments := [demo_instrument 10 1 True]\<rparr>"

lemma draft_demo_reachable: "reachable races draft_demo"
proof -
  let ?s = "demo_session\<lparr>s_status := Draft\<rparr>"
  let ?d = "blank_db\<lparr>sessions := (sessions blank_db)(1 \<mapsto> ?s)\<rparr>"
  have "reachable races blank_db" by (rule start) (simp_all add: blank_db_def)
  moreover have "sys_step races blank_db ?d" by (rule create) (simp_all add: blank_db_def)
  ultimately have "reachable races ?d" by (rule step)
  moreover have "sys_step races ?d (?d\<lparr>instruments := [demo_instrument 10 1 True]\<rparr>)"
    by (rule editing [of _ 1 ?s])
      (simp_all add: require_editable_def require_state_def lock_session_def lock_conflicts_def blank_db_def
        is_editable_def is_draft_def demo_instrument_def instruments_keyed_def)
  ultimately have "reachable races (?d\<lparr>instruments := [demo_instrument 10 1 True]\<rparr>)" by (rule step)
  then show ?thesis by (simp add: draft_demo_def blank_db_def)
qed

theorem accepting_is_session_wide_witness:
  "\<exists>d s. archive_session None 1 draft_demo = Inr d \<and> sessions d 1 = Some s \<and> s_status s = Archived
     \<and> (\<forall>i \<in> set (session_instruments d 1). \<not> i_accepting i)"
proof -
  have "\<exists>d. archive_session None 1 draft_demo = Inr d
      \<and> sessions d 1 = Some (demo_session\<lparr>s_status := Archived\<rparr>)"
    by (simp add: archive_session_def lock_session_def lock_conflicts_def draft_demo_def blank_db_def
        is_archived_def demo_session_def set_status_def)
  then obtain d where d: "archive_session None 1 draft_demo = Inr d"
      "sessions d 1 = Some (demo_session\<lparr>s_status := Archived\<rparr>)" by blast
  have "sys_step False draft_demo d"
    by (rule call [of Archive None 1]) (simp_all add: d reads_now_def)
  then have "reachable False d" by (rule step [OF draft_demo_reachable])
  from accepting_is_session_wide [OF this d(2)] show ?thesis using d by auto
qed

section \<open>The close at the end\<close>

lemma close_at_end_recorded:
  "deadline_already_recorded (close_at_end sid s now d i) sid t = deadline_already_recorded d sid t"
  by (auto simp: deadline_already_recorded_def close_at_end_def write_event_def split: option.split)

lemma close_loop_recorded:
  "deadline_already_recorded (foldl (close_at_end sid s now) d is) sid t = deadline_already_recorded d sid t"
  by (induction "is" arbitrary: d) (simp_all add: close_at_end_recorded)

text \<open>What each step of the close writes, everything else unchanged.\<close>

definition closed_by :: "int \<Rightarrow> int set \<Rightarrow> instrument \<Rightarrow> instrument" where
  "closed_by now ks i = (if i_id i \<in> ks
     then i\<lparr>i_accepting := False, i_deadline_closed_at := Some (Aware now)\<rparr> else i)"

definition filed :: "int \<Rightarrow> audit_event list \<Rightarrow> bool" where
  "filed sid es = (\<forall>e \<in> set es. ev_session e = Some sid)"

lemma closed_by_none [simp]: "map (closed_by now {}) is = is"
  by (rule map_idI) (simp add: closed_by_def)

lemma write_event_writes:
  "\<exists>e. write_event ty a s pl r rf cx d = d\<lparr>audit_log := audit_log d @ [e]\<rparr>
    \<and> ev_type e = ty \<and> ev_session e = s \<and> ev_refs e = rf"
  unfolding write_event_def by (intro exI conjI, rule refl) simp_all

lemma rewritten_tables:
  "d' = d\<lparr>instruments := xs, sessions := ss, audit_log := es\<rparr> \<Longrightarrow> instruments d' = xs \<and> audit_log d' = es"
  by simp

lemma close_at_end_writes:
  "\<exists>e. close_at_end sid s now d i
      = d\<lparr>instruments := map (closed_by now {i_id i}) (instruments d), audit_log := audit_log d @ [e]\<rparr>
    \<and> ev_type e = ''instrument.closed'' \<and> ev_refs e = [(''instrument_id'', i_id i)] \<and> ev_session e = Some sid"
  by (simp add: close_at_end_def write_event_def closed_by_def [abs_def]) (intro exI conjI, rule refl, simp_all)

lemma close_loop_writes:
  "\<exists>es. foldl (close_at_end sid s now) d is
      = d\<lparr>instruments := map (closed_by now (i_id ` set is)) (instruments d), audit_log := audit_log d @ es\<rparr>
    \<and> map ev_type es = replicate (length is) ''instrument.closed''
    \<and> map ev_refs es = map (\<lambda>i. [(''instrument_id'', i_id i)]) is \<and> filed sid es"
proof (induction "is" arbitrary: d)
  case Nil
  show ?case by (intro exI [of _ "[]"]) (simp add: filed_def)
next
  case (Cons i "is")
  obtain e where e: "close_at_end sid s now d i
      = d\<lparr>instruments := map (closed_by now {i_id i}) (instruments d), audit_log := audit_log d @ [e]\<rparr>"
    "ev_type e = ''instrument.closed''" "ev_refs e = [(''instrument_id'', i_id i)]" "ev_session e = Some sid"
    using close_at_end_writes by blast
  obtain es where es: "foldl (close_at_end sid s now) (close_at_end sid s now d i) is
      = (close_at_end sid s now d i)\<lparr>instruments := map (closed_by now (i_id ` set is)) (instruments (close_at_end sid s now d i)),
          audit_log := audit_log (close_at_end sid s now d i) @ es\<rparr>"
    "map ev_type es = replicate (length is) ''instrument.closed''"
    "map ev_refs es = map (\<lambda>i. [(''instrument_id'', i_id i)]) is" "filed sid es"
    using Cons.IH by blast
  have "closed_by now (i_id ` set is) (closed_by now {i_id i} j) = closed_by now (i_id ` set (i # is)) j" for j
    by (simp add: closed_by_def)
  then have "map (closed_by now (i_id ` set is)) (map (closed_by now {i_id i}) js) = map (closed_by now (i_id ` set (i # is))) js" for js
    by simp
  then have "foldl (close_at_end sid s now) d (i # is)
      = d\<lparr>instruments := map (closed_by now (i_id ` set (i # is))) (instruments d), audit_log := audit_log d @ e # es\<rparr>"
    unfolding foldl_Cons es(1) unfolding e(1) by (simp del: map_map)
  moreover have "map ev_type (e # es) = replicate (length (i # is)) ''instrument.closed''"
    "map ev_refs (e # es) = map (\<lambda>i. [(''instrument_id'', i_id i)]) (i # is)" "filed sid (e # es)"
    using e(2-4) es(2-4) by (simp_all add: filed_def)
  ultimately show ?case by (intro exI [of _ "e # es"] conjI)
qed

lemma write_deadline_writes:
  assumes "sessions d sid = Some s"
  shows "\<exists>es. write_deadline_reached sid d = d\<lparr>audit_log := audit_log d @ es\<rparr> \<and> filed sid es
    \<and> map ev_type es = (if s_deadline s \<noteq> None \<and> \<not> deadline_already_recorded d sid s then [''session.deadline_reached''] else [])"
proof (cases "s_deadline s \<noteq> None \<and> \<not> deadline_already_recorded d sid s")
  case True
  then obtain pl cx where w: "write_deadline_reached sid d
      = write_event ''session.deadline_reached'' None (Some sid) pl None [] cx d"
    using assms by (auto simp: write_deadline_reached_def Let_def)
  obtain e where "write_deadline_reached sid d = d\<lparr>audit_log := audit_log d @ [e]\<rparr>"
    "ev_type e = ''session.deadline_reached''" "ev_session e = Some sid"
    unfolding w using write_event_writes by blast
  then show ?thesis using True by (intro exI [of _ "[e]"]) (simp add: filed_def)
next
  case False
  then show ?thesis using assms by (intro exI [of _ "[]"]) (auto simp: write_deadline_reached_def filed_def)
qed

lemma expire_at_end_writes:
  assumes "sessions d sid = Some s"
  shows "\<exists>es. expire_at_end sid n d = d\<lparr>sessions := (sessions d)(sid \<mapsto> if is_ready s then s\<lparr>s_status := Expired\<rparr> else s),
        audit_log := audit_log d @ es\<rparr> \<and> filed sid es
    \<and> map ev_type es = (if is_ready s then [''session.expired''] else [])"
proof (cases "is_ready s")
  case True
  then show ?thesis using assms by (simp add: expire_at_end_def set_status_def upd_session_def write_event_def)
      (intro exI conjI, rule refl, simp_all add: filed_def)
next
  case False
  then have "(sessions d)(sid \<mapsto> if is_ready s then s\<lparr>s_status := Expired\<rparr> else s) = sessions d"
    using assms by (auto simp: fun_eq_iff)
  then show ?thesis using False assms by (intro exI [of _ "[]"]) (simp add: expire_at_end_def filed_def)
qed

text \<open>The three in the observer's order.\<close>

lemma close_expire_writes:
  assumes "sessions d sid = Some s"
  shows "\<exists>es. expire_at_end sid n (write_deadline_reached sid (foldl (close_at_end sid s now) d is))
      = d\<lparr>instruments := map (closed_by now (i_id ` set is)) (instruments d),
          sessions := (sessions d)(sid \<mapsto> if is_ready s then s\<lparr>s_status := Expired\<rparr> else s),
          audit_log := audit_log d @ es\<rparr> \<and> filed sid es
    \<and> map ev_refs (take (length is) es) = map (\<lambda>i. [(''instrument_id'', i_id i)]) is
    \<and> map ev_type es = replicate (length is) ''instrument.closed''
      @ (if s_deadline s \<noteq> None \<and> \<not> deadline_already_recorded d sid s then [''session.deadline_reached''] else [])
      @ (if is_ready s then [''session.expired''] else [])"
proof -
  let ?e = "foldl (close_at_end sid s now) d is"
  obtain es where es: "?e = d\<lparr>instruments := map (closed_by now (i_id ` set is)) (instruments d), audit_log := audit_log d @ es\<rparr>"
    "map ev_type es = replicate (length is) ''instrument.closed''"
    "map ev_refs es = map (\<lambda>i. [(''instrument_id'', i_id i)]) is" "filed sid es"
    using close_loop_writes by blast
  have se: "sessions ?e sid = Some s" "sessions ?e = sessions d" using assms by (simp_all add: es(1))
  obtain fs where fs: "write_deadline_reached sid ?e = ?e\<lparr>audit_log := audit_log ?e @ fs\<rparr>" "filed sid fs"
    "map ev_type fs = (if s_deadline s \<noteq> None \<and> \<not> deadline_already_recorded ?e sid s then [''session.deadline_reached''] else [])"
    using write_deadline_writes [OF se(1)] by blast
  let ?w = "write_deadline_reached sid ?e"
  have sw: "sessions ?w sid = Some s" "sessions ?w = sessions d" using se by (simp_all add: fs(1))
  obtain gs where gs: "expire_at_end sid n ?w = ?w\<lparr>sessions := (sessions ?w)(sid \<mapsto> if is_ready s then s\<lparr>s_status := Expired\<rparr> else s),
        audit_log := audit_log ?w @ gs\<rparr>" "filed sid gs" "map ev_type gs = (if is_ready s then [''session.expired''] else [])"
    using expire_at_end_writes [OF sw(1)] by blast
  have "length es = length is" using arg_cong [OF es(2), of length] by simp
  then have "map ev_refs (take (length is) (es @ fs @ gs)) = map (\<lambda>i. [(''instrument_id'', i_id i)]) is"
    using es(3) by simp
  moreover have "expire_at_end sid n ?w = d\<lparr>instruments := map (closed_by now (i_id ` set is)) (instruments d),
          sessions := (sessions d)(sid \<mapsto> if is_ready s then s\<lparr>s_status := Expired\<rparr> else s),
          audit_log := audit_log d @ es @ fs @ gs\<rparr>"
    unfolding gs(1) sw(2) unfolding fs(1) unfolding es(1) by simp
  ultimately show ?thesis using es(2,4) fs(2,3) gs(2,3)
    by (intro exI [of _ "es @ fs @ gs"]) (simp add: filed_def close_loop_recorded ball_Un)
qed

text \<open>What the observer leaves when the committed row's end has passed and it saw that database.\<close>

lemma observe_fresh:
  assumes "sessions d sid = Some s" "deadline_has_passed (now_or now d) s"
    and "observe_deadline now sid d d = Inr (d', n)"
  shows "n = int (length (open_instruments d sid))"
    and "\<exists>es. d' = d\<lparr>instruments := map (closed_by (now_or now d) (i_id ` set (open_instruments d sid))) (instruments d),
          sessions := (sessions d)(sid \<mapsto> if is_ready s then s\<lparr>s_status := Expired\<rparr> else s),
          audit_log := audit_log d @ es\<rparr> \<and> filed sid es
      \<and> map ev_refs (take (length (open_instruments d sid)) es)
          = map (\<lambda>i. [(''instrument_id'', i_id i)]) (open_instruments d sid)
      \<and> map ev_type es = replicate (length (open_instruments d sid)) ''instrument.closed''
        @ (if s_deadline s \<noteq> None \<and> \<not> deadline_already_recorded d sid s \<and> (is_ready s \<or> open_instruments d sid \<noteq> [])
           then [''session.deadline_reached''] else [])
        @ (if is_ready s then [''session.expired''] else [])"
proof -
  let ?is = "open_instruments d sid"
  have "d' = d \<and> n = 0 \<and> ?is = [] \<and> \<not> is_ready s \<or> n = int (length ?is) \<and> (?is \<noteq> [] \<or> is_ready s)
      \<and> d' = expire_at_end sid n (write_deadline_reached sid (foldl (close_at_end sid s (now_or now d)) d ?is))"
  proof (cases "?is = [] \<and> \<not> is_ready s")
    case True
    then show ?thesis using assms by (simp add: observe_deadline_def)
  next
    case False
    have l: "lock_session d sid False = Inr s"
    proof (cases "lock_session d sid False")
      case (Inl e)
      then show ?thesis using False assms by (simp add: observe_deadline_def Let_def split: if_split_asm)
    next
      case (Inr t)
      then show ?thesis using lock_session_Inr [OF Inr] assms(1) by simp
    qed
    show ?thesis
    proof (cases "?is = []")
      case True
      then show ?thesis using l False assms by (simp add: observe_deadline_def)
    next
      case some_open: False
      then show ?thesis using l assms by (simp add: observe_deadline_def Let_def) (elim conjE, hypsubst, simp)
    qed
  qed
  then consider (idle) "d' = d" "n = 0" "?is = []" "\<not> is_ready s"
    | (closing) "n = int (length ?is)" "?is \<noteq> [] \<or> is_ready s"
      "d' = expire_at_end sid n (write_deadline_reached sid (foldl (close_at_end sid s (now_or now d)) d ?is))"
    by blast
  then have "n = int (length ?is) \<and> (\<exists>es. d' = d\<lparr>instruments := map (closed_by (now_or now d) (i_id ` set ?is)) (instruments d),
          sessions := (sessions d)(sid \<mapsto> if is_ready s then s\<lparr>s_status := Expired\<rparr> else s),
          audit_log := audit_log d @ es\<rparr> \<and> filed sid es
      \<and> map ev_refs (take (length ?is) es) = map (\<lambda>i. [(''instrument_id'', i_id i)]) ?is
      \<and> map ev_type es = replicate (length ?is) ''instrument.closed''
        @ (if s_deadline s \<noteq> None \<and> \<not> deadline_already_recorded d sid s \<and> (is_ready s \<or> ?is \<noteq> [])
           then [''session.deadline_reached''] else [])
        @ (if is_ready s then [''session.expired''] else []))"
  proof cases
    case idle
    have "(sessions d)(sid \<mapsto> s) = sessions d" using assms(1) by (auto simp: fun_eq_iff)
    then show ?thesis using idle by (intro conjI exI [of _ "[]"]) (simp_all add: filed_def)
  next
    case closing
    have "(is_ready s \<or> ?is \<noteq> []) = True" using closing(2) by blast
    then show ?thesis using closing(1,3) close_expire_writes [OF assms(1), of n "now_or now d" ?is] by simp
  qed
  then show "n = int (length ?is)" "\<exists>es. d' = d\<lparr>instruments := map (closed_by (now_or now d) (i_id ` set ?is)) (instruments d),
          sessions := (sessions d)(sid \<mapsto> if is_ready s then s\<lparr>s_status := Expired\<rparr> else s),
          audit_log := audit_log d @ es\<rparr> \<and> filed sid es
      \<and> map ev_refs (take (length ?is) es) = map (\<lambda>i. [(''instrument_id'', i_id i)]) ?is
      \<and> map ev_type es = replicate (length ?is) ''instrument.closed''
        @ (if s_deadline s \<noteq> None \<and> \<not> deadline_already_recorded d sid s \<and> (is_ready s \<or> ?is \<noteq> [])
           then [''session.deadline_reached''] else [])
        @ (if is_ready s then [''session.expired''] else [])"
    by blast+
qed

lemma open_after_close:
  "instruments e = map (closed_by now (i_id ` set (open_instruments d sid))) (instruments d) \<Longrightarrow> open_instruments e sid = []"
  by (auto simp: open_instruments_def session_instruments_def filter_empty_conv closed_by_def)

text \<open>
  C10. Once the review's end has passed, the first request closes everything and every later one
  does nothing. The observer turns off accepting on exactly the open instruments, stamping each
  closed at its clock, and returns their number; it moves a \<open>ready\<close> session to \<open>expired\<close>; it logs
  one \<open>instrument.closed\<close> naming each instrument it closed, then one \<open>session.deadline_reached\<close>
  for an End not yet recorded, then one \<open>session.expired\<close>, all under the session; every other
  instrument, session and table is as before. A second call by anyone, at any later moment, even
  while another transaction holds the row, returns 0 and changes nothing.
\<close>

theorem observe_deadline_closes_once:
  assumes "sessions d sid = Some s" "deadline_has_passed (now_or now d) s"
    and "observe_deadline now sid d d = Inr (d', n)" and "now_or now d \<le> t"
  shows "n = int (length (open_instruments d sid)) \<and> open_instruments d' sid = []
    \<and> (\<exists>es. d' = d\<lparr>instruments := map (\<lambda>i. if i_id i \<in> i_id ` set (open_instruments d sid)
              then i\<lparr>i_accepting := False, i_deadline_closed_at := Some (Aware (now_or now d))\<rparr> else i) (instruments d),
          sessions := (sessions d)(sid \<mapsto> if is_ready s then s\<lparr>s_status := Expired\<rparr> else s),
          audit_log := audit_log d @ es\<rparr>
        \<and> (\<forall>e \<in> set es. ev_session e = Some sid)
        \<and> map ev_refs (take (length (open_instruments d sid)) es)
            = map (\<lambda>i. [(''instrument_id'', i_id i)]) (open_instruments d sid)
        \<and> map ev_type es = replicate (length (open_instruments d sid)) ''instrument.closed''
          @ (if s_deadline s \<noteq> None \<and> \<not> deadline_already_recorded d sid s \<and> (is_ready s \<or> open_instruments d sid \<noteq> [])
             then [''session.deadline_reached''] else [])
          @ (if is_ready s then [''session.expired''] else []))
    \<and> observe_deadline (Some t) sid d' (d'\<lparr>held := h\<rparr>) = Inr (d'\<lparr>held := h\<rparr>, 0)"
proof -
  note f = observe_fresh [OF assms(1-3)]
  let ?s = "if is_ready s then s\<lparr>s_status := Expired\<rparr> else s"
  have "review_end ?s = review_end s" by (simp add: review_end_def split: option.split)
  then have "deadline_has_passed t ?s"
    using assms(2,4) by (auto simp: deadline_has_passed_def split: option.splits)
  moreover have "\<not> is_ready ?s" by (simp add: is_ready_def)
  moreover have after: "sessions d' sid = Some ?s"
    "instruments d' = map (closed_by (now_or now d) (i_id ` set (open_instruments d sid))) (instruments d)"
    using f(2) by (elim exE conjE, simp)+
  ultimately have "observe_deadline (Some t) sid d' (d'\<lparr>held := h\<rparr>) = Inr (d'\<lparr>held := h\<rparr>, 0)"
    using open_after_close [OF after(2)] by (simp add: observe_deadline_def now_or_def)
  with f(1) open_after_close [OF after(2)] f(2) [unfolded closed_by_def [abs_def] filed_def] show ?thesis
    by (intro conjI)
qed

text \<open>
  A request that read the session before an End was cleared or moved later closes nothing:
  whatever it saw, if the committed row has not reached its end the observer returns 0, leaves
  every session row as it is and leaves every accepting instrument accepting; it can only reopen
  closed instruments, and only while the session is \<open>ready\<close>.
\<close>

theorem stale_observer_closes_nothing:
  assumes "instruments_keyed d" "sessions d sid = Some s" "\<not> deadline_has_passed (now_or now d) s"
    and "observe_deadline now sid seen d = Inr (d', n)"
  shows "n = 0 \<and> sessions d' = sessions d
    \<and> list_all2 (\<lambda>i j. i_id j = i_id i \<and> (j = i \<or> is_ready s \<and> \<not> i_accepting i \<and> i_accepting j))
        (instruments d) (instruments d')"
  using assms(4)
proof (cases rule: observe_cases)
  case quiet
  then show ?thesis by (simp add: list_all2_same)
next
  case (healed t s0)
  have closed: "\<not> i_accepting j" if "j \<in> set (instruments d)" "i_id j \<in> i_id ` set (closed_instruments d sid)" for j
    using that keyed_instrument [OF assms(1) that(1)] by (auto simp: closed_instruments_def session_instruments_def)
  have t: "t = s" using healed(3) assms(2) by simp
  have "list_all2 (\<lambda>i j. i_id j = i_id i \<and> (j = i \<or> is_ready s \<and> \<not> i_accepting i \<and> i_accepting j))
      (instruments d) (instruments d')"
    using healed(4) closed unfolding healed(6) reopen_loop_instruments t
    by (auto simp: list_all2_conv_all_nth)
  moreover have "sessions d' = sessions d" unfolding healed(6) by (rule loop_sessions) simp
  ultimately show ?thesis using healed(5) by blast
next
  case (shut t)
  then show ?thesis using assms(2,3) by simp
next
  case (closed_now t)
  then show ?thesis using assms(2,3) by simp
qed

text \<open>A \<open>ready\<close> session with one open instrument, its End at 100 and the clock at 150.\<close>

definition ended_demo :: db where
  "ended_demo = blank_db\<lparr>sessions := [1 \<mapsto> demo_session\<lparr>s_status := Ready\<rparr>],
     instruments := [demo_instrument 10 1 True], wall := 150\<rparr>"

lemma ended_demo_row: "sessions ended_demo 1 = Some (demo_session\<lparr>s_status := Ready\<rparr>)"
  by (simp add: ended_demo_def)

lemma ended_demo_past: "deadline_has_passed (now_or None ended_demo) (demo_session\<lparr>s_status := Ready\<rparr>)"
  by code_simp

lemma ended_demo_observed: "\<exists>d'. observe_deadline None 1 ended_demo ended_demo = Inr (d', 1)"
proof -
  have l: "lock_session ended_demo 1 False = Inr (demo_session\<lparr>s_status := Ready\<rparr>)"
    by (rule lock_session_free [OF ended_demo_row]) (simp add: ended_demo_def blank_db_def)
  have "open_instruments ended_demo 1 = [demo_instrument 10 1 True]" by code_simp
  then show ?thesis using l ended_demo_past by (simp add: observe_deadline_def ended_demo_row)
qed

theorem observe_deadline_closes_once_witness:
  "\<exists>d'. observe_deadline None 1 ended_demo ended_demo = Inr (d', 1)
     \<and> instruments d' = [(demo_instrument 10 1 True)\<lparr>i_accepting := False, i_deadline_closed_at := Some (Aware 150)\<rparr>]
     \<and> map ev_type (audit_log d') = [''instrument.closed'', ''session.deadline_reached'', ''session.expired'']
     \<and> observe_deadline (Some 200) 1 d' (d'\<lparr>held := \<lambda>_. ExclusiveLock\<rparr>) = Inr (d'\<lparr>held := \<lambda>_. ExclusiveLock\<rparr>, 0)"
proof -
  let ?s = "demo_session\<lparr>s_status := Ready\<rparr>"
  obtain d' where d': "observe_deadline None 1 ended_demo ended_demo = Inr (d', 1)"
    using ended_demo_observed by blast
  have "now_or None ended_demo \<le> 200" by code_simp
  note * = observe_deadline_closes_once [OF ended_demo_row ended_demo_past d' this, of "\<lambda>_. ExclusiveLock"]
  have op: "open_instruments ended_demo 1 = [demo_instrument 10 1 True]" "instruments ended_demo = [demo_instrument 10 1 True]"
    "audit_log ended_demo = []" "now_or None ended_demo = 150" "s_deadline ?s \<noteq> None" "is_ready ?s"
    "\<not> deadline_already_recorded ended_demo 1 ?s"
    by code_simp+
  have "instruments d' = map (\<lambda>i. if i_id i \<in> i_id ` set (open_instruments ended_demo 1)
      then i\<lparr>i_accepting := False, i_deadline_closed_at := Some (Aware (now_or None ended_demo))\<rparr> else i) (instruments ended_demo)"
    using *[THEN conjunct2, THEN conjunct2, THEN conjunct1] by (elim exE conjE) (drule rewritten_tables, elim conjE, assumption)
  then have i: "instruments d' = [(demo_instrument 10 1 True)\<lparr>i_accepting := False, i_deadline_closed_at := Some (Aware 150)\<rparr>]"
    unfolding op(1,2,4) by simp
  have "map ev_type (audit_log d') = map ev_type (audit_log ended_demo) @ replicate (length (open_instruments ended_demo 1)) ''instrument.closed''
      @ (if s_deadline ?s \<noteq> None \<and> \<not> deadline_already_recorded ended_demo 1 ?s \<and> (is_ready ?s \<or> open_instruments ended_demo 1 \<noteq> [])
         then [''session.deadline_reached''] else []) @ (if is_ready ?s then [''session.expired''] else [])"
    using *[THEN conjunct2, THEN conjunct2, THEN conjunct1] by (elim exE conjE) (drule rewritten_tables, elim conjE, simp only: map_append)
  then have "map ev_type (audit_log d') = [''instrument.closed'', ''session.deadline_reached'', ''session.expired'']"
    using op(5-7) unfolding op(1,3) by simp
  with d' i *[THEN conjunct2, THEN conjunct2, THEN conjunct2] show ?thesis by (intro exI conjI)
qed

theorem stale_observer_closes_nothing_witness:
  "\<exists>d' n. observe_deadline (Some 50) 1 ended_demo ended_demo = Inr (d', n) \<and> n = 0
     \<and> list_all2 (\<lambda>i j. i_id j = i_id i) (instruments ended_demo) (instruments d')"
proof -
  have k: "instruments_keyed ended_demo" by code_simp
  have p: "\<not> deadline_has_passed (now_or (Some 50) ended_demo) (demo_session\<lparr>s_status := Ready\<rparr>)" by code_simp
  have "closed_instruments ended_demo 1 = []" by code_simp
  then have "reopen_while_live 1 ended_demo ended_demo = Inr ended_demo"
    by (simp add: reopen_while_live_def ended_demo_row)
  then have "observe_deadline (Some 50) 1 ended_demo ended_demo = Inr (ended_demo, 0)"
    using p by (simp add: observe_deadline_def ended_demo_row Let_def)
  from stale_observer_closes_nothing [OF k ended_demo_row p this] this show ?thesis
    by (auto elim: list_all2_mono)
qed

text \<open>
  The windows of one session fit together at every moment: a response is accepted exactly
  on an accepting instrument of an ongoing session; a recall is allowed exactly while the
  session is ongoing; and the window in which released responses may be read is never open
  while the session is ongoing, so nobody can still answer what others can already read.
\<close>

theorem session_windows_agree:
  "session_accepts_responses now s i = (i_accepting i \<and> is_ongoing now s)
   \<and> recall_allowed now s = is_ongoing now s
   \<and> \<not> (is_response_release_window_open now s \<and> (is_ongoing now s \<or> session_accepts_responses now s i))
   \<and> (is_response_release_window_open now s \<longrightarrow>
        (\<exists>a. as_utc (s_responses_release_at s) = Some a \<and> a \<le> now
           \<and> (\<forall>b. as_utc (s_responses_release_until s) = Some b \<longrightarrow> now < b)))"
proof -
  have "session_accepts_responses now s i = (i_accepting i \<and> is_ongoing now s)"
    by (auto simp: session_accepts_responses_def is_ongoing_def deadline_has_passed_def split: option.split)
  moreover have "recall_allowed now s = is_ongoing now s"
    by (auto simp: recall_allowed_def is_ongoing_def deadline_has_passed_def split: option.split)
  moreover have "\<not> (is_response_release_window_open now s \<and> is_ongoing now s)"
    by (simp add: is_response_release_window_open_def is_ongoing_def is_ready_def is_expired_def)
  moreover have "\<exists>a. as_utc (s_responses_release_at s) = Some a \<and> a \<le> now
      \<and> (\<forall>b. as_utc (s_responses_release_until s) = Some b \<longrightarrow> now < b)"
    if "is_response_release_window_open now s"
    using that by (auto simp: is_response_release_window_open_def not_less split: if_splits option.splits)
  ultimately show ?thesis by blast
qed

theorem session_windows_agree_witness:
  "\<not> is_ongoing 200 (demo_session\<lparr>s_status := Expired, s_responses_release_at := Some (Aware 150)\<rparr>)"
  using session_windows_agree [of 200 "demo_session\<lparr>s_status := Expired, s_responses_release_at := Some (Aware 150)\<rparr>"]
  by (auto simp: is_response_release_window_open_def is_expired_def demo_session_def)

text \<open>
  The interleaving the observer does not re-check. Its request loaded the row while the session
  was \<open>ready\<close>; before it read the instruments an operator reverted the session, so it found none
  open; before it got the lock the operator validated and activated the session again, the End
  still in the past.
\<close>

definition after :: "action \<Rightarrow> db \<Rightarrow> db" where
  "after a d = attempt lifecycle_call ((a, None), 1) d"

definition race_loaded :: db where
  "race_loaded = after (Activate clean_report False ''manual'')
     (lifecycle_demo\<lparr>instruments := [demo_instrument 10 1 False], wall := 150\<rparr>)"

definition race_reverted :: db where "race_reverted = after (RevertToDraft True) race_loaded"

definition race_reopened :: db where
  "race_reopened = after (Activate clean_report False ''manual'') (after (MarkValidated clean_report) race_reverted)"

definition race_seen :: db where "race_seen = race_loaded\<lparr>instruments := instruments race_reverted\<rparr>"

text \<open>
  Under that interleaving the session expires with its instrument still accepting, without
  the close stamp and with no \<open>instrument.closed\<close> in the log: the branch for a session with
  nothing left to close checks the row again under the lock but not the instruments.
\<close>

theorem observe_deadline_race:
  "case observe_deadline None 1 race_seen race_reopened of
     Inl e \<Rightarrow> False
   | Inr (d', n) \<Rightarrow> n = 0 \<and> map_option s_status (sessions d' 1) = Some Expired
       \<and> map i_accepting (session_instruments d' 1) = [True]
       \<and> ''instrument.closed'' \<notin> set (map ev_type (audit_log d'))"
  by code_simp

end
