(* ===== verification/Answer_Values.thy ===== *)
theory Answer_Values
  imports Branching
begin

text \<open>
  The values a form posts and a response row stores (\<open>app/services/responses/_core.py\<close>:
  \<open>canonical_number\<close>, \<open>validate_value\<close>, \<open>stored_as_posted\<close>) with \<open>decimal_text\<close> of
  \<open>app/services/text.py\<close>. A bound column (\<open>min\<close>, \<open>max\<close>, \<open>step\<close>) is a finite double, so a
  rational; the arithmetic on it rounds as a double does. An error message is the datatype of
  its cases, without the wording.
\<close>

section \<open>Decimals\<close>

text \<open>
  \<open>Decimal(text)\<close> of a literal is exact or raises \<open>InvalidOperation\<close>: the exponent of a zero
  has an upper bound and every exponent a lower one (\<open>MAX_EMAX\<close> and \<open>MIN_ETINY\<close> of the 64-bit
  build). A nonzero literal past the upper bound is no finite double, which the callers have
  refused.
\<close>

definition decimal_of :: "literal \<Rightarrow> literal result" where
  "decimal_of l =
     (if lit_exp l < -1999999999999999997 \<or> (lit_coeff l = 0 \<and> 999999999999999999 < lit_exp l)
      then Inl InvalidOperation else Inr l)"

text \<open>
  \<open>normalize()\<close> under the default context: 28 significant digits, half to even, no exponent
  below \<open>Etiny\<close> = -1000026, then no trailing zeros.
\<close>

definition half_even_div :: "nat \<Rightarrow> nat \<Rightarrow> nat" where
  "half_even_div c p = (let q = c div p; r = c mod p in
     if 2 * r < p then q else if p < 2 * r then q + 1 else if even q then q else q + 1)"

definition ten_digits :: "nat \<Rightarrow> nat" where
  "ten_digits c = length (show_nat c)"

definition round_context :: "nat \<times> int \<Rightarrow> nat \<times> int" where
  "round_context ce = (case ce of (c, e) \<Rightarrow>
     let least = max (e + int (ten_digits c) - 28) (-1000026) in
     if least \<le> e then (c, e) else (half_even_div c (10 ^ nat (least - e)), least))"

function strip_zeros :: "nat \<times> int \<Rightarrow> nat \<times> int" where
  "strip_zeros (c, e) = (if c = 0 then (0, 0)
     else if c mod 10 = 0 then strip_zeros (c div 10, e + 1) else (c, e))"
  by pat_completeness auto
termination by (relation "measure fst") auto

declare strip_zeros.simps [simp del]

text \<open>\<open>format(number, "f")\<close>: no exponent, at least one digit before the point.\<close>

definition plain_digits :: "nat \<times> int \<Rightarrow> string" where
  "plain_digits ce = (case ce of (c, e) \<Rightarrow>
     if 0 \<le> e then show_nat c @ (if c = 0 then [] else replicate (nat e) CHR ''0'')
     else (let k = nat (- e); ds = show_nat c;
               padded = replicate (k + 1 - length ds) CHR ''0'' @ ds;
               n = length padded - k
           in take n padded @ CHR ''.'' # drop n padded))"

definition sign_text :: "bool \<Rightarrow> string" where
  "sign_text neg = (if neg then ''-'' else [])"

definition decimal_text :: "literal \<Rightarrow> string" where
  "decimal_text l = (if lit_coeff l = 0 then ''0''
     else sign_text (lit_neg l) @ plain_digits (strip_zeros (round_context (lit_coeff l, lit_exp l))))"

section \<open>The canonical form of a number\<close>

definition show_int :: "int \<Rightarrow> string" where
  "show_int n = sign_text (n < 0) @ show_nat (nat \<bar>n\<bar>)"

text \<open>\<open>_INTEGER.fullmatch\<close>: the sign and the digits.\<close>

definition parse_integer :: "string \<Rightarrow> (bool \<times> string) option" where
  "parse_integer s = (case take_sign s of (neg, ds) \<Rightarrow>
     if ds \<noteq> [] \<and> list_all is_digit ds then Some (neg, ds) else None)"

definition canonical_number :: "string \<Rightarrow> string \<Rightarrow> string option result" where
  "canonical_number data_type v =
     (let text = py_strip v in
      if data_type = ''Integer'' then
        (case parse_integer text of
           None \<Rightarrow> Inr None
         | Some (neg, ds) \<Rightarrow>
            (case py_int_digits ds of
               Inl _ \<Rightarrow> Inr None
             | Inr m \<Rightarrow> let number = (if neg then - m else m) in
                 if float_of (of_int number) = None then Inr None
                 else Inr (Some (show_int number))))
      else (case parse_literal text of
              None \<Rightarrow> Inr None
            | Some l \<Rightarrow> if float_of (lit_value l) = None then Inr None
                else bindE (decimal_of l) (\<lambda>l. Inr (Some (decimal_text l)))))"

section \<open>Validation\<close>

datatype value_fault =
    MustBeWholeNumber
  | MustBeNumber
  | MustBeAtLeast rat
  | MustBeAtMost rat
  | MustBeInIncrements rat
  | TooManyCharacters int
  | NotAListedOption
  | KeptUntilFixed string

text \<open>A double's arithmetic: \<open>None\<close> once a result is infinite.\<close>

definition fsub :: "rat \<Rightarrow> rat \<Rightarrow> rat option" where "fsub x y = float_of (x - y)"
definition fdiv :: "rat option \<Rightarrow> rat \<Rightarrow> rat option" where
  "fdiv x y = (case x of None \<Rightarrow> None | Some v \<Rightarrow> float_of (v / y))"

definition STEP_TOLERANCE :: rat where "STEP_TOLERANCE = the (float_of (1 / 1000000))"

text \<open>\<open>int(x)\<close> of a double.\<close>

definition truncate :: "rat \<Rightarrow> int" where
  "truncate x = (if 0 \<le> x then \<lfloor>x\<rfloor> else \<lceil>x\<rceil>)"

text \<open>\<open>int(canonical)\<close> and \<open>float(canonical)\<close>.\<close>

definition number_value :: "string \<Rightarrow> string \<Rightarrow> rat" where
  "number_value data_type canonical =
     (case parse_literal canonical of None \<Rightarrow> 0
      | Some l \<Rightarrow> if data_type = ''Integer'' then lit_value l
          else (case float_of (lit_value l) of None \<Rightarrow> 0 | Some x \<Rightarrow> x))"

definition number_fault :: "response_field \<Rightarrow> rat \<Rightarrow> value_fault option" where
  "number_fault f v =
     (if (case f_min f of None \<Rightarrow> False | Some lo \<Rightarrow> v < lo)
        then Some (MustBeAtLeast (the (f_min f)))
      else if (case f_max f of None \<Rightarrow> False | Some hi \<Rightarrow> hi < v)
        then Some (MustBeAtMost (the (f_max f)))
      else (case f_step f of None \<Rightarrow> None
        | Some step \<Rightarrow> if \<not> 0 < step then None
            else (let anchor = (case f_min f of None \<Rightarrow> 0 | Some lo \<Rightarrow> lo);
                      offset = fdiv (fsub (the (float_of v)) anchor) step
                  in case offset of
                       None \<Rightarrow> Some (MustBeInIncrements step)
                     | Some x \<Rightarrow> if STEP_TOLERANCE < \<bar>x - of_int (round_half_even x)\<bar>
                         then Some (MustBeInIncrements step) else None)))"

definition data_type :: "response_field \<Rightarrow> string" where
  "data_type f = or_empty (f_data_type f)"

definition numeric :: "response_field \<Rightarrow> bool" where
  "numeric f = (data_type f = ''Integer'' \<or> data_type f = ''Decimal'')"

definition validate_value :: "response_field \<Rightarrow> string \<Rightarrow> value_fault option result" where
  "validate_value f v =
     (if v = [] then Inr None
      else if numeric f then
        bindE (canonical_number (data_type f) v) (\<lambda>c. case c of
            None \<Rightarrow> Inr (Some (if data_type f = ''Integer'' then MustBeWholeNumber else MustBeNumber))
          | Some canonical \<Rightarrow> Inr (number_fault f (number_value (data_type f) canonical)))
      else if data_type f = ''String'' then
        Inr (case f_max f of None \<Rightarrow> None
          | Some m \<Rightarrow> if truncate m < int (length v) then Some (TooManyCharacters (truncate m)) else None)
      else if data_type f = ''List'' then
        (let options = csv_items (or_empty (f_list_csv f)) in
         Inr (if options \<noteq> [] \<and> v \<notin> set options then Some NotAListedOption else None))
      else Inr None)"

section \<open>A stored value as a post of it arrives\<close>

fun crlf_to_lf :: "string \<Rightarrow> string" where
  "crlf_to_lf [] = []"
| "crlf_to_lf [c] = [c]"
| "crlf_to_lf (c # c' # s) = (if c = char_of (13::nat) \<and> c' = char_of (10::nat)
     then char_of (10::nat) # crlf_to_lf s else c # crlf_to_lf (c' # s))"

definition cr_to_lf :: "string \<Rightarrow> string" where
  "cr_to_lf s = map (\<lambda>c. if c = char_of (13::nat) then char_of (10::nat) else c) s"

definition stored_as_posted :: "string option \<Rightarrow> response_field \<Rightarrow> string result" where
  "stored_as_posted v f =
     (let text = py_strip (cr_to_lf (crlf_to_lf (or_empty v))) in
      if text \<noteq> [] \<and> numeric f
      then bindE (canonical_number (data_type f) text)
             (\<lambda>c. Inr (case c of None \<Rightarrow> text | Some t \<Rightarrow> if t = [] then text else t))
      else Inr text)"

end
