(* ===== verification/Form_Keys.thy ===== *)
theory Form_Keys
  imports Answer_Values Grouping
begin

text \<open>
  How the review form names its answers (\<open>app/services/responses/_form_keys.py\<close> and
  \<open>parse_form_payload\<close> of \<open>_core.py\<close>). A row is named by its ordinal among the page's
  assignments, and a post carries a keyed digest of the page. The keyed hash (HMAC-SHA256,
  its first 32 hex digits) is a parameter, \<open>mac\<close>.
\<close>

section \<open>The page and its ordinals\<close>

definition page_assignments :: "assignment list \<Rightarrow> int set \<Rightarrow> assignment list" where
  "page_assignments assigned instrument_ids =
     sort_key a_id (filter (\<lambda>a. a_instrument a \<in> instrument_ids) assigned)"

definition page_assignment_ids :: "assignment list \<Rightarrow> int set \<Rightarrow> int list" where
  "page_assignment_ids assigned instrument_ids = map a_id (page_assignments assigned instrument_ids)"

definition answer_ordinals :: "int list \<Rightarrow> (int \<times> nat) list" where
  "answer_ordinals ids = dict_of fst snd (zip ids [1..<Suc (length ids)])"

section \<open>The name of an answer box\<close>

text \<open>
  \<open>ANSWER_KEY_PATTERN.match\<close>: \<open>response[\<close>, one to six ASCII digits, \<open>][\<close>, one or more
  characters other than \<open>]\<close>, a closing \<open>]\<close> and the end, or a final line feed (Python's \<open>$\<close>).
\<close>

definition strip_prefix :: "string \<Rightarrow> string \<Rightarrow> string option" where
  "strip_prefix p s = (if take (length p) s = p then Some (drop (length p) s) else None)"

definition parse_answer_key :: "string \<Rightarrow> (nat \<times> string) option" where
  "parse_answer_key key =
     (case strip_prefix ''response['' key of
        None \<Rightarrow> None
      | Some rest \<Rightarrow>
          (let n = takeWhile is_digit rest in
           if n = [] \<or> 6 < length n then None
           else (case strip_prefix ''][''  (dropWhile is_digit rest) of
              None \<Rightarrow> None
            | Some tail \<Rightarrow>
               (let k = takeWhile (\<lambda>c. c \<noteq> CHR '']'') tail; end = dropWhile (\<lambda>c. c \<noteq> CHR '']'') tail
                in if k \<noteq> [] \<and> (end = '']'' \<or> end = '']'' @ [char_of (10::nat)])
                   then Some (nat_of_digits n, k) else None))))"

text \<open>The name the page renders for a row and a field.\<close>

definition answer_key :: "nat \<Rightarrow> string \<Rightarrow> string" where
  "answer_key n k = ''response['' @ show_nat n @ ''][''  @ k @ '']''"

definition parse_form_payload ::
  "(string \<times> string option) list \<Rightarrow> int list \<Rightarrow> bool \<Rightarrow> upsert list" where
  "parse_form_payload form ids strip = concat (map (\<lambda>(key, v).
     case parse_answer_key key of
       None \<Rightarrow> []
     | Some (n, k) \<Rightarrow>
         if \<not> (1 \<le> n \<and> n \<le> length ids) then []
         else (let text = crlf_to_lf (or_empty v) in
           [\<lparr>u_assignment = ids ! (n - 1), u_field_key = k,
             u_value = (if strip then py_strip text else text)\<rparr>])) form)"

section \<open>The page digest\<close>

fun join_text :: "string \<Rightarrow> string list \<Rightarrow> string" where
  "join_text d [] = []"
| "join_text d [p] = p"
| "join_text d (p # ps) = p @ d @ join_text d ps"

definition page_groups :: "assignment list \<Rightarrow> (int \<Rightarrow> string list option) \<Rightarrow> int list list" where
  "page_groups rows keys = sort (map snd
     (group_into (\<lambda>a. (a_instrument a, the (keys (a_id a)))) a_id
        (filter (\<lambda>a. keys (a_id a) \<noteq> None) rows)))"

definition digest_message :: "assignment list \<Rightarrow> (int \<Rightarrow> string list option) \<Rightarrow> string" where
  "digest_message rows keys =
     ''rrw-page-digest|'' @ join_text '','' (map (\<lambda>a. show_int (a_id a)) rows)
     @ (let groups = page_groups rows keys in
        if groups = [] then []
        else ''|groups|'' @ join_text '';'' (map (\<lambda>g. join_text '','' (map show_int g)) groups))"

definition page_digest ::
  "(string \<Rightarrow> string \<Rightarrow> string) \<Rightarrow> string \<Rightarrow> assignment list \<Rightarrow> (int \<Rightarrow> string list option) \<Rightarrow> string" where
  "page_digest mac form_key rows keys = take 32 (mac form_key (digest_message rows keys))"

definition digest_shape :: "string \<Rightarrow> bool" where
  "digest_shape s = (length s = 32 \<and> list_all (\<lambda>c. is_digit c \<or> c \<in> set ''abcdef'') s)"

definition digest_matches ::
  "(string \<Rightarrow> string \<Rightarrow> string) \<Rightarrow> string option \<Rightarrow> string \<Rightarrow> assignment list
     \<Rightarrow> (int \<Rightarrow> string list option) \<Rightarrow> bool" where
  "digest_matches mac posted form_key rows keys =
     (if or_empty posted = [] \<or> \<not> digest_shape (or_empty posted) then False
      else or_empty posted = page_digest mac form_key rows keys)"

section \<open>Names and rows\<close>

lemma in_set_nonempty: "x \<in> set xs \<Longrightarrow> xs \<noteq> []"
  by auto

lemma strip_prefix_append [simp]: "strip_prefix p (p @ s) = Some s"
  by (simp add: strip_prefix_def)

lemma strip_prefix_Some: "strip_prefix p s = Some t \<longleftrightarrow> s = p @ t"
  by (auto simp: strip_prefix_def) (metis append_take_drop_id)

lemma takeWhile_stop: "list_all P xs \<Longrightarrow> \<not> P y \<Longrightarrow> takeWhile P (xs @ y # ys) = xs"
  by (induction xs) auto

lemma dropWhile_stop: "list_all P xs \<Longrightarrow> \<not> P y \<Longrightarrow> dropWhile P (xs @ y # ys) = y # ys"
  by (induction xs) auto

lemma not_digit_bracket [simp]: "\<not> is_digit CHR '']''"
  by (simp add: is_digit_def)

lemma parse_answer_key_render:
  assumes "n < 10 ^ 6" "k \<noteq> []" "CHR '']'' \<notin> set k"
  shows "parse_answer_key (answer_key n k) = Some (n, k)"
proof -
  have len: "length (show_nat n) \<le> 6" by (rule length_show_nat) (use assms(1) in simp_all)
  have digits: "takeWhile is_digit (show_nat n @ CHR '']'' # CHR ''['' # k @ '']'') = show_nat n"
    "dropWhile is_digit (show_nat n @ CHR '']'' # CHR ''['' # k @ '']'') = CHR '']'' # CHR ''['' # k @ '']''"
    by (simp_all add: takeWhile_stop dropWhile_stop show_nat_digits)
  have all: "list_all (\<lambda>c. c \<noteq> CHR '']'') k" using assms(3) by (auto simp: list_all_iff)
  have name: "takeWhile (\<lambda>c. c \<noteq> CHR '']'') (k @ '']'') = k" "dropWhile (\<lambda>c. c \<noteq> CHR '']'') (k @ '']'') = '']''"
    using takeWhile_stop [OF all, of "CHR '']''" "[]"] dropWhile_stop [OF all, of "CHR '']''" "[]"] by simp_all
  have 1: "strip_prefix ''response['' (answer_key n k) = Some (show_nat n @ CHR '']'' # CHR ''['' # k @ '']'')"
    by (simp add: strip_prefix_Some answer_key_def)
  have 2: "strip_prefix '']['' (CHR '']'' # CHR ''['' # k @ '']'') = Some (k @ '']'')"
    by (simp add: strip_prefix_Some)
  show ?thesis
    unfolding parse_answer_key_def 1 option.case digits 2 Let_def name using len assms(2) by simp
qed

lemma answer_ordinals_nth:
  assumes "distinct ids" "i < length ids"
  shows "dict_get (answer_ordinals ids) (ids ! i) = Some (Suc i)"
proof -
  let ?z = "zip ids [1..<Suc (length ids)]"
  let ?ys = "filter (\<lambda>x. fst x = ids ! i) ?z"
  have m: "p \<in> set ?ys \<longleftrightarrow> p = (ids ! i, Suc i)" for p
    using assms by (auto simp: set_zip nth_eq_iff_index_eq simp del: upt_Suc)
  have "(ids ! i, Suc i) \<in> set ?ys" by (simp only: m)
  then have ne: "?ys \<noteq> []" by (metis empty_iff empty_set)
  then have "last ?ys = (ids ! i, Suc i)" using m last_in_set by blast
  with ne show ?thesis by (simp add: answer_ordinals_def dict_of_get del: upt_Suc)
qed

text \<open>
  C11. What the page renders comes back as posted: if every box is named by its row's ordinal
  among the page's assignments and its field's key, parsing the form gives each answer back on
  its own assignment and field, with line breaks as LF and stripped. And whatever is posted, an
  answer can only land on an assignment of the reviewer's own page.
\<close>

theorem parse_form_payload_roundtrip:
  assumes "distinct ids" "length ids < 10 ^ 6"
    and "\<forall>(a, k, v) \<in> set cells. a \<in> set ids \<and> k \<noteq> [] \<and> CHR '']'' \<notin> set k"
  shows "parse_form_payload
      (map (\<lambda>(a, k, v). (answer_key (the (dict_get (answer_ordinals ids) a)) k, Some v)) cells) ids True
    = map (\<lambda>(a, k, v). \<lparr>u_assignment = a, u_field_key = k, u_value = py_strip (crlf_to_lf v)\<rparr>) cells
    \<and> (\<forall>form strip. u_assignment ` set (parse_form_payload form ids strip) \<subseteq> set ids)"
proof -
  have "parse_form_payload
      (map (\<lambda>(a, k, v). (answer_key (the (dict_get (answer_ordinals ids) a)) k, Some v)) cells) ids True
    = map (\<lambda>(a, k, v). \<lparr>u_assignment = a, u_field_key = k, u_value = py_strip (crlf_to_lf v)\<rparr>) cells"
    using assms(3)
  proof (induction cells)
    case Nil
    show ?case by (simp add: parse_form_payload_def)
  next
    case (Cons c cells)
    obtain a k v where c: "c = (a, k, v)" by (cases c)
    with Cons.prems have a: "a \<in> set ids" "k \<noteq> []" "CHR '']'' \<notin> set k" by auto
    then obtain i where i: "i < length ids" "a = ids ! i" by (auto simp: in_set_conv_nth)
    have "parse_answer_key (answer_key (Suc i) k) = Some (Suc i, k)"
      by (rule parse_answer_key_render) (use a i assms(2) in simp_all)
    then show ?case using Cons c i answer_ordinals_nth [OF assms(1) i(1)]
      by (simp add: parse_form_payload_def)
  qed
  moreover have "u_assignment u \<in> set ids" if "u \<in> set (parse_form_payload form ids strip)" for form strip u
    using that by (auto simp: parse_form_payload_def Let_def split: option.splits if_splits)
  ultimately show ?thesis by blast
qed

theorem parse_form_payload_roundtrip_witness:
  "parse_form_payload (map (\<lambda>(a, k, v). (answer_key (the (dict_get (answer_ordinals [4, 9]) a)) k, Some v))
       [(9, ''score'', '' 5 ''), (4, ''why'', ''x'')]) [4, 9] True
     = [\<lparr>u_assignment = 9, u_field_key = ''score'', u_value = ''5''\<rparr>,
        \<lparr>u_assignment = 4, u_field_key = ''why'', u_value = ''x''\<rparr>]"
proof -
  have "py_strip (crlf_to_lf '' 5 '') = ''5''" "py_strip (crlf_to_lf ''x'') = ''x''" by code_simp+
  then show ?thesis
    using parse_form_payload_roundtrip [of "[4, 9]" "[(9, ''score'', '' 5 ''), (4, ''why'', ''x'')]"] by simp
qed

section \<open>What the digest pins down\<close>

lemma split_join_text:
  assumes "ps \<noteq> []" "\<forall>p \<in> set ps. c \<notin> set p"
  shows "split_char c (join_text [c] ps) = ps"
proof -
  have step: "split_char c (p @ c # s) = p # split_char c s" if "c \<notin> set p" for p s
    using that by (induction p) auto
  have last: "split_char c p = [p]" if "c \<notin> set p" for p
    using that by (induction p) auto
  show ?thesis using assms
  proof (induction ps)
    case (Cons p ps)
    then show ?case by (cases ps) (simp_all add: step last)
  qed simp
qed

lemma show_int_chars: "c \<in> set (show_int n) \<Longrightarrow> is_digit c \<or> c = CHR ''-''"
  using show_nat_digits by (auto simp: show_int_def sign_text_def list_all_iff split: if_splits)

lemma show_int_nonempty [simp]: "show_int n \<noteq> []"
  by (simp add: show_int_def)

lemma sep_not_digit [simp]: "\<not> is_digit CHR '',''" "\<not> is_digit CHR '';''" "\<not> is_digit CHR ''|''" "\<not> is_digit CHR ''-''"
  by (simp_all add: is_digit_def)

lemma show_nat_inj: "show_nat m = show_nat n \<Longrightarrow> m = n"
  using nat_of_digits_show_nat by metis

lemma show_int_inj: "show_int m = show_int n \<Longrightarrow> m = n"
proof -
  assume e: "show_int m = show_int n"
  have minus: "hd (show_nat k) \<noteq> CHR ''-''" for k
    using show_nat_digits [of k] show_nat_nonempty [of k] by (cases "show_nat k") (auto simp: list_all_iff)
  have "m < 0 \<longleftrightarrow> n < 0"
    using arg_cong [OF e, of hd] minus [of "nat \<bar>m\<bar>"] minus [of "nat \<bar>n\<bar>"]
    by (auto simp: show_int_def sign_text_def split: if_splits)
  then have "nat \<bar>m\<bar> = nat \<bar>n\<bar>" using e show_nat_inj by (auto simp: show_int_def sign_text_def split: if_splits)
  with \<open>m < 0 \<longleftrightarrow> n < 0\<close> show ?thesis by auto
qed

lemma set_join_text: "set (join_text d ps) \<subseteq> set d \<union> \<Union> (set ` set ps)"
  by (induction d ps rule: join_text.induct) auto

definition id_list_text :: "int list \<Rightarrow> string" where
  "id_list_text ids = join_text '','' (map show_int ids)"

lemma id_list_text_chars: "c \<in> set (id_list_text ids) \<Longrightarrow> is_digit c \<or> c = CHR ''-'' \<or> c = CHR '',''"
  using set_join_text [of "'',''" "map show_int ids"] show_int_chars by (fastforce simp: id_list_text_def)

lemma join_text_nonempty: "ps \<noteq> [] \<Longrightarrow> [] \<notin> set ps \<Longrightarrow> join_text d ps \<noteq> []"
  by (cases ps; cases "tl ps") auto

lemma join_text_inj:
  assumes "join_text [c] ps = join_text [c] qs"
    and "[] \<notin> set ps" "[] \<notin> set qs" "\<forall>p \<in> set ps. c \<notin> set p" "\<forall>p \<in> set qs. c \<notin> set p"
  shows "ps = qs"
proof (cases "ps = [] \<or> qs = []")
  case True
  then have "join_text [c] ps = []" using assms(1) by auto
  then have "ps = []" "qs = []" using join_text_nonempty assms(1-3) by metis+
  then show ?thesis by simp
next
  case False
  then show ?thesis using split_join_text [OF _ assms(4)] split_join_text [OF _ assms(5)] assms(1) by metis
qed

lemma id_list_text_inj: "id_list_text xs = id_list_text ys \<Longrightarrow> xs = ys"
proof -
  assume e: "id_list_text xs = id_list_text ys"
  have "CHR '','' \<notin> set (show_int n)" for n using show_int_chars [of "CHR '',''" n] by auto
  then have "map show_int xs = map show_int ys" using e unfolding id_list_text_def by (intro join_text_inj [of "CHR '',''"]) (auto dest!: sym [of "[]"])
  moreover have "inj show_int" by (rule injI) (rule show_int_inj)
  ultimately show ?thesis by simp
qed

lemma id_list_text_empty: "id_list_text xs = [] \<Longrightarrow> xs = []"
  using id_list_text_inj [of xs "[]"] by (simp add: id_list_text_def)

text \<open>The message spells out the rows' ids and the groups among them.\<close>

lemma digest_message_alt:
  "digest_message rows keys = ''rrw-page-digest|'' @ id_list_text (map a_id rows)
     @ (if page_groups rows keys = [] then [] else ''|groups|'' @ join_text '';'' (map id_list_text (page_groups rows keys)))"
  by (simp add: digest_message_def id_list_text_def Let_def comp_def id_list_text_def [abs_def])

lemma page_groups_members:
  assumes "g \<in> set (page_groups rows keys)"
  shows "g \<noteq> []"
proof -
  obtain k where "(k, g) \<in> set (group_into (\<lambda>a. (a_instrument a, the (keys (a_id a)))) a_id
      (filter (\<lambda>a. keys (a_id a) \<noteq> None) rows))"
    using assms by (auto simp: page_groups_def)
  then have "dict_get (group_into (\<lambda>a. (a_instrument a, the (keys (a_id a)))) a_id
      (filter (\<lambda>a. keys (a_id a) \<noteq> None) rows)) k = Some g"
    by (simp only: dict_items [OF group_into_keys(2)])
  then show ?thesis by (auto simp: group_into_get Let_def split: if_splits)
qed

lemma digest_message_inj:
  assumes "digest_message rows keys = digest_message rows' keys'"
  shows "map a_id rows = map a_id rows'" "page_groups rows keys = page_groups rows' keys'"
proof -
  let ?t = "\<lambda>r k. if page_groups r k = [] then [] else ''|groups|'' @ join_text '';'' (map id_list_text (page_groups r k))"
  have e: "id_list_text (map a_id rows) @ ?t rows keys = id_list_text (map a_id rows') @ ?t rows' keys'"
    using assms by (simp add: digest_message_alt)
  have bar: "CHR ''|'' \<notin> set (id_list_text ids)" for ids using id_list_text_chars [of "CHR ''|''" ids] by auto
  have cut: "takeWhile (\<lambda>c. c \<noteq> CHR ''|'') (id_list_text ids @ ?t r k) = id_list_text ids" for ids r k
    using bar [of ids] by (auto simp: takeWhile_append takeWhile_eq_all_conv)
  have ids: "id_list_text (map a_id rows) = id_list_text (map a_id rows')"
    using arg_cong [OF e, of "takeWhile (\<lambda>c. c \<noteq> CHR ''|'')"] by (simp only: cut)
  then show "map a_id rows = map a_id rows'" by (rule id_list_text_inj)
  from e ids have t: "?t rows keys = ?t rows' keys'" by simp
  show "page_groups rows keys = page_groups rows' keys'"
  proof (cases "page_groups rows keys = [] \<or> page_groups rows' keys' = []")
    case True
    then show ?thesis using t by (auto split: if_splits)
  next
    case False
    then have "join_text '';'' (map id_list_text (page_groups rows keys))
        = join_text '';'' (map id_list_text (page_groups rows' keys'))" using t by simp
    moreover have "CHR '';'' \<notin> set (id_list_text g)" for g using id_list_text_chars [of "CHR '';''" g] by auto
    moreover have "\<forall>g \<in> set (page_groups rows keys) \<union> set (page_groups rows' keys'). id_list_text g \<noteq> []"
      using page_groups_members id_list_text_empty by blast
    ultimately have "map id_list_text (page_groups rows keys) = map id_list_text (page_groups rows' keys')"
      by (intro join_text_inj [of "CHR '';''"]) (auto dest!: sym [of "[]"])
    moreover have "inj id_list_text" by (rule injI) (rule id_list_text_inj)
    ultimately show ?thesis by simp
  qed
qed

text \<open>Two rows of the page share a group exactly when one of the groups holds both.\<close>

definition share_group :: "(int \<Rightarrow> string list option) \<Rightarrow> assignment \<Rightarrow> assignment \<Rightarrow> bool" where
  "share_group keys a b = (keys (a_id a) \<noteq> None \<and> keys (a_id b) \<noteq> None
     \<and> a_instrument a = a_instrument b \<and> keys (a_id a) = keys (a_id b))"

lemma share_group_iff:
  assumes "distinct (map a_id rows)" "a \<in> set rows" "b \<in> set rows"
  shows "share_group keys a b \<longleftrightarrow> (\<exists>g \<in> set (page_groups rows keys). a_id a \<in> set g \<and> a_id b \<in> set g)"
proof -
  let ?key = "\<lambda>a. (a_instrument a, the (keys (a_id a)))"
  let ?rows = "filter (\<lambda>a. keys (a_id a) \<noteq> None) rows"
  have same: "x = y" if "x \<in> set rows" "y \<in> set rows" "a_id x = a_id y" for x y
    using assms(1) that by (auto simp: distinct_map inj_on_def)
  have mem: "g \<in> set (page_groups rows keys) \<longleftrightarrow>
      (\<exists>k. g \<noteq> [] \<and> g = map a_id (filter (\<lambda>x. ?key x = k) ?rows))" for g
  proof -
    have "g \<in> set (page_groups rows keys) \<longleftrightarrow> (\<exists>k. (k, g) \<in> set (group_into ?key a_id ?rows))"
      by (force simp: page_groups_def)
    also have "\<dots> \<longleftrightarrow> (\<exists>k. dict_get (group_into ?key a_id ?rows) k = Some g)"
      by (simp only: dict_items [OF group_into_keys(2)])
    also have "\<dots> \<longleftrightarrow> (\<exists>k. g \<noteq> [] \<and> g = map a_id (filter (\<lambda>x. ?key x = k) ?rows))"
    proof -
      have "dict_get (group_into ?key a_id ?rows) k = Some g
          \<longleftrightarrow> g \<noteq> [] \<and> g = map a_id (filter (\<lambda>x. ?key x = k) ?rows)" for k
        unfolding group_into_get Let_def by (cases "filter (\<lambda>x. ?key x = k) ?rows = []") auto
      then show ?thesis by simp
    qed
    finally show ?thesis .
  qed
  show ?thesis
  proof
    assume s: "share_group keys a b"
    let ?g = "map a_id (filter (\<lambda>x. ?key x = ?key a) ?rows)"
    have "a_id a \<in> set ?g" "a_id b \<in> set ?g" using s assms(2,3) by (auto simp: share_group_def)
    moreover from this(1) have "?g \<noteq> []" by (rule in_set_nonempty)
    then have "?g \<in> set (page_groups rows keys)" unfolding mem by blast
    ultimately show "\<exists>g \<in> set (page_groups rows keys). a_id a \<in> set g \<and> a_id b \<in> set g" by blast
  next
    assume "\<exists>g \<in> set (page_groups rows keys). a_id a \<in> set g \<and> a_id b \<in> set g"
    then obtain g where g: "g \<in> set (page_groups rows keys)" "a_id a \<in> set g" "a_id b \<in> set g" by blast
    then obtain k where k: "g = map a_id (filter (\<lambda>x. ?key x = k) ?rows)" unfolding mem by blast
    from g(2) have "a_id a \<in> a_id ` set (filter (\<lambda>x. ?key x = k) ?rows)" by (simp only: k set_map)
    then obtain x where x: "a_id a = a_id x" "x \<in> set (filter (\<lambda>x. ?key x = k) ?rows)" by (rule imageE)
    from g(3) have "a_id b \<in> a_id ` set (filter (\<lambda>x. ?key x = k) ?rows)" by (simp only: k set_map)
    then obtain y where y: "a_id b = a_id y" "y \<in> set (filter (\<lambda>x. ?key x = k) ?rows)" by (rule imageE)
    have xy: "x \<in> set rows" "y \<in> set rows" "keys (a_id x) \<noteq> None" "keys (a_id y) \<noteq> None" "?key x = ?key y"
      "a_id a = a_id x" "a_id b = a_id y"
      using x y by (simp_all only: set_filter mem_Collect_eq not_False_eq_True)
    then have "a = x" "b = y" using same assms(2,3) by blast+
    then show "share_group keys a b" using xy by (auto simp: share_group_def)
  qed
qed

text \<open>
  C12. A post is taken only by the page it was rendered from. Unless the keyed hash collides on
  the two pages' messages, a posted digest matches exactly when the page still has the same rows
  in the same order and the same groups; then any two of its rows share a group now exactly when
  the rows with those ids shared one when it was rendered, so an ordinal still names its row and
  a group's answer still goes to its group. Anything that is not 32 hex digits is refused.
\<close>

theorem digest_matches_page:
  assumes "digest_shape (page_digest mac key rows0 keys0)"
    and "page_digest mac key rows keys = page_digest mac key rows0 keys0
      \<Longrightarrow> digest_message rows keys = digest_message rows0 keys0"
    and "distinct (map a_id rows0)"
  defines "matched \<equiv> digest_matches mac (Some (page_digest mac key rows0 keys0)) key rows keys"
  shows "(matched \<longleftrightarrow> map a_id rows = map a_id rows0 \<and> page_groups rows keys = page_groups rows0 keys0)
    \<and> (matched \<longrightarrow> (\<forall>i < length rows0. \<forall>j < length rows0.
          share_group keys (rows ! i) (rows ! j) = share_group keys0 (rows0 ! i) (rows0 ! j)))
    \<and> (\<forall>posted. digest_matches mac posted key rows keys \<longrightarrow> digest_shape (or_empty posted))"
proof (intro conjI impI allI)
  have fwd: "digest_message rows keys = digest_message rows0 keys0"
    if "map a_id rows = map a_id rows0" "page_groups rows keys = page_groups rows0 keys0"
    by (simp add: digest_message_alt that)
  have "page_digest mac key rows0 keys0 \<noteq> []" using assms(1) by (auto simp: digest_shape_def)
  then have "matched \<longleftrightarrow> page_digest mac key rows keys = page_digest mac key rows0 keys0"
    using assms(1) by (auto simp: matched_def digest_matches_def)
  also have "\<dots> \<longleftrightarrow> digest_message rows keys = digest_message rows0 keys0"
    using assms(2) by (auto simp: page_digest_def)
  also have "\<dots> \<longleftrightarrow> map a_id rows = map a_id rows0 \<and> page_groups rows keys = page_groups rows0 keys0"
    using fwd digest_message_inj by blast
  finally show iff: "matched \<longleftrightarrow> map a_id rows = map a_id rows0 \<and> page_groups rows keys = page_groups rows0 keys0" .
  fix i j
  assume matched and ij: "i < length rows0" "j < length rows0"
  then have e: "map a_id rows = map a_id rows0" "page_groups rows keys = page_groups rows0 keys0"
    using iff by simp_all
  then have len: "length rows = length rows0" by (metis length_map)
  have "share_group keys (rows ! i) (rows ! j) \<longleftrightarrow> (\<exists>g \<in> set (page_groups rows keys). a_id (rows ! i) \<in> set g \<and> a_id (rows ! j) \<in> set g)"
    using assms(3) e(1) ij len by (intro share_group_iff) simp_all
  moreover have "share_group keys0 (rows0 ! i) (rows0 ! j) \<longleftrightarrow> (\<exists>g \<in> set (page_groups rows0 keys0). a_id (rows0 ! i) \<in> set g \<and> a_id (rows0 ! j) \<in> set g)"
    using assms(3) ij by (intro share_group_iff) simp_all
  moreover have "a_id (rows ! i) = a_id (rows0 ! i)" "a_id (rows ! j) = a_id (rows0 ! j)"
    using e(1) ij len by (metis nth_map)+
  ultimately show "share_group keys (rows ! i) (rows ! j) = share_group keys0 (rows0 ! i) (rows0 ! j)"
    using e(2) by simp
next
  fix posted
  assume "digest_matches mac posted key rows keys"
  then show "digest_shape (or_empty posted)" by (auto simp: digest_matches_def split: if_splits)
qed

text \<open>A concrete keyed hash for the example: the parity of the message's length.\<close>

definition toy_mac :: "string \<Rightarrow> string \<Rightarrow> string" where
  "toy_mac key msg = replicate 32 (if even (length msg) then CHR ''a'' else CHR ''b'')"

theorem digest_matches_page_witness:
  "digest_matches toy_mac (Some (page_digest toy_mac ''k'' demo_assigned demo_keys)) ''k'' demo_assigned demo_keys"
proof -
  have "digest_shape (page_digest toy_mac ''k'' demo_assigned demo_keys)" "distinct (map a_id demo_assigned)"
    by (simp add: page_digest_def toy_mac_def digest_shape_def list_all_iff, code_simp)
  note p = this
  show ?thesis using digest_matches_page [of toy_mac "''k''" demo_assigned demo_keys demo_assigned demo_keys, OF p(1) refl p(2)]
    by simp
qed

end
