(* ===== verification/Responses.thy ===== *)
theory Responses
  imports Lifecycle Form_Keys
begin

text \<open>
  A reviewer's writes (\<open>app/services/responses/_core.py\<close>): save, submit, recall, clear and the
  operator's delete-all. A call is one transaction on the committed database: it decides under
  the session-row lock, and an exception before its commit leaves the database as it was, so a
  refused call returns only its error.
\<close>

section \<open>What one reviewer may write\<close>

text \<open>\<open>_excluded_group_members\<close>: the rows and their group keys.\<close>

definition excluded_group_members ::
  "db \<Rightarrow> int \<Rightarrow> int \<Rightarrow> assignment list \<Rightarrow> int set \<Rightarrow> (int \<Rightarrow> string list option)
     \<Rightarrow> assignment list \<times> (int \<Rightarrow> string list option)" where
  "excluded_group_members d reviewer_id sid assigned gids keys =
     (if gids = {} then ([], Map.empty)
      else (let candidates = sort_key a_id (filter (\<lambda>a. a_session a = sid \<and> a_reviewer a = reviewer_id
                  \<and> \<not> a_include a \<and> a_instrument a \<in> gids) (assignments d))
        in if candidates = [] then ([], Map.empty)
           else (let included_groups = (\<lambda>a. (a_instrument a, or_nil (keys (a_id a)))) `
                       set (filter (\<lambda>a. a_instrument a \<in> gids) assigned);
                     ckeys = group_key_by_assignment d candidates gids sid;
                     members = filter (\<lambda>a. (a_instrument a, or_nil (ckeys (a_id a))) \<in> included_groups) candidates
                 in (members, dict_get (dict_of a_id (\<lambda>a. or_nil (ckeys (a_id a))) members)))))"

definition with_excluded_group_members :: "db \<Rightarrow> int \<Rightarrow> int \<Rightarrow> assignment list" where
  "with_excluded_group_members d reviewer_id sid =
     (let assigned = reviewer_assignments d reviewer_id sid;
          gids = group_instrument_ids d (a_instrument ` set assigned);
          keys = group_key_by_assignment d assigned gids sid
      in assigned @ fst (excluded_group_members d reviewer_id sid assigned gids keys))"

text \<open>\<open>field_index\<close>: the visible fields of the reviewer's instruments by instrument and key.\<close>

definition field_index :: "db \<Rightarrow> int set \<Rightarrow> int \<times> string \<Rightarrow> response_field option" where
  "field_index d ids ik = dict_get (dict_of f_key id (instrument_fields_by_id d ids (fst ik))) (snd ik)"

definition index_of :: "assignment list \<Rightarrow> int \<Rightarrow> assignment option" where
  "index_of as = dict_get (dict_of a_id id as)"

text \<open>\<open>assignment_index\<close>, then \<open>field_index\<close>: the cell an answer addresses.\<close>

definition cell_of ::
  "(int \<Rightarrow> assignment option) \<Rightarrow> (int \<times> string \<Rightarrow> response_field option) \<Rightarrow> upsert
     \<Rightarrow> (assignment \<times> response_field) option" where
  "cell_of index flds u = (case index (u_assignment u) of None \<Rightarrow> None
     | Some a \<Rightarrow> map_option (Pair a) (flds (a_instrument a, u_field_key u)))"

section \<open>Splitting a post into valid answers and errors\<close>

record validation_error =
  ve_assignment :: int
  ve_field_key :: string
  ve_field_label :: string
  ve_reviewee_name :: string
  ve_value :: string
  ve_fault :: value_fault
  ve_position :: nat

definition reviewee_name :: "db \<Rightarrow> assignment \<Rightarrow> string" where
  "reviewee_name d a = (case reviewee_by_id d (a_reviewee a) of None \<Rightarrow> [] | Some r \<Rightarrow> re_name r)"

definition error_at ::
  "db \<Rightarrow> (int \<Rightarrow> nat option) \<Rightarrow> assignment \<Rightarrow> response_field \<Rightarrow> string \<Rightarrow> value_fault \<Rightarrow> validation_error" where
  "error_at d positions a f v fault =
     \<lparr>ve_assignment = a_id a, ve_field_key = f_key f, ve_field_label = f_label f,
      ve_reviewee_name = reviewee_name d a, ve_value = v, ve_fault = fault,
      ve_position = (case positions (a_instrument a) of None \<Rightarrow> 0 | Some p \<Rightarrow> p)\<rparr>"

text \<open>One posted answer: the answer to write, a number in its canonical form, or its error.\<close>

definition judge ::
  "db \<Rightarrow> (int \<Rightarrow> assignment option) \<Rightarrow> (int \<times> string \<Rightarrow> response_field option)
     \<Rightarrow> (int \<Rightarrow> nat option) \<Rightarrow> upsert \<Rightarrow> (upsert + validation_error) result" where
  "judge d index flds positions u =
     (case cell_of index flds u of None \<Rightarrow> Inr (Inl u)
      | Some (a, f) \<Rightarrow>
          bindE (validate_value f (u_value u)) (\<lambda>fault. case fault of
              Some m \<Rightarrow> Inr (Inr (error_at d positions a f (u_value u) m))
            | None \<Rightarrow>
                if u_value u \<noteq> [] \<and> numeric f
                then bindE (canonical_number (data_type f) (u_value u)) (\<lambda>c. case c of
                    None \<Rightarrow> Inr (Inl u) | Some t \<Rightarrow> Inr (Inl (u\<lparr>u_value := t\<rparr>)))
                else Inr (Inl u)))"

fun judge_all ::
  "(upsert \<Rightarrow> (upsert + validation_error) result) \<Rightarrow> upsert list
     \<Rightarrow> (upsert list \<times> validation_error list) result" where
  "judge_all j [] = Inr ([], [])"
| "judge_all j (u # us) = bindE (j u) (\<lambda>r. bindE (judge_all j us) (\<lambda>(ok, bad). Inr
     (case r of Inl v \<Rightarrow> (v # ok, bad) | Inr e \<Rightarrow> (ok, e # bad))))"

text \<open>
  \<open>_hold_answers_behind_refused_parents\<close>: the nearest ancestor of a field, by id, whose answer
  the same save refused on that assignment; a missing parent and a loop end the walk.
\<close>

function refused_ancestor ::
  "response_field list \<Rightarrow> (string \<Rightarrow> bool) \<Rightarrow> int set \<Rightarrow> int option \<Rightarrow> response_field option" where
  "refused_ancestor fs refused seen None = None"
| "refused_ancestor fs refused seen (Some p) =
     (case by_id fs p of None \<Rightarrow> None
      | Some ancestor \<Rightarrow>
         if f_id ancestor \<in> seen then None
         else if refused (f_key ancestor) then Some ancestor
         else refused_ancestor fs refused (insert (f_id ancestor) seen) (f_branch_parent ancestor))"
  by pat_completeness auto
termination
proof (relation "measure (\<lambda>(fs, refused, seen, _). card (f_id ` set fs - seen))", simp)
  fix fs refused seen p ancestor
  assume "by_id fs p = Some ancestor" "f_id ancestor \<notin> seen"
  then have "f_id ` set fs - insert (f_id ancestor) seen \<subset> f_id ` set fs - seen"
    by (auto dest: by_id_Some)
  then show "((fs, refused, insert (f_id ancestor) seen, f_branch_parent ancestor), fs, refused, seen, Some p)
      \<in> measure (\<lambda>(fs, refused, seen, _). card (f_id ` set fs - seen))"
    by (simp add: psubset_card_mono)
qed

definition indexed_fields :: "db \<Rightarrow> int set \<Rightarrow> response_field list" where
  "indexed_fields d ids = filter (\<lambda>f. f_instrument f \<in> ids \<and> f_visible f) (fields_tbl d)"

definition held_behind ::
  "response_field list \<Rightarrow> (int \<Rightarrow> assignment option) \<Rightarrow> (int \<times> string \<Rightarrow> response_field option)
     \<Rightarrow> validation_error list \<Rightarrow> upsert \<Rightarrow> (assignment \<times> response_field \<times> response_field) option" where
  "held_behind fs index flds errors u =
     (case cell_of index flds u of None \<Rightarrow> None
      | Some (a, f) \<Rightarrow> map_option (\<lambda>g. (a, f, g))
          (refused_ancestor fs (\<lambda>k. list_ex (\<lambda>e. ve_assignment e = u_assignment u \<and> ve_field_key e = k) errors)
             {} (f_branch_parent f)))"

definition sort_errors :: "validation_error list \<Rightarrow> validation_error list" where
  "sort_errors = sort_key (\<lambda>e. (ve_position e, ve_reviewee_name e, ve_field_label e))"

definition split_validated ::
  "db \<Rightarrow> int set \<Rightarrow> upsert list \<Rightarrow> (int \<Rightarrow> assignment option) \<Rightarrow> (int \<times> string \<Rightarrow> response_field option)
     \<Rightarrow> (int \<Rightarrow> nat option) \<Rightarrow> (upsert list \<times> validation_error list) result" where
  "split_validated d ids upserts index flds positions =
     bindE (judge_all (judge d index flds positions) upserts) (\<lambda>(valid, errors).
       let held = held_behind (indexed_fields d ids) index flds errors;
           kept = filter (\<lambda>u. held u = None) valid;
           extra = concat (map (\<lambda>u. case held u of None \<Rightarrow> []
               | Some (a, f, g) \<Rightarrow> [error_at d positions a f (u_value u) (KeptUntilFixed (f_label g))]) valid)
       in Inr (kept, sort_errors (errors @ extra)))"

section \<open>Writing the answers\<close>

text \<open>
  The session does not autoflush: what a call has added or deleted reaches the table only at its
  flush. So \<open>w_rows\<close> are the rows of the table as the session holds them, with the values set on
  them so far, a row marked for deletion (\<open>w_deleted\<close>, by its cell) among them; a new row waits in
  \<open>w_added\<close>, where no SELECT finds it.
\<close>

record writing =
  w_rows :: "response list"
  w_added :: "response list"
  w_deleted :: "(int \<times> int) set"
  w_written :: int
  w_cleared :: int
  w_changed :: "(int \<times> string list \<times> int) set"
  w_unchanged :: "((int \<times> string list \<times> int) \<times> (int \<times> int)) list"
  w_blanked :: "int set"
  w_blanked_groups :: "(int \<times> string list) set"
  w_group_of :: "int \<Rightarrow> (int \<times> string list) option"

definition find_row :: "response list \<Rightarrow> int \<Rightarrow> int \<Rightarrow> response option" where
  "find_row rows aid fid = find (\<lambda>r. r_assignment r = aid \<and> r_field r = fid) rows"

definition at_cell :: "int \<Rightarrow> int \<Rightarrow> response \<Rightarrow> bool" where
  "at_cell aid fid r = (r_assignment r = aid \<and> r_field r = fid)"

definition new_row :: "int \<Rightarrow> int \<Rightarrow> int \<Rightarrow> string \<Rightarrow> response" where
  "new_row now aid fid v = \<lparr>r_assignment = aid, r_field = fid, r_value = Some v,
     r_saved_at = Aware now, r_submitted_at = None, r_version = 1\<rparr>"

text \<open>\<open>Response.version + 1\<close> is SQL: it adds to the stored version \<open>n\<close>, however often it was set.\<close>

definition change_row :: "int \<Rightarrow> string \<Rightarrow> int \<Rightarrow> response \<Rightarrow> response" where
  "change_row now v n r = r\<lparr>r_value := Some v, r_saved_at := Aware now, r_submitted_at := None,
     r_version := n + 1\<rparr>"

definition stored_version :: "response list \<Rightarrow> int \<Rightarrow> int \<Rightarrow> int" where
  "stored_version stored aid fid = (case find_row stored aid fid of None \<Rightarrow> 0 | Some r \<Rightarrow> r_version r)"

definition unstamp :: "response \<Rightarrow> response" where
  "unstamp r = r\<lparr>r_submitted_at := None\<rparr>"

text \<open>One answer: the body of the loop of \<open>_apply_upserts\<close>.\<close>

definition apply_one ::
  "int \<Rightarrow> response list \<Rightarrow> (int \<Rightarrow> assignment option) \<Rightarrow> (int \<times> string \<Rightarrow> response_field option)
     \<Rightarrow> (int \<Rightarrow> string list option) \<Rightarrow> writing \<Rightarrow> upsert \<Rightarrow> writing result" where
  "apply_one now stored index flds keys w u =
     (case cell_of index flds u of None \<Rightarrow> Inr w
      | Some (a, f) \<Rightarrow>
        (let key = keys (a_id a);
             w = (case key of None \<Rightarrow> w
                  | Some k \<Rightarrow> w\<lparr>w_group_of := (w_group_of w)(a_id a \<mapsto> (a_instrument a, k))\<rparr>);
             existing = find_row (w_rows w) (a_id a) (f_id f);
             cell = map_option (\<lambda>k. (a_instrument a, k, f_id f)) key
         in if u_value u = [] then
              (case existing of None \<Rightarrow> Inr w
               | Some r \<Rightarrow> bindE (stored_as_posted (r_value r) f) (\<lambda>shown.
                   if shown = [] then Inr w
                   else Inr (w\<lparr>w_deleted := insert (a_id a, f_id f) (w_deleted w),
                     w_blanked := insert (a_id a) (w_blanked w),
                     w_blanked_groups := (case key of None \<Rightarrow> w_blanked_groups w
                        | Some k \<Rightarrow> insert (a_instrument a, k) (w_blanked_groups w))\<rparr>)))
            else
              (case existing of
                 None \<Rightarrow> Inr (w\<lparr>w_added := w_added w @ [new_row now (a_id a) (f_id f) (u_value u)],
                             w_written := w_written w + 1\<rparr>)
               | Some r \<Rightarrow> bindE (stored_as_posted (r_value r) f) (\<lambda>shown.
                   if shown \<noteq> u_value u then
                     Inr (w\<lparr>w_rows := map (\<lambda>r. if at_cell (a_id a) (f_id f) r
                            then change_row now (u_value u) (stored_version stored (a_id a) (f_id f)) r else r) (w_rows w),
                         w_written := w_written w + 1,
                         w_cleared := w_cleared w + (if r_submitted_at r \<noteq> None then 1 else 0),
                         w_changed := (case cell of None \<Rightarrow> w_changed w | Some c \<Rightarrow> insert c (w_changed w))\<rparr>)
                   else Inr (w\<lparr>w_written := w_written w + 1,
                         w_unchanged := w_unchanged w @ (case cell of None \<Rightarrow> []
                            | Some c \<Rightarrow> [(c, (a_id a, f_id f))])\<rparr>)))))"

fun apply_all :: "('w \<Rightarrow> upsert \<Rightarrow> 'w result) \<Rightarrow> 'w \<Rightarrow> upsert list \<Rightarrow> 'w result" where
  "apply_all f w [] = Inr w"
| "apply_all f w (u # us) = bindE (f w u) (\<lambda>w'. apply_all f w' us)"

text \<open>Clearing the stamps of the rows a set of cells or assignments names, and how many had one.\<close>

definition unstamp_where :: "(response \<Rightarrow> bool) \<Rightarrow> response list \<Rightarrow> response list" where
  "unstamp_where P rows = map (\<lambda>r. if P r then unstamp r else r) rows"

definition stamped_where :: "(response \<Rightarrow> bool) \<Rightarrow> response list \<Rightarrow> int" where
  "stamped_where P rows = int (length (filter (\<lambda>r. P r \<and> r_submitted_at r \<noteq> None) rows))"

text \<open>
  The flush: marked rows go, waiting rows are inserted, and two waiting rows of one cell break
  \<open>uq_response_assignment_field\<close> (a stored row of the cell cannot: then none would be waiting).
\<close>

definition row_cell :: "response \<Rightarrow> int \<times> int" where
  "row_cell r = (r_assignment r, r_field r)"

definition flush_rows :: "writing \<Rightarrow> response list \<Rightarrow> response list result" where
  "flush_rows w rows =
     (if distinct (map row_cell (w_added w))
      then Inr (filter (\<lambda>r. row_cell r \<notin> w_deleted w) rows @ w_added w)
      else Inl (DatabaseError ''IntegrityError''))"

definition start_writing :: "response list \<Rightarrow> writing" where
  "start_writing rows = \<lparr>w_rows = rows, w_added = [], w_deleted = {}, w_written = 0, w_cleared = 0, w_changed = {},
     w_unchanged = [], w_blanked = {}, w_blanked_groups = {}, w_group_of = Map.empty\<rparr>"

definition apply_upserts ::
  "db \<Rightarrow> upsert list \<Rightarrow> (int \<Rightarrow> assignment option) \<Rightarrow> (int \<times> string \<Rightarrow> response_field option)
     \<Rightarrow> (int \<Rightarrow> string list option) \<Rightarrow> (db \<times> int \<times> int) result" where
  "apply_upserts d upserts index flds keys =
     bindE (apply_all (apply_one (wall d) (responses d) index flds keys) (start_writing (responses d)) upserts) (\<lambda>w.
       let group_cells = snd ` set (filter (\<lambda>(c, _). c \<in> w_changed w) (w_unchanged w));
           in_cells = (\<lambda>r. (r_assignment r, r_field r) \<in> group_cells);
           blanked = (\<lambda>r. r_assignment r \<in> w_blanked w
             \<or> (case w_group_of w (r_assignment r) of None \<Rightarrow> False | Some g \<Rightarrow> g \<in> w_blanked_groups w))
       in bindE (flush_rows w (unstamp_where in_cells (w_rows w))) (\<lambda>rows.
            Inr (d\<lparr>responses := unstamp_where blanked rows\<rparr>, w_written w,
              w_cleared w + stamped_where in_cells (w_rows w) + stamped_where blanked rows)))"

section \<open>Save and submit\<close>

text \<open>What the two calls share: from the gate to the write rule for closed branches.\<close>

record posted =
  po_db :: db
  po_assigned :: "assignment list"
  po_excluded :: "assignment list"
  po_keys :: "int \<Rightarrow> string list option"
  po_upserts :: "upsert list"
  po_errors :: "validation_error list"
  po_written :: int
  po_cleared :: int
  po_removed :: nat

definition write_posted :: "db \<Rightarrow> int \<Rightarrow> int \<Rightarrow> upsert list \<Rightarrow> posted result" where
  "write_posted d sid reviewer_id upserts =
     bindE (require_accepting_responses d sid) (\<lambda>_.
       let assigned = reviewer_assignments d reviewer_id sid;
           index = index_of assigned;
           ids = a_instrument ` set assigned;
           gids = group_instrument_ids d ids;
           keys = group_key_by_assignment d assigned gids sid;
           flds = field_index d ids;
           upserts = filter (\<lambda>u. index (u_assignment u) \<noteq> None) upserts
       in bindE (split_validated d ids upserts index flds (session_position_map d sid)) (\<lambda>(valid, errors).
         let (excluded, excluded_keys) = excluded_group_members d reviewer_id sid assigned gids keys;
             keys = (\<lambda>k. case excluded_keys k of None \<Rightarrow> keys k | Some g \<Rightarrow> Some g);
             valid = expand_group_upserts valid (assigned @ excluded) gids keys
         in bindE (apply_upserts d valid (index_of (assigned @ excluded)) flds keys) (\<lambda>(d', written, cleared).
           let (d'', removed) = drop_closed_branch_answers d' (u_assignment ` set valid)
           in Inr \<lparr>po_db = d'', po_assigned = assigned, po_excluded = excluded, po_keys = keys,
                po_upserts = upserts, po_errors = errors, po_written = written, po_cleared = cleared,
                po_removed = removed\<rparr>)))"

definition saved_counts :: "posted \<Rightarrow> (string \<times> int) list" where
  "saved_counts p =
     [(''assignments_touched'', int (card (u_assignment ` set (po_upserts p)))),
      (''responses_saved'', po_written p)]
     @ (if po_removed p \<noteq> 0 then [(''branch_answers_removed'', int (po_removed p))] else [])
     @ (if po_cleared p \<noteq> 0 then [(''submissions_cleared'', po_cleared p)] else [])"

definition write_saved :: "int \<Rightarrow> int option \<Rightarrow> int \<Rightarrow> posted \<Rightarrow> db" where
  "write_saved sid user reviewer_id p =
     write_event ''responses.saved'' user (Some sid) (Counts (saved_counts p)) None
       [(''reviewer_id'', reviewer_id)] [] (po_db p)"

definition save_draft ::
  "db \<Rightarrow> int \<Rightarrow> int \<Rightarrow> int option \<Rightarrow> upsert list \<Rightarrow> (db \<times> int \<times> validation_error list) result" where
  "save_draft d sid reviewer_id user upserts =
     bindE (write_posted d sid reviewer_id upserts) (\<lambda>p.
       Inr (write_saved sid user reviewer_id p, po_written p, po_errors p))"

record missing_position =
  mp_assignment :: int
  mp_field_key :: string
  mp_field_label :: string
  mp_reviewee_name :: string
  mp_position :: nat

definition missing_of ::
  "db \<Rightarrow> (int \<Rightarrow> response_field list) \<Rightarrow> (int \<Rightarrow> nat option) \<Rightarrow> assignment \<Rightarrow> missing_position list" where
  "missing_of d fields_by_instrument positions a =
     (let flds = fields_by_instrument (a_instrument a) in
      if may_be_required_field_ids flds = {} then []
      else (let rows = responses_for d (a_id a);
                present = r_field ` set (filter nonempty_value rows);
                required_ids = required_field_ids flds (answers rows)
            in map (\<lambda>f. \<lparr>mp_assignment = a_id a, mp_field_key = f_key f, mp_field_label = f_label f,
                    mp_reviewee_name = reviewee_name d a,
                    mp_position = (case positions (a_instrument a) of None \<Rightarrow> 0 | Some p \<Rightarrow> p)\<rparr>)
                 (filter (\<lambda>f. f_id f \<in> required_ids \<and> f_id f \<notin> present) flds)))"

definition compute_missing_required ::
  "db \<Rightarrow> assignment list \<Rightarrow> (int \<Rightarrow> response_field list) \<Rightarrow> (int \<Rightarrow> nat option)
     \<Rightarrow> (int \<Rightarrow> string list option) \<Rightarrow> missing_position list" where
  "compute_missing_required d assigned fields_by_instrument positions keys =
     sort_key (\<lambda>m. (mp_position m, mp_reviewee_name m, mp_field_label m))
       (concat (map (missing_of d fields_by_instrument positions) (dedupe_groups keys {} assigned)))"

record submit_result =
  sr_submitted :: bool
  sr_missing :: "missing_position list"
  sr_errors :: "validation_error list"
  sr_count :: int

text \<open>\<open>_audit_blocked_drafts\<close>.\<close>

definition audit_blocked_drafts :: "int \<Rightarrow> int option \<Rightarrow> int \<Rightarrow> posted \<Rightarrow> db" where
  "audit_blocked_drafts sid user reviewer_id p =
     (if po_removed p = 0 \<and> po_cleared p = 0 then po_db p else write_saved sid user reviewer_id p)"

definition stamp_rows :: "int \<Rightarrow> int set \<Rightarrow> response list \<Rightarrow> response list" where
  "stamp_rows now ids rows =
     map (\<lambda>r. if r_assignment r \<in> ids then r\<lparr>r_submitted_at := Some (Aware now)\<rparr> else r) rows"

definition submit ::
  "db \<Rightarrow> int \<Rightarrow> int \<Rightarrow> int option \<Rightarrow> upsert list \<Rightarrow> (db \<times> submit_result) result" where
  "submit d sid reviewer_id user upserts =
     bindE (write_posted d sid reviewer_id upserts) (\<lambda>p.
       if po_errors p \<noteq> [] then
         Inr (audit_blocked_drafts sid user reviewer_id p,
              \<lparr>sr_submitted = False, sr_missing = [], sr_errors = po_errors p, sr_count = 0\<rparr>)
       else (let missing = compute_missing_required (po_db p) (po_assigned p)
                   (instrument_fields_by_id d (a_instrument ` set (po_assigned p)))
                   (session_position_map d sid) (po_keys p)
         in if missing \<noteq> [] then
              Inr (audit_blocked_drafts sid user reviewer_id p,
                \<lparr>sr_submitted = False, sr_missing = missing, sr_errors = [], sr_count = 0\<rparr>)
            else (let rows = responses (po_db p);
                      ids = a_id ` set (po_assigned p @ po_excluded p);
                      n = int (length (filter (\<lambda>r. r_assignment r \<in> ids) rows))
              in Inr (write_event ''responses.submitted'' user (Some sid)
                   (Counts ((''submitted'', n) # (if po_removed p \<noteq> 0
                       then [(''branch_answers_removed'', int (po_removed p))] else []))) None
                   [(''reviewer_id'', reviewer_id)] []
                   ((po_db p)\<lparr>responses := stamp_rows (wall d) ids rows\<rparr>),
                 \<lparr>sr_submitted = True, sr_missing = [], sr_errors = [], sr_count = n\<rparr>))))"

section \<open>Recall, clear, delete-all, row completion\<close>

definition recall :: "db \<Rightarrow> int \<Rightarrow> int \<Rightarrow> int option \<Rightarrow> (db \<times> int) result" where
  "recall d sid reviewer_id user =
     bindE (require_accepting_responses d sid) (\<lambda>_.
       let ids = a_id ` set (with_excluded_group_members d reviewer_id sid);
           mine = (\<lambda>r. r_assignment r \<in> ids);
           n = stamped_where mine (responses d)
       in Inr (write_event ''responses.recalled'' user (Some sid) (Counts [(''recalled'', n)]) None
            [(''reviewer_id'', reviewer_id)] [] (d\<lparr>responses := unstamp_where mine (responses d)\<rparr>), n))"

definition clear_all :: "db \<Rightarrow> int \<Rightarrow> int \<Rightarrow> int option \<Rightarrow> (db \<times> int) result" where
  "clear_all d sid reviewer_id user =
     bindE (require_accepting_responses d sid) (\<lambda>_.
       let ids = a_id ` set (with_excluded_group_members d reviewer_id sid);
           n = int (length (filter (\<lambda>r. r_assignment r \<in> ids) (responses d)))
       in Inr (write_event ''responses.cleared'' user (Some sid) (Counts [(''deleted'', n)]) None
            [(''reviewer_id'', reviewer_id)] []
            (d\<lparr>responses := filter (\<lambda>r. r_assignment r \<notin> ids) (responses d)\<rparr>), n))"

definition delete_all_for_session :: "db \<Rightarrow> int \<Rightarrow> int option \<Rightarrow> (db \<times> int) result" where
  "delete_all_for_session d sid user =
     bindE (require_not_ready d sid) (\<lambda>_.
       let ids = a_id ` set (filter (\<lambda>a. a_session a = sid) (assignments d));
           n = int (length (filter (\<lambda>r. r_assignment r \<in> ids) (responses d)))
       in Inr (write_event ''responses.deleted_all'' user (Some sid) (Counts [(''deleted'', n)]) None [] []
            (d\<lparr>responses := filter (\<lambda>r. r_assignment r \<notin> ids) (responses d)\<rparr>), n))"

record row_completion_state =
  rc_is_complete :: bool
  rc_missing :: int
  rc_required :: int
  rc_latest_submitted :: "int option"
  rc_answers :: int
  rc_unsubmitted :: int

definition row_completion :: "db \<Rightarrow> assignment \<Rightarrow> row_completion_state" where
  "row_completion d a =
     (let flds = sort_key f_order (filter (\<lambda>f. f_instrument f = a_instrument a \<and> f_visible f) (fields_tbl d));
          rows = responses_for d (a_id a);
          required_ids = required_field_ids flds (answers rows);
          present = r_field ` set (filter nonempty_value rows);
          missing = int (card {k \<in> required_ids. k \<notin> present})
      in \<lparr>rc_is_complete = (missing = 0), rc_missing = missing, rc_required = int (card required_ids),
          rc_latest_submitted = latest_stamp rows, rc_answers = int (length rows),
          rc_unsubmitted = int (length (filter (\<lambda>r. r_submitted_at r = None) rows))\<rparr>)"

end
