(* ===== verification/Responses_Facts.thy ===== *)
theory Responses_Facts
  imports Responses
begin

text \<open>
  What the writes of \<open>Responses\<close> do to the rows: the effect of one answer on one cell, the rows
  a call may touch, and the contract every reviewer operation keeps.
\<close>

section \<open>Rows as a map\<close>

definition unique_rows :: "response list \<Rightarrow> bool" where
  "unique_rows rows = distinct (map (\<lambda>r. (r_assignment r, r_field r)) rows)"

lemma find_row_Some:
  "find_row rows aid fid = Some r \<Longrightarrow> r \<in> set rows \<and> r_assignment r = aid \<and> r_field r = fid"
  unfolding find_row_def by (induction rows) (auto split: if_splits)

lemma find_row_None: "find_row rows aid fid = None \<longleftrightarrow> (\<forall>r \<in> set rows. \<not> at_cell aid fid r)"
  by (auto simp: find_row_def find_None_iff at_cell_def)

lemma find_row_unique:
  assumes "unique_rows rows" "r \<in> set rows"
  shows "find_row rows (r_assignment r) (r_field r) = Some r"
proof -
  obtain s where s: "find_row rows (r_assignment r) (r_field r) = Some s"
    using assms(2) by (cases "find_row rows (r_assignment r) (r_field r)") (auto simp: find_row_None at_cell_def)
  then have "s \<in> set rows" "r_assignment s = r_assignment r" "r_field s = r_field r" by (auto dest: find_row_Some)
  with assms have "s = r" by (auto simp: unique_rows_def distinct_map inj_on_def)
  with s show ?thesis by simp
qed

lemma find_row_map:
  assumes "\<And>r. r_assignment (h r) = r_assignment r" "\<And>r. r_field (h r) = r_field r"
  shows "find_row (map h rows) aid fid = map_option h (find_row rows aid fid)"
  unfolding find_row_def by (induction rows) (simp_all add: assms)

lemma find_row_filter:
  assumes "\<And>r. at_cell aid fid r \<Longrightarrow> P r = b"
  shows "find_row (filter P rows) aid fid = (if b then find_row rows aid fid else None)"
  unfolding find_row_def using assms by (induction rows) (auto simp: at_cell_def)

lemma find_row_append: "find_row (xs @ ys) aid fid = (case find_row xs aid fid of None \<Rightarrow> find_row ys aid fid | Some r \<Rightarrow> Some r)"
  unfolding find_row_def by (induction xs) auto

lemma unique_rows_map:
  assumes "\<And>r. r_assignment (h r) = r_assignment r" "\<And>r. r_field (h r) = r_field r"
  shows "unique_rows (map h rows) = unique_rows rows"
  by (simp add: unique_rows_def comp_def assms)

lemma unique_rows_filter: "unique_rows rows \<Longrightarrow> unique_rows (filter P rows)"
  by (simp add: unique_rows_def distinct_map_filter)

lemma row_keys [simp]:
  "r_assignment (change_row now v n r) = r_assignment r" "r_field (change_row now v n r) = r_field r"
  "r_assignment (unstamp r) = r_assignment r" "r_field (unstamp r) = r_field r"
  "r_value (unstamp r) = r_value r" "r_version (unstamp r) = r_version r" "r_saved_at (unstamp r) = r_saved_at r"
  "r_submitted_at (change_row now v n r) = None" "r_submitted_at (unstamp r) = None"
  "r_value (change_row now v n r) = Some v"
  by (simp_all add: change_row_def unstamp_def)

section \<open>The effect of one answer\<close>

lemma cell_of_Some: "cell_of index flds u = Some (a, f) \<longleftrightarrow>
    index (u_assignment u) = Some a \<and> flds (a_instrument a, u_field_key u) = Some f"
  by (auto simp: cell_of_def split: option.splits)

text \<open>The cases of \<open>apply_one\<close>: the row it leaves at the cell, and what it notes.\<close>

definition with_group :: "(int \<Rightarrow> string list option) \<Rightarrow> assignment \<Rightarrow> writing \<Rightarrow> writing" where
  "with_group keys a w = (case keys (a_id a) of None \<Rightarrow> w
     | Some k \<Rightarrow> w\<lparr>w_group_of := (w_group_of w)(a_id a \<mapsto> (a_instrument a, k))\<rparr>)"

lemma with_group_simps [simp]:
  "w_rows (with_group keys a w) = w_rows w" "w_added (with_group keys a w) = w_added w"
  "w_deleted (with_group keys a w) = w_deleted w" "w_written (with_group keys a w) = w_written w"
  "w_cleared (with_group keys a w) = w_cleared w" "w_changed (with_group keys a w) = w_changed w"
  "w_unchanged (with_group keys a w) = w_unchanged w" "w_blanked (with_group keys a w) = w_blanked w"
  "w_blanked_groups (with_group keys a w) = w_blanked_groups w"
  by (simp_all add: with_group_def split: option.split)

lemma apply_one_cases:
  assumes "apply_one now stored index flds keys w u = Inr w'"
  obtains (skip) "cell_of index flds u = None" "w' = w"
  | (blank_none) a f where "cell_of index flds u = Some (a, f)" "u_value u = []"
      "find_row (w_rows w) (a_id a) (f_id f) = None" "w' = with_group keys a w"
  | (blank_kept) a f r where "cell_of index flds u = Some (a, f)" "u_value u = []"
      "find_row (w_rows w) (a_id a) (f_id f) = Some r" "stored_as_posted (r_value r) f = Inr []"
      "w' = with_group keys a w"
  | (blanked) a f r st where "cell_of index flds u = Some (a, f)" "u_value u = []"
      "find_row (w_rows w) (a_id a) (f_id f) = Some r" "stored_as_posted (r_value r) f = Inr st" "st \<noteq> []"
      "w' = (with_group keys a w)\<lparr>w_deleted := insert (a_id a, f_id f) (w_deleted w),
          w_blanked := insert (a_id a) (w_blanked w),
          w_blanked_groups := (case keys (a_id a) of None \<Rightarrow> w_blanked_groups w
             | Some k \<Rightarrow> insert (a_instrument a, k) (w_blanked_groups w))\<rparr>"
  | (added) a f where "cell_of index flds u = Some (a, f)" "u_value u \<noteq> []"
      "find_row (w_rows w) (a_id a) (f_id f) = None"
      "w' = (with_group keys a w)\<lparr>w_added := w_added w @ [new_row now (a_id a) (f_id f) (u_value u)],
          w_written := w_written w + 1\<rparr>"
  | (changed) a f r st where "cell_of index flds u = Some (a, f)" "u_value u \<noteq> []"
      "find_row (w_rows w) (a_id a) (f_id f) = Some r" "stored_as_posted (r_value r) f = Inr st" "st \<noteq> u_value u"
      "w' = (with_group keys a w)\<lparr>w_rows := map (\<lambda>r. if at_cell (a_id a) (f_id f) r
             then change_row now (u_value u) (stored_version stored (a_id a) (f_id f)) r else r) (w_rows w),
          w_written := w_written w + 1,
          w_cleared := w_cleared w + (if r_submitted_at r \<noteq> None then 1 else 0),
          w_changed := (case keys (a_id a) of None \<Rightarrow> w_changed w | Some k \<Rightarrow> insert (a_instrument a, k, f_id f) (w_changed w))\<rparr>"
  | (unchanged) a f r where "cell_of index flds u = Some (a, f)" "u_value u \<noteq> []"
      "find_row (w_rows w) (a_id a) (f_id f) = Some r" "stored_as_posted (r_value r) f = Inr (u_value u)"
      "w' = (with_group keys a w)\<lparr>w_written := w_written w + 1,
          w_unchanged := w_unchanged w @ (case keys (a_id a) of None \<Rightarrow> []
             | Some k \<Rightarrow> [((a_instrument a, k, f_id f), (a_id a, f_id f))])\<rparr>"
proof (cases "cell_of index flds u")
  case None
  then show ?thesis using assms skip by (simp add: apply_one_def)
next
  case (Some af)
  obtain a f where af: "af = (a, f)" by (cases af)
  note cell = Some [unfolded af]
  have wg: "(case keys (a_id a) of None \<Rightarrow> w | Some k \<Rightarrow> w\<lparr>w_group_of := (w_group_of w)(a_id a \<mapsto> (a_instrument a, k))\<rparr>)
      = with_group keys a w"
    by (simp add: with_group_def)
  have cc: "(case map_option (\<lambda>k. (a_instrument a, k, f_id f)) (keys (a_id a)) of None \<Rightarrow> x | Some c \<Rightarrow> h c)
      = (case keys (a_id a) of None \<Rightarrow> x | Some k \<Rightarrow> h (a_instrument a, k, f_id f))" for x :: 'z and h
    by (simp split: option.split)
  note eq = assms [unfolded apply_one_def cell option.case prod.case Let_def wg with_group_simps cc]
  show ?thesis
  proof (cases "find_row (w_rows w) (a_id a) (f_id f)")
    case None
    show ?thesis
    proof (cases "u_value u = []")
      case True
      then show ?thesis using eq None by (intro blank_none [OF cell True None]) simp
    next
      case False
      then show ?thesis using eq None by (intro added [OF cell False None]) simp
    qed
  next
    case (Some r)
    show ?thesis
    proof (cases "stored_as_posted (r_value r) f")
      case (Inl e)
      then show ?thesis using eq Some by (simp split: if_split_asm)
    next
      case (Inr st)
      consider "u_value u = []" "st = []" | "u_value u = []" "st \<noteq> []" | "u_value u \<noteq> []" "st \<noteq> u_value u"
        | "u_value u \<noteq> []" "st = u_value u" by blast
      then show ?thesis
      proof cases
        case 1
        then show ?thesis using eq Some Inr by (intro blank_kept [OF cell 1(1) Some]) simp_all
      next
        case 2
        then show ?thesis using eq Some Inr by (intro blanked [OF cell 2(1) Some Inr 2(2)]) simp
      next
        case 3
        then show ?thesis using eq Some Inr by (intro changed [OF cell 3(1) Some Inr 3(2)]) simp
      next
        case 4
        then show ?thesis using eq Some Inr by (intro unchanged [OF cell 4(1) Some]) simp_all
      qed
    qed
  qed
qed

text \<open>A cell of the writer: its row in hand, whether it is marked, and what waits for it.\<close>

type_synonym cell_state = "response option \<times> bool \<times> response list"

definition cell_state :: "writing \<Rightarrow> int \<Rightarrow> int \<Rightarrow> cell_state" where
  "cell_state w aid fid = (find_row (w_rows w) aid fid, (aid, fid) \<in> w_deleted w, filter (at_cell aid fid) (w_added w))"

fun cell_step :: "int \<Rightarrow> int \<Rightarrow> int \<Rightarrow> response_field \<Rightarrow> string \<Rightarrow> cell_state \<Rightarrow> cell_state" where
  "cell_step now n aid f v (None, gone, news) = (None, gone, if v = [] then news else news @ [new_row now aid (f_id f) v])"
| "cell_step now n aid f v (Some r, gone, news) =
     (if stored_as_posted (r_value r) f = Inr v then (Some r, gone, news)
      else if v = [] then (Some r, True, news) else (Some (change_row now v n r), gone, news))"

lemma cell_apply_one:
  assumes "apply_one now stored index flds keys w u = Inr w'"
  shows "cell_of index flds u = Some (a, f) \<Longrightarrow> cell_state w' (a_id a) (f_id f)
      = cell_step now (stored_version stored (a_id a) (f_id f)) (a_id a) f (u_value u) (cell_state w (a_id a) (f_id f))"
    and "\<forall>a f. cell_of index flds u = Some (a, f) \<longrightarrow> (a_id a, f_id f) \<noteq> (aid, fid)
      \<Longrightarrow> cell_state w' aid fid = cell_state w aid fid"
proof -
  have "(\<forall>a f. cell_of index flds u = Some (a, f) \<longrightarrow> cell_state w' (a_id a) (f_id f)
      = cell_step now (stored_version stored (a_id a) (f_id f)) (a_id a) f (u_value u) (cell_state w (a_id a) (f_id f))) \<and>
    ((\<forall>a f. cell_of index flds u = Some (a, f) \<longrightarrow> (a_id a, f_id f) \<noteq> (aid, fid))
      \<longrightarrow> cell_state w' aid fid = cell_state w aid fid)" for aid fid
    using assms
  proof (cases rule: apply_one_cases)
    case (added a f)
    then show ?thesis by (auto simp: cell_state_def at_cell_def new_row_def)
  next
    case (changed a f r st)
    let ?h = "\<lambda>r. if at_cell (a_id a) (f_id f) r
        then change_row now (u_value u) (stored_version stored (a_id a) (f_id f)) r else r"
    have "find_row (map ?h (w_rows w)) aid fid = map_option ?h (find_row (w_rows w) aid fid)" for aid fid
      by (rule find_row_map) simp_all
    moreover have "map_option ?h (find_row (w_rows w) aid fid) = find_row (w_rows w) aid fid"
      if "(a_id a, f_id f) \<noteq> (aid, fid)"
      using that by (cases "find_row (w_rows w) aid fid") (auto simp: at_cell_def dest!: find_row_Some)
    moreover have "at_cell (a_id a) (f_id f) r" using changed(3) by (auto simp: at_cell_def dest: find_row_Some)
    ultimately show ?thesis using changed by (simp add: cell_state_def)
  qed (auto simp: cell_state_def)
  then show "cell_of index flds u = Some (a, f) \<Longrightarrow> cell_state w' (a_id a) (f_id f)
      = cell_step now (stored_version stored (a_id a) (f_id f)) (a_id a) f (u_value u) (cell_state w (a_id a) (f_id f))"
    "\<forall>a f. cell_of index flds u = Some (a, f) \<longrightarrow> (a_id a, f_id f) \<noteq> (aid, fid)
      \<Longrightarrow> cell_state w' aid fid = cell_state w aid fid"
    by blast+
qed

section \<open>The loop\<close>

lemma apply_all_invariant:
  assumes "apply_all f w us = Inr w'" "I w"
    and "\<And>w u w'. u \<in> set us \<Longrightarrow> I w \<Longrightarrow> f w u = Inr w' \<Longrightarrow> I w'"
  shows "I w'"
  using assms by (induction f w us rule: apply_all.induct) auto

text \<open>A cell after the loop: the answers posted for it, in order.\<close>

lemma cell_apply_all:
  assumes "apply_all (apply_one now stored index flds keys) w us = Inr w'"
  shows "cell_state w' aid fid = foldl (\<lambda>c u. case cell_of index flds u of
      Some (a, f) \<Rightarrow> if (a_id a, f_id f) = (aid, fid) then cell_step now (stored_version stored aid fid) aid f (u_value u) c else c
    | None \<Rightarrow> c) (cell_state w aid fid) us"
  using assms
proof (induction us arbitrary: w)
  case (Cons u us)
  then obtain w1 where w1: "apply_one now stored index flds keys w u = Inr w1"
    "apply_all (apply_one now stored index flds keys) w1 us = Inr w'" by auto
  note one = cell_apply_one [OF w1(1)]
  have "cell_state w1 aid fid = (case cell_of index flds u of
      Some (a, f) \<Rightarrow> if (a_id a, f_id f) = (aid, fid) then cell_step now (stored_version stored aid fid) aid f (u_value u) (cell_state w aid fid)
        else cell_state w aid fid
    | None \<Rightarrow> cell_state w aid fid)"
  proof (cases "cell_of index flds u")
    case None
    then show ?thesis using one(2) [of aid fid] by simp
  next
    case (Some af)
    then obtain a f where af: "cell_of index flds u = Some (a, f)" by (cases af) simp
    show ?thesis using one(1) [OF af] one(2) [of aid fid] af by (cases "(a_id a, f_id f) = (aid, fid)") auto
  qed
  then show ?case using Cons.IH [OF w1(2)] by simp
qed simp

text \<open>The loop keeps the rows in hand row for row, and a row waits only for a cell without one.\<close>

definition in_hand :: "response list \<Rightarrow> writing \<Rightarrow> bool" where
  "in_hand stored w = (map row_cell (w_rows w) = map row_cell stored
     \<and> (\<forall>r \<in> set (w_added w). row_cell r \<notin> row_cell ` set stored))"

lemma at_cell_row_cell: "at_cell aid fid r \<longleftrightarrow> row_cell r = (aid, fid)"
  by (simp add: at_cell_def row_cell_def)

lemma row_cell_simps [simp]:
  "row_cell (change_row now v n r) = row_cell r" "row_cell (unstamp r) = row_cell r"
  "row_cell (new_row now aid fid v) = (aid, fid)"
  by (simp_all add: row_cell_def) (simp add: new_row_def)

lemma unique_rows_cells: "unique_rows rows \<longleftrightarrow> distinct (map row_cell rows)"
  by (simp add: unique_rows_def row_cell_def [abs_def])

lemma apply_all_in_hand:
  assumes "apply_all (apply_one now stored index flds keys) w us = Inr w'" "in_hand stored w"
  shows "in_hand stored w'"
proof (rule apply_all_invariant [where I = "in_hand stored", OF assms])
  fix w u w' assume h: "in_hand stored w" "apply_one now stored index flds keys w u = Inr w'"
  from h(2) show "in_hand stored w'"
  proof (cases rule: apply_one_cases)
    case (added a f)
    have "row_cell ` set (w_rows w) = row_cell ` set stored" using h(1) by (metis in_hand_def list.set_map)
    moreover have "(a_id a, f_id f) \<notin> row_cell ` set (w_rows w)"
      using added(3) by (force simp: find_row_None at_cell_row_cell)
    ultimately have "(a_id a, f_id f) \<notin> row_cell ` set stored" by simp
    then show ?thesis using added h(1) by (auto simp: in_hand_def)
  next
    case (changed a f r st)
    have "map row_cell (map (\<lambda>r. if at_cell (a_id a) (f_id f) r
        then change_row now (u_value u) (stored_version stored (a_id a) (f_id f)) r else r) rows) = map row_cell rows" for rows
      by simp
    then show ?thesis using changed h(1) by (simp add: in_hand_def del: map_map)
  qed (use h in \<open>simp_all add: in_hand_def\<close>)
qed

text \<open>A stamp survives only on a row nothing changed.\<close>

definition stamped :: "response \<Rightarrow> bool" where
  "stamped r = (r_submitted_at r \<noteq> None)"

lemma stamped_simps [simp]:
  "\<not> stamped (change_row now v n r)" "\<not> stamped (unstamp r)" "\<not> stamped (new_row now aid fid v)"
  by (simp_all add: stamped_def new_row_def)

lemma apply_one_stamped:
  assumes "apply_one now stored index flds keys w u = Inr w'"
  shows "\<forall>r \<in> set (w_rows w' @ w_added w'). stamped r \<longrightarrow> r \<in> set (w_rows w @ w_added w)"
  using assms(1)
proof (cases rule: apply_one_cases)
  case (changed a f r st)
  then show ?thesis by (auto split: if_splits)
qed auto

lemma unstamp_where_stamped: "r \<in> set (unstamp_where P rows) \<Longrightarrow> stamped r \<Longrightarrow> r \<in> set rows \<and> \<not> P r"
  by (auto simp: unstamp_where_def split: if_splits)

lemma apply_all_stamped:
  assumes "apply_all (apply_one now stored index flds keys) w us = Inr w'"
  shows "\<forall>r \<in> set (w_rows w' @ w_added w'). stamped r \<longrightarrow> r \<in> set (w_rows w @ w_added w)"
  by (rule apply_all_invariant [where I = "\<lambda>v. \<forall>r \<in> set (w_rows v @ w_added v). stamped r \<longrightarrow> r \<in> set (w_rows w @ w_added w)", OF assms])
    (use apply_one_stamped in blast)+

lemma start_writing_simps [simp]:
  "w_rows (start_writing rows) = rows" "w_added (start_writing rows) = []" "w_deleted (start_writing rows) = {}"
  "w_written (start_writing rows) = 0" "w_cleared (start_writing rows) = 0" "w_changed (start_writing rows) = {}"
  "w_unchanged (start_writing rows) = []" "w_blanked (start_writing rows) = {}"
  "w_blanked_groups (start_writing rows) = {}" "w_group_of (start_writing rows) = Map.empty"
  by (simp_all add: start_writing_def)

text \<open>The writer unfolded: the loop, the two rounds of clearing stamps, the flush between them.\<close>

definition group_hit :: "writing \<Rightarrow> response \<Rightarrow> bool" where
  "group_hit w r = (row_cell r \<in> snd ` set (filter (\<lambda>(c, _). c \<in> w_changed w) (w_unchanged w)))"

definition blank_hit :: "writing \<Rightarrow> response \<Rightarrow> bool" where
  "blank_hit w r = (r_assignment r \<in> w_blanked w
     \<or> (case w_group_of w (r_assignment r) of None \<Rightarrow> False | Some g \<Rightarrow> g \<in> w_blanked_groups w))"

lemma apply_upserts_eq:
  "apply_upserts d us index flds keys =
     bindE (apply_all (apply_one (wall d) (responses d) index flds keys) (start_writing (responses d)) us) (\<lambda>w.
     bindE (flush_rows w (unstamp_where (group_hit w) (w_rows w))) (\<lambda>rows.
       Inr (d\<lparr>responses := unstamp_where (blank_hit w) rows\<rparr>, w_written w,
         w_cleared w + stamped_where (group_hit w) (w_rows w) + stamped_where (blank_hit w) rows)))"
  unfolding apply_upserts_def Let_def group_hit_def [abs_def] blank_hit_def [abs_def] row_cell_def ..

lemma apply_upserts_Inr:
  assumes "apply_upserts d us index flds keys = Inr (d', n, c)"
  obtains w where "apply_all (apply_one (wall d) (responses d) index flds keys) (start_writing (responses d)) us = Inr w"
    "distinct (map row_cell (w_added w))"
    "d' = d\<lparr>responses := unstamp_where (blank_hit w)
        (filter (\<lambda>r. row_cell r \<notin> w_deleted w) (unstamp_where (group_hit w) (w_rows w)) @ w_added w)\<rparr>"
  using assms by (auto simp: apply_upserts_eq flush_rows_def split: if_splits)

lemma apply_upserts_stamped:
  assumes "apply_upserts d us index flds keys = Inr (d', n, c)"
  shows "{r \<in> set (responses d'). stamped r} \<subseteq> set (responses d)"
proof (rule apply_upserts_Inr [OF assms], rule subsetI)
  fix w r assume w: "apply_all (apply_one (wall d) (responses d) index flds keys) (start_writing (responses d)) us = Inr w"
    and d': "d' = d\<lparr>responses := unstamp_where (blank_hit w)
        (filter (\<lambda>r. row_cell r \<notin> w_deleted w) (unstamp_where (group_hit w) (w_rows w)) @ w_added w)\<rparr>"
    and "r \<in> {r \<in> set (responses d'). stamped r}"
  then have "stamped r" "r \<in> set (unstamp_where (blank_hit w)
        (filter (\<lambda>r. row_cell r \<notin> w_deleted w) (unstamp_where (group_hit w) (w_rows w)) @ w_added w))" by simp_all
  then have "stamped r" "r \<in> set (w_rows w @ w_added w)" by (auto dest!: unstamp_where_stamped)
  then show "r \<in> set (responses d)" using apply_all_stamped [OF w] by simp
qed

section \<open>Rows a write leaves alone\<close>

lemma index_of_Some: "index_of as k = Some a \<Longrightarrow> a \<in> set as \<and> a_id a = k"
proof -
  assume "index_of as k = Some a"
  then have "filter (\<lambda>x. a_id x = k) as \<noteq> []" "a = last (filter (\<lambda>x. a_id x = k) as)"
    by (auto simp: index_of_def dict_of_get Let_def split: if_splits)
  then have "a \<in> set (filter (\<lambda>x. a_id x = k) as)" using last_in_set by blast
  then show ?thesis by simp
qed

lemma index_of_distinct:
  assumes "distinct (map a_id as)" "a \<in> set as"
  shows "index_of as (a_id a) = Some a"
proof -
  have "a \<in> set (filter (\<lambda>x. a_id x = a_id a) as)" using assms(2) by simp
  then have "index_of as (a_id a) \<noteq> None" by (auto simp: index_of_def dict_of_get Let_def filter_empty_conv)
  then obtain b where b: "index_of as (a_id a) = Some b" by blast
  then have "b = a" using index_of_Some [OF b] assms by (auto simp: distinct_map inj_on_def)
  with b show ?thesis by simp
qed

definition notes_in :: "int set \<Rightarrow> writing \<Rightarrow> bool" where
  "notes_in ids w = (r_assignment ` set (w_added w) \<subseteq> ids \<and> fst ` w_deleted w \<subseteq> ids \<and> w_blanked w \<subseteq> ids \<and> (\<lambda>(_, c). fst c) ` set (w_unchanged w) \<subseteq> ids \<and> dom (w_group_of w) \<subseteq> ids)"

lemma notes_in_group: "notes_in ids w \<Longrightarrow> a_id a \<in> ids \<Longrightarrow> notes_in ids (with_group keys a w)"
  by (auto simp: notes_in_def with_group_def split: option.split)

lemma w_group_of_updates [simp]:
  "w_group_of (w\<lparr>w_rows := x\<rparr>) = w_group_of w" "w_group_of (w\<lparr>w_written := y\<rparr>) = w_group_of w"
  by simp_all

lemma apply_one_outside:
  assumes "apply_one now stored index flds keys w u = Inr w'"
    and "\<And>k a. index k = Some a \<Longrightarrow> a_id a \<in> ids" and "notes_in ids w"
  shows "filter (\<lambda>r. r_assignment r \<notin> ids) (w_rows w') = filter (\<lambda>r. r_assignment r \<notin> ids) (w_rows w)
    \<and> notes_in ids w'"
  using assms(1)
proof (cases rule: apply_one_cases)
  case skip
  then show ?thesis using assms(3) by simp
next
  case (blank_none a f)
  then have a: "a_id a \<in> ids" using assms(2) by (auto simp: cell_of_Some)
  show ?thesis using blank_none notes_in_group [OF assms(3) a] by simp
next
  case (blank_kept a f r)
  then have a: "a_id a \<in> ids" using assms(2) by (auto simp: cell_of_Some)
  show ?thesis using blank_kept notes_in_group [OF assms(3) a] by simp
next
  case (blanked a f r st)
  then have a: "a_id a \<in> ids" using assms(2) by (auto simp: cell_of_Some)
  show ?thesis using blanked notes_in_group [OF assms(3) a, of keys] a by (simp add: notes_in_def)
next
  case (added a f)
  then have a: "a_id a \<in> ids" using assms(2) by (auto simp: cell_of_Some)
  show ?thesis using added notes_in_group [OF assms(3) a, of keys] a by (simp add: notes_in_def new_row_def)
next
  case (changed a f r st)
  then have a: "a_id a \<in> ids" using assms(2) by (auto simp: cell_of_Some)
  have "filter (\<lambda>r. r_assignment r \<notin> ids)
        (map (\<lambda>r. if at_cell (a_id a) (f_id f) r
           then change_row now (u_value u) (stored_version stored (a_id a) (f_id f)) r else r) rows)
      = filter (\<lambda>r. r_assignment r \<notin> ids) rows" for rows
    using a by (induction rows) (auto simp: at_cell_def)
  then show ?thesis using changed notes_in_group [OF assms(3) a, of keys] by (simp add: notes_in_def)
next
  case (unchanged a f r)
  then have a: "a_id a \<in> ids" using assms(2) by (auto simp: cell_of_Some)
  show ?thesis using unchanged notes_in_group [OF assms(3) a, of keys] a
    by (auto simp: notes_in_def split: option.split)
qed

lemma unstamp_where_outside:
  assumes "\<And>r. P r \<Longrightarrow> r_assignment r \<in> ids"
  shows "filter (\<lambda>r. r_assignment r \<notin> ids) (unstamp_where P rows) = filter (\<lambda>r. r_assignment r \<notin> ids) rows"
  unfolding unstamp_where_def using assms by (induction rows) auto

lemma apply_upserts_outside:
  assumes "apply_upserts d us index flds keys = Inr (d', n, c)"
    and "\<And>k a. index k = Some a \<Longrightarrow> a_id a \<in> ids"
  shows "filter (\<lambda>r. r_assignment r \<notin> ids) (responses d') = filter (\<lambda>r. r_assignment r \<notin> ids) (responses d)"
    and "\<exists>rows. d' = d\<lparr>responses := rows\<rparr>"
proof -
  obtain w where w: "apply_all (apply_one (wall d) (responses d) index flds keys) (start_writing (responses d)) us = Inr w"
    and d': "d' = d\<lparr>responses := unstamp_where (blank_hit w)
        (filter (\<lambda>r. row_cell r \<notin> w_deleted w) (unstamp_where (group_hit w) (w_rows w)) @ w_added w)\<rparr>"
    using assms(1) by (rule apply_upserts_Inr)
  then show "\<exists>rows. d' = d\<lparr>responses := rows\<rparr>" by blast
  have I: "filter (\<lambda>r. r_assignment r \<notin> ids) (w_rows w) = filter (\<lambda>r. r_assignment r \<notin> ids) (responses d) \<and> notes_in ids w"
    by (rule apply_all_invariant [where I = "\<lambda>w. filter (\<lambda>r. r_assignment r \<notin> ids) (w_rows w)
        = filter (\<lambda>r. r_assignment r \<notin> ids) (responses d) \<and> notes_in ids w", OF w])
      (use apply_one_outside assms(2) in \<open>simp_all add: notes_in_def [of _ "start_writing (responses d)"]\<close>)
  have group: "r_assignment r \<in> ids" if "group_hit w r" for r
    using that I by (force simp: group_hit_def notes_in_def row_cell_def)
  have blank: "r_assignment r \<in> ids" if "blank_hit w r" for r
    using that I by (auto simp: blank_hit_def notes_in_def split: option.splits)
  have gone: "filter (\<lambda>r. r_assignment r \<notin> ids) (filter (\<lambda>r. row_cell r \<notin> w_deleted w) rows)
      = filter (\<lambda>r. r_assignment r \<notin> ids) rows" for rows
    unfolding filter_filter using I by (intro filter_cong) (auto simp: notes_in_def row_cell_def)
  have new: "filter (\<lambda>r. r_assignment r \<notin> ids) (w_added w) = []"
    using I by (auto simp: notes_in_def filter_empty_conv)
  show "filter (\<lambda>r. r_assignment r \<notin> ids) (responses d') = filter (\<lambda>r. r_assignment r \<notin> ids) (responses d)"
    using I by (simp add: d' unstamp_where_outside [OF blank] unstamp_where_outside [OF group] gone new del: filter_filter)
qed

section \<open>The shared part of save and submit\<close>

lemma write_posted_Inr:
  assumes "write_posted d sid reviewer_id upserts = Inr p"
  obtains s valid0 keys0 gids d1 where
    "require_accepting_responses d sid = Inr s"
    "po_assigned p = reviewer_assignments d reviewer_id sid"
    "gids = group_instrument_ids d (a_instrument ` set (po_assigned p))"
    "keys0 = group_key_by_assignment d (po_assigned p) gids sid"
    "po_excluded p = fst (excluded_group_members d reviewer_id sid (po_assigned p) gids keys0)"
    "po_keys p = (\<lambda>k. case snd (excluded_group_members d reviewer_id sid (po_assigned p) gids keys0) k of
        None \<Rightarrow> keys0 k | Some g \<Rightarrow> Some g)"
    "po_upserts p = filter (\<lambda>u. index_of (po_assigned p) (u_assignment u) \<noteq> None) upserts"
    "split_validated d (a_instrument ` set (po_assigned p)) (po_upserts p) (index_of (po_assigned p))
       (field_index d (a_instrument ` set (po_assigned p))) (session_position_map d sid) = Inr (valid0, po_errors p)"
    "apply_upserts d (expand_group_upserts valid0 (po_assigned p @ po_excluded p) gids (po_keys p))
       (index_of (po_assigned p @ po_excluded p)) (field_index d (a_instrument ` set (po_assigned p))) (po_keys p)
       = Inr (d1, po_written p, po_cleared p)"
    "drop_closed_branch_answers d1 (u_assignment ` set (expand_group_upserts valid0 (po_assigned p @ po_excluded p) gids (po_keys p)))
       = (po_db p, po_removed p)"
proof -
  define assigned where "assigned = reviewer_assignments d reviewer_id sid"
  define ids where "ids = a_instrument ` set assigned"
  define gids where "gids = group_instrument_ids d ids"
  define keys0 where "keys0 = group_key_by_assignment d assigned gids sid"
  define ups where "ups = filter (\<lambda>u. index_of assigned (u_assignment u) \<noteq> None) upserts"
  obtain excluded ekeys where e: "excluded_group_members d reviewer_id sid assigned gids keys0 = (excluded, ekeys)"
    by (cases "excluded_group_members d reviewer_id sid assigned gids keys0")
  define keys where "keys = (\<lambda>k. case ekeys k of None \<Rightarrow> keys0 k | Some g \<Rightarrow> Some g)"
  obtain s where s: "require_accepting_responses d sid = Inr s"
    using assms by (auto simp: write_posted_def)
  note eq1 = assms [unfolded write_posted_def s bindE_simps Let_def, folded assigned_def,
      folded ids_def, folded gids_def ups_def, folded keys0_def]
  obtain valid0 errors where v: "split_validated d ids ups (index_of assigned) (field_index d ids)
      (session_position_map d sid) = Inr (valid0, errors)"
    using eq1 by auto
  note eq2 = eq1 [unfolded v bindE_simps prod.case e, folded keys_def]
  define valid where "valid = expand_group_upserts valid0 (assigned @ excluded) gids keys"
  note eq3 = eq2 [folded valid_def]
  obtain d1 written cleared where a: "apply_upserts d valid (index_of (assigned @ excluded)) (field_index d ids) keys
      = Inr (d1, written, cleared)"
    using eq3 by auto
  obtain d2 removed where r: "drop_closed_branch_answers d1 (u_assignment ` set valid) = (d2, removed)"
    by (cases "drop_closed_branch_answers d1 (u_assignment ` set valid)")
  have p: "p = \<lparr>po_db = d2, po_assigned = assigned, po_excluded = excluded, po_keys = keys,
                po_upserts = ups, po_errors = errors, po_written = written, po_cleared = cleared,
                po_removed = removed\<rparr>"
    using eq3 [unfolded a bindE_simps prod.case r] by simp
  show ?thesis
    by (rule that [of s gids keys0 valid0 d1])
      (use s v a r e in \<open>simp_all add: p assigned_def [symmetric] ids_def [symmetric] gids_def keys0_def keys_def ups_def valid_def\<close>)
qed

end
