(* ===== verification/Reviewer_Writes.thy ===== *)
theory Reviewer_Writes
  imports Responses_Facts
begin

text \<open>
  The contract of a reviewer's four writes, stated once as an interface and met by the model,
  and the properties of each of them.
\<close>

section \<open>One write\<close>

definition written_ids :: "db \<Rightarrow> int \<Rightarrow> int \<Rightarrow> int set" where
  "written_ids d sid reviewer_id = a_id ` set (with_excluded_group_members d reviewer_id sid)"

lemma reviewer_assignments_set:
  "a \<in> set (reviewer_assignments d reviewer_id sid) \<longleftrightarrow>
     a \<in> set (assignments d) \<and> a_session a = sid \<and> a_reviewer a = reviewer_id \<and> a_include a"
  by (auto simp: reviewer_assignments_def)

lemma excluded_set:
  assumes "a \<in> set (fst (excluded_group_members d reviewer_id sid as gids keys))"
  shows "a \<in> set (assignments d) \<and> a_session a = sid \<and> a_reviewer a = reviewer_id \<and> \<not> a_include a
    \<and> (\<exists>b \<in> set as. a_instrument b = a_instrument a)"
  using assms by (auto simp: excluded_group_members_def Let_def split: if_splits)

lemma written_ids_own:
  assumes "k \<in> written_ids d sid reviewer_id"
  shows "\<exists>a \<in> set (assignments d). a_id a = k \<and> a_session a = sid \<and> a_reviewer a = reviewer_id"
  using assms by (auto simp: written_ids_def with_excluded_group_members_def Let_def reviewer_assignments_set
      dest!: excluded_set)

lemma posted_written_ids:
  assumes "write_posted d sid reviewer_id ups = Inr p"
  shows "a_id ` set (po_assigned p @ po_excluded p) = written_ids d sid reviewer_id"
  using assms
  by (rule write_posted_Inr) (simp add: written_ids_def with_excluded_group_members_def Let_def)

lemma drop_frame: "drop_closed_branch_answers d ids = (d', n) \<Longrightarrow> \<exists>rows. d' = d\<lparr>responses := rows\<rparr>"
proof -
  assume "drop_closed_branch_answers d ids = (d', n)"
  then have "d' = d\<lparr>responses := responses d\<rparr> \<or> (\<exists>rows. d' = d\<lparr>responses := rows\<rparr>)"
    by (auto simp: drop_closed_branch_answers_def Let_def split: if_splits)
  then show ?thesis by blast
qed

lemma expand_ids:
  assumes "\<And>u. u \<in> set ups \<Longrightarrow> u_assignment u \<in> ids" "a_id ` set as \<subseteq> ids"
    and "u \<in> set (expand_group_upserts ups as gids keys)"
  shows "u_assignment u \<in> ids"
proof -
  have members: "set (members_by_group as gids keys k) \<subseteq> a_id ` set as" for k
    by (auto simp: members_by_group_def group_into_get Let_def or_nil_def)
  show ?thesis
    using assms members by (auto simp: expand_group_upserts_def fan_out_def split: if_splits) blast
qed

lemma judge_assignment:
  assumes "judge d index flds pos u = Inr (Inl v)"
  shows "u_assignment v = u_assignment u"
  using assms by (auto simp: judge_def split: option.splits if_splits)

lemma judge_all_valid:
  assumes "judge_all j us = Inr (ok, bad)"
  shows "\<forall>v \<in> set ok. \<exists>u \<in> set us. j u = Inr (Inl v)"
  using assms
proof (induction us arbitrary: ok bad)
  case (Cons u us)
  obtain r ok' bad' where r: "j u = Inr r" "judge_all j us = Inr (ok', bad')"
    "(ok, bad) = (case r of Inl v \<Rightarrow> (v # ok', bad') | Inr e \<Rightarrow> (ok', e # bad'))"
    using Cons.prems by auto
  show ?case using Cons.IH [OF r(2)] r by (cases r) auto
qed simp

lemma split_validated_ids:
  assumes "split_validated d ids us index flds pos = Inr (ok, bad)" "v \<in> set ok"
  shows "\<exists>u \<in> set us. u_assignment u = u_assignment v"
proof -
  obtain ok0 bad0 where "judge_all (judge d index flds pos) us = Inr (ok0, bad0)" "set ok \<subseteq> set ok0"
    using assms(1) by (auto simp: split_validated_def Let_def)
  then obtain u where "u \<in> set us" "judge d index flds pos u = Inr (Inl v)"
    using judge_all_valid assms(2) by blast
  then show ?thesis using judge_assignment by metis
qed

lemma posted_frame:
  assumes "write_posted d sid reviewer_id ups = Inr p"
  shows "filter (\<lambda>r. r_assignment r \<notin> written_ids d sid reviewer_id) (responses (po_db p))
      = filter (\<lambda>r. r_assignment r \<notin> written_ids d sid reviewer_id) (responses d)"
    and "\<exists>rows. po_db p = d\<lparr>responses := rows\<rparr>"
    and "{r \<in> set (responses (po_db p)). stamped r} \<subseteq> set (responses d)"
proof -
  let ?W = "written_ids d sid reviewer_id"
  note W = posted_written_ids [OF assms]
  obtain s valid0 keys0 gids d1 where
    ups: "po_upserts p = filter (\<lambda>u. index_of (po_assigned p) (u_assignment u) \<noteq> None) ups"
    and split: "split_validated d (a_instrument ` set (po_assigned p)) (po_upserts p) (index_of (po_assigned p))
       (field_index d (a_instrument ` set (po_assigned p))) (session_position_map d sid) = Inr (valid0, po_errors p)"
    and app: "apply_upserts d (expand_group_upserts valid0 (po_assigned p @ po_excluded p) gids (po_keys p))
       (index_of (po_assigned p @ po_excluded p)) (field_index d (a_instrument ` set (po_assigned p))) (po_keys p)
       = Inr (d1, po_written p, po_cleared p)"
    and drop: "drop_closed_branch_answers d1 (u_assignment ` set (expand_group_upserts valid0 (po_assigned p @ po_excluded p) gids (po_keys p)))
       = (po_db p, po_removed p)"
    using assms by (rule write_posted_Inr) blast
  have posted: "u_assignment u \<in> ?W" if u: "u \<in> set (po_upserts p)" for u
  proof -
    obtain a where "index_of (po_assigned p) (u_assignment u) = Some a" using u by (auto simp: ups)
    from index_of_Some [OF this] have "u_assignment u \<in> a_id ` set (po_assigned p @ po_excluded p)"
      by (intro image_eqI [of _ _ a]) simp_all
    then show ?thesis by (simp only: W)
  qed
  have valid: "u_assignment u \<in> ?W"
    if "u \<in> set (expand_group_upserts valid0 (po_assigned p @ po_excluded p) gids (po_keys p))" for u
  proof (rule expand_ids [OF _ _ that])
    show "u_assignment u \<in> ?W" if "u \<in> set valid0" for u
      using split_validated_ids [OF split that] posted by metis
    show "a_id ` set (po_assigned p @ po_excluded p) \<subseteq> ?W" by (simp only: W order_refl)
  qed
  let ?valid = "u_assignment ` set (expand_group_upserts valid0 (po_assigned p @ po_excluded p) gids (po_keys p))"
  have sub: "?valid \<subseteq> ?W" using valid by (rule image_subsetI)
  obtain P where P0: "responses (po_db p) = filter P (responses d1)" "\<forall>r. r_assignment r \<notin> ?valid \<longrightarrow> P r"
    using drop_responses [OF drop] by (elim exE conjE)
  have P: "responses (po_db p) = filter P (responses d1)" "\<And>r. r_assignment r \<notin> ?W \<Longrightarrow> P r"
    using P0 sub by (simp, meson subsetD)
  have idx: "a_id a \<in> ?W" if "index_of (po_assigned p @ po_excluded p) k = Some a" for k a
    using index_of_Some [OF that] by (subst W [symmetric]) (rule imageI, elim conjE)
  have out1: "filter (\<lambda>r. r_assignment r \<notin> ?W) (responses d1) = filter (\<lambda>r. r_assignment r \<notin> ?W) (responses d)"
    using app by (rule apply_upserts_outside(1)) (rule idx)
  have out2: "\<exists>rows. d1 = d\<lparr>responses := rows\<rparr>"
    using app by (rule apply_upserts_outside(2)) (rule idx)
  have "filter (\<lambda>r. r_assignment r \<notin> ?W) (filter P rows) = filter (\<lambda>r. r_assignment r \<notin> ?W) rows" for rows
    using P(2) by (induction rows) auto
  then show "filter (\<lambda>r. r_assignment r \<notin> ?W) (responses (po_db p)) = filter (\<lambda>r. r_assignment r \<notin> ?W) (responses d)"
    using out1 P(1) by simp
  obtain r1 where "d1 = d\<lparr>responses := r1\<rparr>" using out2 by (elim exE)
  then show "\<exists>rows. po_db p = d\<lparr>responses := rows\<rparr>" using drop_frame [OF drop] by auto
  show "{r \<in> set (responses (po_db p)). stamped r} \<subseteq> set (responses d)"
    using apply_upserts_stamped [OF app] P(1) by auto
qed

section \<open>The contract\<close>

datatype reviewer_action = Save "upsert list" | Submit "upsert list" | Recall | Clear

fun run_reviewer :: "reviewer_action \<Rightarrow> int option \<Rightarrow> int \<Rightarrow> int \<Rightarrow> db \<Rightarrow> db result" where
  "run_reviewer (Save us) user sid rid d = map_sum id fst (save_draft d sid rid user us)"
| "run_reviewer (Submit us) user sid rid d = map_sum id fst (submit d sid rid user us)"
| "run_reviewer Recall user sid rid d = map_sum id fst (recall d sid rid user)"
| "run_reviewer Clear user sid rid d = map_sum id fst (clear_all d sid rid user)"

text \<open>Which rows a reviewer may write does not depend on the responses or the log.\<close>

lemma reads_cong:
  "reviewer_assignments (d\<lparr>responses := rows, audit_log := es\<rparr>) rid sid = reviewer_assignments d rid sid"
  "group_instrument_ids (d\<lparr>responses := rows, audit_log := es\<rparr>) ids = group_instrument_ids d ids"
  "boundary_of (d\<lparr>responses := rows, audit_log := es\<rparr>) = boundary_of d"
  "pair_context_lookup (d\<lparr>responses := rows, audit_log := es\<rparr>) = pair_context_lookup d"
  "reviewee_by_id (d\<lparr>responses := rows, audit_log := es\<rparr>) = reviewee_by_id d"
  by (simp_all add: reviewer_assignments_def group_instrument_ids_def boundary_of_def [abs_def]
      pair_context_lookup_def [abs_def] list_for_session_def reviewee_by_id_def [abs_def])

lemma group_key_cong:
  "group_key_by_assignment (d\<lparr>responses := rows, audit_log := es\<rparr>) as gids sid = group_key_by_assignment d as gids sid"
  unfolding group_key_by_assignment_def reads_cong ..

lemma excluded_cong:
  "excluded_group_members (d\<lparr>responses := rows, audit_log := es\<rparr>) rid sid as gids keys
     = excluded_group_members d rid sid as gids keys"
  unfolding excluded_group_members_def group_key_cong by simp

lemma written_ids_cong: "written_ids (d\<lparr>responses := rows, audit_log := es\<rparr>) sid rid = written_ids d sid rid"
  unfolding written_ids_def with_excluded_group_members_def reads_cong group_key_cong excluded_cong ..

text \<open>
  What the callers of a reviewer's write rely on: it lands only in a session that is ongoing at
  its own clock, it changes nothing but responses and the log, it reaches no response outside
  the rows the reviewer may write, and it files what it did under the session.
\<close>

definition all_written :: "db \<Rightarrow> ('act \<times> int \<times> int) list \<Rightarrow> int set" where
  "all_written d cs = (\<Union>(act, sid, rid) \<in> set cs. written_ids d sid rid)"

locale reviewer_operations =
  fixes run :: "'act \<Rightarrow> int \<Rightarrow> int \<Rightarrow> db \<Rightarrow> db result"
  assumes ongoing: "run act sid rid d = Inr d' \<Longrightarrow> \<exists>s. sessions d sid = Some s \<and> is_ongoing (wall d) s"
    and outside: "run act sid rid d = Inr d' \<Longrightarrow> filter (\<lambda>r. r_assignment r \<notin> written_ids d sid rid) (responses d')
          = filter (\<lambda>r. r_assignment r \<notin> written_ids d sid rid) (responses d)"
    and frame: "run act sid rid d = Inr d' \<Longrightarrow> \<exists>rows es. d' = d\<lparr>responses := rows, audit_log := audit_log d @ es\<rparr>
          \<and> (\<forall>e \<in> set es. ev_session e = Some sid)"
begin

definition perform :: "db \<Rightarrow> 'act \<times> int \<times> int \<Rightarrow> db" where
  "perform d c = (case c of (act, sid, rid) \<Rightarrow> case run act sid rid d of Inl _ \<Rightarrow> d | Inr d' \<Rightarrow> d')"

lemma perform_step:
  shows "\<exists>rows es. perform d (act, sid, rid) = d\<lparr>responses := rows, audit_log := audit_log d @ es\<rparr>
      \<and> (\<forall>e \<in> set es. ev_session e = Some sid)"
    and "filter (\<lambda>r. r_assignment r \<notin> written_ids d sid rid) (responses (perform d (act, sid, rid)))
      = filter (\<lambda>r. r_assignment r \<notin> written_ids d sid rid) (responses d)"
proof -
  show "\<exists>rows es. perform d (act, sid, rid) = d\<lparr>responses := rows, audit_log := audit_log d @ es\<rparr>
      \<and> (\<forall>e \<in> set es. ev_session e = Some sid)"
  proof (cases "run act sid rid d")
    case (Inl e)
    then show ?thesis by (intro exI [of _ "responses d"] exI [of _ "[]"]) (simp add: perform_def)
  next
    case (Inr d')
    then show ?thesis using frame [OF Inr] by (simp add: perform_def)
  qed
  show "filter (\<lambda>r. r_assignment r \<notin> written_ids d sid rid) (responses (perform d (act, sid, rid)))
      = filter (\<lambda>r. r_assignment r \<notin> written_ids d sid rid) (responses d)"
    using outside [of act sid rid d] by (cases "run act sid rid d") (auto simp: perform_def)
qed

text \<open>Any sequence of calls, those that fail included.\<close>

lemma performed:
  shows "\<exists>rows es. foldl perform d cs = d\<lparr>responses := rows, audit_log := audit_log d @ es\<rparr>
      \<and> (\<forall>e \<in> set es. \<exists>(act, sid, rid) \<in> set cs. ev_session e = Some sid)
      \<and> filter (\<lambda>r. r_assignment r \<notin> all_written d cs) rows
         = filter (\<lambda>r. r_assignment r \<notin> all_written d cs) (responses d)"
proof (induction cs rule: rev_induct)
  case Nil
  have "d = d\<lparr>responses := responses d, audit_log := audit_log d @ []\<rparr>" by simp
  then show ?case by (intro exI [of _ "responses d"] exI [of _ "[]"]) simp
next
  case (snoc c cs)
  obtain act sid rid where c: "c = (act, sid, rid)" by (cases c)
  let ?W = "all_written d"
  obtain rows es where IH: "foldl perform d cs = d\<lparr>responses := rows, audit_log := audit_log d @ es\<rparr>"
      "\<forall>e \<in> set es. \<exists>(act, sid, rid) \<in> set cs. ev_session e = Some sid"
      "filter (\<lambda>r. r_assignment r \<notin> ?W cs) rows = filter (\<lambda>r. r_assignment r \<notin> ?W cs) (responses d)"
    using snoc by blast
  let ?e = "d\<lparr>responses := rows, audit_log := audit_log d @ es\<rparr>"
  obtain rows' es' where step: "perform ?e c = ?e\<lparr>responses := rows', audit_log := audit_log ?e @ es'\<rparr>"
      "\<forall>e \<in> set es'. ev_session e = Some sid"
    using perform_step(1) [where d = ?e and act = act and sid = sid and rid = rid] c by blast
  have out: "filter (\<lambda>r. r_assignment r \<notin> written_ids d sid rid) rows'
      = filter (\<lambda>r. r_assignment r \<notin> written_ids d sid rid) rows"
    using perform_step(2) [where d = ?e and act = act and sid = sid and rid = rid] step(1) c by (simp add: written_ids_cong)
  have W: "?W (cs @ [c]) = ?W cs \<union> written_ids d sid rid" using c by (auto simp: all_written_def)
  have split: "filter (\<lambda>r. r_assignment r \<notin> ?W cs \<union> written_ids d sid rid) xs
      = filter (\<lambda>r. r_assignment r \<notin> ?W cs) (filter (\<lambda>r. r_assignment r \<notin> written_ids d sid rid) xs)"
    "filter (\<lambda>r. r_assignment r \<notin> ?W cs \<union> written_ids d sid rid) xs
      = filter (\<lambda>r. r_assignment r \<notin> written_ids d sid rid) (filter (\<lambda>r. r_assignment r \<notin> ?W cs) xs)" for xs :: "response list"
    by (auto intro: filter_cong)
  have "filter (\<lambda>r. r_assignment r \<notin> ?W cs \<union> written_ids d sid rid) rows'
      = filter (\<lambda>r. r_assignment r \<notin> ?W cs \<union> written_ids d sid rid) (responses d)"
    by (metis IH(3) out split)
  moreover have "foldl perform d (cs @ [c]) = d\<lparr>responses := rows', audit_log := audit_log d @ (es @ es')\<rparr>"
    using IH(1) step(1) by simp
  moreover have "\<forall>e \<in> set (es @ es'). \<exists>(act, sid, rid) \<in> set (cs @ [c]). ev_session e = Some sid"
    using IH(2) step(2) c by auto
  ultimately show ?case unfolding W by blast
qed

end

lemma ongoing_gate:
  assumes "require_accepting_responses d sid = Inr s"
  shows "sessions d sid = Some s" "is_ongoing (wall d) s"
proof -
  have "lock_session d sid True = Inr s" "is_ready s" "\<not> deadline_has_passed (wall d) s"
    using assms by (simp_all add: require_accepting_responses_def require_state_Inr)
  then show "sessions d sid = Some s" "is_ongoing (wall d) s"
    by (auto simp: is_ongoing_def deadline_has_passed_def dest: lock_session_Inr split: option.splits)
qed

lemma write_event_rows:
  "\<exists>es. write_event ty u (Some sid) pl rs rf cx (d\<lparr>responses := rows\<rparr>)
     = d\<lparr>responses := rows, audit_log := audit_log d @ es\<rparr> \<and> (\<forall>e \<in> set es. ev_session e = Some sid)"
  by (rule exI [of _ "[\<lparr>ev_type = ty, ev_session = Some sid, ev_actor = u, ev_payload = pl, ev_reason = rs,
      ev_refs = rf, ev_context = with_fired_by (d\<lparr>responses := rows\<rparr>) ty cx, ev_created_at = Aware (wall d)\<rparr>]"])
    (simp add: write_event_def)

text \<open>How a submit ends: blocked by errors or by missing answers, or stamped.\<close>

lemma submit_Inr:
  assumes "submit d sid rid user us = Inr (d', res)"
  obtains (refused) p where "write_posted d sid rid us = Inr p" "po_errors p \<noteq> [] \<or> sr_missing res \<noteq> []"
      "\<not> sr_submitted res" "sr_errors res = po_errors p" "d' = audit_blocked_drafts sid user rid p"
      "po_errors p = [] \<Longrightarrow> sr_missing res = compute_missing_required (po_db p) (po_assigned p)
         (instrument_fields_by_id d (a_instrument ` set (po_assigned p))) (session_position_map d sid) (po_keys p)"
  | (submitted) p counts where "write_posted d sid rid us = Inr p" "po_errors p = []" "sr_submitted res"
      "compute_missing_required (po_db p) (po_assigned p)
         (instrument_fields_by_id d (a_instrument ` set (po_assigned p))) (session_position_map d sid) (po_keys p) = []"
      "d' = write_event ''responses.submitted'' user (Some sid) (Counts counts) None [(''reviewer_id'', rid)] []
         ((po_db p)\<lparr>responses := stamp_rows (wall d) (written_ids d sid rid) (responses (po_db p))\<rparr>)"
      "sr_count res = int (length (filter (\<lambda>r. r_assignment r \<in> written_ids d sid rid) (responses (po_db p))))"
proof -
  obtain p where p: "write_posted d sid rid us = Inr p" using assms by (auto simp: submit_def)
  note eq = assms [unfolded submit_def p bindE_simps Let_def posted_written_ids [OF p]]
  show ?thesis
  proof (cases "po_errors p = [] \<and> compute_missing_required (po_db p) (po_assigned p)
         (instrument_fields_by_id d (a_instrument ` set (po_assigned p))) (session_position_map d sid) (po_keys p) = []")
    case True
    let ?n = "int (length (filter (\<lambda>r. r_assignment r \<in> written_ids d sid rid) (responses (po_db p))))"
    from eq True have "write_event ''responses.submitted'' user (Some sid)
        (Counts ((''submitted'', ?n) # (if po_removed p \<noteq> 0 then [(''branch_answers_removed'', int (po_removed p))] else [])))
        None [(''reviewer_id'', rid)] []
        ((po_db p)\<lparr>responses := stamp_rows (wall d) (written_ids d sid rid) (responses (po_db p))\<rparr>) = d'"
      and "\<lparr>sr_submitted = True, sr_missing = [], sr_errors = [], sr_count = ?n\<rparr> = res"
      by (simp_all only: simp_thms if_False if_True sum.inject prod.inject)
    then show ?thesis using True by (intro submitted [OF p]) (auto simp del: write_event_simps)
  next
    case False
    then show ?thesis using eq by (intro refused [OF p]) (auto split: if_splits)
  qed
qed

text \<open>The end state of each write: rows the call computes, and one event or none.\<close>

lemma run_reviewer_ends:
  assumes "run_reviewer act user sid rid d = Inr d'"
  obtains s rows es where "require_accepting_responses d sid = Inr s"
    "d' = d\<lparr>responses := rows, audit_log := audit_log d @ es\<rparr>" "\<forall>e \<in> set es. ev_session e = Some sid"
    "filter (\<lambda>r. r_assignment r \<notin> written_ids d sid rid) rows
       = filter (\<lambda>r. r_assignment r \<notin> written_ids d sid rid) (responses d)"
proof -
  let ?W = "written_ids d sid rid"
  have own: "filter (\<lambda>r. r_assignment r \<notin> ?W) (stamp_rows n ?W xs) = filter (\<lambda>r. r_assignment r \<notin> ?W) xs"
    "filter (\<lambda>r. r_assignment r \<notin> ?W) (unstamp_where (\<lambda>r. r_assignment r \<in> ?W) xs) = filter (\<lambda>r. r_assignment r \<notin> ?W) xs"
    for n xs
    by (induction xs) (simp_all add: stamp_rows_def unstamp_where_def)
  have posted: "\<exists>s rows es. require_accepting_responses d sid = Inr s
      \<and> d' = d\<lparr>responses := rows, audit_log := audit_log d @ es\<rparr> \<and> (\<forall>e \<in> set es. ev_session e = Some sid)
      \<and> filter (\<lambda>r. r_assignment r \<notin> ?W) rows = filter (\<lambda>r. r_assignment r \<notin> ?W) (responses d)"
    if w: "write_posted d sid rid us = Inr p"
      and e: "d' = po_db p \<or> (\<exists>ty pl rf. d' = write_event ty user (Some sid) pl None rf [] (po_db p))
        \<or> (\<exists>n ty pl rf. d' = write_event ty user (Some sid) pl None rf [] ((po_db p)\<lparr>responses := stamp_rows n ?W (responses (po_db p))\<rparr>))"
    for us p
  proof -
    obtain s where s: "require_accepting_responses d sid = Inr s" using w by (rule write_posted_Inr)
    obtain rows where rows: "po_db p = d\<lparr>responses := rows\<rparr>" using posted_frame(2) [OF w] by blast
    from e show ?thesis
    proof (elim disjE exE)
      assume "d' = po_db p"
      then show ?thesis using s rows posted_frame(1) [OF w]
        by (intro exI [of _ s] exI [of _ rows] exI [of _ "[]"]) simp
    next
      fix ty pl rf
      assume "d' = write_event ty user (Some sid) pl None rf [] (po_db p)"
      then show ?thesis using s rows posted_frame(1) [OF w] write_event_rows [where ty = ty and u = user and sid = sid and pl = pl and rs = None and rf = rf and cx = "[]" and d = d and rows = rows]
        by auto
    next
      fix n ty pl rf
      assume "d' = write_event ty user (Some sid) pl None rf [] ((po_db p)\<lparr>responses := stamp_rows n ?W (responses (po_db p))\<rparr>)"
      then show ?thesis using s rows posted_frame(1) [OF w] own(1) [of n rows]
          write_event_rows [where ty = ty and u = user and sid = sid and pl = pl and rs = None and rf = rf and cx = "[]" and d = d and rows = "stamp_rows n ?W rows"]
        by auto
    qed
  qed
  show ?thesis
  proof (cases act)
    case (Save us)
    then obtain p where p: "write_posted d sid rid us = Inr p" "d' = write_saved sid user rid p"
      using assms by (cases "save_draft d sid rid user us") (auto simp: save_draft_def)
    show ?thesis using posted [OF p(1)] p(2) that unfolding write_saved_def by blast
  next
    case (Submit us)
    then obtain p where p: "write_posted d sid rid us = Inr p"
      using assms by (cases "submit d sid rid user us") (auto simp: submit_def)
    have "d' = po_db p \<or> (\<exists>ty pl rf. d' = write_event ty user (Some sid) pl None rf [] (po_db p))
        \<or> (\<exists>n ty pl rf. d' = write_event ty user (Some sid) pl None rf [] ((po_db p)\<lparr>responses := stamp_rows n ?W (responses (po_db p))\<rparr>))"
      if "submit d sid rid user us = Inr (d', res)" for res
      using that
    proof (cases rule: submit_Inr)
      case (refused q)
      then show ?thesis using p by (auto simp: audit_blocked_drafts_def write_saved_def)
    next
      case (submitted q counts)
      from submitted(1) p have "q = p" by simp
      with submitted(5) have "d' = write_event ''responses.submitted'' user (Some sid) (Counts counts) None
          [(''reviewer_id'', rid)] [] ((po_db p)\<lparr>responses := stamp_rows (wall d) ?W (responses (po_db p))\<rparr>)"
        by simp
      then show ?thesis by blast
    qed
    moreover obtain res where "submit d sid rid user us = Inr (d', res)"
      using assms Submit by (cases "submit d sid rid user us") auto
    ultimately show ?thesis using posted [OF p] that by blast
  next
    case Recall
    then obtain s where s: "require_accepting_responses d sid = Inr s"
      using assms by (cases "recall d sid rid user") (auto simp: recall_def)
    have "d' = write_event ''responses.recalled'' user (Some sid)
        (Counts [(''recalled'', stamped_where (\<lambda>r. r_assignment r \<in> ?W) (responses d))]) None [(''reviewer_id'', rid)] []
        (d\<lparr>responses := unstamp_where (\<lambda>r. r_assignment r \<in> ?W) (responses d)\<rparr>)"
      using assms Recall s by (auto simp: recall_def Let_def written_ids_def)
    then show ?thesis using that [OF s] own(2) [of "responses d"] write_event_rows by metis
  next
    case Clear
    then obtain s where s: "require_accepting_responses d sid = Inr s"
      using assms by (cases "clear_all d sid rid user") (auto simp: clear_all_def)
    have d': "d' = write_event ''responses.cleared'' user (Some sid)
        (Counts [(''deleted'', int (length (filter (\<lambda>r. r_assignment r \<in> ?W) (responses d))))]) None
        [(''reviewer_id'', rid)] [] (d\<lparr>responses := filter (\<lambda>r. r_assignment r \<notin> ?W) (responses d)\<rparr>)"
      using assms Clear s by (auto simp: clear_all_def Let_def written_ids_def)
    have "filter (\<lambda>r. r_assignment r \<notin> ?W) (filter (\<lambda>r. r_assignment r \<notin> ?W) (responses d))
        = filter (\<lambda>r. r_assignment r \<notin> ?W) (responses d)" by simp
    then show ?thesis using d' that [OF s] write_event_rows by metis
  qed
qed

interpretation reviewer_ops: reviewer_operations "\<lambda>(act, user). run_reviewer act user"
proof
  fix act :: "reviewer_action \<times> int option" and sid rid d d'
  obtain a u where au: "act = (a, u)" by (cases act)
  assume "(case act of (act, user) \<Rightarrow> run_reviewer act user) sid rid d = Inr d'"
  then have run: "run_reviewer a u sid rid d = Inr d'" by (simp add: au)
  obtain s rows es where e: "require_accepting_responses d sid = Inr s"
    "d' = d\<lparr>responses := rows, audit_log := audit_log d @ es\<rparr>" "\<forall>e \<in> set es. ev_session e = Some sid"
    "filter (\<lambda>r. r_assignment r \<notin> written_ids d sid rid) rows
       = filter (\<lambda>r. r_assignment r \<notin> written_ids d sid rid) (responses d)"
    using run by (rule run_reviewer_ends)
  show "\<exists>s. sessions d sid = Some s \<and> is_ongoing (wall d) s" using ongoing_gate [OF e(1)] by blast
  show "filter (\<lambda>r. r_assignment r \<notin> written_ids d sid rid) (responses d')
      = filter (\<lambda>r. r_assignment r \<notin> written_ids d sid rid) (responses d)" using e by simp
  show "\<exists>rows es. d' = d\<lparr>responses := rows, audit_log := audit_log d @ es\<rparr>
      \<and> (\<forall>e \<in> set es. ev_session e = Some sid)" using e by blast
qed

abbreviation reviewer_call :: "reviewer_action \<times> int option \<Rightarrow> int \<Rightarrow> int \<Rightarrow> db \<Rightarrow> db result" where
  "reviewer_call \<equiv> \<lambda>(act, user). run_reviewer act user"

end
