(* ===== verification/Reviewer_Properties.thy ===== *)
theory Reviewer_Properties
  imports Reviewer_Writes
begin

text \<open>
  What a reviewer's writes promise: calls stay on the reviewer's own rows and fail closed
  outside the review, an edited answer loses its submission stamp, a submit leaves nothing
  required unanswered, a recall takes back exactly what was submitted, and the rows written
  refine a map of cells to answers.
\<close>

section \<open>Sequences of calls\<close>

fun reviewer_step :: "db \<Rightarrow> (reviewer_action \<times> int option) \<times> int \<times> int \<Rightarrow> db" where
  "reviewer_step d ((act, user), sid, rid) = (case run_reviewer act user sid rid d of Inl _ \<Rightarrow> d | Inr d' \<Rightarrow> d')"

lemma reviewer_step_perform: "reviewer_ops.perform = reviewer_step"
proof (intro ext)
  fix d :: db and c :: "(reviewer_action \<times> int option) \<times> int \<times> int"
  obtain act user sid rid where "c = ((act, user), sid, rid)" by (cases c) auto
  then show "reviewer_ops.perform d c = reviewer_step d c" by (simp add: reviewer_ops.perform_def)
qed

text \<open>
  C13. Whatever sequence of reviewer calls runs, the failed ones included: no table but the
  responses and the log changes; a response outside the rows those reviewers may write (rows of
  assignments between the named reviewer and the named session) stays as it was, in its place;
  the log only grows, by events of the named sessions.
\<close>

theorem reviewer_calls_stay_own:
  "(\<exists>rows es. foldl reviewer_step d cs = d\<lparr>responses := rows, audit_log := audit_log d @ es\<rparr>
      \<and> ev_session ` set es \<subseteq> (\<lambda>(_, sid, _). Some sid) ` set cs
      \<and> filter (\<lambda>r. r_assignment r \<notin> all_written d cs) rows
         = filter (\<lambda>r. r_assignment r \<notin> all_written d cs) (responses d))
    \<and> all_written d cs \<subseteq> {a_id a | a act sid rid. a \<in> set (assignments d) \<and> (act, sid, rid) \<in> set cs
          \<and> a_session a = sid \<and> a_reviewer a = rid}"
proof
  obtain rows es where *: "foldl reviewer_step d cs = d\<lparr>responses := rows, audit_log := audit_log d @ es\<rparr>"
      "\<forall>e \<in> set es. \<exists>(act, sid, rid) \<in> set cs. ev_session e = Some sid"
      "filter (\<lambda>r. r_assignment r \<notin> all_written d cs) rows
         = filter (\<lambda>r. r_assignment r \<notin> all_written d cs) (responses d)"
    using reviewer_ops.performed [of d cs] unfolding reviewer_step_perform by blast
  have "ev_session ` set es \<subseteq> (\<lambda>(_, sid, _). Some sid) ` set cs"
  proof
    fix x assume "x \<in> ev_session ` set es"
    then obtain c where "c \<in> set cs" "x = Some (fst (snd c))" using *(2) by fastforce
    then show "x \<in> (\<lambda>(_, sid, _). Some sid) ` set cs" by (intro image_eqI [of _ _ c]) (simp_all add: split_beta)
  qed
  with * show "\<exists>rows es. foldl reviewer_step d cs = d\<lparr>responses := rows, audit_log := audit_log d @ es\<rparr>
      \<and> ev_session ` set es \<subseteq> (\<lambda>(_, sid, _). Some sid) ` set cs
      \<and> filter (\<lambda>r. r_assignment r \<notin> all_written d cs) rows
         = filter (\<lambda>r. r_assignment r \<notin> all_written d cs) (responses d)" by blast
  show "all_written d cs \<subseteq> {a_id a | a act sid rid. a \<in> set (assignments d) \<and> (act, sid, rid) \<in> set cs
          \<and> a_session a = sid \<and> a_reviewer a = rid}"
  proof
    fix k assume "k \<in> all_written d cs"
    then obtain act sid rid where "(act, sid, rid) \<in> set cs" "k \<in> written_ids d sid rid"
      by (auto simp: all_written_def)
    then show "k \<in> {a_id a | a act sid rid. a \<in> set (assignments d) \<and> (act, sid, rid) \<in> set cs
          \<and> a_session a = sid \<and> a_reviewer a = rid}"
      using written_ids_own by blast
  qed
qed

section \<open>Outside the review\<close>

lemma gate_open:
  assumes "sessions d sid = Some s"
  shows "require_accepting_responses d sid =
     (if postgres d \<and> lock_conflicts (held d sid) True then Inl SessionBusy
      else if is_ongoing (wall d) s then Inr s else Inl (SessionStateConflict ''not_accepting_responses''))"
  using assms by (auto simp: require_accepting_responses_def require_state_def lock_session_def is_ongoing_def
      deadline_has_passed_def split: option.splits)

lemma run_reviewer_gate:
  assumes "require_accepting_responses d sid = Inl e"
  shows "run_reviewer act user sid rid d = Inl e"
  using assms by (cases act) (simp_all add: save_draft_def submit_def write_posted_def recall_def clear_all_def)

text \<open>
  C14. Outside the review (before it is activated, from the instant of its end on, after it has
  expired or been archived) each of the four writes fails, with the code of the gate, or with
  \<open>SessionBusy\<close> when another transaction holds the session row; inside it a recall and a clear
  succeed whenever the row is free.
\<close>

theorem reviewer_gate:
  assumes "sessions d sid = Some s"
  shows "(is_ongoing (wall d) s \<or> run_reviewer act user sid rid d =
      Inl (if postgres d \<and> lock_conflicts (held d sid) True then SessionBusy
           else SessionStateConflict ''not_accepting_responses''))
    \<and> (act \<in> {Recall, Clear} \<longrightarrow> (\<exists>d'. run_reviewer act user sid rid d = Inr d') =
      (is_ongoing (wall d) s \<and> \<not> (postgres d \<and> lock_conflicts (held d sid) True)))"
proof (cases "require_accepting_responses d sid")
  case (Inl e)
  then show ?thesis
    using run_reviewer_gate [OF Inl, of act user rid] gate_open [OF assms] by (auto split: if_splits)
next
  case (Inr s')
  then show ?thesis
    using gate_open [OF assms] by (auto simp: recall_def clear_all_def Let_def split: if_splits)
qed

definition writes_field :: "int \<Rightarrow> string \<Rightarrow> bool \<Rightarrow> response_field" where
  "writes_field k key req = \<lparr>f_id = k, f_instrument = 10, f_key = key, f_label = key, f_required = req, f_order = k,
     f_visible = True, f_branch_parent = None, f_branch_op = None, f_branch_value = None, f_branch_mode = None,
     f_data_type = Some ''String'', f_min = None, f_max = None, f_step = None, f_list_csv = None\<rparr>"

definition writes_assignment :: "int \<Rightarrow> int \<Rightarrow> int \<Rightarrow> assignment" where
  "writes_assignment k rid re = \<lparr>a_id = k, a_session = 1, a_reviewer = rid, a_reviewee = re, a_instrument = 10, a_include = True, a_self_review = False\<rparr>"

definition writes_demo :: db where
  "writes_demo = blank_db\<lparr>sessions := [1 \<mapsto> demo_session\<lparr>s_status := Ready\<rparr>],
     instruments := [demo_instrument 10 1 True],
     fields_tbl := [writes_field 5 ''q1'' True, writes_field 6 ''q2'' False],
     assignments := [writes_assignment 1 7 8, writes_assignment 2 9 8],
     responses := [\<lparr>r_assignment = 2, r_field = 5, r_value = Some ''x'', r_saved_at = Aware 0,
        r_submitted_at = Some (Aware 0), r_version = 1\<rparr>]\<rparr>"

lemma writes_demo_session: "sessions writes_demo 1 = Some (demo_session\<lparr>s_status := Ready\<rparr>)"
  by (simp add: writes_demo_def)

theorem reviewer_gate_witness:
  "\<exists>d'. run_reviewer Recall None 1 7 writes_demo = Inr d'"
proof -
  have "is_ongoing (wall writes_demo) (demo_session\<lparr>s_status := Ready\<rparr>)" by code_simp
  moreover have "held writes_demo 1 = Unlocked" by (simp add: writes_demo_def blank_db_def)
  ultimately show ?thesis
    using reviewer_gate [OF writes_demo_session, of Recall None 7] by (simp add: lock_conflicts_def)
qed

section \<open>Stamps\<close>

text \<open>
  C15. An edited answer never stays submitted: after a save, and after a submit that was
  refused, a response carries a submission stamp only if the very same row (same value, same
  version, same stamp) was there before; and only a submit that succeeds adds one.
\<close>

theorem edited_answers_lose_their_stamp:
  assumes "save_draft d sid rid user us = Inr (d', written, errors) \<or>
    (submit d sid rid user us = Inr (d', res) \<and> \<not> sr_submitted res)"
  shows "{r \<in> set (responses d'). r_submitted_at r \<noteq> None} \<subseteq> set (responses d)"
proof -
  have "\<exists>p. write_posted d sid rid us = Inr p \<and> responses d' = responses (po_db p)"
    using assms
  proof
    assume "save_draft d sid rid user us = Inr (d', written, errors)"
    then show ?thesis by (auto simp: save_draft_def write_saved_def)
  next
    assume "submit d sid rid user us = Inr (d', res) \<and> \<not> sr_submitted res"
    then have s: "submit d sid rid user us = Inr (d', res)" and n: "\<not> sr_submitted res" by simp_all
    from s show ?thesis
    proof (cases rule: submit_Inr)
      case (refused p)
      then show ?thesis by (auto simp: audit_blocked_drafts_def write_saved_def)
    qed (simp add: n)
  qed
  then obtain p where p: "write_posted d sid rid us = Inr p" "responses d' = responses (po_db p)" by blast
  show ?thesis using posted_frame(3) [OF p(1)] unfolding p(2) stamped_def .
qed

lemma demo_edit:
  obtains d' n errors where "save_draft writes_demo 1 9 None [\<lparr>u_assignment = 2, u_field_key = ''q1'', u_value = ''y''\<rparr>]
      = Inr (d', n, errors)" "map r_value (responses d') = [Some ''y'']"
proof -
  have "(case save_draft writes_demo 1 9 None [\<lparr>u_assignment = 2, u_field_key = ''q1'', u_value = ''y''\<rparr>] of
      Inl _ \<Rightarrow> False | Inr (d', _) \<Rightarrow> map r_value (responses d') = [Some ''y''])" by code_simp
  then show thesis using that by (auto split: sum.splits)
qed

theorem edited_answers_lose_their_stamp_witness:
  "\<exists>d' n errors. save_draft writes_demo 1 9 None [\<lparr>u_assignment = 2, u_field_key = ''q1'', u_value = ''y''\<rparr>] = Inr (d', n, errors)
     \<and> {r \<in> set (responses d'). r_submitted_at r \<noteq> None} = {}"
proof -
  obtain d' n errors where *: "save_draft writes_demo 1 9 None [\<lparr>u_assignment = 2, u_field_key = ''q1'', u_value = ''y''\<rparr>]
      = Inr (d', n, errors)" "map r_value (responses d') = [Some ''y'']" by (rule demo_edit)
  have sub: "{r \<in> set (responses d'). r_submitted_at r \<noteq> None} \<subseteq> set (responses writes_demo)"
    by (rule edited_answers_lose_their_stamp) (rule disjI1, rule *(1))
  have "r_submitted_at r = None" if "r \<in> set (responses d')" for r
  proof (rule ccontr)
    assume "r_submitted_at r \<noteq> None"
    with sub that have "r \<in> set (responses writes_demo)" by blast
    then have "r_value r = Some ''x''" by (simp add: writes_demo_def)
    moreover from that have "r_value r \<in> set (map r_value (responses d'))" by simp
    then have "r_value r = Some ''y''" unfolding *(2) by simp
    ultimately show False by simp
  qed
  then have none: "{r \<in> set (responses d'). r_submitted_at r \<noteq> None} = {}" by auto
  show ?thesis by (intro exI conjI) (rule *(1), rule none)
qed

section \<open>Submit\<close>

lemma sort_key_Nil: "sort_key k xs = [] \<longleftrightarrow> xs = []"
  by (metis length_sort length_0_conv)

lemma answers_map:
  assumes "\<And>r. r_field (h r) = r_field r" "\<And>r. r_value (h r) = r_value r"
  shows "answers (map h rows) = answers rows"
  by (intro ext) (simp add: answers_def dict_of_def foldl_map assms)

lemma responses_for_map:
  assumes "\<And>r. r_assignment (h r) = r_assignment r"
  shows "responses_for (d\<lparr>responses := map h rows\<rparr>) aid = map h (responses_for (d\<lparr>responses := rows\<rparr>) aid)"
  by (simp add: responses_for_def filter_map comp_def assms)

lemma missing_of_Nil:
  assumes "missing_of d flds pos a = []"
  shows "{k \<in> required_field_ids (flds (a_instrument a)) (answers (responses_for d (a_id a))).
      k \<notin> r_field ` set (filter nonempty_value (responses_for d (a_id a)))} = {}"
proof (cases "may_be_required_field_ids (flds (a_instrument a)) = {}")
  case True
  then show ?thesis using required_may_be [of "flds (a_instrument a)"] by blast
next
  case False
  have "k \<in> f_id ` set (flds (a_instrument a))"
    if "k \<in> required_field_ids (flds (a_instrument a)) (answers (responses_for d (a_id a)))" for k
    using that by (auto simp: required_field_ids_def Let_def)
  then show ?thesis using assms False
    by (auto simp: missing_of_def Let_def filter_empty_conv)
qed

lemma posted_keys:
  assumes "distinct (map a_id (assignments d))" "write_posted d sid rid us = Inr p" "a \<in> set (po_assigned p)"
  shows "po_keys p (a_id a) = group_keys d (po_assigned p) sid (a_id a)"
  using assms(2)
proof (rule write_posted_Inr)
  fix s valid0 keys0 gids d1
  assume h: "po_assigned p = reviewer_assignments d rid sid"
    "gids = group_instrument_ids d (a_instrument ` set (po_assigned p))"
    "keys0 = group_key_by_assignment d (po_assigned p) gids sid"
    "po_keys p = (\<lambda>k. case snd (excluded_group_members d rid sid (po_assigned p) gids keys0) k of
        None \<Rightarrow> keys0 k | Some g \<Rightarrow> Some g)"
  have "snd (excluded_group_members d rid sid (po_assigned p) gids keys0) (a_id a) = None"
  proof (rule ccontr)
    assume "snd (excluded_group_members d rid sid (po_assigned p) gids keys0) (a_id a) \<noteq> None"
    then have "\<exists>b. b \<in> set (fst (excluded_group_members d rid sid (po_assigned p) gids keys0)) \<and> a_id b = a_id a"
      by (auto simp: excluded_group_members_def Let_def dict_of_get filter_empty_conv split: if_splits)
    then obtain b where b: "b \<in> set (fst (excluded_group_members d rid sid (po_assigned p) gids keys0))" "a_id b = a_id a"
      by blast
    from excluded_set [OF b(1)] have "b \<in> set (assignments d)" "\<not> a_include b" by auto
    moreover have "a \<in> set (assignments d)" "a_include a"
      using assms(3) by (simp_all add: h(1) reviewer_assignments_set)
    ultimately show False using assms(1) b(2) by (auto simp: distinct_map dest: inj_onD)
  qed
  then show ?thesis by (simp add: h(2-4) group_keys_def)
qed

lemma clean_parts:
  assumes "\<And>a. a \<in> set as \<Longrightarrow> rp_missing (single flds rws a) = 0 \<and> rp_all (single flds rws a)"
  shows "rp_missing (sum_list (map (single flds rws) as)) = 0 \<and> rp_all (sum_list (map (single flds rws) as))"
  using assms by (induction as) simp_all

text \<open>A row whose answers are all there and stamped contributes nothing missing.\<close>

lemma single_clean:
  assumes "missing_of e flds pos a = []" and "rows (a_id a) = map h (responses_for e (a_id a))"
    and h: "\<And>r. r_field (h r) = r_field r" "\<And>r. r_value (h r) = r_value r"
    and "\<And>r. r \<in> set (responses_for e (a_id a)) \<Longrightarrow> r_submitted_at (h r) \<noteq> None"
  shows "rp_missing (single flds rows a) = 0 \<and> rp_all (single flds rows a)"
proof -
  have none: "{k \<in> required_field_ids (flds (a_instrument a)) (answers (rows (a_id a))).
      k \<notin> r_field ` set (filter nonempty_value (rows (a_id a)))} = {}"
    using missing_of_Nil [OF assms(1)]
    by (simp add: assms(2) answers_map h filter_map comp_def nonempty_value_def image_image)
  show ?thesis unfolding single_def rollup_step_def Let_def none using assms(2,5) by (auto simp: list_ex_iff)
qed

text \<open>The database a successful submit leaves, and the reviewer's rollup over it.\<close>

lemma submitted_rollup:
  assumes "distinct (map a_id (assignments d))" "write_posted d sid rid us = Inr p"
    and d': "d' = d\<lparr>responses := map h (responses (po_db p)), audit_log := es\<rparr>"
    and h: "\<And>r. r_assignment (h r) = r_assignment r"
  shows "responses_for d' k = map h (responses_for (po_db p) k)"
    and "reviewer_session_state d' rid sid None None
      = sum_list (map (single (instrument_fields_by_id d (a_instrument ` set (po_assigned p))) (responses_for d'))
          (dedupe_groups (po_keys p) {} (po_assigned p)))"
proof -
  have as: "reviewer_assignments d' rid sid = po_assigned p"
    using assms(2) by (rule write_posted_Inr) (simp add: d' reads_cong)
  have flds: "instrument_fields_by_id d' ids = instrument_fields_by_id d ids" for ids
    by (intro ext) (simp add: d' instrument_fields_by_id_def)
  have keys: "group_keys d' (po_assigned p) sid = group_keys d (po_assigned p) sid"
    by (simp add: d' group_keys_def reads_cong group_key_cong)
  show "responses_for d' k = map h (responses_for (po_db p) k)"
    by (simp add: d' responses_for_def filter_map comp_def h)
  show "reviewer_session_state d' rid sid None None
      = sum_list (map (single (instrument_fields_by_id d (a_instrument ` set (po_assigned p))) (responses_for d'))
          (dedupe_groups (po_keys p) {} (po_assigned p)))"
    using dedupe_cong [where as = "po_assigned p" and keys = "po_keys p" and keys' = "group_keys d (po_assigned p) sid" and seen = "{}"]
      posted_keys [OF assms(1,2)]
    by (simp add: reviewer_session_state_def Let_def as flds keys rollup_sum)
qed

text \<open>
  C16. A submit that succeeds leaves the reviewer with nothing required unanswered, with their
  pill on "submitted" (or "not started" when nothing at all was asked), and with every row they
  may write stamped with the time of the submit and counted in the result; one that does not
  succeed names a reason.
\<close>

theorem submit_leaves_nothing_missing:
  assumes "distinct (map a_id (assignments d))" "submit d sid rid user us = Inr (d', res)"
  shows "if sr_submitted res
    then rp_missing (reviewer_session_state d' rid sid None None) = 0
      \<and> pill_state (reviewer_session_state d' rid sid None None) \<in> {''submitted'', ''not started''}
      \<and> r_submitted_at ` {r \<in> set (responses d'). r_assignment r \<in> written_ids d sid rid} \<subseteq> {Some (Aware (wall d))}
      \<and> sr_count res = int (length (filter (\<lambda>r. r_assignment r \<in> written_ids d sid rid) (responses d')))
    else sr_errors res \<noteq> [] \<or> sr_missing res \<noteq> []"
  using assms(2)
proof (cases rule: submit_Inr)
  case (refused p)
  then show ?thesis by auto
next
  case (submitted p counts)
  let ?W = "written_ids d sid rid"
  define h where "h = (\<lambda>r :: response. if r_assignment r \<in> ?W then r\<lparr>r_submitted_at := Some (Aware (wall d))\<rparr> else r)"
  obtain rows where rows: "po_db p = d\<lparr>responses := rows\<rparr>" using posted_frame(2) [OF submitted(1)] by blast
  have "d' = write_event ''responses.submitted'' user (Some sid) (Counts counts) None [(''reviewer_id'', rid)] []
      (d\<lparr>responses := map h (responses (po_db p))\<rparr>)"
    unfolding submitted(5) by (simp add: rows stamp_rows_def h_def)
  then obtain es where d': "d' = d\<lparr>responses := map h (responses (po_db p)), audit_log := es\<rparr>"
    using write_event_rows by metis
  have h: "r_assignment (h r) = r_assignment r" "r_field (h r) = r_field r" "r_value (h r) = r_value r" for r
    by (simp_all add: h_def)
  note state = submitted_rollup [where h = h, OF assms(1) submitted(1) d' h(1)]
  let ?flds = "instrument_fields_by_id d (a_instrument ` set (po_assigned p))"
  have one: "rp_missing (single ?flds (responses_for d') a) = 0 \<and> rp_all (single ?flds (responses_for d') a)"
    if a: "a \<in> set (dedupe_groups (po_keys p) {} (po_assigned p))" for a
  proof (rule single_clean [where e = "po_db p" and h = h and pos = "session_position_map d sid"])
    show "responses_for d' (a_id a) = map h (responses_for (po_db p) (a_id a))" by (rule state(1))
    show "r_field (h r) = r_field r" "r_value (h r) = r_value r" for r by (rule h)+
    show "missing_of (po_db p) ?flds (session_position_map d sid) a = []"
      using submitted(4) a by (simp add: compute_missing_required_def sort_key_Nil)
    have "a_id a \<in> ?W"
      using a set_dedupe by (fastforce simp flip: posted_written_ids [OF submitted(1)])
    then show "r_submitted_at (h r) \<noteq> None" if "r \<in> set (responses_for (po_db p) (a_id a))" for r
      using that by (simp add: responses_for_def h_def)
  qed
  have "rp_missing (reviewer_session_state d' rid sid None None) = 0 \<and> rp_all (reviewer_session_state d' rid sid None None)"
    unfolding state(2) by (rule clean_parts [OF one])
  then show ?thesis using submitted(3,6)
    by (auto simp: pill_state_def d' h_def filter_map comp_def rows)
qed

lemma demo_submit:
  obtains d1 res d2 n d3 m where "submit writes_demo 1 9 None [] = Inr (d1, res)" "sr_submitted res" "sr_count res = 1"
    "recall d1 1 9 None = Inr (d2, n)" "recall d2 1 9 None = Inr (d3, m)"
proof -
  have "(case submit writes_demo 1 9 None [] of Inl _ \<Rightarrow> False
      | Inr (d1, res) \<Rightarrow> sr_submitted res \<and> sr_count res = 1
          \<and> (case recall d1 1 9 None of Inl _ \<Rightarrow> False
             | Inr (d2, n) \<Rightarrow> (case recall d2 1 9 None of Inl _ \<Rightarrow> False | Inr (d3, m) \<Rightarrow> True)))"
    by code_simp
  then show thesis using that by (auto split: sum.splits)
qed

lemma writes_demo_distinct: "distinct (map a_id (assignments writes_demo))"
  by (simp add: writes_demo_def writes_assignment_def)

theorem submit_leaves_nothing_missing_witness:
  "\<exists>d' res. submit writes_demo 1 9 None [] = Inr (d', res) \<and> sr_submitted res
     \<and> rp_missing (reviewer_session_state d' 9 1 None None) = 0"
proof -
  obtain d' res where *: "submit writes_demo 1 9 None [] = Inr (d', res)" "sr_submitted res" by (rule demo_submit)
  from submit_leaves_nothing_missing [OF writes_demo_distinct *(1)] *(2)
  have "rp_missing (reviewer_session_state d' 9 1 None None) = 0" by simp
  with * show ?thesis by blast
qed

section \<open>Recall\<close>

lemma recall_Inr:
  assumes "recall d sid rid user = Inr (d', n)"
  shows "n = stamped_where (\<lambda>r. r_assignment r \<in> written_ids d sid rid) (responses d)"
    "\<exists>es. d' = d\<lparr>responses := unstamp_where (\<lambda>r. r_assignment r \<in> written_ids d sid rid) (responses d),
       audit_log := audit_log d @ es\<rparr>"
proof -
  have eq: "n = stamped_where (\<lambda>r. r_assignment r \<in> written_ids d sid rid) (responses d)
      \<and> d' = write_event ''responses.recalled'' user (Some sid) (Counts [(''recalled'', n)]) None [(''reviewer_id'', rid)] []
          (d\<lparr>responses := unstamp_where (\<lambda>r. r_assignment r \<in> written_ids d sid rid) (responses d)\<rparr>)"
    using assms by (auto simp: recall_def Let_def written_ids_def)
  then show "n = stamped_where (\<lambda>r. r_assignment r \<in> written_ids d sid rid) (responses d)" by simp
  show "\<exists>es. d' = d\<lparr>responses := unstamp_where (\<lambda>r. r_assignment r \<in> written_ids d sid rid) (responses d),
       audit_log := audit_log d @ es\<rparr>"
    unfolding conjunct2 [OF eq] using write_event_rows by blast
qed

lemma unstamped_none: "stamped_where P (unstamp_where P rows) = 0"
proof (cases "\<forall>r. P (unstamp r) = P r")
  case True
  then show ?thesis by (auto simp: stamped_where_def unstamp_where_def filter_empty_conv)
next
  case False
  then show ?thesis by (auto simp: stamped_where_def unstamp_where_def filter_empty_conv)
qed

lemma stamped_stamp_rows:
  "stamped_where (\<lambda>r. r_assignment r \<in> W) (stamp_rows now W rows) = int (length (filter (\<lambda>r. r_assignment r \<in> W) rows))"
  by (induction rows) (simp_all add: stamped_where_def stamp_rows_def)

text \<open>
  C17. A recall after a successful submit takes back exactly the rows the submit counted: it
  returns that number, clears their stamps, and changes nothing else of any response; a second
  recall finds nothing to take back and changes no response.
\<close>

theorem recall_takes_back_submission:
  assumes "submit d sid rid user us = Inr (d1, res)" "sr_submitted res" "recall d1 sid rid user' = Inr (d2, n)"
    and "recall d2 sid rid user'' = Inr (d3, m)"
  shows "n = sr_count res
    \<and> responses d2 = map (\<lambda>r. if r_assignment r \<in> written_ids d sid rid then r\<lparr>r_submitted_at := None\<rparr> else r) (responses d1)
    \<and> m = 0 \<and> responses d3 = responses d2"
  using assms(1)
proof (cases rule: submit_Inr)
  case (refused p)
  with assms(2) show ?thesis by simp
next
  case (submitted p counts)
  let ?W = "written_ids d sid rid"
  obtain rows where rows: "po_db p = d\<lparr>responses := rows\<rparr>" using posted_frame(2) [OF submitted(1)] by blast
  have "d1 = write_event ''responses.submitted'' user (Some sid) (Counts counts) None [(''reviewer_id'', rid)] []
      (d\<lparr>responses := stamp_rows (wall d) ?W rows\<rparr>)"
    unfolding submitted(5) by (simp add: rows)
  then obtain es where d1: "d1 = d\<lparr>responses := stamp_rows (wall d) ?W rows, audit_log := audit_log d @ es\<rparr>"
    using write_event_rows by metis
  have W1: "written_ids d1 sid rid = ?W" by (simp only: d1 written_ids_cong)
  obtain es2 where d2: "d2 = d1\<lparr>responses := unstamp_where (\<lambda>r. r_assignment r \<in> ?W) (responses d1), audit_log := audit_log d1 @ es2\<rparr>"
    using recall_Inr(2) [OF assms(3)] unfolding W1 by blast
  have W2: "written_ids d2 sid rid = ?W" by (simp only: d2 written_ids_cong W1)
  have n: "n = sr_count res"
    unfolding recall_Inr(1) [OF assms(3)] submitted(6) W1 by (simp add: d1 rows stamped_stamp_rows)
  have again: "unstamp_where P (unstamp_where P xs) = unstamp_where P xs" for P xs
    by (auto simp: unstamp_where_def unstamp_def)
  have m: "m = 0" unfolding recall_Inr(1) [OF assms(4)] W2 by (simp add: d2 unstamped_none)
  have "responses d3 = responses d2"
    using recall_Inr(2) [OF assms(4)] unfolding W2 by (elim exE) (simp add: d2 again)
  moreover have "responses d2 = map (\<lambda>r. if r_assignment r \<in> ?W then r\<lparr>r_submitted_at := None\<rparr> else r) (responses d1)"
    by (simp add: d2 unstamp_where_def unstamp_def)
  ultimately show ?thesis using n m by blast
qed

theorem recall_takes_back_submission_witness:
  "\<exists>d1 res d2 n. submit writes_demo 1 9 None [] = Inr (d1, res) \<and> recall d1 1 9 None = Inr (d2, n) \<and> n = 1"
proof -
  obtain d1 res d2 n d3 m where *: "submit writes_demo 1 9 None [] = Inr (d1, res)" "sr_submitted res" "sr_count res = 1"
    "recall d1 1 9 None = Inr (d2, n)" "recall d2 1 9 None = Inr (d3, m)" by (rule demo_submit)
  from recall_takes_back_submission [OF *(1,2,4,5)] *(3) have "n = 1" by simp
  with * show ?thesis by blast
qed

section \<open>The rows as a map of cells to answers\<close>

text \<open>What the form shows for a cell: the stored value as a post of it arrives; blank without a row.\<close>

definition shown :: "response_field \<Rightarrow> response option \<Rightarrow> string result" where
  "shown f ro = (case ro of None \<Rightarrow> Inr [] | Some r \<Rightarrow> stored_as_posted (r_value r) f)"

lemma find_row_unstamp_where: "find_row (unstamp_where P rows) aid fid = map_option (\<lambda>r. if P r then unstamp r else r) (find_row rows aid fid)"
  unfolding unstamp_where_def by (rule find_row_map) simp_all

lemma shown_unstamp_where: "shown f (find_row (unstamp_where P rows) aid fid) = shown f (find_row rows aid fid)"
  by (simp add: find_row_unstamp_where shown_def split: option.split)

text \<open>
  The abstract table: a cell holds no row, or a row showing a text. What the answers posted for it
  in one call make of it: without a row the answer that is not blank; with one the last answer,
  unless a blank one came upon a text, for that row is then marked and goes whatever follows.
\<close>

definition cell_text :: "response_field \<Rightarrow> response option \<Rightarrow> string option result" where
  "cell_text f ro = (case ro of None \<Rightarrow> Inr None
     | Some r \<Rightarrow> (case stored_as_posted (r_value r) f of Inl e \<Rightarrow> Inl e | Inr s \<Rightarrow> Inr (Some s)))"

fun posted_cell :: "string option \<Rightarrow> string list \<Rightarrow> string option" where
  "posted_cell None vs = (case filter (\<lambda>v. v \<noteq> []) vs of [] \<Rightarrow> None | v # _ \<Rightarrow> Some v)"
| "posted_cell (Some s) [] = Some s"
| "posted_cell (Some s) (v # vs) =
     (if v \<noteq> [] then posted_cell (Some v) vs else if s = [] then posted_cell (Some s) vs else None)"

definition posted_values ::
  "(int \<Rightarrow> assignment option) \<Rightarrow> (int \<times> string \<Rightarrow> response_field option) \<Rightarrow> upsert list \<Rightarrow> int \<Rightarrow> int \<Rightarrow> string list" where
  "posted_values index flds us aid fid = map u_value (filter (\<lambda>u. case cell_of index flds u of
     None \<Rightarrow> False | Some (a, f) \<Rightarrow> (a_id a, f_id f) = (aid, fid)) us)"

definition takes :: "response_field \<Rightarrow> string \<Rightarrow> bool" where
  "takes f v = (v \<noteq> [] \<longrightarrow> stored_as_posted (Some v) f = Inr v)"

lemma posted_once: "or_empty (posted_cell so [v]) = v"
  by (cases so) auto

abbreviation cell_run :: "int \<Rightarrow> int \<Rightarrow> int \<Rightarrow> response_field \<Rightarrow> string list \<Rightarrow> cell_state \<Rightarrow> cell_state" where
  "cell_run now n aid f vs c \<equiv> foldl (\<lambda>c v. cell_step now n aid f v c) c vs"

lemma cell_apply_posts:
  assumes "apply_all (apply_one now stored index flds keys) (start_writing stored) us = Inr w"
    and "\<forall>u \<in> set us. \<forall>a g. cell_of index flds u = Some (a, g) \<longrightarrow> fld (f_id g) = g"
  shows "cell_state w aid fid = cell_run now (stored_version stored aid fid) aid (fld fid) (posted_values index flds us aid fid)
      (find_row stored aid fid, False, [])"
proof -
  have "foldl (\<lambda>c u. case cell_of index flds u of
      Some (a, f) \<Rightarrow> if (a_id a, f_id f) = (aid, fid) then cell_step now n aid f (u_value u) c else c
    | None \<Rightarrow> c) c us = cell_run now n aid (fld fid) (posted_values index flds us aid fid) c" for n c
    using assms(2)
  proof (induction us arbitrary: c)
    case (Cons u us)
    have us: "\<forall>u \<in> set us. \<forall>a g. cell_of index flds u = Some (a, g) \<longrightarrow> fld (f_id g) = g" using Cons.prems by simp
    show ?case
    proof (cases "\<exists>a g. cell_of index flds u = Some (a, g) \<and> a_id a = aid \<and> f_id g = fid")
      case True
      then obtain a g where ag: "cell_of index flds u = Some (a, g)" "a_id a = aid" "f_id g = fid" by blast
      then have "fld fid = g" using Cons.prems by auto
      then show ?thesis using Cons.IH [OF us, of "cell_step now n aid g (u_value u) c"] ag by (simp add: posted_values_def)
    next
      case False
      then have "(case cell_of index flds u of Some (a, f) \<Rightarrow> if (a_id a, f_id f) = (aid, fid) then cell_step now n aid f (u_value u) c else c
          | None \<Rightarrow> c) = c" "posted_values index flds (u # us) aid fid = posted_values index flds us aid fid"
        by (auto simp: posted_values_def split: option.split prod.split)
      then show ?thesis using Cons.IH [OF us, of c] by (simp only: foldl_Cons)
    qed
  qed (simp add: posted_values_def)
  then show ?thesis using cell_apply_all [OF assms(1), of aid fid] by (simp add: cell_state_def)
qed

lemma cell_run_new:
  "cell_run now n aid f vs (None, gone, news)
     = (None, gone, news @ map (new_row now aid (f_id f)) (filter (\<lambda>v. v \<noteq> []) vs))"
  by (induction vs arbitrary: news) auto

lemma cell_run_gone: "\<exists>r'. cell_run now n aid f vs (Some r, True, news) = (Some r', True, news)"
  by (induction vs arbitrary: r) auto

lemma cell_run_row:
  assumes "stored_as_posted (r_value r) f = Inr s" "\<forall>v \<in> set vs. takes f v"
  shows "\<exists>r' gone. cell_run now n aid f vs (Some r, False, news) = (Some r', gone, news)
    \<and> (if gone then posted_cell (Some s) vs = None
       else \<exists>t. posted_cell (Some s) vs = Some t \<and> stored_as_posted (r_value r') f = Inr t)"
  using assms
proof (induction vs arbitrary: r s)
  case (Cons v vs)
  consider "v = s" | "v \<noteq> s" "v = []" | "v \<noteq> s" "v \<noteq> []" by blast
  then show ?case
  proof cases
    case 1
    then have "posted_cell (Some s) (v # vs) = posted_cell (Some s) vs"
      "cell_step now n aid f v (Some r, False, news) = (Some r, False, news)" using Cons.prems(1) by simp_all
    moreover have "\<forall>v \<in> set vs. takes f v" using Cons.prems(2) by simp
    ultimately show ?thesis using Cons.IH [OF Cons.prems(1)] by (simp only: foldl_Cons)
  next
    case 2
    then have "posted_cell (Some s) (v # vs) = None" by simp
    moreover have "cell_step now n aid f v (Some r, False, news) = (Some r, True, news)" using Cons.prems(1) 2 by simp
    moreover obtain r' where "cell_run now n aid f vs (Some r, True, news) = (Some r', True, news)"
      using cell_run_gone by blast
    ultimately show ?thesis by (intro exI [of _ r'] exI [of _ True]) (simp only: foldl_Cons if_True)
  next
    case 3
    then have "stored_as_posted (r_value (change_row now v n r)) f = Inr v" using Cons.prems(2) by (simp add: takes_def)
    moreover have "\<forall>v \<in> set vs. takes f v" using Cons.prems(2) by simp
    moreover have "posted_cell (Some s) (v # vs) = posted_cell (Some v) vs"
      "cell_step now n aid f v (Some r, False, news) = (Some (change_row now v n r), False, news)"
      using Cons.prems(1) 3 by simp_all
    ultimately show ?thesis using Cons.IH by (simp only: foldl_Cons)
  qed
qed auto

text \<open>The call raises only at its flush, once every row it reads can be read.\<close>

lemma apply_one_succeeds:
  assumes "\<And>a g. cell_of index flds u = Some (a, g) \<Longrightarrow> \<exists>so. cell_text g (find_row (w_rows w) (a_id a) (f_id g)) = Inr so"
  shows "\<exists>w'. apply_one now stored index flds keys w u = Inr w'"
proof (cases "cell_of index flds u")
  case None
  then show ?thesis by (simp add: apply_one_def)
next
  case (Some ag)
  then obtain a g where ag: "cell_of index flds u = Some (a, g)" by (cases ag) simp
  show ?thesis using assms [OF ag]
    by (cases "keys (a_id a)"; cases "find_row (w_rows w) (a_id a) (f_id g)")
      (auto simp: apply_one_def ag Let_def cell_text_def split: sum.splits)
qed

lemma cell_step_readable:
  assumes "cell_text f ro = Inr so" "takes f v" "cell_step now n aid f v (ro, gone, news) = (ro', gone', news')"
  shows "\<exists>so'. cell_text f ro' = Inr so'"
  using assms by (cases ro) (auto simp: cell_text_def takes_def split: sum.splits if_splits)

lemma apply_all_readable:
  assumes "\<forall>u \<in> set us. \<forall>a g. cell_of index flds u = Some (a, g) \<longrightarrow> fld (f_id g) = g \<and> takes g (u_value u)
      \<and> (\<exists>so. cell_text g (find_row (w_rows w) (a_id a) (f_id g)) = Inr so)"
  shows "\<exists>w'. apply_all (apply_one now stored index flds keys) w us = Inr w'"
  using assms
proof (induction us arbitrary: w)
  case (Cons u us)
  obtain w1 where w1: "apply_one now stored index flds keys w u = Inr w1"
    using apply_one_succeeds [of index flds u w] Cons.prems by fastforce
  have "\<exists>so. cell_text g (find_row (w_rows w1) (a_id a) (f_id g)) = Inr so"
    if "u' \<in> set us" "cell_of index flds u' = Some (a, g)" for u' a g
  proof (cases "\<exists>b. cell_of index flds u = Some (b, g) \<and> a_id b = a_id a")
    case True
    then obtain b where b: "cell_of index flds u = Some (b, g)" "a_id b = a_id a" by blast
    obtain so where "cell_text g (find_row (w_rows w) (a_id b) (f_id g)) = Inr so" "takes g (u_value u)"
      using Cons.prems b(1) by fastforce
    then show ?thesis using cell_apply_one(1) [OF w1 b(1)] unfolding cell_state_def b(2)
      by (metis cell_step_readable)
  next
    case False
    have "\<forall>b h. cell_of index flds u = Some (b, h) \<longrightarrow> (a_id b, f_id h) \<noteq> (a_id a, f_id g)"
    proof (intro allI impI notI)
      fix b h assume bh: "cell_of index flds u = Some (b, h)" "(a_id b, f_id h) = (a_id a, f_id g)"
      then have "h = g" using Cons.prems that by (metis list.set_intros Pair_inject)
      then show False using False bh by auto
    qed
    then have "find_row (w_rows w1) (a_id a) (f_id g) = find_row (w_rows w) (a_id a) (f_id g)"
      using cell_apply_one(2) [OF w1] by (simp add: cell_state_def)
    then show ?thesis using Cons.prems that by fastforce
  qed
  then have "\<exists>w'. apply_all (apply_one now stored index flds keys) w1 us = Inr w'"
    using Cons.prems by (intro Cons.IH) auto
  then show ?case by (simp add: w1)
qed simp

text \<open>A cell of the table the flush leaves, from the cell of the writer.\<close>

lemma find_row_hd: "find_row rows aid fid = (case filter (at_cell aid fid) rows of [] \<Rightarrow> None | r # _ \<Rightarrow> Some r)"
  unfolding find_row_def by (induction rows) (simp_all add: at_cell_def)

lemma cell_text_unstamp_where: "cell_text f (find_row (unstamp_where P rows) aid fid) = cell_text f (find_row rows aid fid)"
  by (simp add: find_row_unstamp_where cell_text_def split: option.split)

lemma flushed_cell:
  assumes "cell_state w aid fid = (ro, gone, news)"
  shows "cell_text f (find_row (unstamp_where P (filter (\<lambda>r. row_cell r \<notin> w_deleted w) (unstamp_where Q (w_rows w)) @ w_added w)) aid fid)
    = cell_text f (if gone \<or> ro = None then (case news of [] \<Rightarrow> None | r # _ \<Rightarrow> Some r) else ro)"
proof -
  have "find_row (filter (\<lambda>r. row_cell r \<notin> w_deleted w) rows) aid fid = (if \<not> gone then find_row rows aid fid else None)" for rows
    using assms by (intro find_row_filter) (auto simp: cell_state_def at_cell_row_cell)
  moreover have "find_row (w_added w) aid fid = (case news of [] \<Rightarrow> None | r # _ \<Rightarrow> Some r)" "find_row (w_rows w) aid fid = ro"
    using assms by (simp_all add: cell_state_def find_row_hd [of "w_added w"])
  ultimately show ?thesis
    by (auto simp: cell_text_unstamp_where find_row_append find_row_unstamp_where cell_text_def split: option.split)
qed

lemma posted_values_field:
  assumes "\<forall>u \<in> set us. \<forall>a g. cell_of index flds u = Some (a, g) \<longrightarrow> fld (f_id g) = g"
    and "posted_values index flds us aid fid \<noteq> []"
  obtains u a where "u \<in> set us" "cell_of index flds u = Some (a, fld fid)" "a_id a = aid" "f_id (fld fid) = fid"
proof -
  obtain u where "u \<in> set us" "case cell_of index flds u of None \<Rightarrow> False | Some (a, f) \<Rightarrow> (a_id a, f_id f) = (aid, fid)"
    using assms(2) by (auto simp: posted_values_def filter_empty_conv)
  then obtain a g where "u \<in> set us" "cell_of index flds u = Some (a, g)" "a_id a = aid" "f_id g = fid"
    by (auto split: option.splits prod.splits)
  then show ?thesis using that assms(1) by metis
qed

lemma posted_cell_Nil [simp]: "posted_cell so [] = so"
  by (cases so) simp_all

text \<open>The answers a call takes: each its field's, as its own storing gives it back, on a row that can be read.\<close>

definition postable :: "(int \<Rightarrow> response_field) \<Rightarrow> response list \<Rightarrow> (int \<Rightarrow> assignment option)
    \<Rightarrow> (int \<times> string \<Rightarrow> response_field option) \<Rightarrow> upsert \<Rightarrow> bool" where
  "postable fld rows index flds u = (case cell_of index flds u of None \<Rightarrow> True | Some (a, g) \<Rightarrow>
     fld (f_id g) = g \<and> takes g (u_value u)
       \<and> (case cell_text g (find_row rows (a_id a) (f_id g)) of Inl _ \<Rightarrow> False | Inr _ \<Rightarrow> True))"

lemma postable_cell:
  assumes "\<forall>u \<in> set us. postable fld rows index flds u" "u \<in> set us" "cell_of index flds u = Some (a, g)"
  shows "fld (f_id g) = g" "takes g (u_value u)" "\<exists>so. cell_text g (find_row rows (a_id a) (f_id g)) = Inr so"
  using assms by (fastforce simp: postable_def split: sum.splits)+

lemma cell_outcome:
  assumes run: "apply_all (apply_one now stored index flds keys) (start_writing stored) us = Inr w"
    and ok: "\<forall>u \<in> set us. postable fld stored index flds u"
  shows "cell_text (fld fid) (find_row (unstamp_where P (filter (\<lambda>r. row_cell r \<notin> w_deleted w) (unstamp_where Q (w_rows w)) @ w_added w)) aid fid)
      = bindE (cell_text (fld fid) (find_row stored aid fid)) (\<lambda>so. Inr (posted_cell so (posted_values index flds us aid fid)))"
      (is "cell_text ?f ?new = _")
    and "filter (at_cell aid fid) (w_added w) = (if find_row stored aid fid = None
      then map (new_row now aid fid) (filter (\<lambda>v. v \<noteq> []) (posted_values index flds us aid fid)) else [])"
proof -
  let ?vs = "posted_values index flds us aid fid"
  have fields: "\<forall>u \<in> set us. \<forall>a g. cell_of index flds u = Some (a, g) \<longrightarrow> fld (f_id g) = g"
    using postable_cell(1) [OF ok] by blast
  note cell = cell_apply_posts [OF run fields, of aid fid]
  have takes: "\<forall>v \<in> set ?vs. takes ?f v"
  proof
    fix v assume "v \<in> set ?vs"
    then obtain u where u: "u \<in> set us" "u_value u = v"
      "case cell_of index flds u of None \<Rightarrow> False | Some (a, f) \<Rightarrow> (a_id a, f_id f) = (aid, fid)"
      by (auto simp: posted_values_def)
    then obtain a g where ag: "cell_of index flds u = Some (a, g)" "f_id g = fid" by (auto split: option.splits prod.splits)
    show "takes ?f v" using postable_cell(1,2) [OF ok u(1) ag(1)] ag(2) u(2) by simp
  qed
  have "cell_text ?f ?new = bindE (cell_text ?f (find_row stored aid fid)) (\<lambda>so. Inr (posted_cell so ?vs))
    \<and> filter (at_cell aid fid) (w_added w) = (if find_row stored aid fid = None
      then map (new_row now aid fid) (filter (\<lambda>v. v \<noteq> []) ?vs) else [])"
  proof (cases "find_row stored aid fid")
    case None
    have news: "map (new_row now aid (f_id ?f)) (filter (\<lambda>v. v \<noteq> []) ?vs) = map (new_row now aid fid) (filter (\<lambda>v. v \<noteq> []) ?vs)"
      by (cases "?vs = []") (auto elim: posted_values_field [OF fields])
    have state: "cell_state w aid fid = (None, False, map (new_row now aid fid) (filter (\<lambda>v. v \<noteq> []) ?vs))"
      using cell by (simp add: None cell_run_new news)
    have "cell_text ?f (case map (new_row now aid fid) (filter (\<lambda>v. v \<noteq> []) ?vs) of [] \<Rightarrow> None | r # _ \<Rightarrow> Some r)
        = Inr (posted_cell None ?vs)"
    proof (cases "filter (\<lambda>v. v \<noteq> []) ?vs")
      case (Cons v vs)
      then have "v \<in> set (filter (\<lambda>v. v \<noteq> []) ?vs)" by simp
      then have "v \<in> set ?vs" "v \<noteq> []" by simp_all
      then have "stored_as_posted (Some v) ?f = Inr v" using takes by (simp add: takes_def)
      then show ?thesis by (simp add: Cons cell_text_def new_row_def)
    qed (simp add: cell_text_def)
    then show ?thesis using state by (simp add: flushed_cell [OF state] None cell_text_def [of _ None]) (simp add: cell_state_def)
  next
    case (Some r)
    show ?thesis
    proof (cases "?vs = []")
      case True
      then have state: "cell_state w aid fid = (Some r, False, [])" using cell by (simp add: Some)
      have new: "cell_text ?f ?new = cell_text ?f (Some r)" by (simp add: flushed_cell [OF state])
      show ?thesis using state unfolding new by (cases "cell_text ?f (Some r)") (simp_all add: Some True cell_state_def)
    next
      case False
      then obtain u a where "u \<in> set us" "cell_of index flds u = Some (a, ?f)" "a_id a = aid" "f_id ?f = fid"
        by (rule posted_values_field [OF fields])
      then obtain so where "cell_text ?f (find_row stored aid fid) = Inr so" using postable_cell(3) [OF ok] by metis
      then obtain s where s: "stored_as_posted (r_value r) ?f = Inr s" by (auto simp: Some cell_text_def split: sum.splits)
      obtain r' gone where state: "cell_state w aid fid = (Some r', gone, [])"
        and shows_it: "if gone then posted_cell (Some s) ?vs = None
          else \<exists>t. posted_cell (Some s) ?vs = Some t \<and> stored_as_posted (r_value r') ?f = Inr t"
        using cell_run_row [OF s takes] unfolding cell Some by metis
      have new: "cell_text ?f ?new = cell_text ?f (if gone then None else Some r')" by (simp add: flushed_cell [OF state])
      show ?thesis using state shows_it unfolding new by (cases gone) (auto simp: s Some cell_state_def cell_text_def)
    qed
  qed
  then show "cell_text ?f ?new = bindE (cell_text ?f (find_row stored aid fid)) (\<lambda>so. Inr (posted_cell so ?vs))"
    "filter (at_cell aid fid) (w_added w) = (if find_row stored aid fid = None
      then map (new_row now aid fid) (filter (\<lambda>v. v \<noteq> []) ?vs) else [])" by blast+
qed

lemma distinct_map_filter_length: "distinct (map f xs) \<longleftrightarrow> (\<forall>y. length (filter (\<lambda>x. f x = y) xs) \<le> 1)"
proof (induction xs)
  case (Cons x xs)
  have "f x \<notin> f ` set xs \<longleftrightarrow> filter (\<lambda>z. f z = f x) xs = []" unfolding filter_empty_conv image_iff by metis
  then show ?case using Cons by (auto simp: le_Suc_eq split: if_splits)
qed simp

definition nonblank_posts ::
  "(int \<Rightarrow> assignment option) \<Rightarrow> (int \<times> string \<Rightarrow> response_field option) \<Rightarrow> upsert list \<Rightarrow> int \<Rightarrow> int \<Rightarrow> nat" where
  "nonblank_posts index flds us aid fid = length (filter (\<lambda>v. v \<noteq> []) (posted_values index flds us aid fid))"

lemma flush_clash:
  assumes "apply_all (apply_one now stored index flds keys) (start_writing stored) us = Inr w"
    and "\<forall>u \<in> set us. postable fld stored index flds u"
  shows "distinct (map row_cell (w_added w))
    \<longleftrightarrow> \<not> (\<exists>aid fid. find_row stored aid fid = None \<and> 1 < nonblank_posts index flds us aid fid)"
proof -
  have "filter (\<lambda>r. row_cell r = (aid, fid)) (w_added w) = (if find_row stored aid fid = None
      then map (new_row now aid fid) (filter (\<lambda>v. v \<noteq> []) (posted_values index flds us aid fid)) else [])" for aid fid
    using cell_outcome(2) [OF assms, of aid fid] by (simp add: at_cell_row_cell [abs_def])
  then have "length (filter (\<lambda>r. row_cell r = (aid, fid)) (w_added w)) \<le> 1
      \<longleftrightarrow> \<not> (find_row stored aid fid = None \<and> 1 < nonblank_posts index flds us aid fid)" for aid fid
    by (auto simp: nonblank_posts_def)
  then show ?thesis unfolding distinct_map_filter_length split_paired_All by simp
qed

lemma flushed_unique:
  assumes "in_hand stored w" "unique_rows stored" "distinct (map row_cell (w_added w))"
  shows "unique_rows (unstamp_where P (filter (\<lambda>r. row_cell r \<notin> w_deleted w) (unstamp_where Q (w_rows w)) @ w_added w))"
proof -
  have cells: "map row_cell (unstamp_where R rows) = map row_cell rows" for R rows
    by (simp add: unstamp_where_def)
  have held: "distinct (map row_cell (w_rows w))" "row_cell ` set (w_rows w) = row_cell ` set stored"
    using assms(1,2) by (simp_all add: in_hand_def unique_rows_cells) (metis list.set_map)
  have "row_cell ` set (unstamp_where Q (w_rows w)) = row_cell ` set stored"
    using held(2) cells by (metis list.set_map)
  then have "row_cell ` set (filter (\<lambda>r. row_cell r \<notin> w_deleted w) (unstamp_where Q (w_rows w))) \<subseteq> row_cell ` set stored"
    by auto
  moreover have "row_cell ` set (w_added w) \<inter> row_cell ` set stored = {}" using assms(1) unfolding in_hand_def by blast
  ultimately have "distinct (map row_cell (filter (\<lambda>r. row_cell r \<notin> w_deleted w) (unstamp_where Q (w_rows w)) @ w_added w))"
    using assms(3) held(1) by (simp add: distinct_map_filter cells) blast
  then show ?thesis by (simp only: unique_rows_cells cells)
qed

lemma apply_one_written:
  assumes "apply_one now stored index flds keys w u = Inr w'"
  shows "w_written w' = w_written w + (if cell_of index flds u \<noteq> None \<and> u_value u \<noteq> [] then 1 else 0)"
  using assms by (cases rule: apply_one_cases) simp_all

lemma apply_all_written:
  "apply_all (apply_one now stored index flds keys) w us = Inr w' \<Longrightarrow>
    w_written w' = w_written w + int (length (filter (\<lambda>u. cell_of index flds u \<noteq> None \<and> u_value u \<noteq> []) us))"
  by (induction us arbitrary: w) (auto dest!: apply_one_written)

lemma shown_cell_text: "shown f ro = bindE (cell_text f ro) (\<lambda>so. Inr (or_empty so))"
  by (simp add: shown_def cell_text_def or_empty_def split: option.split sum.split)

text \<open>
  C18. The rows \<open>_apply_upserts\<close> writes refine a map of cells to answers, the session not
  autoflushing. A cell no answer is posted for keeps its text; one posted once shows that answer
  afterwards, blank or not. Answers posted again for a cell meet the row as the first SELECT of it
  did: on a stored row the last one stays, but a blank one posted upon a text deletes the row and
  loses whatever follows; on a cell without a row each one that is not blank is inserted, so two of
  them break the unique constraint and the whole call raises, which it does in no other case. Each
  cell has at most one row afterwards, no other table changes, and the count returned is of the
  answers that are not blank. An answer is one the form can post: the value its own storing gives
  back, on a row whose stored value can be read.
\<close>

theorem apply_upserts_refines_map:
  assumes "unique_rows (responses d)" and "\<forall>u \<in> set us. postable fld (responses d) index flds u"
  shows "if \<exists>aid fid. find_row (responses d) aid fid = None \<and> 1 < nonblank_posts index flds us aid fid
    then apply_upserts d us index flds keys = Inl (DatabaseError ''IntegrityError'')
    else \<exists>rows n c. apply_upserts d us index flds keys = Inr (d\<lparr>responses := rows\<rparr>, n, c) \<and> unique_rows rows
      \<and> n = int (length (filter (\<lambda>u. cell_of index flds u \<noteq> None \<and> u_value u \<noteq> []) us))
      \<and> (\<forall>aid fid. cell_text (fld fid) (find_row rows aid fid)
          = bindE (cell_text (fld fid) (find_row (responses d) aid fid))
              (\<lambda>so. Inr (posted_cell so (posted_values index flds us aid fid))))
      \<and> (\<forall>u \<in> set us. \<forall>a g. cell_of index flds u = Some (a, g)
          \<longrightarrow> posted_values index flds us (a_id a) (f_id g) = [u_value u]
          \<longrightarrow> shown g (find_row rows (a_id a) (f_id g)) = Inr (u_value u))"
proof -
  note post = postable_cell [OF assms(2)]
  have "\<exists>w. apply_all (apply_one (wall d) (responses d) index flds keys) (start_writing (responses d)) us = Inr w"
    by (rule apply_all_readable [where fld = fld]) (use post in simp)
  then obtain w where w: "apply_all (apply_one (wall d) (responses d) index flds keys) (start_writing (responses d)) us = Inr w" ..
  let ?clash = "\<exists>aid fid. find_row (responses d) aid fid = None \<and> 1 < nonblank_posts index flds us aid fid"
  note clash = flush_clash [OF w assms(2)]
  show ?thesis
  proof (cases ?clash)
    case True
    then have "apply_upserts d us index flds keys = Inl (DatabaseError ''IntegrityError'')"
      using clash by (simp only: apply_upserts_eq w bindE_simps flush_rows_def not_True_eq_False if_False)
    then show ?thesis by (simp only: True if_True)
  next
    case False
    define rows where "rows = unstamp_where (blank_hit w)
      (filter (\<lambda>r. row_cell r \<notin> w_deleted w) (unstamp_where (group_hit w) (w_rows w)) @ w_added w)"
    have dist: "distinct (map row_cell (w_added w))" using False clash by blast
    have run: "\<exists>c. apply_upserts d us index flds keys = Inr (d\<lparr>responses := rows\<rparr>, w_written w, c)"
      by (simp add: apply_upserts_eq w flush_rows_def dist rows_def)
    have unique: "unique_rows rows" unfolding rows_def
      by (rule flushed_unique [OF apply_all_in_hand [OF w] assms(1) dist]) (simp add: in_hand_def)
    have count: "w_written w = int (length (filter (\<lambda>u. cell_of index flds u \<noteq> None \<and> u_value u \<noteq> []) us))"
      using apply_all_written [OF w] by simp
    have cells: "cell_text (fld fid) (find_row rows aid fid) = bindE (cell_text (fld fid) (find_row (responses d) aid fid))
        (\<lambda>so. Inr (posted_cell so (posted_values index flds us aid fid)))" for aid fid
      unfolding rows_def by (rule cell_outcome(1) [OF w assms(2)])
    have once: "shown g (find_row rows (a_id a) (f_id g)) = Inr (u_value u)"
      if h: "u \<in> set us" "cell_of index flds u = Some (a, g)"
        "posted_values index flds us (a_id a) (f_id g) = [u_value u]" for u a g
    proof -
      obtain so where "cell_text g (find_row (responses d) (a_id a) (f_id g)) = Inr so" using post(3) [OF h(1,2)] by blast
      then show ?thesis using cells [of "f_id g" "a_id a"] post(1) [OF h(1,2)] h(3)
        by (simp add: shown_cell_text posted_once del: posted_cell.simps)
    qed
    from run obtain c where "apply_upserts d us index flds keys = Inr (d\<lparr>responses := rows\<rparr>, w_written w, c)" ..
    then have "\<exists>rows n c. apply_upserts d us index flds keys = Inr (d\<lparr>responses := rows\<rparr>, n, c) \<and> unique_rows rows
      \<and> n = int (length (filter (\<lambda>u. cell_of index flds u \<noteq> None \<and> u_value u \<noteq> []) us))
      \<and> (\<forall>aid fid. cell_text (fld fid) (find_row rows aid fid)
          = bindE (cell_text (fld fid) (find_row (responses d) aid fid))
              (\<lambda>so. Inr (posted_cell so (posted_values index flds us aid fid))))
      \<and> (\<forall>u \<in> set us. \<forall>a g. cell_of index flds u = Some (a, g)
          \<longrightarrow> posted_values index flds us (a_id a) (f_id g) = [u_value u]
          \<longrightarrow> shown g (find_row rows (a_id a) (f_id g)) = Inr (u_value u))"
      using unique count cells once by blast
    then show ?thesis by (simp only: False if_False)
  qed
qed

definition demo_post :: "string \<Rightarrow> upsert" where
  "demo_post v = \<lparr>u_assignment = 2, u_field_key = ''q1'', u_value = v\<rparr>"

definition demo_apply :: "db \<Rightarrow> upsert list \<Rightarrow> (db \<times> int \<times> int) result" where
  "demo_apply d us = apply_upserts d us
     (index_of (assignments writes_demo)) (field_index writes_demo {10}) Map.empty"

abbreviation demo_field :: response_field where
  "demo_field \<equiv> writes_field 5 ''q1'' True"

abbreviation demo_cells :: "upsert \<Rightarrow> (assignment \<times> response_field) option" where
  "demo_cells \<equiv> cell_of (index_of (assignments writes_demo)) (field_index writes_demo {10})"

lemma demo_cell: "demo_cells (demo_post v) = Some (writes_assignment 2 9 8, demo_field)"
proof -
  have "index_of (assignments writes_demo) 2 = Some (writes_assignment 2 9 8)"
    "field_index writes_demo {10} (a_instrument (writes_assignment 2 9 8), ''q1'') = Some demo_field" by code_simp+
  then show ?thesis by (simp add: cell_of_def demo_post_def)
qed

lemma demo_ids [simp]: "a_id (writes_assignment k rid re) = k" "f_id (writes_field j key req) = j" "u_value (demo_post v) = v"
  by (simp_all add: writes_assignment_def writes_field_def demo_post_def)

lemma demo_unique: "unique_rows (responses writes_demo)" "unique_rows []"
  by (simp_all add: writes_demo_def unique_rows_def)

lemma demo_values:
  "posted_values (index_of (assignments writes_demo)) (field_index writes_demo {10}) (map demo_post vs) 2 5 = vs"
  by (induction vs) (simp_all add: posted_values_def demo_cell)

lemma demo_takes: "takes demo_field ''y''" "takes demo_field ''z''" "takes demo_field []"
  by code_simp+

lemma demo_text: "cell_text demo_field (find_row (responses writes_demo) 2 5) = Inr (Some ''x'')" "cell_text demo_field None = Inr None"
  by code_simp+

lemma demo_postable:
  assumes "takes demo_field v" "rows = [] \<or> rows = responses writes_demo"
  shows "postable (\<lambda>_. demo_field) rows (index_of (assignments writes_demo)) (field_index writes_demo {10}) (demo_post v)"
  using assms(2) by (auto simp: postable_def demo_cell assms(1) demo_text find_row_def [of "[]"])

lemma nonblank_posts_le: "nonblank_posts index flds us aid fid \<le> length (filter (\<lambda>u. u_value u \<noteq> []) us)"
  by (induction us) (auto simp: nonblank_posts_def posted_values_def split: option.split)

lemma demo_no_clash:
  assumes "length (filter (\<lambda>u. u_value u \<noteq> []) us) \<le> 1"
  shows "(\<exists>aid fid. find_row rows aid fid = None \<and> 1 < nonblank_posts index flds us aid fid) = False"
  using nonblank_posts_le [of index flds us] assms by (meson leD le_trans)

theorem apply_upserts_refines_map_witness:
  "(\<exists>rows c. demo_apply writes_demo [demo_post ''y''] = Inr (writes_demo\<lparr>responses := rows\<rparr>, 1, c)
      \<and> shown demo_field (find_row rows 2 5) = Inr ''y'')
    \<and> (\<exists>rows c. demo_apply writes_demo [demo_post [], demo_post ''y''] = Inr (writes_demo\<lparr>responses := rows\<rparr>, 1, c)
      \<and> find_row rows 2 5 = None)
    \<and> demo_apply (writes_demo\<lparr>responses := []\<rparr>) [demo_post ''y'', demo_post ''z''] = Inl (DatabaseError ''IntegrityError'')"
proof -
  let ?i = "index_of (assignments writes_demo)" and ?f = "field_index writes_demo {10}"
  note main = apply_upserts_refines_map [where fld = "\<lambda>_. demo_field" and index = ?i and flds = ?f and keys = Map.empty]
  have ok: "\<forall>u \<in> set [demo_post ''y'']. postable (\<lambda>_. demo_field) (responses writes_demo) ?i ?f u"
    "\<forall>u \<in> set [demo_post [], demo_post ''y'']. postable (\<lambda>_. demo_field) (responses writes_demo) ?i ?f u"
    "\<forall>u \<in> set [demo_post ''y'', demo_post ''z'']. postable (\<lambda>_. demo_field) (responses (writes_demo\<lparr>responses := []\<rparr>)) ?i ?f u"
    by (simp_all add: demo_postable demo_takes)
  have fresh: "unique_rows (responses (writes_demo\<lparr>responses := []\<rparr>))" by (simp add: demo_unique(2))
  have clash: "(\<exists>aid fid. find_row (responses writes_demo) aid fid = None \<and> 1 < nonblank_posts ?i ?f [demo_post ''y''] aid fid) = False"
    "(\<exists>aid fid. find_row (responses writes_demo) aid fid = None \<and> 1 < nonblank_posts ?i ?f [demo_post [], demo_post ''y''] aid fid) = False"
    by (rule demo_no_clash, simp)+
  obtain rows c where one: "demo_apply writes_demo [demo_post ''y''] = Inr (writes_demo\<lparr>responses := rows\<rparr>, 1, c)"
    "shown demo_field (find_row rows 2 5) = Inr ''y''"
    using main [OF demo_unique(1) ok(1), unfolded clash if_False] demo_values [of "[''y'']"]
    by (auto simp: demo_apply_def demo_cell)
  obtain rows' c' where two: "demo_apply writes_demo [demo_post [], demo_post ''y''] = Inr (writes_demo\<lparr>responses := rows'\<rparr>, 1, c')"
    "cell_text demo_field (find_row rows' 2 5) = bindE (cell_text demo_field (find_row (responses writes_demo) 2 5))
      (\<lambda>so. Inr (posted_cell so (posted_values ?i ?f [demo_post [], demo_post ''y''] 2 5)))"
    using main [OF demo_unique(1) ok(2), unfolded clash if_False] by (auto simp: demo_apply_def demo_cell)
  have "find_row rows' 2 5 = None" using two(2) demo_values [of "[[], ''y'']"]
    by (cases "find_row rows' 2 5") (simp_all add: demo_text(1) cell_text_def [of _ "Some _"] split: sum.splits)
  moreover have "nonblank_posts ?i ?f [demo_post ''y'', demo_post ''z''] 2 5 = 2" using demo_values [of "[''y'', ''z'']"]
    by (simp add: nonblank_posts_def)
  then have "\<exists>aid fid. find_row (responses (writes_demo\<lparr>responses := []\<rparr>)) aid fid = None
      \<and> 1 < nonblank_posts ?i ?f [demo_post ''y'', demo_post ''z''] aid fid"
    by (intro exI [of _ 2] exI [of _ 5]) (simp add: find_row_def)
  then have "demo_apply (writes_demo\<lparr>responses := []\<rparr>) [demo_post ''y'', demo_post ''z''] = Inl (DatabaseError ''IntegrityError'')"
    using main [OF fresh ok(3)] by (simp only: demo_apply_def if_True)
  ultimately show ?thesis using one two(1) by blast
qed

text \<open>
  Posting back what is shown changes nothing: no row, no version, no stamp, of the cell or
  of its group, and it reports no submission cleared. Reloading the form and saving it again
  is safe.
\<close>

theorem resaving_keeps_everything:
  assumes "\<forall>u \<in> set us. \<forall>a f. cell_of index flds u = Some (a, f) \<longrightarrow>
      shown f (find_row (responses d) (a_id a) (f_id f)) = Inr (u_value u)"
  shows "\<exists>n. apply_upserts d us index flds keys = Inr (d, n, 0)"
proof -
  define same where "same = (\<lambda>w :: writing. w_rows w = responses d \<and> w_added w = [] \<and> w_deleted w = {} \<and> w_cleared w = 0
      \<and> w_changed w = {} \<and> w_blanked w = {} \<and> w_blanked_groups w = {})"
  let ?step = "apply_one (wall d) (responses d) index flds keys"
  have one: "\<exists>w'. ?step w u = Inr w' \<and> same w'" if "same w" "u \<in> set us" for w u
  proof (cases "cell_of index flds u")
    case None
    then show ?thesis using that by (simp add: apply_one_def)
  next
    case (Some af)
    then obtain a f where af: "cell_of index flds u = Some (a, f)" by (cases af) simp
    have "shown f (find_row (responses d) (a_id a) (f_id f)) = Inr (u_value u)" using assms that(2) af by blast
    then show ?thesis using that(1)
      by (cases "keys (a_id a)"; cases "find_row (responses d) (a_id a) (f_id f)")
        (simp_all add: apply_one_def af Let_def same_def shown_def)
  qed
  have all: "\<exists>w'. apply_all ?step w vs = Inr w' \<and> same w'" if "same w" "set vs \<subseteq> set us" for w vs
    using that
  proof (induction vs arbitrary: w)
    case (Cons v vs)
    then obtain w1 where w1: "?step w v = Inr w1" "same w1" using one by fastforce
    show ?case using Cons.IH [OF w1(2)] Cons.prems(2) w1(1) by simp
  qed simp
  have "same (start_writing (responses d))" by (simp add: same_def)
  then obtain w where w: "apply_all ?step (start_writing (responses d)) us = Inr w" "same w"
    using all [of "start_writing (responses d)" us] by blast
  have "unstamp_where (\<lambda>_. False) xs = xs" "stamped_where (\<lambda>_. False) xs = 0" for xs
    by (simp_all add: unstamp_where_def stamped_where_def)
  moreover have "group_hit w = (\<lambda>_. False)" "blank_hit w = (\<lambda>_. False)"
    using w(2) by (simp_all add: same_def group_hit_def [abs_def] blank_hit_def [abs_def] fun_eq_iff split: option.split)
  ultimately show ?thesis using w(2) by (simp add: apply_upserts_eq w(1) flush_rows_def same_def)
qed

theorem resaving_keeps_everything_witness:
  "\<exists>n. demo_apply writes_demo [demo_post ''x''] = Inr (writes_demo, n, 0)"
proof -
  have "shown demo_field (find_row (responses writes_demo) 2 5) = Inr ''x''" by (simp add: shown_cell_text demo_text or_empty_def)
  then have "\<forall>u \<in> set [demo_post ''x'']. \<forall>a f. demo_cells u = Some (a, f) \<longrightarrow>
      shown f (find_row (responses writes_demo) (a_id a) (f_id f)) = Inr (u_value u)"
    by (auto simp: demo_cell)
  from resaving_keeps_everything [OF this, of Map.empty] show ?thesis by (simp add: demo_apply_def)
qed

end
