(* ===== verification/Visibility.thy ===== *)
theory Visibility
  imports Lifecycle_History
begin

text \<open>
  Who may see an instrument's responses, and in which form
  (\<open>app/services/visibility_policies.py\<close>, the check constraint of
  \<open>app/db/models/instrument_view_policy.py\<close>): one policy row per instrument and audience, a mode
  for each of the two windows (the review going on, the responses released), the resolver every
  page reads, and the writes of the visibility editor.
\<close>

section \<open>Audiences, modes, identity levels\<close>

definition AUDIENCES :: "string list" where
  "AUDIENCES = [''peer_reviewer'', ''reviewee'', ''observer'']"

definition MODE_LABELS :: "(string \<times> string \<times> string) list" where
  "MODE_LABELS = [(''raw'', ''row'', ''identified''), (''anonymized'', ''row'', ''deidentified''),
     (''summarized'', ''aggregated'', ''deidentified'')]"

definition PER_CELL_VALID_MODES :: "((string \<times> string) \<times> string option list) list" where
  "PER_CELL_VALID_MODES =
     [((''peer_reviewer'', ''while_ongoing''), [Some ''raw'']),
      ((''peer_reviewer'', ''after_release''), [None, Some ''raw'']),
      ((''reviewee'', ''while_ongoing''), [None]),
      ((''reviewee'', ''after_release''), [None, Some ''raw'', Some ''anonymized'', Some ''summarized'']),
      ((''observer'', ''while_ongoing''), [None, Some ''summarized'']),
      ((''observer'', ''after_release''), [None, Some ''raw'', Some ''anonymized'', Some ''summarized''])]"

definition valid_modes_for_cell :: "string \<Rightarrow> string \<Rightarrow> string option list result" where
  "valid_modes_for_cell audience window =
     (case dict_get PER_CELL_VALID_MODES (audience, window) of
        None \<Rightarrow> Inl (KeyError window) | Some ms \<Rightarrow> Inr ms)"

definition REVIEWER_IDENTITY_LEVELS :: "string list" where
  "REVIEWER_IDENTITY_LEVELS = [''name'', ''name_email'', ''name_email_profile'']"

definition DEFAULT_REVIEWER_IDENTITY :: string where
  "DEFAULT_REVIEWER_IDENTITY = ''name_email''"

definition REVIEWER_IDENTITY_AUDIENCES :: "string list" where
  "REVIEWER_IDENTITY_AUDIENCES = [''reviewee'', ''observer'']"

definition reviewer_identity :: "view_policy option \<Rightarrow> string" where
  "reviewer_identity policy =
     (let stored = (case policy of None \<Rightarrow> None | Some p \<Rightarrow> p_reviewer_identity p) in
      case stored of None \<Rightarrow> DEFAULT_REVIEWER_IDENTITY
      | Some l \<Rightarrow> if l \<in> set REVIEWER_IDENTITY_LEVELS then l else DEFAULT_REVIEWER_IDENTITY)"

definition validate_reviewer_identity :: "string \<Rightarrow> string option \<Rightarrow> unit result" where
  "validate_reviewer_identity audience level =
     (case level of None \<Rightarrow> Inr ()
      | Some l \<Rightarrow>
          if l \<notin> set REVIEWER_IDENTITY_LEVELS then Inl (VisibilityPolicyError ''invalid_reviewer_identity'')
          else if audience \<notin> set REVIEWER_IDENTITY_AUDIENCES
            then Inl (VisibilityPolicyError ''invalid_reviewer_identity'')
          else Inr ())"

section \<open>Modes and stored pairs\<close>

definition encode_mode :: "string \<Rightarrow> (string \<times> string) result" where
  "encode_mode m = (case dict_get MODE_LABELS m of
     None \<Rightarrow> Inl (VisibilityPolicyError ''invalid_mode'') | Some pair \<Rightarrow> Inr pair)"

definition decode_mode :: "string \<Rightarrow> string \<Rightarrow> string result" where
  "decode_mode granularity identification =
     (case find (\<lambda>(m, pair). pair = (granularity, identification)) MODE_LABELS of
        None \<Rightarrow> Inl (VisibilityPolicyError ''invalid_mode'') | Some (m, _) \<Rightarrow> Inr m)"

definition decode_pair_to_mode :: "string option \<Rightarrow> string option \<Rightarrow> string option" where
  "decode_pair_to_mode granularity identification =
     (case (granularity, identification) of
        (Some g, Some i) \<Rightarrow> (case decode_mode g i of Inl _ \<Rightarrow> None | Inr m \<Rightarrow> Some m)
      | _ \<Rightarrow> None)"

section \<open>The check constraint\<close>

text \<open>\<open>VIEW_POLICY_CELL_CHECK\<close>: a disjunction over the audiences of one term per window.\<close>

definition pair_is :: "string option \<Rightarrow> string option \<Rightarrow> (string \<times> string) option \<Rightarrow> bool" where
  "pair_is g i pair = (case pair of
     None \<Rightarrow> g = None \<and> i = None
   | Some (a, b) \<Rightarrow> or_empty g = a \<and> or_empty i = b)"

definition mode_pair :: "string option \<Rightarrow> (string \<times> string) option" where
  "mode_pair m = (case m of None \<Rightarrow> None | Some l \<Rightarrow> dict_get MODE_LABELS l)"

definition CELL_MODES :: "(string \<times> string option list \<times> string option list) list" where
  "CELL_MODES =
     [(''peer_reviewer'', [Some ''raw''], [None, Some ''raw'']),
      (''reviewee'', [None], [None, Some ''raw'', Some ''anonymized'', Some ''summarized'']),
      (''observer'', [None, Some ''summarized''], [None, Some ''raw'', Some ''anonymized'', Some ''summarized''])]"

definition view_policy_cell_check :: "view_policy \<Rightarrow> bool" where
  "view_policy_cell_check p = list_ex (\<lambda>(audience, ongoing, released).
      p_audience p = audience
      \<and> list_ex (\<lambda>m. pair_is (p_ongoing_granularity p) (p_ongoing_identification p) (mode_pair m)) ongoing
      \<and> list_ex (\<lambda>m. pair_is (p_release_granularity p) (p_release_identification p) (mode_pair m)) released)
    CELL_MODES"

section \<open>The resolver\<close>

definition list_for_instrument :: "db \<Rightarrow> int \<Rightarrow> (string \<times> view_policy) list" where
  "list_for_instrument d iid = dict_of p_audience id (filter (\<lambda>p. p_instrument p = iid) (policies d))"

definition resolve_mode :: "view_policy option \<Rightarrow> bool \<Rightarrow> bool \<Rightarrow> string option" where
  "resolve_mode policy while_ongoing_open after_release_open =
     (case policy of None \<Rightarrow> None
      | Some p \<Rightarrow>
         (let mode = (if after_release_open
              then decode_pair_to_mode (p_release_granularity p) (p_release_identification p) else None)
          in if mode \<noteq> None then mode
             else if while_ongoing_open
               then decode_pair_to_mode (p_ongoing_granularity p) (p_ongoing_identification p)
             else None))"

definition audience_policies :: "db \<Rightarrow> int \<Rightarrow> string \<Rightarrow> view_policy list" where
  "audience_policies d sid audience =
     filter (\<lambda>p. p_audience p = audience
       \<and> list_ex (\<lambda>i. i_id i = p_instrument p \<and> i_session i = sid) (instruments d)) (policies d)"

definition reviewee_has_current_grant :: "db \<Rightarrow> int \<Rightarrow> review_session \<Rightarrow> bool" where
  "reviewee_has_current_grant d sid s =
     (if is_archived s then False
      else (let after_release_open = is_response_release_window_open (wall d) s in
        if \<not> after_release_open then False
        else list_ex (\<lambda>p. resolve_mode (Some p) False after_release_open \<noteq> None)
               (audience_policies d sid ''reviewee'')))"

definition observer_has_current_grant :: "db \<Rightarrow> int \<Rightarrow> review_session \<Rightarrow> bool" where
  "observer_has_current_grant d sid s =
     (if is_archived s then False
      else (let while_ongoing_open = is_ongoing (wall d) s;
                after_release_open = is_response_release_window_open (wall d) s in
        if \<not> (while_ongoing_open \<or> after_release_open) then False
        else list_ex (\<lambda>p. resolve_mode (Some p) while_ongoing_open after_release_open \<noteq> None)
               (audience_policies d sid ''observer'')))"

definition peer_reviewer_policies :: "db \<Rightarrow> int set \<Rightarrow> (int \<times> view_policy) list" where
  "peer_reviewer_policies d ids =
     (if ids = {} then []
      else dict_of p_instrument id (filter (\<lambda>p. p_instrument p \<in> ids \<and> p_audience p = ''peer_reviewer'') (policies d)))"

definition reviewer_sees_own_responses :: "int \<Rightarrow> review_session \<Rightarrow> view_policy option \<Rightarrow> bool" where
  "reviewer_sees_own_responses now s policy =
     (if is_archived s then False
      else if is_ongoing now s then True
      else if \<not> (is_expired s \<and> is_response_release_window_open now s) then False
      else resolve_mode policy False True = Some ''raw'')"

section \<open>The editor's writes\<close>

definition validate_per_window :: "string \<Rightarrow> string option \<Rightarrow> string option \<Rightarrow> unit result" where
  "validate_per_window audience ongoing_mode release_mode =
     (if audience \<notin> set AUDIENCES then Inl (VisibilityPolicyError ''invalid_audience'')
      else bindE (valid_modes_for_cell audience ''while_ongoing'') (\<lambda>allowed.
        if ongoing_mode \<notin> set allowed then Inl (VisibilityPolicyError ''invalid_mode'')
        else bindE (valid_modes_for_cell audience ''after_release'') (\<lambda>allowed.
          if release_mode \<notin> set allowed then Inl (VisibilityPolicyError ''invalid_mode'') else Inr ())))"

text \<open>The columns a write proposes, by name; the identity level only when the caller passes one.\<close>

definition window_pair :: "string option \<Rightarrow> (string option \<times> string option) result" where
  "window_pair mode = (case mode of None \<Rightarrow> Inr (None, None)
     | Some m \<Rightarrow> bindE (encode_mode m) (\<lambda>(g, i). Inr (Some g, Some i)))"

definition proposed ::
  "string option \<times> string option \<Rightarrow> string option \<times> string option \<Rightarrow> string option option
     \<Rightarrow> (string \<times> string option) list" where
  "proposed ongoing release identity =
     [(''while_ongoing_granularity'', fst ongoing), (''while_ongoing_identification'', snd ongoing),
      (''after_release_granularity'', fst release), (''after_release_identification'', snd release)]
     @ (case identity of None \<Rightarrow> [] | Some l \<Rightarrow> [(''after_release_reviewer_identity'', l)])"

text \<open>\<open>getattr\<close> and \<open>setattr\<close> of a policy column.\<close>

definition policy_column :: "view_policy \<Rightarrow> string \<Rightarrow> string option" where
  "policy_column p c =
     (if c = ''while_ongoing_granularity'' then p_ongoing_granularity p
      else if c = ''while_ongoing_identification'' then p_ongoing_identification p
      else if c = ''after_release_granularity'' then p_release_granularity p
      else if c = ''after_release_identification'' then p_release_identification p
      else p_reviewer_identity p)"

definition set_policy_column :: "view_policy \<Rightarrow> string \<times> string option \<Rightarrow> view_policy" where
  "set_policy_column p cv = (case cv of (c, v) \<Rightarrow>
     if c = ''while_ongoing_granularity'' then p\<lparr>p_ongoing_granularity := v\<rparr>
     else if c = ''while_ongoing_identification'' then p\<lparr>p_ongoing_identification := v\<rparr>
     else if c = ''after_release_granularity'' then p\<lparr>p_release_granularity := v\<rparr>
     else if c = ''after_release_identification'' then p\<lparr>p_release_identification := v\<rparr>
     else p\<lparr>p_reviewer_identity := v\<rparr>)"

definition json_text :: "string option \<Rightarrow> jval" where
  "json_text v = (case v of None \<Rightarrow> JNull | Some s \<Rightarrow> JStr s)"

definition policy_of :: "db \<Rightarrow> int \<Rightarrow> string \<Rightarrow> view_policy option" where
  "policy_of d iid audience = find (\<lambda>p. p_instrument p = iid \<and> p_audience p = audience) (policies d)"

definition blank_policy :: "int \<Rightarrow> int \<Rightarrow> string \<Rightarrow> view_policy" where
  "blank_policy k iid audience = \<lparr>p_id = k, p_instrument = iid, p_audience = audience,
     p_ongoing_granularity = None, p_ongoing_identification = None, p_release_granularity = None,
     p_release_identification = None, p_reviewer_identity = None\<rparr>"

text \<open>
  The row a write leaves and its changes. The id of a new row is the database's, the parameter
  \<open>fresh\<close>.
\<close>

type_synonym changes = "(string \<times> jval \<times> jval) list"

definition write_policy ::
  "(view_policy list \<Rightarrow> int) \<Rightarrow> int \<Rightarrow> string \<Rightarrow> (string \<times> string option) list \<Rightarrow> db \<Rightarrow> view_policy \<times> changes \<times> db" where
  "write_policy fresh iid audience prop d =
     (case policy_of d iid audience of
        None \<Rightarrow>
          (let row = foldl set_policy_column (blank_policy (fresh (policies d)) iid audience) prop
           in (row, map (\<lambda>(c, v). (c, JNull, json_text v)) prop, d\<lparr>policies := policies d @ [row]\<rparr>))
      | Some old \<Rightarrow>
          (let moved = filter (\<lambda>(c, v). policy_column old c \<noteq> v) prop;
               row = foldl set_policy_column old moved
           in (row, map (\<lambda>(c, v). (c, json_text (policy_column old c), json_text v)) moved,
               d\<lparr>policies := map (\<lambda>p. if p_instrument p = iid \<and> p_audience p = audience then row else p) (policies d)\<rparr>)))"

definition upsert_policy ::
  "(view_policy list \<Rightarrow> int) \<Rightarrow> int option \<Rightarrow> int \<Rightarrow> int \<Rightarrow> string \<Rightarrow> string option \<Rightarrow> string option
     \<Rightarrow> string option option \<Rightarrow> db \<Rightarrow> (db \<times> changes) result" where
  "upsert_policy fresh user sid iid audience ongoing_mode release_mode identity d =
     bindE (require_editable d sid) (\<lambda>_.
     bindE (validate_per_window audience ongoing_mode release_mode) (\<lambda>_.
     bindE (case identity of None \<Rightarrow> Inr () | Some l \<Rightarrow> validate_reviewer_identity audience l) (\<lambda>_.
     bindE (window_pair ongoing_mode) (\<lambda>ongoing.
     bindE (window_pair release_mode) (\<lambda>release.
       let (row, changes, d') = write_policy fresh iid audience (proposed ongoing release identity) d
       in if changes = [] then Inr (d, [])
          else Inr (write_event ''instrument.view_policy_set'' user (Some sid) (Changes changes) None
                 [(''instrument_id'', iid), (''policy_id'', p_id row)] []
                 (invalidate_if_validated user ''instrument_view_policy_set'' sid d'), changes))))))"

text \<open>One row of the editor's form; \<open>vr_identity\<close> is \<open>None\<close> when the form has no such key.\<close>

record visibility_row =
  vr_audience :: string
  vr_ongoing :: "string option"
  vr_release :: "string option"
  vr_identity :: "string option option"

definition mode_or_none :: "string option \<Rightarrow> string option" where
  "mode_or_none v = (case v of None \<Rightarrow> None
     | Some s \<Rightarrow> let text = py_strip s in if text = [] then None else Some text)"

fun upsert_rows ::
  "(view_policy list \<Rightarrow> int) \<Rightarrow> int option \<Rightarrow> int \<Rightarrow> int \<Rightarrow> visibility_row list \<Rightarrow> db
     \<Rightarrow> (db \<times> (string \<times> changes) list) result" where
  "upsert_rows fresh user sid iid [] d = Inr (d, [])"
| "upsert_rows fresh user sid iid (r # rs) d =
     bindE (upsert_policy fresh user sid iid (vr_audience r) (mode_or_none (vr_ongoing r))
         (mode_or_none (vr_release r)) (map_option mode_or_none (vr_identity r)) d) (\<lambda>(d', changes).
     bindE (upsert_rows fresh user sid iid rs d') (\<lambda>(d'', more).
       Inr (d'', (vr_audience r, changes) # more)))"

definition upsert_many ::
  "(view_policy list \<Rightarrow> int) \<Rightarrow> int option \<Rightarrow> int \<Rightarrow> int \<Rightarrow> visibility_row list \<Rightarrow> db
     \<Rightarrow> (db \<times> (string \<times> changes) list) result" where
  "upsert_many fresh user sid iid rs d =
     bindE (require_editable d sid) (\<lambda>_. upsert_rows fresh user sid iid rs d)"

section \<open>The validator and the constraint\<close>

lemmas label_defs = MODE_LABELS_def PER_CELL_VALID_MODES_def CELL_MODES_def AUDIENCES_def dict_get_def
lemmas mode_defs = label_defs encode_mode_def decode_mode_def decode_pair_to_mode_def window_pair_def mode_pair_def

lemma window_pair_modes [simp]:
  "window_pair None = Inr (None, None)"
  "window_pair (Some ''raw'') = Inr (Some ''row'', Some ''identified'')"
  "window_pair (Some ''anonymized'') = Inr (Some ''row'', Some ''deidentified'')"
  "window_pair (Some ''summarized'') = Inr (Some ''aggregated'', Some ''deidentified'')"
  by (simp_all add: mode_defs)

lemma valid_cells [simp]:
  "valid_modes_for_cell ''peer_reviewer'' ''while_ongoing'' = Inr [Some ''raw'']"
  "valid_modes_for_cell ''peer_reviewer'' ''after_release'' = Inr [None, Some ''raw'']"
  "valid_modes_for_cell ''reviewee'' ''while_ongoing'' = Inr [None]"
  "valid_modes_for_cell ''reviewee'' ''after_release'' = Inr [None, Some ''raw'', Some ''anonymized'', Some ''summarized'']"
  "valid_modes_for_cell ''observer'' ''while_ongoing'' = Inr [None, Some ''summarized'']"
  "valid_modes_for_cell ''observer'' ''after_release'' = Inr [None, Some ''raw'', Some ''anonymized'', Some ''summarized'']"
  by (simp_all add: valid_modes_for_cell_def label_defs)

text \<open>A stored pair is one of the four a window can hold, or anything else.\<close>

lemma pair_is_modes:
  "pair_is g i (mode_pair None) \<longleftrightarrow> g = None \<and> i = None"
  "pair_is g i (mode_pair (Some ''raw'')) \<longleftrightarrow> g = Some ''row'' \<and> i = Some ''identified''"
  "pair_is g i (mode_pair (Some ''anonymized'')) \<longleftrightarrow> g = Some ''row'' \<and> i = Some ''deidentified''"
  "pair_is g i (mode_pair (Some ''summarized'')) \<longleftrightarrow> g = Some ''aggregated'' \<and> i = Some ''deidentified''"
  by (auto simp: pair_is_def mode_pair_def label_defs or_empty_def split: option.splits)

lemma decode_pairs [simp]:
  "decode_pair_to_mode None i = None" "decode_pair_to_mode g None = None"
  "decode_pair_to_mode (Some ''row'') (Some ''identified'') = Some ''raw''"
  "decode_pair_to_mode (Some ''row'') (Some ''deidentified'') = Some ''anonymized''"
  "decode_pair_to_mode (Some ''aggregated'') (Some ''deidentified'') = Some ''summarized''"
  by (simp_all add: mode_defs split: option.split)

lemma decode_pair_Some:
  "decode_pair_to_mode g i = Some m \<longleftrightarrow>
     g = Some ''row'' \<and> i = Some ''identified'' \<and> m = ''raw'' \<or>
     g = Some ''row'' \<and> i = Some ''deidentified'' \<and> m = ''anonymized'' \<or>
     g = Some ''aggregated'' \<and> i = Some ''deidentified'' \<and> m = ''summarized''"
  by (auto simp: mode_defs split: option.splits if_splits)

lemma window_terms:
  "pair_is g i (mode_pair None) \<longleftrightarrow> g = None \<and> i = None"
  "pair_is g i (mode_pair (Some ''raw'')) \<longleftrightarrow> decode_pair_to_mode g i = Some ''raw''"
  "pair_is g i (mode_pair (Some ''anonymized'')) \<longleftrightarrow> decode_pair_to_mode g i = Some ''anonymized''"
  "pair_is g i (mode_pair (Some ''summarized'')) \<longleftrightarrow> decode_pair_to_mode g i = Some ''summarized''"
  "decode_pair_to_mode g i = Some ''raw'' \<or> decode_pair_to_mode g i = Some ''anonymized''
     \<or> decode_pair_to_mode g i = Some ''summarized'' \<longleftrightarrow> decode_pair_to_mode g i \<noteq> None"
  using decode_pair_Some [of g i] by (simp_all add: pair_is_modes) (auto simp: not_None_eq)

lemma cell_check_cases:
  "view_policy_cell_check p \<longleftrightarrow>
     (p_audience p = ''peer_reviewer'' \<and> decode_pair_to_mode (p_ongoing_granularity p) (p_ongoing_identification p) = Some ''raw''
        \<and> (p_release_granularity p = None \<and> p_release_identification p = None
           \<or> decode_pair_to_mode (p_release_granularity p) (p_release_identification p) = Some ''raw''))
   \<or> (p_audience p = ''reviewee'' \<and> p_ongoing_granularity p = None \<and> p_ongoing_identification p = None
        \<and> (p_release_granularity p = None \<and> p_release_identification p = None
           \<or> decode_pair_to_mode (p_release_granularity p) (p_release_identification p) \<noteq> None))
   \<or> (p_audience p = ''observer'' \<and> (p_ongoing_granularity p = None \<and> p_ongoing_identification p = None
           \<or> decode_pair_to_mode (p_ongoing_granularity p) (p_ongoing_identification p) = Some ''summarized'')
        \<and> (p_release_granularity p = None \<and> p_release_identification p = None
           \<or> decode_pair_to_mode (p_release_granularity p) (p_release_identification p) \<noteq> None))"
  by (simp only: view_policy_cell_check_def CELL_MODES_def list_ex_Nil_iff list_ex_Cons_iff prod.case window_terms simp_thms conj_assoc)

text \<open>
  The database's check constraint and the service's validator are the same rule: a row
  satisfies the constraint exactly when the modes its two stored pairs decode to are ones the
  validator takes for its audience and encode back to those very pairs.
\<close>

theorem cell_check_is_the_validator:
  "view_policy_cell_check p \<longleftrightarrow>
     (let ongoing = decode_pair_to_mode (p_ongoing_granularity p) (p_ongoing_identification p);
          release = decode_pair_to_mode (p_release_granularity p) (p_release_identification p)
      in validate_per_window (p_audience p) ongoing release = Inr ()
         \<and> window_pair ongoing = Inr (p_ongoing_granularity p, p_ongoing_identification p)
         \<and> window_pair release = Inr (p_release_granularity p, p_release_identification p))"
proof -
  have pairs: "window_pair (decode_pair_to_mode g i) = Inr (g, i) \<longleftrightarrow>
      (g = None \<and> i = None) \<or> decode_pair_to_mode g i \<noteq> None" for g i
    by (cases "decode_pair_to_mode g i") (auto simp: decode_pair_Some)
  have modes: "decode_pair_to_mode g i \<in> {None, Some ''raw'', Some ''anonymized'', Some ''summarized''}" for g i
    by (cases "decode_pair_to_mode g i") (auto simp: decode_pair_Some)
  consider "p_audience p = ''peer_reviewer''" | "p_audience p = ''reviewee''" | "p_audience p = ''observer''"
    | "p_audience p \<notin> set AUDIENCES" by (auto simp: AUDIENCES_def)
  then show ?thesis
    using modes [of "p_ongoing_granularity p" "p_ongoing_identification p"]
      modes [of "p_release_granularity p" "p_release_identification p"]
    by cases (auto simp: Let_def pairs cell_check_cases validate_per_window_def AUDIENCES_def)
qed

section \<open>What each audience sees in each window\<close>

definition mode_now :: "int \<Rightarrow> review_session \<Rightarrow> view_policy \<Rightarrow> string option" where
  "mode_now now s p = resolve_mode (Some p) (is_ongoing now s) (is_response_release_window_open now s)"

lemma one_window: "\<not> (is_ongoing now s \<and> is_response_release_window_open now s)"
  by (auto simp: is_ongoing_def is_response_release_window_open_def status_defs)

lemma no_window_archived: "is_archived s \<Longrightarrow> \<not> is_ongoing now s \<and> \<not> is_response_release_window_open now s"
  by (auto simp: is_ongoing_def is_response_release_window_open_def status_defs)

lemma window_status:
  "is_ongoing now s \<Longrightarrow> is_ready s" "is_response_release_window_open now s \<Longrightarrow> is_expired s"
  by (simp_all add: is_ongoing_def is_response_release_window_open_def split: if_splits)

lemma mode_now_cases:
  "mode_now now s p =
     (if is_ongoing now s then decode_pair_to_mode (p_ongoing_granularity p) (p_ongoing_identification p)
      else if is_response_release_window_open now s
        then decode_pair_to_mode (p_release_granularity p) (p_release_identification p)
      else None)"
  using one_window [of now s] by (auto simp: mode_now_def resolve_mode_def Let_def)

text \<open>
  C30. Under the constraint, what an audience sees follows the window alone. While the review is
  going on reviewers see their own work raw, reviewees see nothing, observers a summary or
  nothing; in the release window each row shows its release mode, reviewers raw or nothing; in
  neither window, as in an archived session, nobody sees anything. An expired session never falls
  back to a mode of the window before.
\<close>

theorem modes_follow_the_window:
  assumes "view_policy_cell_check p"
  shows "mode_now now s p \<in>
    (if is_ongoing now s then
       (if p_audience p = ''peer_reviewer'' then {Some ''raw''}
        else if p_audience p = ''reviewee'' then {None} else {None, Some ''summarized''})
     else if is_response_release_window_open now s then
       (if p_audience p = ''peer_reviewer'' then {None, Some ''raw''}
        else {decode_pair_to_mode (p_release_granularity p) (p_release_identification p)})
     else {None})
   \<and> (mode_now now s p = None \<or> (\<not> is_archived s \<and> (is_ready s \<or> is_expired s)))"
  using assms no_window_archived [of s now] window_status [of now s]
  by (auto simp: mode_now_cases cell_check_cases)

definition demo_policy :: "string \<Rightarrow> (string \<times> string) option \<Rightarrow> (string \<times> string) option \<Rightarrow> view_policy" where
  "demo_policy aud ong rel = \<lparr>p_id = 1, p_instrument = 10, p_audience = aud,
     p_ongoing_granularity = map_option fst ong, p_ongoing_identification = map_option snd ong,
     p_release_granularity = map_option fst rel, p_release_identification = map_option snd rel, p_reviewer_identity = None\<rparr>"

theorem modes_follow_the_window_witness:
  "mode_now 0 (demo_session\<lparr>s_status := Ready\<rparr>) (demo_policy ''observer'' (Some (''aggregated'', ''deidentified'')) (Some (''row'', ''identified'')))
     \<in> {None, Some ''summarized''}"
proof -
  let ?p = "demo_policy ''observer'' (Some (''aggregated'', ''deidentified'')) (Some (''row'', ''identified''))"
  have "view_policy_cell_check ?p" by code_simp
  moreover have "is_ongoing 0 (demo_session\<lparr>s_status := Ready\<rparr>)" by code_simp
  ultimately show ?thesis
    using modes_follow_the_window [of ?p 0 "demo_session\<lparr>s_status := Ready\<rparr>"] by (simp add: demo_policy_def)
qed

text \<open>
  The session-level answers agree with the resolver each page runs per instrument: a
  reviewee or an observer has a grant now exactly when some row of theirs resolves to a mode now,
  and a reviewer may read back their own answers exactly when their row resolves to Raw.
\<close>

theorem grants_agree_with_the_resolver:
  assumes "\<forall>p \<in> set (policies d). view_policy_cell_check p"
  shows "(reviewee_has_current_grant d sid s \<longleftrightarrow>
        (\<exists>p \<in> set (audience_policies d sid ''reviewee''). mode_now (wall d) s p \<noteq> None))
    \<and> (observer_has_current_grant d sid s \<longleftrightarrow>
        (\<exists>p \<in> set (audience_policies d sid ''observer''). mode_now (wall d) s p \<noteq> None))
    \<and> (\<forall>p \<in> set (audience_policies d sid ''peer_reviewer'').
        reviewer_sees_own_responses (wall d) s (Some p) \<longleftrightarrow> mode_now (wall d) s p = Some ''raw'')"
proof -
  have check: "view_policy_cell_check p \<and> p_audience p = a" if "p \<in> set (audience_policies d sid a)" for a p
    using that assms by (auto simp: audience_policies_def)
  note w = no_window_archived [of s "wall d"] one_window [of "wall d" s]
  have closed: "resolve_mode (Some p) False b = (if b then decode_pair_to_mode (p_release_granularity p) (p_release_identification p) else None)"
    for p b by (simp add: resolve_mode_def Let_def)
  have reviewee: "mode_now (wall d) s p \<noteq> None \<longleftrightarrow> is_response_release_window_open (wall d) s
      \<and> decode_pair_to_mode (p_release_granularity p) (p_release_identification p) \<noteq> None"
    if "p \<in> set (audience_policies d sid ''reviewee'')" for p
  proof -
    have "decode_pair_to_mode (p_ongoing_granularity p) (p_ongoing_identification p) = None"
      using check [OF that] by (auto simp: cell_check_cases)
    then show ?thesis using w by (simp add: mode_now_cases)
  qed
  have "reviewee_has_current_grant d sid s \<longleftrightarrow> is_response_release_window_open (wall d) s
      \<and> (\<exists>p \<in> set (audience_policies d sid ''reviewee'').
           decode_pair_to_mode (p_release_granularity p) (p_release_identification p) \<noteq> None)"
    using w by (auto simp: reviewee_has_current_grant_def Let_def list_ex_iff closed)
  then have "reviewee_has_current_grant d sid s \<longleftrightarrow>
        (\<exists>p \<in> set (audience_policies d sid ''reviewee''). mode_now (wall d) s p \<noteq> None)"
    using reviewee by blast
  moreover have "observer_has_current_grant d sid s \<longleftrightarrow>
        (\<exists>p \<in> set (audience_policies d sid ''observer''). mode_now (wall d) s p \<noteq> None)"
    using w by (auto simp: observer_has_current_grant_def Let_def list_ex_iff mode_now_def [symmetric] mode_now_cases)
  moreover have "reviewer_sees_own_responses (wall d) s (Some p) \<longleftrightarrow> mode_now (wall d) s p = Some ''raw''"
    if "p \<in> set (audience_policies d sid ''peer_reviewer'')" for p
  proof -
    have "decode_pair_to_mode (p_ongoing_granularity p) (p_ongoing_identification p) = Some ''raw''"
      using check [OF that] by (auto simp: cell_check_cases)
    then show ?thesis using w window_status [of "wall d" s] by (auto simp: reviewer_sees_own_responses_def mode_now_cases closed)
  qed
  ultimately show ?thesis by blast
qed

definition policies_demo :: db where
  "policies_demo = blank_db\<lparr>sessions := [1 \<mapsto> demo_session], instruments := [demo_instrument 10 1 False],
     policies := [demo_policy ''reviewee'' None (Some (''row'', ''deidentified''))]\<rparr>"

theorem grants_agree_with_the_resolver_witness:
  "reviewee_has_current_grant policies_demo 1 (demo_session\<lparr>s_status := Expired, s_responses_release_at := Some (Aware 0)\<rparr>)
    = (\<exists>p \<in> set (audience_policies policies_demo 1 ''reviewee'').
        mode_now (wall policies_demo) (demo_session\<lparr>s_status := Expired, s_responses_release_at := Some (Aware 0)\<rparr>) p \<noteq> None)"
proof -
  have "\<forall>p \<in> set (policies policies_demo). view_policy_cell_check p" by code_simp
  from conjunct1 [OF grants_agree_with_the_resolver [OF this, of 1]] show ?thesis .
qed

section \<open>What a write leaves\<close>

definition written_policy ::
  "string option \<times> string option \<Rightarrow> string option \<times> string option \<Rightarrow> string option option \<Rightarrow> view_policy \<Rightarrow> view_policy" where
  "written_policy ongoing release identity p = p\<lparr>p_ongoing_granularity := fst ongoing,
     p_ongoing_identification := snd ongoing, p_release_granularity := fst release,
     p_release_identification := snd release,
     p_reviewer_identity := (case identity of None \<Rightarrow> p_reviewer_identity p | Some l \<Rightarrow> l)\<rparr>"

lemma written_policy_simps [simp]:
  "p_instrument (written_policy ongoing release i p) = p_instrument p"
  "p_audience (written_policy ongoing release i p) = p_audience p"
  "p_id (written_policy ongoing release i p) = p_id p"
  "written_policy ongoing release i (written_policy ongoing release i p) = written_policy ongoing release i p"
  by (simp_all add: written_policy_def split: option.split)

lemma set_proposed: "foldl set_policy_column p (proposed ongoing release i) = written_policy ongoing release i p"
  by (cases i) (simp_all add: proposed_def set_policy_column_def written_policy_def)

definition POLICY_COLUMNS :: "string set" where
  "POLICY_COLUMNS = {''while_ongoing_granularity'', ''while_ongoing_identification'', ''after_release_granularity'',
     ''after_release_identification'', ''after_release_reviewer_identity''}"

lemma column_set_same: "set_policy_column p (c, policy_column p c) = p"
  by (cases p) (simp add: set_policy_column_def policy_column_def)

lemma column_set_other:
  assumes "c \<in> POLICY_COLUMNS" "c' \<in> POLICY_COLUMNS" "c \<noteq> c'"
  shows "policy_column (set_policy_column p (c, v)) c' = policy_column p c'"
  using assms unfolding POLICY_COLUMNS_def
  by (elim insertE emptyE) (simp_all add: set_policy_column_def policy_column_def)

lemma set_moved_from:
  assumes "distinct (map fst cvs)" "fst ` set cvs \<subseteq> POLICY_COLUMNS"
    and "\<And>c. c \<in> fst ` set cvs \<Longrightarrow> policy_column p c = policy_column old c"
  shows "foldl set_policy_column p (filter (\<lambda>(c, v). policy_column old c \<noteq> v) cvs) = foldl set_policy_column p cvs"
  using assms
proof (induction cvs arbitrary: p)
  case (Cons cv cvs)
  obtain c v where cv: "cv = (c, v)" by (cases cv)
  have pc: "policy_column p c = policy_column old c" using Cons.prems(3) by (simp add: cv)
  show ?case
  proof (cases "policy_column old c = v")
    case True
    then have "set_policy_column p (c, v) = p" using pc column_set_same by metis
    then show ?thesis using True Cons by (simp add: cv)
  next
    case False
    have "policy_column (set_policy_column p (c, v)) c' = policy_column old c'" if "c' \<in> fst ` set cvs" for c'
    proof -
      have "c \<noteq> c'" "c \<in> POLICY_COLUMNS" "c' \<in> POLICY_COLUMNS"
        using that Cons.prems(1,2) by (auto simp: cv)
      then show ?thesis using column_set_other Cons.prems(3) that by simp
    qed
    then show ?thesis using False Cons.IH Cons.prems by (simp add: cv)
  qed
qed simp

lemma set_moved:
  "foldl set_policy_column p (filter (\<lambda>(c, v). policy_column p c \<noteq> v) (proposed ongoing release i))
     = written_policy ongoing release i p"
  unfolding set_proposed [symmetric]
  by (rule set_moved_from) (auto simp: proposed_def POLICY_COLUMNS_def split: option.splits)

lemma nothing_moved:
  "filter (\<lambda>(c, v). policy_column p c \<noteq> v) (proposed ongoing release i) = [] \<longleftrightarrow> written_policy ongoing release i p = p"
proof
  assume "filter (\<lambda>(c, v). policy_column p c \<noteq> v) (proposed ongoing release i) = []"
  then show "written_policy ongoing release i p = p" by (metis set_moved foldl_Nil)
next
  assume w: "written_policy ongoing release i p = p"
  have "policy_column (written_policy ongoing release i p) c = v" if "(c, v) \<in> set (proposed ongoing release i)" for c v
    using that by (cases i) (auto simp: proposed_def policy_column_def written_policy_def)
  then show "filter (\<lambda>(c, v). policy_column p c \<noteq> v) (proposed ongoing release i) = []"
    by (auto simp: w filter_empty_conv)
qed

definition at_policy :: "int \<Rightarrow> string \<Rightarrow> view_policy \<Rightarrow> bool" where
  "at_policy iid audience p = (p_instrument p = iid \<and> p_audience p = audience)"

definition put_policy :: "(view_policy list \<Rightarrow> int) \<Rightarrow> int \<Rightarrow> string \<Rightarrow> (view_policy \<Rightarrow> view_policy) \<Rightarrow> view_policy list \<Rightarrow> view_policy list" where
  "put_policy fresh iid audience f ps = (case find (at_policy iid audience) ps of
     None \<Rightarrow> ps @ [f (blank_policy (fresh ps) iid audience)]
   | Some old \<Rightarrow> map (\<lambda>p. if at_policy iid audience p then f old else p) ps)"

lemma find_policy: "policy_of d iid audience = find (at_policy iid audience) (policies d)"
  by (simp add: policy_of_def at_policy_def [abs_def])

lemma require_editable_Inr: "require_editable d sid = Inr s \<Longrightarrow> sessions d sid = Some s \<and> is_editable s"
  by (auto simp: require_editable_def require_state_Inr dest: lock_session_Inr)

lemma upsert_policy_Inr:
  assumes "upsert_policy fresh user sid iid audience om rm i d = Inr (d', ch)"
  obtains s ongoing release where
    "require_editable d sid = Inr s" "validate_per_window audience om rm = Inr ()"
    "window_pair om = Inr ongoing" "window_pair rm = Inr release"
    "(case i of None \<Rightarrow> Inr () | Some l \<Rightarrow> validate_reviewer_identity audience l) = Inr ()"
    "if ch = [] then d' = d \<and> (\<exists>p. policy_of d iid audience = Some p \<and> written_policy ongoing release i p = p)
     else \<exists>refs. d' = write_event ''instrument.view_policy_set'' user (Some sid) (Changes ch) None refs []
            (invalidate_if_validated user ''instrument_view_policy_set'' sid
              (d\<lparr>policies := put_policy fresh iid audience (written_policy ongoing release i) (policies d)\<rparr>))"
proof -
  obtain s ongoing release where ok:
    "require_editable d sid = Inr s" "validate_per_window audience om rm = Inr ()"
    "(case i of None \<Rightarrow> Inr () | Some l \<Rightarrow> validate_reviewer_identity audience l) = Inr ()"
    "window_pair om = Inr ongoing" "window_pair rm = Inr release"
    using assms by (auto simp: upsert_policy_def)
  obtain row ch' d1 where w: "write_policy fresh iid audience (proposed ongoing release i) d = (row, ch', d1)"
    by (metis prod_cases3)
  have e: "(if ch' = [] then Inr (d, []) else Inr (write_event ''instrument.view_policy_set'' user (Some sid) (Changes ch') None
      [(''instrument_id'', iid), (''policy_id'', p_id row)] [] (invalidate_if_validated user ''instrument_view_policy_set'' sid d1), ch'))
      = (Inr (d', ch) :: (db \<times> changes) result)"
    using assms ok w by (simp add: upsert_policy_def)
  then have ch: "ch' = ch" by (simp split: if_splits)
  show ?thesis
  proof (cases "policy_of d iid audience")
    case None
    then have "ch \<noteq> []" "d1 = d\<lparr>policies := put_policy fresh iid audience (written_policy ongoing release i) (policies d)\<rparr>"
      using w ch by (auto simp: write_policy_def Let_def put_policy_def find_policy set_proposed) (simp add: proposed_def)
    with e ch show ?thesis by (intro that [OF ok(1,2,4,5,3)]) auto
  next
    case (Some old)
    then have d1: "d1 = d\<lparr>policies := put_policy fresh iid audience (written_policy ongoing release i) (policies d)\<rparr>"
      and none: "ch = [] \<longleftrightarrow> written_policy ongoing release i old = old"
      using w ch nothing_moved [of old ongoing release i]
      by (auto simp: write_policy_def Let_def put_policy_def find_policy set_moved at_policy_def)
    show ?thesis
      by (intro that [OF ok(1,2,4,5,3)]) (use e ch none Some d1 in \<open>auto split: if_splits\<close>)
  qed
qed

lemma decode_window_pair: "window_pair m = Inr pair \<Longrightarrow> decode_pair_to_mode (fst pair) (snd pair) = m"
proof -
  assume w: "window_pair m = Inr pair"
  show ?thesis
  proof (cases m)
    case (Some l)
    then have "l \<in> {''raw'', ''anonymized'', ''summarized''}"
      using w by (auto simp: window_pair_def encode_mode_def label_defs split: if_splits)
    then show ?thesis using w Some by auto
  qed (use w in auto)
qed

lemma find_put:
  assumes "\<And>p. at_policy iid audience (f p) = at_policy iid audience p"
  shows "find (at_policy iid audience) (put_policy fresh iid audience f ps) =
    Some (f (case find (at_policy iid audience) ps of None \<Rightarrow> blank_policy (fresh ps) iid audience | Some p \<Rightarrow> p))"
proof (cases "find (at_policy iid audience) ps")
  case None
  have "at_policy iid audience (f (blank_policy (fresh ps) iid audience))"
    by (simp add: assms) (simp add: at_policy_def blank_policy_def)
  moreover have "find P (xs @ [x]) = (case find P xs of None \<Rightarrow> if P x then Some x else None | Some y \<Rightarrow> Some y)"
    for P and x :: view_policy and xs by (induction xs) auto
  ultimately show ?thesis using None by (simp add: put_policy_def)
next
  case (Some old)
  then have old: "at_policy iid audience old" by (auto simp: find_Some_iff)
  have "find (at_policy iid audience) (map (\<lambda>p. if at_policy iid audience p then f old else p) xs)
      = (if find (at_policy iid audience) xs = None then None else Some (f old))" for xs
    using old assms by (induction xs) auto
  then show ?thesis using Some by (simp add: put_policy_def)
qed

lemma at_written [simp]: "at_policy iid audience (written_policy ongoing release i p) = at_policy iid audience p"
  by (simp add: at_policy_def)

lemma invalidate_simps [simp]:
  "policies (invalidate_if_validated user r sid d) = policies d"
  "postgres (invalidate_if_validated user r sid d) = postgres d"
  "held (invalidate_if_validated user r sid d) = held d"
  by (simp_all add: invalidate_if_validated_def flip_to_draft_def set_status_def split: option.split)

lemma invalidate_sessions:
  assumes "sessions d sid = Some s" "is_editable s"
  shows "sessions (invalidate_if_validated user r sid d) sid = Some (s\<lparr>s_status := Draft\<rparr>)"
  using assms by (cases s)
    (auto simp: invalidate_if_validated_def flip_to_draft_def set_status_def upd_session_def is_editable_def status_defs)

lemma require_editable_after:
  assumes "require_editable d sid = Inr s" "postgres e = postgres d" "held e = held d"
    "sessions e sid = Some s'" "is_editable s'"
  shows "require_editable e sid = Inr s'"
  using assms by (auto simp: require_editable_def require_state_def lock_session_def split: if_splits option.splits)

lemma upsert_noop:
  assumes "require_editable d sid = Inr s" "validate_per_window audience om rm = Inr ()"
    "window_pair om = Inr ongoing" "window_pair rm = Inr release"
    "(case i of None \<Rightarrow> Inr () | Some l \<Rightarrow> validate_reviewer_identity audience l) = Inr ()"
    "policy_of d iid audience = Some p" "written_policy ongoing release i p = p"
  shows "upsert_policy fresh user sid iid audience om rm i d = Inr (d, [])"
  using assms nothing_moved [of p ongoing release i] by (simp add: upsert_policy_def write_policy_def Let_def)

text \<open>
  A write of the editor reads back: the audience's row then decodes to the two modes
  written, its identity level is the one passed, or the one stored before when none was, and
  the same write again is a no-op that reports no change and files no event.
\<close>

theorem upsert_policy_reads_back:
  assumes "upsert_policy fresh user sid iid audience om rm i d = Inr (d', ch)"
  shows "\<exists>p. policy_of d' iid audience = Some p
    \<and> decode_pair_to_mode (p_ongoing_granularity p) (p_ongoing_identification p) = om
    \<and> decode_pair_to_mode (p_release_granularity p) (p_release_identification p) = rm
    \<and> p_reviewer_identity p = (case i of Some l \<Rightarrow> l
        | None \<Rightarrow> (case policy_of d iid audience of None \<Rightarrow> None | Some q \<Rightarrow> p_reviewer_identity q))
    \<and> upsert_policy fresh user' sid iid audience om rm i d' = Inr (d', [])"
  using assms
proof (rule upsert_policy_Inr)
  fix s ongoing release
  assume ok: "require_editable d sid = Inr s" "validate_per_window audience om rm = Inr ()"
    "window_pair om = Inr ongoing" "window_pair rm = Inr release"
    "(case i of None \<Rightarrow> Inr () | Some l \<Rightarrow> validate_reviewer_identity audience l) = Inr ()"
    and ends: "if ch = [] then d' = d \<and> (\<exists>p. policy_of d iid audience = Some p \<and> written_policy ongoing release i p = p)
     else \<exists>refs. d' = write_event ''instrument.view_policy_set'' user (Some sid) (Changes ch) None refs []
            (invalidate_if_validated user ''instrument_view_policy_set'' sid
              (d\<lparr>policies := put_policy fresh iid audience (written_policy ongoing release i) (policies d)\<rparr>))"
  note s = conjunct1 [OF require_editable_Inr [OF ok(1)]] conjunct2 [OF require_editable_Inr [OF ok(1)]]
  have "\<exists>p s'. policy_of d' iid audience = Some p \<and> written_policy ongoing release i p = p
      \<and> p_reviewer_identity p = (case i of Some l \<Rightarrow> l
        | None \<Rightarrow> (case policy_of d iid audience of None \<Rightarrow> None | Some q \<Rightarrow> p_reviewer_identity q))
      \<and> require_editable d' sid = Inr s'"
  proof (cases "ch = []")
    case True
    then obtain p where p: "policy_of d iid audience = Some p" "written_policy ongoing release i p = p" "d' = d"
      using ends by auto
    from arg_cong [OF p(2), of p_reviewer_identity]
    have "p_reviewer_identity p = (case i of None \<Rightarrow> p_reviewer_identity p | Some l \<Rightarrow> l)" by (simp add: written_policy_def)
    then show ?thesis using p ok(1) by (auto split: option.splits)
  next
    case False
    then obtain refs where d': "d' = write_event ''instrument.view_policy_set'' user (Some sid) (Changes ch) None refs []
            (invalidate_if_validated user ''instrument_view_policy_set'' sid
              (d\<lparr>policies := put_policy fresh iid audience (written_policy ongoing release i) (policies d)\<rparr>))"
      using ends by auto
    have "sessions d' sid = Some (s\<lparr>s_status := Draft\<rparr>)" using s by (simp add: d' invalidate_sessions)
    then have "require_editable d' sid = Inr (s\<lparr>s_status := Draft\<rparr>)"
      using require_editable_after [OF ok(1), of d'] by (simp add: d' is_editable_def is_draft_def)
    moreover have "policy_of d' iid audience = Some (written_policy ongoing release i
        (case policy_of d iid audience of None \<Rightarrow> blank_policy (fresh (policies d)) iid audience | Some q \<Rightarrow> q))"
      by (simp add: d' find_policy find_put)
    ultimately show ?thesis by (auto simp: written_policy_def blank_policy_def split: option.split)
  qed
  then obtain p s' where p: "policy_of d' iid audience = Some p" "written_policy ongoing release i p = p"
      "p_reviewer_identity p = (case i of Some l \<Rightarrow> l
        | None \<Rightarrow> (case policy_of d iid audience of None \<Rightarrow> None | Some q \<Rightarrow> p_reviewer_identity q))"
      "require_editable d' sid = Inr s'" by blast
  have "p_ongoing_granularity p = fst ongoing" "p_ongoing_identification p = snd ongoing"
    "p_release_granularity p = fst release" "p_release_identification p = snd release"
    using arg_cong [OF p(2), of p_ongoing_granularity] arg_cong [OF p(2), of p_ongoing_identification]
      arg_cong [OF p(2), of p_release_granularity] arg_cong [OF p(2), of p_release_identification]
    by (simp_all add: written_policy_def)
  then show ?thesis
    using p upsert_noop [OF p(4) ok(2-5) p(1,2)] decode_window_pair [OF ok(3)] decode_window_pair [OF ok(4)] by auto
qed

section \<open>The invariant of the policy table\<close>

definition policies_ok :: "view_policy list \<Rightarrow> bool" where
  "policies_ok ps = ((\<forall>p \<in> set ps. view_policy_cell_check p)
     \<and> distinct (map (\<lambda>p. (p_instrument p, p_audience p)) ps) \<and> distinct (map p_id ps))"

lemma written_checked:
  assumes "validate_per_window (p_audience p) om rm = Inr ()" "window_pair om = Inr ongoing" "window_pair rm = Inr release"
  shows "view_policy_cell_check (written_policy ongoing release i p)"
proof -
  consider "p_audience p = ''peer_reviewer''" | "p_audience p = ''reviewee''" | "p_audience p = ''observer''"
    using assms(1) by (auto simp: validate_per_window_def AUDIENCES_def split: if_splits)
  then show ?thesis
    using assms by cases
      (auto simp: validate_per_window_def cell_check_cases written_policy_def AUDIENCES_def split: if_splits)
qed

lemma put_policy_ok:
  assumes ok: "policies_ok ps" and fresh: "fresh ps \<notin> p_id ` set ps"
    and "\<And>p. p_audience p = audience \<Longrightarrow> view_policy_cell_check (f p)"
    and f: "\<And>p. p_instrument (f p) = p_instrument p" "\<And>p. p_audience (f p) = p_audience p" "\<And>p. p_id (f p) = p_id p"
  shows "policies_ok (put_policy fresh iid audience f ps)"
    and "filter (\<lambda>p. \<not> at_policy iid audience p) (put_policy fresh iid audience f ps)
      = filter (\<lambda>p. \<not> at_policy iid audience p) ps"
proof -
  show "filter (\<lambda>p. \<not> at_policy iid audience p) (put_policy fresh iid audience f ps)
      = filter (\<lambda>p. \<not> at_policy iid audience p) ps"
  proof (cases "find (at_policy iid audience) ps")
    case None
    then show ?thesis by (simp add: put_policy_def f blank_policy_def at_policy_def)
  next
    case (Some old)
    then have "at_policy iid audience (f old)" by (auto simp: find_Some_iff at_policy_def f)
    then have "filter (\<lambda>p. \<not> at_policy iid audience p) (map (\<lambda>p. if at_policy iid audience p then f old else p) xs)
        = filter (\<lambda>p. \<not> at_policy iid audience p) xs" for xs
      by (induction xs) auto
    then show ?thesis using Some by (simp add: put_policy_def)
  qed
  show "policies_ok (put_policy fresh iid audience f ps)"
  proof (cases "find (at_policy iid audience) ps")
    case None
    then have "(iid, audience) \<notin> (\<lambda>p. (p_instrument p, p_audience p)) ` set ps"
      by (auto simp: find_None_iff at_policy_def)
    then show ?thesis using None ok fresh assms(3)
      by (auto simp: put_policy_def policies_ok_def f blank_policy_def)
  next
    case (Some old)
    then have old: "old \<in> set ps" "at_policy iid audience old" by (auto simp: find_Some_iff)
    have "p = old" if "p \<in> set ps" "at_policy iid audience p" for p
      using that old ok by (auto simp: policies_ok_def at_policy_def distinct_map dest: inj_onD)
    then have same: "map (\<lambda>p. if at_policy iid audience p then f old else p) ps = map (\<lambda>p. if at_policy iid audience p then f p else p) ps"
      by (intro map_cong) auto
    define g where "g = (\<lambda>p. if at_policy iid audience p then f p else p)"
    have g: "p_instrument (g p) = p_instrument p" "p_audience (g p) = p_audience p" "p_id (g p) = p_id p" for p
      by (simp_all add: g_def f)
    have "view_policy_cell_check (g p)" if "p \<in> set ps" for p
      using that ok assms(3) by (simp add: g_def policies_ok_def at_policy_def)
    then have "policies_ok (map g ps)" using ok by (simp add: policies_ok_def comp_def g)
    moreover have "put_policy fresh iid audience f ps = map g ps"
      unfolding put_policy_def Some option.case g_def by (rule same)
    ultimately show ?thesis by simp
  qed
qed

lemma filter_weaken: "filter P xs = filter P ys \<Longrightarrow> (\<And>x. Q x \<Longrightarrow> P x) \<Longrightarrow> filter Q xs = filter Q ys"
proof -
  assume h: "filter P xs = filter P ys" "\<And>x. Q x \<Longrightarrow> P x"
  have "filter Q zs = filter Q (filter P zs)" for zs using h(2) by (induction zs) auto
  then show ?thesis using h(1) by metis
qed

text \<open>
  What a save may do: write the policies of the instrument for the audiences it names and, if it
  changed one, put the session back to draft and log under it. Everything else is written out as
  unchanged.
\<close>

definition edited :: "int \<Rightarrow> int \<Rightarrow> string set \<Rightarrow> bool \<Rightarrow> db \<Rightarrow> db \<Rightarrow> bool" where
  "edited sid iid auds changed d d' =
     (policies_ok (policies d')
      \<and> filter (\<lambda>p. p_instrument p \<noteq> iid \<or> p_audience p \<notin> auds) (policies d')
          = filter (\<lambda>p. p_instrument p \<noteq> iid \<or> p_audience p \<notin> auds) (policies d)
      \<and> (if changed then \<exists>s es. sessions d sid = Some s \<and> is_editable s
            \<and> d' = d\<lparr>policies := policies d', sessions := (sessions d)(sid \<mapsto> s\<lparr>s_status := Draft\<rparr>),
                  audit_log := audit_log d @ es\<rparr> \<and> (\<forall>e \<in> set es. ev_session e = Some sid)
         else d' = d))"

lemma edited_trans:
  assumes "edited sid iid A b d d'" "edited sid iid B c d' d''"
  shows "edited sid iid (A \<union> B) (b \<or> c) d d''"
proof -
  have rows: "filter (\<lambda>p. p_instrument p \<noteq> iid \<or> p_audience p \<notin> A \<union> B) (policies d'')
      = filter (\<lambda>p. p_instrument p \<noteq> iid \<or> p_audience p \<notin> A \<union> B) (policies d)"
  proof (rule trans)
    show "filter (\<lambda>p. p_instrument p \<noteq> iid \<or> p_audience p \<notin> A \<union> B) (policies d'')
        = filter (\<lambda>p. p_instrument p \<noteq> iid \<or> p_audience p \<notin> A \<union> B) (policies d')"
      by (rule filter_weaken [OF assms(2) [unfolded edited_def, THEN conjunct2, THEN conjunct1]]) auto
    show "filter (\<lambda>p. p_instrument p \<noteq> iid \<or> p_audience p \<notin> A \<union> B) (policies d')
        = filter (\<lambda>p. p_instrument p \<noteq> iid \<or> p_audience p \<notin> A \<union> B) (policies d)"
      by (rule filter_weaken [OF assms(1) [unfolded edited_def, THEN conjunct2, THEN conjunct1]]) auto
  qed
  consider "\<not> b" | "\<not> c" | "b" "c" by blast
  then show ?thesis
  proof cases
    case 3
    then obtain s es where 1: "sessions d sid = Some s" "is_editable s" "\<forall>e \<in> set es. ev_session e = Some sid"
      "d' = d\<lparr>policies := policies d', sessions := (sessions d)(sid \<mapsto> s\<lparr>s_status := Draft\<rparr>), audit_log := audit_log d @ es\<rparr>"
      using assms(1) by (auto simp: edited_def)
    obtain t fs where 2: "sessions d' sid = Some t" "\<forall>e \<in> set fs. ev_session e = Some sid"
      "d'' = d'\<lparr>policies := policies d'', sessions := (sessions d')(sid \<mapsto> t\<lparr>s_status := Draft\<rparr>), audit_log := audit_log d' @ fs\<rparr>"
      using assms(2) 3 by (auto simp: edited_def)
    have d1: "sessions d' = (sessions d)(sid \<mapsto> s\<lparr>s_status := Draft\<rparr>)" "audit_log d' = audit_log d @ es"
      by (subst 1(4), simp)+
    then have "t = s\<lparr>s_status := Draft\<rparr>" using 2(1) by simp
    with d1 2(3) have "d'' = d'\<lparr>policies := policies d'', sessions := (sessions d)(sid \<mapsto> s\<lparr>s_status := Draft\<rparr>),
        audit_log := audit_log d @ es @ fs\<rparr>" by simp
    also have "\<dots> = d\<lparr>policies := policies d'', sessions := (sessions d)(sid \<mapsto> s\<lparr>s_status := Draft\<rparr>),
        audit_log := audit_log d @ es @ fs\<rparr>" by (subst 1(4)) simp
    finally have "d'' = d\<lparr>policies := policies d'', sessions := (sessions d)(sid \<mapsto> s\<lparr>s_status := Draft\<rparr>),
        audit_log := audit_log d @ es @ fs\<rparr>" .
    moreover have "\<forall>e \<in> set (es @ fs). ev_session e = Some sid" using 1(3) 2(2) by auto
    moreover have "policies_ok (policies d'')" using assms(2) by (simp add: edited_def)
    ultimately show ?thesis unfolding edited_def using rows 1(1,2) 3 by (simp only: simp_thms if_True) blast
  qed (use assms rows in \<open>auto simp: edited_def\<close>)
qed

lemma invalidated:
  assumes "sessions d sid = Some s" "is_editable s"
  shows "\<exists>es. invalidate_if_validated user r sid d
      = d\<lparr>sessions := (sessions d)(sid \<mapsto> s\<lparr>s_status := Draft\<rparr>), audit_log := audit_log d @ es\<rparr>
    \<and> (\<forall>e \<in> set es. ev_session e = Some sid)"
proof (cases "is_validated s")
  case True
  then show ?thesis using assms
    by (simp add: invalidate_if_validated_def flip_to_draft_def set_status_def write_event_def upd_session_def)
      (intro exI conjI, rule refl, simp)
next
  case False
  then have "s\<lparr>s_status := Draft\<rparr> = s" using assms(2) by (cases s) (auto simp: is_editable_def status_defs)
  then have "(sessions d)(sid \<mapsto> s\<lparr>s_status := Draft\<rparr>) = sessions d" using assms(1) by (auto simp: fun_eq_iff)
  then show ?thesis using False assms by (intro exI [of _ "[]"]) (simp add: invalidate_if_validated_def)
qed

lemma upsert_policy_edited:
  assumes "upsert_policy fresh user sid iid audience om rm i d = Inr (d', ch)"
    and "policies_ok (policies d)" and fresh: "\<And>ps. fresh ps \<notin> p_id ` set ps"
  shows "edited sid iid {audience} (ch \<noteq> []) d d'"
  using assms(1)
proof (rule upsert_policy_Inr)
  fix s ongoing release
  assume ok: "require_editable d sid = Inr s" "validate_per_window audience om rm = Inr ()"
    "window_pair om = Inr ongoing" "window_pair rm = Inr release"
    and ends: "if ch = [] then d' = d \<and> (\<exists>p. policy_of d iid audience = Some p \<and> written_policy ongoing release i p = p)
     else \<exists>refs. d' = write_event ''instrument.view_policy_set'' user (Some sid) (Changes ch) None refs []
            (invalidate_if_validated user ''instrument_view_policy_set'' sid
              (d\<lparr>policies := put_policy fresh iid audience (written_policy ongoing release i) (policies d)\<rparr>))"
  note s = conjunct1 [OF require_editable_Inr [OF ok(1)]] conjunct2 [OF require_editable_Inr [OF ok(1)]]
  show ?thesis
  proof (cases "ch = []")
    case True
    then show ?thesis using ends assms(2) by (simp add: edited_def)
  next
    case False
    let ?ps = "put_policy fresh iid audience (written_policy ongoing release i) (policies d)"
    obtain refs where d': "d' = write_event ''instrument.view_policy_set'' user (Some sid) (Changes ch) None refs []
            (invalidate_if_validated user ''instrument_view_policy_set'' sid (d\<lparr>policies := ?ps\<rparr>))"
      using ends False by auto
    have ps: "policies_ok ?ps" "filter (\<lambda>p. \<not> at_policy iid audience p) ?ps = filter (\<lambda>p. \<not> at_policy iid audience p) (policies d)"
      using put_policy_ok [where fresh = fresh and ps = "policies d" and f = "written_policy ongoing release i"
          and audience = audience and iid = iid, OF assms(2) fresh]
        written_checked [where om = om and rm = rm and ongoing = ongoing and release = release and i = i] ok(2-4) by auto
    have at: "(\<lambda>p. \<not> at_policy iid audience p) = (\<lambda>p. p_instrument p \<noteq> iid \<or> p_audience p \<notin> {audience})"
      by (auto simp: at_policy_def fun_eq_iff)
    have "sessions (d\<lparr>policies := ?ps\<rparr>) sid = Some s" using s by simp
    from invalidated [OF this conjunct2 [OF require_editable_Inr [OF ok(1)]], of user "''instrument_view_policy_set''"]
    obtain es where es: "invalidate_if_validated user ''instrument_view_policy_set'' sid (d\<lparr>policies := ?ps\<rparr>)
        = (d\<lparr>policies := ?ps\<rparr>)\<lparr>sessions := (sessions (d\<lparr>policies := ?ps\<rparr>))(sid \<mapsto> s\<lparr>s_status := Draft\<rparr>),
            audit_log := audit_log (d\<lparr>policies := ?ps\<rparr>) @ es\<rparr>"
      "\<forall>e \<in> set es. ev_session e = Some sid" by (elim exE conjE)
    obtain e where e: "d' = d\<lparr>policies := ?ps, sessions := (sessions d)(sid \<mapsto> s\<lparr>s_status := Draft\<rparr>),
        audit_log := audit_log d @ es @ [e]\<rparr>" "ev_session e = Some sid"
      unfolding d' es(1) write_event_def by simp
    then have "\<exists>es. d' = d\<lparr>policies := ?ps, sessions := (sessions d)(sid \<mapsto> s\<lparr>s_status := Draft\<rparr>), audit_log := audit_log d @ es\<rparr>
        \<and> (\<forall>e \<in> set es. ev_session e = Some sid)"
      using es(2) by (intro exI [of _ "es @ [e]"]) auto
    then show ?thesis using ps s False unfolding at edited_def by auto
  qed
qed

lemma upsert_rows_edited:
  assumes "upsert_rows fresh user sid iid rs d = Inr (d', out)" "policies_ok (policies d)"
    and fresh: "\<And>ps. fresh ps \<notin> p_id ` set ps"
  shows "edited sid iid (vr_audience ` set rs) (concat (map snd out) \<noteq> []) d d'"
  using assms(1,2)
proof (induction rs arbitrary: d out)
  case Nil
  then show ?case by (simp add: edited_def)
next
  case (Cons r rs)
  then obtain d1 ch more where
    u: "upsert_policy fresh user sid iid (vr_audience r) (mode_or_none (vr_ongoing r))
         (mode_or_none (vr_release r)) (map_option mode_or_none (vr_identity r)) d = Inr (d1, ch)"
    and rest: "upsert_rows fresh user sid iid rs d1 = Inr (d', more)" and out: "out = (vr_audience r, ch) # more"
    by auto
  have e: "edited sid iid {vr_audience r} (ch \<noteq> []) d d1" by (rule upsert_policy_edited [OF u Cons.prems(2) fresh])
  then have "policies_ok (policies d1)" by (simp add: edited_def)
  from edited_trans [OF e Cons.IH [OF rest this]] show ?case by (simp add: out)
qed

text \<open>
  C31. A save of the editor keeps the policy table's invariant: every row satisfies the check
  constraint, one row per instrument and audience, ids unique. It writes no policy of another
  instrument or of an audience the form does not name. When it changed anything the session was
  editable and is a draft again, and beside the policies, that status and events filed under the
  session the database is the one before, every instrument included; when it changed nothing the
  whole database is.
\<close>

theorem upsert_many_keeps_policies:
  assumes "upsert_many fresh user sid iid rs d = Inr (d', out)" "policies_ok (policies d)"
    and "\<And>ps. fresh ps \<notin> p_id ` set ps"
  shows "policies_ok (policies d')
    \<and> filter (\<lambda>p. p_instrument p \<noteq> iid \<or> p_audience p \<notin> vr_audience ` set rs) (policies d')
        = filter (\<lambda>p. p_instrument p \<noteq> iid \<or> p_audience p \<notin> vr_audience ` set rs) (policies d)
    \<and> (if concat (map snd out) = [] then d' = d
       else \<exists>s es. sessions d sid = Some s \<and> is_editable s
          \<and> d' = d\<lparr>policies := policies d', sessions := (sessions d)(sid \<mapsto> s\<lparr>s_status := Draft\<rparr>),
                audit_log := audit_log d @ es\<rparr>
          \<and> (\<forall>e \<in> set es. ev_session e = Some sid))"
proof -
  have "upsert_rows fresh user sid iid rs d = Inr (d', out)" using assms(1) by (auto simp: upsert_many_def)
  note e = upsert_rows_edited [OF this assms(2,3), unfolded edited_def]
  show ?thesis
  proof (cases "concat (map snd out) = []")
    case True
    show ?thesis using e by (simp only: True simp_thms if_True if_False) auto
  next
    case False
    show ?thesis using e by (simp only: False simp_thms if_True if_False)
  qed
qed

definition next_id :: "view_policy list \<Rightarrow> int" where
  "next_id ps = 1 + Max (insert 0 (p_id ` set ps))"

lemma next_id_fresh: "next_id ps \<notin> p_id ` set ps"
proof
  assume "next_id ps \<in> p_id ` set ps"
  then have "next_id ps \<le> Max (insert 0 (p_id ` set ps))" by (intro Max_ge) auto
  then show False by (simp add: next_id_def)
qed

definition demo_row :: visibility_row where
  "demo_row = \<lparr>vr_audience = ''observer'', vr_ongoing = Some '' summarized '', vr_release = Some ''raw'', vr_identity = Some (Some ''name'')\<rparr>"

theorem upsert_many_keeps_policies_witness:
  "\<exists>d' out. upsert_many next_id (Some 3) 1 10 [demo_row] policies_demo = Inr (d', out) \<and> policies_ok (policies d')
     \<and> length (policies d') = 2"
proof -
  have "(case upsert_many next_id (Some 3) 1 10 [demo_row] policies_demo of Inl _ \<Rightarrow> False
     | Inr (d', out) \<Rightarrow> length (policies d') = 2)" by code_simp
  then obtain d' out where *: "upsert_many next_id (Some 3) 1 10 [demo_row] policies_demo = Inr (d', out)"
    "length (policies d') = 2" by (auto split: sum.splits)
  have "policies_ok (policies policies_demo)" by code_simp
  from upsert_many_keeps_policies [OF *(1) this next_id_fresh] * show ?thesis by blast
qed

theorem upsert_policy_reads_back_witness:
  "\<exists>d' ch p. upsert_policy next_id (Some 3) 1 10 ''observer'' (Some ''summarized'') None None policies_demo = Inr (d', ch)
     \<and> policy_of d' 10 ''observer'' = Some p
     \<and> decode_pair_to_mode (p_ongoing_granularity p) (p_ongoing_identification p) = Some ''summarized''"
proof -
  have "(case upsert_policy next_id (Some 3) 1 10 ''observer'' (Some ''summarized'') None None policies_demo of
      Inl _ \<Rightarrow> False | Inr _ \<Rightarrow> True)" by code_simp
  then obtain d' ch where *: "upsert_policy next_id (Some 3) 1 10 ''observer'' (Some ''summarized'') None None policies_demo = Inr (d', ch)"
    by (auto split: sum.splits)
  from upsert_policy_reads_back [OF *] * show ?thesis by blast
qed

end
