(* ===== verification/Cohort.thy ===== *)
theory Cohort
  imports Grouping
begin

text \<open>
  An observer's cohort: the rule an operator authors for the observer
  (\<open>app/schemas/observer_cohort_rule.py\<close>) and the assignments it selects on an instrument
  (\<open>app/services/observer_cohort.py\<close>).
\<close>

section \<open>Rules\<close>

record cohort_rule =
  cr_field :: string
  cr_op :: string
  cr_tag :: string
  cr_value :: string

record cohort_rule_set =
  rs_combinator :: string
  rs_rules :: "cohort_rule list"

record observer =
  o_session :: int
  o_name :: "string option"
  o_email :: string
  o_tag1 :: "string option"
  o_rule :: "cohort_rule_set option"

definition ALLOWED_LEFT_FIELDS :: "string list" where
  "ALLOWED_LEFT_FIELDS =
     [''reviewer.tag1'', ''reviewer.tag2'', ''reviewer.tag3'', ''reviewee.tag1'', ''reviewee.tag2'',
      ''reviewee.tag3'', ''pair_context.tag1'', ''pair_context.tag2'', ''pair_context.tag3'']"

definition ALLOWED_OBSERVER_FIELDS :: "string list" where
  "ALLOWED_OBSERVER_FIELDS = [''observer.name'', ''observer.email'', ''observer.tag1'']"

definition ALLOWED_RIGHT_FIELDS :: "string list" where
  "ALLOWED_RIGHT_FIELDS = ALLOWED_OBSERVER_FIELDS @ ALLOWED_LEFT_FIELDS"

definition FIELD_OPERATORS :: "string list" where
  "FIELD_OPERATORS = [''IS THE SAME AS'', ''IS DIFFERENT FROM'']"

definition VALUE_OPERATORS :: "string list" where
  "VALUE_OPERATORS = [''IS'', ''IS NOT'', ''CONTAINS'', ''DOES NOT CONTAIN'']"

text \<open>\<open>CohortRule\<close>: the literal type of \<open>op\<close> and the model validator.\<close>

definition validate_cohort_rule :: "cohort_rule \<Rightarrow> unit result" where
  "validate_cohort_rule r =
     (if cr_op r \<notin> set (FIELD_OPERATORS @ VALUE_OPERATORS) then Inl (ValueError ''op'')
      else if cr_field r \<notin> set ALLOWED_LEFT_FIELDS then Inl (ValueError ''unknown cohort-rule field'')
      else if cr_op r \<in> set FIELD_OPERATORS then
        (if cr_tag r = [] then Inl (ValueError ''requires operand_tag'')
         else if cr_tag r \<notin> set ALLOWED_RIGHT_FIELDS then Inl (ValueError ''unknown cohort-rule operand_tag'')
         else Inr ())
      else if py_strip (cr_value r) = [] then Inl (ValueError ''requires operand_value'')
      else Inr ())"

section \<open>One rule on one pair\<close>

text \<open>A person's tags by the canonical name of the attribute.\<close>

definition tag_value :: "string option \<times> string option \<times> string option \<Rightarrow> string \<Rightarrow> string option" where
  "tag_value tags attr = (case tags of (t1, t2, t3) \<Rightarrow>
     if attr = ''tag1'' then t1 else if attr = ''tag2'' then t2 else if attr = ''tag3'' then t3 else None)"

definition reviewer_attr_value :: "reviewer \<Rightarrow> string \<Rightarrow> string option" where
  "reviewer_attr_value r = tag_value (rr_tag1 r, rr_tag2 r, rr_tag3 r)"

definition reviewee_attr_value :: "reviewee \<Rightarrow> string \<Rightarrow> string option" where
  "reviewee_attr_value r = tag_value (re_tag1 r, re_tag2 r, re_tag3 r)"

definition observer_attr_value :: "observer \<Rightarrow> string \<Rightarrow> string option" where
  "observer_attr_value ob attr =
     (let v = (if attr = ''name'' then o_name ob else if attr = ''email'' then Some (o_email ob)
               else if attr = ''tag1'' then o_tag1 ob else None)
      in if or_empty v = [] then None else v)"

definition observer_has_rule :: "observer \<Rightarrow> bool" where
  "observer_has_rule ob = (case o_rule ob of None \<Rightarrow> False | Some rs \<Rightarrow> rs_rules rs \<noteq> [])"

text \<open>\<open>(value or "").strip().lower()\<close>; \<open>field.split(".", 1)\<close>.\<close>

definition folded :: "string option \<Rightarrow> string" where
  "folded v = py_lower (py_strip (or_empty v))"

definition split_once :: "string \<Rightarrow> string \<times> string" where
  "split_once s = (takeWhile (\<lambda>c. c \<noteq> CHR ''.'') s, tl (dropWhile (\<lambda>c. c \<noteq> CHR ''.'') s))"

definition left_value :: "string \<Rightarrow> reviewer \<Rightarrow> reviewee \<Rightarrow> string option option" where
  "left_value field rv re =
     (if field = [] \<or> CHR ''.'' \<notin> set field then None
      else (case split_once field of (namespace, attr) \<Rightarrow>
        if namespace = ''reviewer'' then Some (reviewer_attr_value rv attr)
        else if namespace = ''reviewee'' then Some (reviewee_attr_value re attr)
        else None))"

definition starts_with :: "string \<Rightarrow> string \<Rightarrow> bool" where
  "starts_with p s = (take (length p) s = p)"

definition rule_matches_row :: "cohort_rule \<Rightarrow> observer \<Rightarrow> reviewer \<Rightarrow> reviewee \<Rightarrow> bool" where
  "rule_matches_row r ob rv re =
     (case left_value (cr_field r) rv re of
        None \<Rightarrow> False
      | Some left \<Rightarrow>
         if cr_op r \<in> set FIELD_OPERATORS then
           (if \<not> starts_with ''observer.'' (cr_tag r) then False
            else (let right = observer_attr_value ob (snd (split_once (cr_tag r)))
                  in if cr_op r = ''IS THE SAME AS'' then folded left = folded right
                     else folded left \<noteq> folded right))
         else (let l = folded left; v = py_lower (py_strip (cr_value r)) in
           if cr_op r = ''IS'' then l = v
           else if cr_op r = ''IS NOT'' then l \<noteq> v
           else if cr_op r = ''CONTAINS'' then is_substring v l
           else if cr_op r = ''DOES NOT CONTAIN'' then \<not> is_substring v l
           else False))"

section \<open>A rule set on the assignments\<close>

text \<open>The combinator is compared after \<open>upper()\<close>; the enum allows only \<open>AND\<close> and \<open>OR\<close>.\<close>

definition py_upper_ascii :: "string \<Rightarrow> string" where
  "py_upper_ascii s = map (\<lambda>c. let n = (of_char c :: nat) in
     if 97 \<le> n \<and> n \<le> 122 then char_of (n - 32) else c) s"

definition assignment_matches_cohort :: "cohort_rule_set option \<Rightarrow> observer \<Rightarrow> reviewer \<Rightarrow> reviewee \<Rightarrow> bool" where
  "assignment_matches_cohort rule_set ob rv re =
     (case rule_set of
        None \<Rightarrow> False
      | Some rs \<Rightarrow>
         if rs_rules rs = [] then False
         else (let results = map (\<lambda>r. rule_matches_row r ob rv re) (rs_rules rs)
               in if py_upper_ascii (rs_combinator rs) = ''OR'' then list_ex id results else list_all id results))"

record cohort_assignments =
  ca_assignments :: "int set"
  ca_reviewers :: nat
  ca_reviewees :: nat

definition EMPTY_COHORT :: cohort_assignments where
  "EMPTY_COHORT = \<lparr>ca_assignments = {}, ca_reviewers = 0, ca_reviewees = 0\<rparr>"

text \<open>The loop: each assignment whose people satisfy the rule set joins the three sets.\<close>

definition cohort_step ::
  "db \<Rightarrow> observer \<Rightarrow> int set \<times> int set \<times> int set \<Rightarrow> assignment \<Rightarrow> int set \<times> int set \<times> int set" where
  "cohort_step d ob acc a =
     (case (acc, reviewer_by_id d (a_reviewer a), reviewee_by_id d (a_reviewee a)) of
        ((as, rvs, res), Some rv, Some re) \<Rightarrow>
          if assignment_matches_cohort (o_rule ob) ob rv re
          then (insert (a_id a) as, insert (a_reviewer a) rvs, insert (a_reviewee a) res) else acc
      | _ \<Rightarrow> acc)"

definition materialize_cohort_assignments :: "db \<Rightarrow> observer \<Rightarrow> int \<Rightarrow> cohort_assignments" where
  "materialize_cohort_assignments d ob iid =
     (if \<not> observer_has_rule ob then EMPTY_COHORT
      else (let rows = filter (\<lambda>a. a_session a = o_session ob \<and> a_instrument a = iid) (assignments d);
                (as, rvs, res) = foldl (cohort_step d ob) ({}, {}, {}) rows
            in \<lparr>ca_assignments = as, ca_reviewers = card rvs, ca_reviewees = card res\<rparr>))"

section \<open>Opposite operators\<close>

definition opposite_operator :: "string \<Rightarrow> string" where
  "opposite_operator op =
     (if op = ''IS THE SAME AS'' then ''IS DIFFERENT FROM'' else if op = ''IS DIFFERENT FROM'' then ''IS THE SAME AS''
      else if op = ''IS'' then ''IS NOT'' else if op = ''IS NOT'' then ''IS''
      else if op = ''CONTAINS'' then ''DOES NOT CONTAIN'' else ''CONTAINS'')"

text \<open>What the evaluator reads of what the schema allows: a roster tag, against a value or the observer.\<close>

definition evaluated :: "cohort_rule \<Rightarrow> bool" where
  "evaluated r = (fst (split_once (cr_field r)) \<noteq> ''pair_context''
     \<and> (cr_op r \<in> set FIELD_OPERATORS \<longrightarrow> cr_tag r \<in> set ALLOWED_OBSERVER_FIELDS))"

definition opposite_rule :: "cohort_rule \<Rightarrow> cohort_rule" where
  "opposite_rule r = r\<lparr>cr_op := opposite_operator (cr_op r)\<rparr>"

lemmas vocabulary = ALLOWED_LEFT_FIELDS_def ALLOWED_OBSERVER_FIELDS_def ALLOWED_RIGHT_FIELDS_def
  FIELD_OPERATORS_def VALUE_OPERATORS_def

lemma left_value_allowed:
  assumes "f \<in> set ALLOWED_LEFT_FIELDS"
  shows "left_value f rv re = None \<longleftrightarrow> fst (split_once f) = ''pair_context''"
  using assms by (auto simp: ALLOWED_LEFT_FIELDS_def left_value_def split_once_def)

lemma valid_rule_cases:
  assumes "validate_cohort_rule r = Inr ()"
  shows "cr_field r \<in> set ALLOWED_LEFT_FIELDS" "cr_op r \<in> set (FIELD_OPERATORS @ VALUE_OPERATORS)"
    "cr_op r \<in> set FIELD_OPERATORS \<Longrightarrow> cr_tag r \<in> set ALLOWED_RIGHT_FIELDS"
    "cr_op r \<notin> set FIELD_OPERATORS \<Longrightarrow> py_strip (cr_value r) \<noteq> []"
  using assms by (auto simp: validate_cohort_rule_def split: if_splits)

lemma observer_tags: "t \<in> set ALLOWED_RIGHT_FIELDS \<Longrightarrow> starts_with ''observer.'' t \<longleftrightarrow> t \<in> set ALLOWED_OBSERVER_FIELDS"
proof -
  have "list_all (\<lambda>t. starts_with ''observer.'' t \<longleftrightarrow> t \<in> set ALLOWED_OBSERVER_FIELDS) ALLOWED_RIGHT_FIELDS" by code_simp
  then show "t \<in> set ALLOWED_RIGHT_FIELDS \<Longrightarrow> starts_with ''observer.'' t \<longleftrightarrow> t \<in> set ALLOWED_OBSERVER_FIELDS"
    by (simp add: list_all_iff)
qed

lemma opposite_operator_kind:
  assumes "op \<in> set (FIELD_OPERATORS @ VALUE_OPERATORS)"
  shows "opposite_operator op \<in> set (FIELD_OPERATORS @ VALUE_OPERATORS)
    \<and> (opposite_operator op \<in> set FIELD_OPERATORS \<longleftrightarrow> op \<in> set FIELD_OPERATORS)"
proof -
  have "list_all (\<lambda>op. opposite_operator op \<in> set (FIELD_OPERATORS @ VALUE_OPERATORS)
    \<and> (opposite_operator op \<in> set FIELD_OPERATORS \<longleftrightarrow> op \<in> set FIELD_OPERATORS)) (FIELD_OPERATORS @ VALUE_OPERATORS)"
    by code_simp
  then show ?thesis using assms unfolding list_all_iff by blast
qed

lemma not_evaluated:
  assumes "validate_cohort_rule r = Inr ()" "\<not> evaluated r"
  shows "\<not> rule_matches_row r ob rv re"
  using assms valid_rule_cases [OF assms(1)] observer_tags [of "cr_tag r"] left_value_allowed [of "cr_field r" rv re]
  by (auto simp: evaluated_def rule_matches_row_def split: option.split)

lemma opposite_matches:
  assumes "validate_cohort_rule r = Inr ()" "evaluated r"
  shows "rule_matches_row (opposite_rule r) ob rv re \<longleftrightarrow> \<not> rule_matches_row r ob rv re"
proof -
  obtain left where left: "left_value (cr_field r) rv re = Some left"
    using assms left_value_allowed [of "cr_field r" rv re] valid_rule_cases(1) [OF assms(1)] by (auto simp: evaluated_def)
  show ?thesis
  proof (cases "cr_op r \<in> set FIELD_OPERATORS")
    case True
    then have "starts_with ''observer.'' (cr_tag r)"
      using assms valid_rule_cases(3) [OF assms(1)] observer_tags by (simp add: evaluated_def)
    then show ?thesis using True left
      by (auto simp: rule_matches_row_def opposite_rule_def opposite_operator_def FIELD_OPERATORS_def Let_def)
  next
    case False
    then have "cr_op r \<in> set VALUE_OPERATORS" using valid_rule_cases(2) [OF assms(1)] by simp
    then show ?thesis using left
      by (auto simp: rule_matches_row_def opposite_rule_def opposite_operator_def FIELD_OPERATORS_def VALUE_OPERATORS_def Let_def)
  qed
qed

text \<open>
  Over rules the schema accepts, opposite operators cut the pairs in two: a rule matches
  exactly when its opposite does not, blank tags included, provided the evaluator reads the
  rule; a rule it does not read (a pair-context attribute, or two roster attributes compared)
  matches no pair, under neither operator.
\<close>

theorem opposite_rules_partition:
  assumes "validate_cohort_rule r = Inr ()"
  shows "if evaluated r then rule_matches_row (opposite_rule r) ob rv re \<noteq> rule_matches_row r ob rv re
    else \<not> rule_matches_row r ob rv re \<and> \<not> rule_matches_row (opposite_rule r) ob rv re"
proof (cases "evaluated r")
  case True
  then show ?thesis using opposite_matches [OF assms True] by auto
next
  case False
  have "validate_cohort_rule (opposite_rule r) = Inr ()"
    using assms opposite_operator_kind [OF valid_rule_cases(2) [OF assms]]
    by (auto simp: validate_cohort_rule_def opposite_rule_def split: if_splits)
  moreover have "\<not> evaluated (opposite_rule r)"
    using False opposite_operator_kind [OF valid_rule_cases(2) [OF assms]]
    by (simp add: evaluated_def opposite_rule_def)
  ultimately show ?thesis using False not_evaluated [OF assms False] not_evaluated by auto
qed

definition demo_rule :: cohort_rule where
  "demo_rule = \<lparr>cr_field = ''reviewer.tag1'', cr_op = ''CONTAINS'', cr_tag = [], cr_value = ''blue''\<rparr>"

definition demo_observer :: observer where
  "demo_observer = \<lparr>o_session = 1, o_name = None, o_email = ''o'', o_tag1 = None,
     o_rule = Some \<lparr>rs_combinator = ''AND'', rs_rules = [demo_rule]\<rparr>\<rparr>"

definition demo_person :: "int \<Rightarrow> string option \<Rightarrow> reviewer" where
  "demo_person k t = \<lparr>rr_id = k, rr_session = 1, rr_name = ''n'', rr_email = ''e'', rr_status = ''active'', rr_tag1 = t,
     rr_tag2 = None, rr_tag3 = None, rr_object_id = None, rr_directory_mail = None\<rparr>"

definition demo_subject :: "int \<Rightarrow> reviewee" where
  "demo_subject k = \<lparr>re_id = k, re_session = 1, re_name = ''m'', re_identifier = ''i'', re_status = ''active'', re_tag1 = None,
     re_tag2 = None, re_tag3 = None, re_object_id = None\<rparr>"

theorem opposite_rules_partition_witness:
  "rule_matches_row (opposite_rule demo_rule) demo_observer (demo_person 1 None) (demo_subject 2)"
proof -
  have v: "validate_cohort_rule demo_rule = Inr ()" and e: "evaluated demo_rule" by code_simp+
  have "\<not> rule_matches_row demo_rule demo_observer (demo_person 1 None) (demo_subject 2)" by code_simp
  with opposite_rules_partition [OF v, of demo_observer "demo_person 1 None" "demo_subject 2"] e show ?thesis by simp
qed

section \<open>The cohort\<close>

definition row_in_cohort :: "db \<Rightarrow> observer \<Rightarrow> assignment \<Rightarrow> bool" where
  "row_in_cohort d ob a = (\<exists>rv re. reviewer_by_id d (a_reviewer a) = Some rv \<and> reviewee_by_id d (a_reviewee a) = Some re
     \<and> assignment_matches_cohort (o_rule ob) ob rv re)"

definition cohort_rows :: "db \<Rightarrow> observer \<Rightarrow> int \<Rightarrow> assignment set" where
  "cohort_rows d ob iid = {a \<in> set (assignments d). a_session a = o_session ob \<and> a_instrument a = iid \<and> row_in_cohort d ob a}"

lemma cohort_step_eq: "cohort_step d ob (as, rvs, res) a = (if row_in_cohort d ob a
    then (insert (a_id a) as, insert (a_reviewer a) rvs, insert (a_reviewee a) res) else (as, rvs, res))"
  by (auto simp: cohort_step_def row_in_cohort_def split: option.split)

lemma cohort_loop:
  "foldl (cohort_step d ob) (as, rvs, res) xs =
     (as \<union> a_id ` {a \<in> set xs. row_in_cohort d ob a}, rvs \<union> a_reviewer ` {a \<in> set xs. row_in_cohort d ob a},
      res \<union> a_reviewee ` {a \<in> set xs. row_in_cohort d ob a})"
proof (induction xs arbitrary: as rvs res)
  case (Cons x xs)
  have "{a \<in> set (x # xs). row_in_cohort d ob a} =
      (if row_in_cohort d ob x then insert x {a \<in> set xs. row_in_cohort d ob a} else {a \<in> set xs. row_in_cohort d ob a})"
    by auto
  then show ?case by (simp only: foldl_Cons cohort_step_eq Cons.IH if_distrib) (auto simp: Cons.IH)
qed simp

lemma cohort_exact:
  "materialize_cohort_assignments d ob iid = \<lparr>ca_assignments = a_id ` cohort_rows d ob iid,
     ca_reviewers = card (a_reviewer ` cohort_rows d ob iid), ca_reviewees = card (a_reviewee ` cohort_rows d ob iid)\<rparr>"
proof (cases "observer_has_rule ob")
  case True
  have "{a \<in> set (filter (\<lambda>a. a_session a = o_session ob \<and> a_instrument a = iid) (assignments d)). row_in_cohort d ob a}
      = cohort_rows d ob iid" by (auto simp: cohort_rows_def)
  with True show ?thesis by (simp add: materialize_cohort_assignments_def cohort_loop Let_def)
next
  case False
  then have "cohort_rows d ob iid = {}"
    by (auto simp: cohort_rows_def row_in_cohort_def assignment_matches_cohort_def observer_has_rule_def split: option.splits)
  with False show ?thesis by (simp add: materialize_cohort_assignments_def EMPTY_COHORT_def)
qed

definition with_rules :: "string \<Rightarrow> cohort_rule list \<Rightarrow> observer \<Rightarrow> observer" where
  "with_rules comb rs ob = ob\<lparr>o_rule := Some \<lparr>rs_combinator = comb, rs_rules = rs\<rparr>\<rparr>"

lemma rule_reads_observer: "rule_matches_row r (with_rules comb rs ob) rv re = rule_matches_row r ob rv re"
  by (simp add: rule_matches_row_def with_rules_def observer_attr_value_def Let_def split: option.split)

lemma matches_with_rules:
  assumes "rs \<noteq> []"
  shows "assignment_matches_cohort (o_rule (with_rules ''AND'' rs ob)) (with_rules ''AND'' rs ob) rv re
      \<longleftrightarrow> (\<forall>r \<in> set rs. rule_matches_row r ob rv re)"
    and "assignment_matches_cohort (o_rule (with_rules ''OR'' rs ob)) (with_rules ''OR'' rs ob) rv re
      \<longleftrightarrow> (\<exists>r \<in> set rs. rule_matches_row r ob rv re)"
proof -
  have "py_upper_ascii ''AND'' \<noteq> ''OR''" "py_upper_ascii ''OR'' = ''OR''" by code_simp+
  moreover have "o_rule (with_rules comb rs ob) = Some \<lparr>rs_combinator = comb, rs_rules = rs\<rparr>" for comb
    by (simp add: with_rules_def)
  ultimately show "assignment_matches_cohort (o_rule (with_rules ''AND'' rs ob)) (with_rules ''AND'' rs ob) rv re
      \<longleftrightarrow> (\<forall>r \<in> set rs. rule_matches_row r ob rv re)"
    "assignment_matches_cohort (o_rule (with_rules ''OR'' rs ob)) (with_rules ''OR'' rs ob) rv re
      \<longleftrightarrow> (\<exists>r \<in> set rs. rule_matches_row r ob rv re)"
    using assms by (simp_all add: assignment_matches_cohort_def rule_reads_observer list_all_iff list_ex_iff)
qed

text \<open>One rule on the two people of an assignment.\<close>

definition rule_holds :: "db \<Rightarrow> observer \<Rightarrow> assignment \<Rightarrow> cohort_rule \<Rightarrow> bool" where
  "rule_holds d ob a r = (case (reviewer_by_id d (a_reviewer a), reviewee_by_id d (a_reviewee a)) of
     (Some rv, Some re) \<Rightarrow> rule_matches_row r ob rv re | _ \<Rightarrow> False)"

text \<open>
  C32. Take rules the schema accepts and the evaluator reads. Under AND the cohort is the
  assignments on which every rule holds, under OR, of the opposite rules, those on which some rule
  does not; so the two share out an instrument's assignments, each in exactly one. Either cohort's
  two headcounts are those of the distinct people of its assignments.
\<close>

theorem cohorts_share_out_assignments:
  fixes d :: db and ob :: observer and iid :: int
  assumes "rs \<noteq> []" "\<forall>r \<in> set rs. validate_cohort_rule r = Inr () \<and> evaluated r"
    and "\<forall>a \<in> set (assignments d). reviewer_by_id d (a_reviewer a) \<noteq> None \<and> reviewee_by_id d (a_reviewee a) \<noteq> None"
    and "distinct (map a_id (assignments d))"
  defines "all_of \<equiv> materialize_cohort_assignments d (with_rules ''AND'' rs ob) iid"
    and "any_of \<equiv> materialize_cohort_assignments d (with_rules ''OR'' (map opposite_rule rs) ob) iid"
    and "mine \<equiv> {a \<in> set (assignments d). a_session a = o_session ob \<and> a_instrument a = iid}"
  shows "ca_assignments all_of = a_id ` {a \<in> mine. \<forall>r \<in> set rs. rule_holds d ob a r}
    \<and> ca_assignments any_of = a_id ` {a \<in> mine. \<exists>r \<in> set rs. \<not> rule_holds d ob a r}
    \<and> ca_assignments all_of \<union> ca_assignments any_of = a_id ` mine
    \<and> ca_assignments all_of \<inter> ca_assignments any_of = {}
    \<and> (\<forall>c \<in> {all_of, any_of}.
        ca_reviewers c = card (a_reviewer ` {a \<in> set (assignments d). a_id a \<in> ca_assignments c})
        \<and> ca_reviewees c = card (a_reviewee ` {a \<in> set (assignments d). a_id a \<in> ca_assignments c}))"
proof -
  let ?A = "with_rules ''AND'' rs ob" and ?O = "with_rules ''OR'' (map opposite_rule rs) ob"
  have inj: "inj_on a_id (set (assignments d))" using assms(4) by (simp add: distinct_map)
  have rows_of: "row_in_cohort d ?A a \<longleftrightarrow> (\<forall>r \<in> set rs. rule_holds d ob a r)"
    "row_in_cohort d ?O a \<longleftrightarrow> (\<exists>r \<in> set rs. \<not> rule_holds d ob a r)" if "a \<in> set (assignments d)" for a
  proof -
    have "reviewer_by_id d (a_reviewer a) \<noteq> None" "reviewee_by_id d (a_reviewee a) \<noteq> None"
      using assms(3) that by simp_all
    then obtain rv re where p: "reviewer_by_id d (a_reviewer a) = Some rv" "reviewee_by_id d (a_reviewee a) = Some re"
      by auto
    have opp: "rule_matches_row (opposite_rule r) ob rv re \<longleftrightarrow> \<not> rule_matches_row r ob rv re" if "r \<in> set rs" for r
      using opposite_matches assms(2) that by blast
    have x: "row_in_cohort d x a \<longleftrightarrow> assignment_matches_cohort (o_rule x) x rv re" for x
      by (simp add: row_in_cohort_def p)
    show "row_in_cohort d ?A a \<longleftrightarrow> (\<forall>r \<in> set rs. rule_holds d ob a r)"
      unfolding x matches_with_rules(1) [OF assms(1)] by (simp add: rule_holds_def p)
    have "map opposite_rule rs \<noteq> []" using assms(1) by simp
    from matches_with_rules(2) [OF this] show "row_in_cohort d ?O a \<longleftrightarrow> (\<exists>r \<in> set rs. \<not> rule_holds d ob a r)"
      unfolding x using opp by (auto simp: rule_holds_def p)
  qed
  have sess: "o_session ?A = o_session ob" "o_session ?O = o_session ob" by (simp_all add: with_rules_def)
  have rows: "cohort_rows d ?A iid = {a \<in> mine. \<forall>r \<in> set rs. rule_holds d ob a r}"
    "cohort_rows d ?O iid = {a \<in> mine. \<exists>r \<in> set rs. \<not> rule_holds d ob a r}"
    using rows_of by (auto simp: cohort_rows_def sess mine_def)
  have kept: "{a \<in> set (assignments d). a_id a \<in> a_id ` {a \<in> mine. Q a}} = {a \<in> mine. Q a}" for Q
    using inj by (auto simp: mine_def dest: inj_onD)
  have "a_id ` {a \<in> mine. \<forall>r \<in> set rs. rule_holds d ob a r} \<inter> a_id ` {a \<in> mine. \<exists>r \<in> set rs. \<not> rule_holds d ob a r} = {}"
    using inj by (auto simp: mine_def dest: inj_onD)
  moreover have "a_id ` {a \<in> mine. \<forall>r \<in> set rs. rule_holds d ob a r} \<union> a_id ` {a \<in> mine. \<exists>r \<in> set rs. \<not> rule_holds d ob a r} = a_id ` mine"
    by auto
  ultimately show ?thesis
    unfolding all_of_def any_of_def cohort_exact rows by (simp add: kept)
qed

definition cohort_demo :: db where
  "cohort_demo = blank_db\<lparr>reviewers := [demo_person 1 (Some '' Deep Blue''), demo_person 2 (Some ''red'')],
     reviewees := [demo_subject 3],
     assignments := [\<lparr>a_id = 5, a_session = 1, a_reviewer = 1, a_reviewee = 3, a_instrument = 10, a_include = True, a_self_review = False\<rparr>,
       \<lparr>a_id = 6, a_session = 1, a_reviewer = 2, a_reviewee = 3, a_instrument = 10, a_include = True, a_self_review = False\<rparr>]\<rparr>"

theorem cohorts_share_out_assignments_witness:
  "5 \<in> ca_assignments (materialize_cohort_assignments cohort_demo (with_rules ''AND'' [demo_rule] demo_observer) 10)
   \<and> ca_assignments (materialize_cohort_assignments cohort_demo (with_rules ''AND'' [demo_rule] demo_observer) 10)
      \<inter> ca_assignments (materialize_cohort_assignments cohort_demo (with_rules ''OR'' (map opposite_rule [demo_rule]) demo_observer) 10) = {}"
proof -
  have v: "\<forall>r \<in> set [demo_rule]. validate_cohort_rule r = Inr () \<and> evaluated r" by code_simp
  have p: "\<forall>a \<in> set (assignments cohort_demo). reviewer_by_id cohort_demo (a_reviewer a) \<noteq> None \<and> reviewee_by_id cohort_demo (a_reviewee a) \<noteq> None"
    by code_simp
  have i: "distinct (map a_id (assignments cohort_demo))" by code_simp
  have "5 \<in> ca_assignments (materialize_cohort_assignments cohort_demo (with_rules ''AND'' [demo_rule] demo_observer) 10)" by code_simp
  moreover have "[demo_rule] \<noteq> []" by simp
  ultimately show ?thesis
    using cohorts_share_out_assignments [OF _ v p i, of demo_observer 10] by blast
qed

end
