(* ===== verification/Self_Review.thy ===== *)
theory Self_Review
  imports Grouping Lifecycle
begin

text \<open>
  Which assignments are self-reviews (\<open>app/services/assignments/_self_review.py\<close>): the test on a
  reviewer and a reviewee, the classification of the rows of a session with its whole-group
  rule, the pass that stores it, and the operator's toggle. The end of the theory states the
  rule over the roster alone and proves that the classification is that rule.
\<close>

section \<open>The pair test\<close>

definition pair_self_review :: "string \<Rightarrow> string \<Rightarrow> string option \<Rightarrow> string option \<Rightarrow> bool" where
  "pair_self_review reviewer_email reviewee_identifier reviewer_object_id reviewee_object_id =
     (let both_bound = or_empty reviewer_object_id \<noteq> [] \<and> or_empty reviewee_object_id \<noteq> [] in
      if \<not> both_bound \<and> CHR ''@'' \<notin> set reviewee_identifier then False
      else same_identity reviewer_object_id (Some reviewer_email) reviewee_object_id (Some reviewee_identifier))"

definition is_self_review :: "reviewer \<Rightarrow> reviewee \<Rightarrow> bool" where
  "is_self_review rv re = pair_self_review (rr_email rv) (re_identifier re) (rr_object_id rv) (re_object_id re)"

section \<open>The classification\<close>

record assignment_pair =
  ap_id :: int
  ap_instrument :: int
  ap_reviewer :: int
  ap_reviewee :: int
  ap_email :: string
  ap_subject :: reviewee
  ap_stored :: bool
  ap_object_id :: "string option"

text \<open>The attributes \<open>group_keys\<close> reads of such a projection.\<close>

definition as_assignment :: "int \<Rightarrow> assignment_pair \<Rightarrow> assignment" where
  "as_assignment sid p = \<lparr>a_id = ap_id p, a_session = sid, a_reviewer = ap_reviewer p, a_reviewee = ap_reviewee p,
     a_instrument = ap_instrument p, a_include = True, a_self_review = ap_stored p\<rparr>"

definition session_reviewees :: "db \<Rightarrow> int \<Rightarrow> reviewee list" where
  "session_reviewees d sid = filter (\<lambda>r. re_session r = sid) (reviewees d)"

definition roster_by_email :: "db \<Rightarrow> int \<Rightarrow> (string \<times> reviewee list) list" where
  "roster_by_email d sid = group_into (\<lambda>r. normalize_email (Some (re_identifier r))) id
     (filter (\<lambda>r. CHR ''@'' \<in> set (re_identifier r)) (session_reviewees d sid))"

definition roster_by_account :: "db \<Rightarrow> int \<Rightarrow> (string \<times> reviewee list) list" where
  "roster_by_account d sid = group_into (\<lambda>r. normalize_object_id (re_object_id r)) id
     (filter (\<lambda>r. or_empty (re_object_id r) \<noteq> []) (session_reviewees d sid))"

text \<open>The reviewer's own rows by address or account, once each, that pass the pair test.\<close>

definition own_rows :: "db \<Rightarrow> int \<Rightarrow> assignment_pair \<Rightarrow> reviewee list" where
  "own_rows d sid p =
     (let candidates = map snd (dict_of re_id id
            (or_nil (dict_get (roster_by_email d sid) (normalize_email (Some (ap_email p))))
             @ or_nil (dict_get (roster_by_account d sid) (normalize_object_id (ap_object_id p)))))
      in filter (\<lambda>own. pair_self_review (ap_email p) (re_identifier own) (ap_object_id p) (re_object_id own)) candidates)"

definition synthetic_row :: "assignment_pair \<Rightarrow> nat \<Rightarrow> reviewee \<Rightarrow> assignment_pair" where
  "synthetic_row p n own = \<lparr>ap_id = - (int n + 1), ap_instrument = ap_instrument p, ap_reviewer = ap_reviewer p,
     ap_reviewee = re_id own, ap_email = ap_email p, ap_subject = own, ap_stored = True, ap_object_id = ap_object_id p\<rparr>"

definition membership_step ::
  "db \<Rightarrow> int \<Rightarrow> assignment_pair list \<times> (int \<times> int) list \<Rightarrow> assignment_pair
     \<Rightarrow> assignment_pair list \<times> (int \<times> int) list" where
  "membership_step d sid acc p =
     (case acc of (membership, seen) \<Rightarrow>
      let slot = (ap_instrument p, ap_reviewer p) in
      if slot \<in> set seen then (membership, seen)
      else (foldl (\<lambda>ms own. ms @ [synthetic_row p (length ms) own]) membership (own_rows d sid p), slot # seen))"

definition membership_of :: "db \<Rightarrow> int \<Rightarrow> assignment_pair list \<Rightarrow> assignment_pair list" where
  "membership_of d sid pairs = fst (foldl (membership_step d sid) ([], []) pairs)"

definition member_keys :: "(int \<Rightarrow> string list option) \<Rightarrow> assignment_pair list \<Rightarrow> int \<times> int \<Rightarrow> string list set" where
  "member_keys keys membership slot =
     set (List.map_filter (\<lambda>row. case keys (ap_id row) of
            None \<Rightarrow> None
          | Some k \<Rightarrow> if (ap_instrument row, ap_reviewer row) = slot \<and> \<not> is_catch_all_key k then Some k else None) membership)"

definition classify_self_review_pairs :: "db \<Rightarrow> int \<Rightarrow> assignment_pair list \<Rightarrow> (int \<times> bool) list" where
  "classify_self_review_pairs d sid pairs =
     (let membership = membership_of d sid pairs;
          keys = group_keys d (map (as_assignment sid) (pairs @ membership)) sid
      in dict_of ap_id (\<lambda>p. case keys (ap_id p) of
            None \<Rightarrow> pair_self_review (ap_email p) (re_identifier (ap_subject p)) (ap_object_id p) (re_object_id (ap_subject p))
          | Some k \<Rightarrow> k \<in> member_keys keys membership (ap_instrument p, ap_reviewer p)) pairs)"

text \<open>Rows of a session joined to their people, and their projection.\<close>

type_synonym joined = "assignment \<times> reviewer \<times> reviewee"

definition joined_rows :: "db \<Rightarrow> int \<Rightarrow> joined list" where
  "joined_rows d sid = List.map_filter (\<lambda>a.
     case (reviewer_by_id d (a_reviewer a), reviewee_by_id d (a_reviewee a)) of
       (Some rv, Some re) \<Rightarrow> Some (a, rv, re) | _ \<Rightarrow> None)
     (filter (\<lambda>a. a_session a = sid) (assignments d))"

definition pair_of_row :: "joined \<Rightarrow> assignment_pair" where
  "pair_of_row row = (case row of (a, rv, re) \<Rightarrow>
     \<lparr>ap_id = a_id a, ap_instrument = a_instrument a, ap_reviewer = a_reviewer a, ap_reviewee = a_reviewee a,
      ap_email = rr_email rv, ap_subject = re, ap_stored = a_self_review a, ap_object_id = rr_object_id rv\<rparr>)"

definition classify_self_review :: "db \<Rightarrow> int \<Rightarrow> joined list \<Rightarrow> (int \<times> bool) list" where
  "classify_self_review d sid rows = classify_self_review_pairs d sid (map pair_of_row rows)"

definition self_review_assignment_ids :: "db \<Rightarrow> int \<Rightarrow> joined list \<Rightarrow> int set" where
  "self_review_assignment_ids d sid rows = set (map fst (filter snd (classify_self_review d sid rows)))"

section \<open>Storing it\<close>

definition reviewer_active :: "reviewer \<Rightarrow> bool" where
  "reviewer_active rv = status_is_active (Some (rr_status rv))"

definition reviewee_active :: "reviewee \<Rightarrow> bool" where
  "reviewee_active re = status_is_active (Some (re_status re))"

text \<open>\<open>self_reviews_active.get(instrument_id, True)\<close> over the session's instruments.\<close>

definition self_reviews_on :: "db \<Rightarrow> int \<Rightarrow> int \<Rightarrow> bool" where
  "self_reviews_on d sid iid =
     (case dict_get (dict_of i_id i_self_reviews (session_instruments d sid)) iid of None \<Rightarrow> True | Some b \<Rightarrow> b)"

text \<open>What a flip of the flag to \<open>is_self\<close> makes of a row's \<open>include\<close>.\<close>

definition include_after_flip :: "db \<Rightarrow> int \<Rightarrow> joined \<Rightarrow> bool \<Rightarrow> bool" where
  "include_after_flip d sid row is_self = (case row of (a, rv, re) \<Rightarrow>
     if is_self then a_include a \<and> self_reviews_on d sid (a_instrument a)
     else a_include a \<or> (reviewee_active re \<and> reviewer_active rv))"

definition changed_rows :: "db \<Rightarrow> int \<Rightarrow> (int \<times> bool \<times> bool \<times> bool) list" where
  "changed_rows d sid =
     (let rows = joined_rows d sid;
          classification = dict_get (classify_self_review d sid rows)
      in List.map_filter (\<lambda>(a, rv, re).
           let is_self = the (classification (a_id a)) in
           if a_self_review a \<noteq> is_self
           then Some (a_id a, is_self, include_after_flip d sid (a, rv, re) is_self, a_include a) else None) rows)"

definition update_rows :: "(int \<times> bool \<times> bool \<times> bool) list \<Rightarrow> assignment list \<Rightarrow> assignment list" where
  "update_rows changed = map (\<lambda>a. case dict_get changed (a_id a) of
       None \<Rightarrow> a | Some (is_self, inc, _) \<Rightarrow> a\<lparr>a_self_review := is_self, a_include := inc\<rparr>)"

definition recompute_self_review_classification :: "int \<Rightarrow> db \<Rightarrow> db \<times> nat" where
  "recompute_self_review_classification sid d =
     (let changed = changed_rows d sid;
          include_changed = length (filter (\<lambda>(_, _, inc, before). inc \<noteq> before) changed);
          d = d\<lparr>assignments := update_rows changed (assignments d)\<rparr>
      in (if include_changed \<noteq> 0
          then write_event ''assignments.include_reconciled'' None (Some sid)
                 (Counts [(''reclassified'', int (length changed)), (''include_changed'', int include_changed)]) None [] [] d
          else d,
          length changed))"

definition verify_self_review_classification :: "db \<Rightarrow> int \<Rightarrow> (int \<times> bool \<times> bool) list" where
  "verify_self_review_classification d sid =
     (let rows = joined_rows d sid; classification = dict_get (classify_self_review d sid rows)
      in List.map_filter (\<lambda>(a, _, _).
           let expected = the (classification (a_id a)) in
           if a_self_review a \<noteq> expected then Some (a_id a, a_self_review a, expected) else None) rows)"

section \<open>The operator's view and toggle\<close>

definition active_self_review_rows :: "db \<Rightarrow> int \<Rightarrow> assignment list" where
  "active_self_review_rows d sid = map fst (filter (\<lambda>(a, rv, re).
     a_self_review a \<and> rr_status rv = ''active'' \<and> re_status re = ''active'') (joined_rows d sid))"

definition self_review_breakdown_per_instrument :: "db \<Rightarrow> int \<Rightarrow> (int \<times> nat \<times> nat) list" where
  "self_review_breakdown_per_instrument d sid =
     foldl (\<lambda>out a.
        let (on, off) = (case dict_get out (a_instrument a) of None \<Rightarrow> (0, 0) | Some c \<Rightarrow> c)
        in dict_put (a_instrument a) (if a_include a then (on + 1, off) else (on, off + 1)) out)
       [] (active_self_review_rows d sid)"

definition set_instrument_self_reviews_active :: "int option \<Rightarrow> int \<Rightarrow> int \<Rightarrow> bool \<Rightarrow> db \<Rightarrow> (db \<times> nat) result" where
  "set_instrument_self_reviews_active user sid iid on d =
     bindE (require_editable d sid) (\<lambda>_.
       let rows = filter (\<lambda>a. a_instrument a = iid) (active_self_review_rows d sid);
           flips = map a_id (filter (\<lambda>a. a_include a \<noteq> on) rows);
           d = d\<lparr>assignments := map (\<lambda>a. if a_id a \<in> set flips then a\<lparr>a_include := on\<rparr> else a) (assignments d),
                 instruments := map (\<lambda>i. if i_id i = iid \<and> i_session i = sid then i\<lparr>i_self_reviews := on\<rparr> else i) (instruments d)\<rparr>
       in Inr (write_event ''assignments.instrument_self_reviews_active_set'' user (Some sid)
                 (Counts [(''flipped'', int (length flips))]) None [(''instrument_id'', iid)] [(''active'', JBool on)] d,
               length flips))"

section \<open>Group keys of rows\<close>

definition grouped :: "db \<Rightarrow> int \<Rightarrow> bool" where
  "grouped d iid \<longleftrightarrow> (\<exists>i \<in> set (instruments d). i_id i = iid \<and> i_group_kind i \<noteq> None)"

definition subject_key :: "db \<Rightarrow> int \<Rightarrow> int \<Rightarrow> int \<Rightarrow> reviewee option \<Rightarrow> int \<Rightarrow> string list" where
  "subject_key d sid iid rvid re reid = group_key_for_pair re rvid reid (boundary_of d iid) (pair_context_lookup d sid)"

lemma boundary_types:
  assumes "(t, c) \<in> set (decode_group_kind k)"
  shows "t = ''reviewee'' \<or> t = ''pair_context''"
proof -
  have types: "list_all (\<lambda>(_, t, _). t = ''reviewee'' \<or> t = ''pair_context'') GROUP_BOUNDARY_SOURCE_BY_CODE" by code_simp
  have "(t, c) \<in> set (foldl (\<lambda>pairs code. append_new pairs (map_of GROUP_BOUNDARY_SOURCE_BY_CODE (py_strip code))) [] xs)
      \<Longrightarrow> t = ''reviewee'' \<or> t = ''pair_context''" for xs
  proof (induction xs rule: rev_induct)
    case (snoc x xs)
    have "map_of GROUP_BOUNDARY_SOURCE_BY_CODE y = Some (t, c) \<Longrightarrow> t = ''reviewee'' \<or> t = ''pair_context''" for y
      using types by (auto simp: list_all_iff dest!: map_of_SomeD)
    with snoc show ?case by (auto simp: append_new_def split: option.splits if_splits)
  qed simp
  then show ?thesis using assms by (auto simp: decode_group_kind_def split: if_splits)
qed

lemma boundary_of_types: "(t, c) \<in> set (boundary_of d iid) \<Longrightarrow> t = ''reviewee'' \<or> t = ''pair_context''"
  by (auto simp: boundary_of_def split: option.splits dest: boundary_types)

lemma group_keys_get:
  assumes "distinct (map a_id xs)" "a \<in> set xs"
  shows "group_keys d xs sid (a_id a) =
    (if grouped d (a_instrument a)
     then Some (subject_key d sid (a_instrument a) (a_reviewer a) (reviewee_by_id d (a_reviewee a)) (a_reviewee a)) else None)"
proof -
  define gids where "gids = group_instrument_ids d (a_instrument ` set xs)"
  have mem: "a_instrument a \<in> gids \<longleftrightarrow> grouped d (a_instrument a)"
    using assms(2) by (force simp: gids_def group_instrument_ids_def grouped_def)
  define needs where "needs = (\<exists>iid \<in> gids. list_ex (\<lambda>(t, _). t = ''pair_context'') (boundary_of d iid))"
  define ps where "ps = (if needs then pair_context_lookup d sid else Map.empty)"
  define key where "key = (\<lambda>a :: assignment. group_key_for_pair (reviewee_by_id d (a_reviewee a)) (a_reviewer a) (a_reviewee a)
      (boundary_of d (a_instrument a)) ps)"
  have keys: "group_keys d xs sid = dict_get (dict_of a_id key (filter (\<lambda>a. a_instrument a \<in> gids) xs))"
    by (simp only: group_keys_def group_key_by_assignment_def Let_def gids_def needs_def ps_def key_def)
  show ?thesis
  proof (cases "grouped d (a_instrument a)")
    case True
    then have a: "a \<in> set (filter (\<lambda>a. a_instrument a \<in> gids) xs)" using assms(2) mem by simp
    have "key a = subject_key d sid (a_instrument a) (a_reviewer a) (reviewee_by_id d (a_reviewee a)) (a_reviewee a)"
      unfolding key_def subject_key_def group_key_for_pair_def
    proof (rule map_cong [OF refl])
      fix tc
      assume tc: "tc \<in> set (boundary_of d (a_instrument a))"
      obtain t c where "tc = (t, c)" by (cases tc)
      moreover have "ps = pair_context_lookup d sid" if "t \<noteq> ''reviewee''"
      proof -
        have "t = ''pair_context''" using boundary_of_types [of t c] tc \<open>tc = (t, c)\<close> that by blast
        then have needs unfolding needs_def using tc \<open>tc = (t, c)\<close> True mem by (auto simp: list_ex_iff)
        then show ?thesis by (simp add: ps_def)
      qed
      ultimately show "(case tc of (source_type, source_field) \<Rightarrow> py_strip (or_empty
           (if source_type = ''reviewee'' then reviewee_tag (reviewee_by_id d (a_reviewee a)) source_field
            else case ps (a_reviewer a, a_reviewee a) of
                   Some rel \<Rightarrow> if rel_status rel = ''active'' then relationship_tag rel source_field else None | None \<Rightarrow> None)))
        = (case tc of (source_type, source_field) \<Rightarrow> py_strip (or_empty
           (if source_type = ''reviewee'' then reviewee_tag (reviewee_by_id d (a_reviewee a)) source_field
            else case pair_context_lookup d sid (a_reviewer a, a_reviewee a) of
                   Some rel \<Rightarrow> if rel_status rel = ''active'' then relationship_tag rel source_field else None | None \<Rightarrow> None)))"
        by auto
    qed
    moreover have "distinct (map a_id (filter (\<lambda>a. a_instrument a \<in> gids) xs))" using assms(1) by (rule distinct_map_filter)
    ultimately show ?thesis using dict_of_get_distinct [OF _ a, of a_id key] True by (simp add: keys)
  next
    case False
    have "a_id a \<notin> a_id ` set (filter (\<lambda>a. a_instrument a \<in> gids) xs)"
      using assms mem False by (auto simp: distinct_map inj_on_def)
    then show ?thesis using False by (simp add: keys dict_of_get_None)
  qed
qed

section \<open>The rule over the roster\<close>

text \<open>
  What the policy says, of a reviewer and a reviewee on an instrument: on a group instrument,
  that some row of the reviewer's own on the roster is in the group the reviewee is in, the
  catch-all group aside; elsewhere, that the two are one person.
\<close>

definition reviews_self :: "db \<Rightarrow> int \<Rightarrow> int \<Rightarrow> reviewer \<Rightarrow> reviewee \<Rightarrow> bool" where
  "reviews_self d sid iid rv re =
     (if grouped d iid
      then let k = subject_key d sid iid (rr_id rv) (Some re) (re_id re) in
        \<not> is_catch_all_key k
        \<and> (\<exists>own \<in> set (session_reviewees d sid). is_self_review rv own
              \<and> subject_key d sid iid (rr_id rv) (Some own) (re_id own) = k)
      else is_self_review rv re)"

text \<open>Object ids are stored normalised: one that is there is not blank.\<close>

definition tidy_account :: "string option \<Rightarrow> bool" where
  "tidy_account v \<longleftrightarrow> or_empty v \<noteq> [] \<longrightarrow> normalize_object_id v \<noteq> []"

definition people_keyed :: "db \<Rightarrow> bool" where
  "people_keyed d \<longleftrightarrow> distinct (map rr_id (reviewers d)) \<and> distinct (map re_id (reviewees d))
     \<and> (\<forall>rv \<in> set (reviewers d). tidy_account (rr_object_id rv)) \<and> (\<forall>re \<in> set (reviewees d). tidy_account (re_object_id re))"

lemma dict_of_values:
  assumes "inj_on key (set xs)"
  shows "snd ` set (dict_of key id xs) = set xs"
proof -
  have get: "dict_get (dict_of key id xs) (key x) = Some x" if "x \<in> set xs" for x
  proof -
    have "last (filter (\<lambda>y. key y = key x) xs) \<in> set (filter (\<lambda>y. key y = key x) xs)"
      using that by (intro last_in_set) (auto simp: filter_empty_conv)
    then have "last (filter (\<lambda>y. key y = key x) xs) = x" using that assms by (auto simp: inj_on_def)
    then show ?thesis using that by (auto simp: dict_of_get Let_def filter_empty_conv)
  qed
  have items: "(k, v) \<in> set (dict_of key id xs) \<longleftrightarrow> dict_get (dict_of key id xs) k = Some v" for k v
    by (rule dict_items) (rule dict_of_keys)
  have "v \<in> set xs" if "dict_get (dict_of key id xs) k = Some v" for k v
  proof -
    have "k \<in> key ` set xs" using that dict_of_get_None [of key id xs k] by auto
    then show ?thesis using get that by auto
  qed
  then show ?thesis using get items by (force simp: image_iff)
qed

lemma set_or_nil_group: "set (or_nil (dict_get (group_into key id xs) k)) = {x \<in> set xs. key x = k}"
  by (simp add: group_into_get Let_def or_nil_def filter_empty_conv)

lemma py_lower_Nil: "py_lower [] = []"
  by (simp add: py_lower_def)

lemma own_rows_set:
  assumes "people_keyed d" "tidy_account (ap_object_id p)"
  shows "set (own_rows d sid p) = {own \<in> set (session_reviewees d sid).
    pair_self_review (ap_email p) (re_identifier own) (ap_object_id p) (re_object_id own)}"
proof -
  define cs where "cs = or_nil (dict_get (roster_by_email d sid) (normalize_email (Some (ap_email p))))
      @ or_nil (dict_get (roster_by_account d sid) (normalize_object_id (ap_object_id p)))"
  have sub: "set cs \<subseteq> set (session_reviewees d sid)"
    by (auto simp: cs_def roster_by_email_def roster_by_account_def set_or_nil_group)
  have "inj_on re_id (set (reviewees d))" using assms(1) by (simp add: people_keyed_def distinct_map)
  then have "inj_on re_id (set cs)" by (rule inj_on_subset) (use sub in \<open>auto simp: session_reviewees_def\<close>)
  then have vals: "set (own_rows d sid p) = {own \<in> set cs. pair_self_review (ap_email p) (re_identifier own) (ap_object_id p) (re_object_id own)}"
    unfolding own_rows_def Let_def cs_def [symmetric] set_filter set_map by (simp only: dict_of_values)
  have "own \<in> set cs" if own: "own \<in> set (session_reviewees d sid)"
    "pair_self_review (ap_email p) (re_identifier own) (ap_object_id p) (re_object_id own)" for own
  proof -
    have tidy: "tidy_account (re_object_id own)" using own(1) assms(1) by (simp add: session_reviewees_def people_keyed_def)
    have "if or_empty (ap_object_id p) \<noteq> [] \<and> or_empty (re_object_id own) \<noteq> []
        then normalize_object_id (ap_object_id p) = normalize_object_id (re_object_id own)
        else CHR ''@'' \<in> set (re_identifier own) \<and> normalize_email (Some (ap_email p)) = normalize_email (Some (re_identifier own))"
      using own(2) tidy assms(2)
      by (auto simp: pair_self_review_def same_identity_def Let_def tidy_account_def normalize_object_id_def py_lower_Nil split: if_splits)
    then show ?thesis using own(1)
      by (auto simp: cs_def roster_by_email_def roster_by_account_def set_or_nil_group split: if_splits)
  qed
  then show ?thesis using vals sub by auto
qed

lemma synthetic_loop:
  "foldl (\<lambda>ms own. ms @ [synthetic_row p (length ms) own]) m owns
     = m @ map (\<lambda>(n, own). synthetic_row p n own) (zip [length m..<length m + length owns] owns)"
  by (induction owns rule: rev_induct) auto

text \<open>What the loop over the pairs keeps.\<close>

definition membership_inv ::
  "db \<Rightarrow> int \<Rightarrow> assignment_pair list \<Rightarrow> assignment_pair list \<times> (int \<times> int) list \<Rightarrow> bool" where
  "membership_inv d sid pairs acc \<longleftrightarrow>
     map ap_id (fst acc) = map (\<lambda>n. - (int n + 1)) [0..<length (fst acc)]
     \<and> set (snd acc) = (\<lambda>p. (ap_instrument p, ap_reviewer p)) ` set pairs
     \<and> (\<forall>row \<in> set (fst acc). \<exists>p \<in> set pairs. \<exists>own \<in> set (own_rows d sid p). \<exists>n. row = synthetic_row p n own)
     \<and> (\<forall>slot \<in> set (snd acc). \<exists>p \<in> set pairs. (ap_instrument p, ap_reviewer p) = slot
          \<and> (\<forall>own \<in> set (own_rows d sid p). \<exists>n. synthetic_row p n own \<in> set (fst acc)))"

lemma membership_step_inv:
  assumes "membership_inv d sid pairs acc"
  shows "membership_inv d sid (pairs @ [p]) (membership_step d sid acc p)"
proof -
  obtain ms seen where acc: "acc = (ms, seen)" by (cases acc)
  let ?slot = "(ap_instrument p, ap_reviewer p)" and ?owns = "own_rows d sid p"
  show ?thesis
  proof (cases "?slot \<in> set seen")
    case True
    then have "membership_step d sid acc p = (ms, seen)" by (simp add: acc membership_step_def Let_def)
    then show ?thesis using assms True unfolding acc membership_inv_def by auto
  next
    case False
    let ?new = "map (\<lambda>(n, own). synthetic_row p n own) (zip [length ms..<length ms + length ?owns] ?owns)"
    have step: "membership_step d sid acc p = (ms @ ?new, ?slot # seen)"
      using False by (simp add: acc membership_step_def Let_def synthetic_loop)
    have "ap_id \<circ> (\<lambda>(n, own). synthetic_row p n own) = (\<lambda>n. - (int n + 1)) \<circ> fst"
      by (auto simp: fun_eq_iff synthetic_row_def)
    then have "map ap_id ?new = map (\<lambda>n. - (int n + 1)) (map fst (zip [length ms..<length ms + length ?owns] ?owns))"
      by (simp only: map_map)
    then have ids: "map ap_id ?new = map (\<lambda>n. - (int n + 1)) [length ms..<length ms + length ?owns]" by simp
    have has: "\<exists>n. synthetic_row p n own \<in> set ?new" if own: "own \<in> set ?owns" for own
    proof -
      obtain k where k: "k < length ?owns" "?owns ! k = own" using own by (auto simp: in_set_conv_nth)
      then have "(length ms + k, own) \<in> set (zip [length ms..<length ms + length ?owns] ?owns)"
        by (auto simp: set_zip intro!: exI [of _ k])
      then show ?thesis by force
    qed
    have "map ap_id (ms @ ?new) = map (\<lambda>n. - (int n + 1)) [0..<length (ms @ ?new)]"
      using assms ids upt_add_eq_append [of 0 "length ms" "length ?owns"] by (simp add: acc membership_inv_def)
    moreover have "set (?slot # seen) = (\<lambda>p. (ap_instrument p, ap_reviewer p)) ` set (pairs @ [p])"
      using assms by (auto simp: acc membership_inv_def)
    moreover have "\<exists>q \<in> set (pairs @ [p]). \<exists>own \<in> set (own_rows d sid q). \<exists>n. row = synthetic_row q n own"
      if row: "row \<in> set (ms @ ?new)" for row
    proof (cases "row \<in> set ms")
      case True
      then show ?thesis using assms by (auto simp: acc membership_inv_def)
    next
      case False
      then have "row \<in> set ?new" using row by simp
      then have "\<exists>own \<in> set ?owns. \<exists>n. row = synthetic_row p n own" by (auto dest: set_zip_rightD)
      then show ?thesis by simp
    qed
    moreover have "\<exists>q \<in> set (pairs @ [p]). (ap_instrument q, ap_reviewer q) = slot
        \<and> (\<forall>own \<in> set (own_rows d sid q). \<exists>n. synthetic_row q n own \<in> set (ms @ ?new))"
      if slot: "slot \<in> set (?slot # seen)" for slot
    proof (cases "slot \<in> set seen")
      case True
      then have "\<exists>q \<in> set pairs. (ap_instrument q, ap_reviewer q) = slot
          \<and> (\<forall>own \<in> set (own_rows d sid q). \<exists>n. synthetic_row q n own \<in> set ms)"
        using assms unfolding acc membership_inv_def fst_conv snd_conv by blast
      then show ?thesis unfolding set_append by blast
    next
      case False
      then have "slot = ?slot" using slot by simp
      moreover have "\<forall>own \<in> set ?owns. \<exists>n. synthetic_row p n own \<in> set ms \<union> set ?new" using has by blast
      moreover have "p \<in> set pairs \<union> set [p]" by simp
      ultimately show ?thesis unfolding set_append by blast
    qed
    ultimately show ?thesis unfolding step membership_inv_def fst_conv snd_conv by blast
  qed
qed

lemma membership_facts: "membership_inv d sid pairs (foldl (membership_step d sid) ([], []) pairs)"
proof (induction pairs rule: rev_induct)
  case Nil
  then show ?case by (simp add: membership_inv_def)
next
  case (snoc p pairs)
  then show ?case using membership_step_inv by simp
qed

section \<open>The classification is the rule\<close>

definition rows_ok :: "db \<Rightarrow> joined list \<Rightarrow> bool" where
  "rows_ok d rows \<longleftrightarrow> distinct (map (\<lambda>(a, _, _). a_id a) rows)
     \<and> (\<forall>(a, rv, re) \<in> set rows. 0 \<le> a_id a \<and> rv \<in> set (reviewers d) \<and> re \<in> set (reviewees d)
          \<and> rr_id rv = a_reviewer a \<and> re_id re = a_reviewee a)"

lemma reviewee_by_id_eq: "people_keyed d \<Longrightarrow> re \<in> set (reviewees d) \<Longrightarrow> reviewee_by_id d (re_id re) = Some re"
  by (simp add: reviewee_by_id_def people_keyed_def distinct_map find_key)

lemma reviewer_by_id_eq: "people_keyed d \<Longrightarrow> rv \<in> set (reviewers d) \<Longrightarrow> reviewer_by_id d (rr_id rv) = Some rv"
  by (simp add: reviewer_by_id_def people_keyed_def distinct_map find_key)

lemma row_pair_simps [simp]:
  "ap_id (pair_of_row (a, rv, re)) = a_id a" "ap_instrument (pair_of_row (a, rv, re)) = a_instrument a"
  "ap_reviewer (pair_of_row (a, rv, re)) = a_reviewer a" "ap_reviewee (pair_of_row (a, rv, re)) = a_reviewee a"
  "ap_email (pair_of_row (a, rv, re)) = rr_email rv" "ap_subject (pair_of_row (a, rv, re)) = re"
  "ap_object_id (pair_of_row (a, rv, re)) = rr_object_id rv"
  by (simp_all add: pair_of_row_def)

lemma as_assignment_simps [simp]:
  "a_id (as_assignment sid p) = ap_id p" "a_instrument (as_assignment sid p) = ap_instrument p"
  "a_reviewer (as_assignment sid p) = ap_reviewer p" "a_reviewee (as_assignment sid p) = ap_reviewee p"
  by (simp_all add: as_assignment_def)

lemma synthetic_simps [simp]:
  "ap_instrument (synthetic_row p n own) = ap_instrument p" "ap_reviewer (synthetic_row p n own) = ap_reviewer p"
  "ap_reviewee (synthetic_row p n own) = re_id own"
  by (simp_all add: synthetic_row_def)

lemma classified_ids:
  assumes "rows_ok d rows"
  shows "distinct (map a_id (map (as_assignment sid) (map pair_of_row rows @ membership_of d sid (map pair_of_row rows))))"
proof -
  have real: "map ap_id (map pair_of_row rows) = map (\<lambda>(a, _, _). a_id a) rows"
    by (simp add: comp_def case_prod_beta pair_of_row_def)
  have synth: "map ap_id (membership_of d sid ps) = map (\<lambda>n. - (int n + 1)) [0..<length (membership_of d sid ps)]" for ps
    using membership_facts [of d sid ps] by (simp add: membership_inv_def membership_of_def)
  have "ap_id \<circ> pair_of_row = (\<lambda>(a, _, _). a_id a)" by (auto simp: fun_eq_iff)
  then have "0 \<le> i" if "i \<in> set (map ap_id (map pair_of_row rows))" for i
    using that assms by (auto simp: rows_ok_def)
  moreover have "i < 0" if "i \<in> set (map ap_id (membership_of d sid ps))" for i ps
    using that unfolding synth by auto
  ultimately have "set (map ap_id (map pair_of_row rows)) \<inter> set (map ap_id (membership_of d sid (map pair_of_row rows))) = {}"
    by fastforce
  moreover have "distinct (map ap_id (map pair_of_row rows))" unfolding real using assms by (simp add: rows_ok_def)
  moreover have "distinct (map ap_id (membership_of d sid ps))" for ps
    unfolding synth by (simp add: distinct_map inj_on_def)
  ultimately show ?thesis by (simp add: comp_def)
qed

text \<open>The synthetic rows of a reviewer on an instrument are their own rows of the roster.\<close>

lemma member_rows:
  assumes people: "people_keyed d" and rows: "rows_ok d rows" and row: "(a, rv, re) \<in> set rows"
  shows "(\<exists>m \<in> set (membership_of d sid (map pair_of_row rows)).
        (ap_instrument m, ap_reviewer m) = (a_instrument a, a_reviewer a) \<and> Q (ap_reviewee m))
      \<longleftrightarrow> (\<exists>own \<in> set (session_reviewees d sid). is_self_review rv own \<and> Q (re_id own))"
proof -
  define ps where "ps = map pair_of_row rows"
  define ms where "ms = membership_of d sid ps"
  have here: "rv \<in> set (reviewers d)" "rr_id rv = a_reviewer a"
    using rows row by (auto simp: rows_ok_def)
  have p: "pair_of_row (a, rv, re) \<in> set ps" using row by (auto simp: ps_def)
  have same: "ap_email q = rr_email rv \<and> ap_object_id q = rr_object_id rv"
    if q: "q \<in> set ps" and qr: "ap_reviewer q = a_reviewer a" for q
  proof -
    obtain b rv' re' where b: "(b, rv', re') \<in> set rows" "q = pair_of_row (b, rv', re')" using q by (auto simp: ps_def)
    then have "rv' \<in> set (reviewers d)" "rr_id rv' = rr_id rv" using rows qr here by (auto simp: rows_ok_def)
    then have "rv' = rv" using people here(1) by (auto simp: people_keyed_def distinct_map inj_on_def)
    then show ?thesis using b(2) by simp
  qed
  have own: "set (own_rows d sid q) = {own \<in> set (session_reviewees d sid). is_self_review rv own}"
    if "q \<in> set ps" "ap_reviewer q = a_reviewer a" for q
    using own_rows_set [OF people, of q sid] same [OF that] people here(1)
    by (simp add: is_self_review_def people_keyed_def)
  note inv = membership_facts [of d sid ps, unfolded membership_inv_def, folded membership_of_def ms_def]
  show ?thesis
    unfolding ps_def [symmetric] ms_def [symmetric]
  proof
    assume "\<exists>m \<in> set ms. (ap_instrument m, ap_reviewer m) = (a_instrument a, a_reviewer a) \<and> Q (ap_reviewee m)"
    then obtain m where m: "m \<in> set ms" "ap_reviewer m = a_reviewer a" "Q (ap_reviewee m)" by auto
    then obtain q o' n where "q \<in> set ps" "o' \<in> set (own_rows d sid q)" "m = synthetic_row q n o'" using inv by blast
    then show "\<exists>own \<in> set (session_reviewees d sid). is_self_review rv own \<and> Q (re_id own)" using own [of q] m by auto
  next
    assume "\<exists>own \<in> set (session_reviewees d sid). is_self_review rv own \<and> Q (re_id own)"
    then obtain o' where o': "o' \<in> set (session_reviewees d sid)" "is_self_review rv o'" "Q (re_id o')" by blast
    have "(a_instrument a, a_reviewer a) \<in> (\<lambda>p. (ap_instrument p, ap_reviewer p)) ` set ps" using p by force
    then obtain q where q: "q \<in> set ps" "ap_instrument q = a_instrument a" "ap_reviewer q = a_reviewer a"
      "\<forall>own \<in> set (own_rows d sid q). \<exists>n. synthetic_row q n own \<in> set ms" using inv by fastforce
    then obtain n where "synthetic_row q n o' \<in> set ms" using own [of q] o' by auto
    then show "\<exists>m \<in> set ms. (ap_instrument m, ap_reviewer m) = (a_instrument a, a_reviewer a) \<and> Q (ap_reviewee m)"
      using q(2,3) o'(3) by (intro bexI [of _ "synthetic_row q n o'"]) simp_all
  qed
qed

lemma classify_is_rule:
  assumes people: "people_keyed d" and rows: "rows_ok d rows" and row: "(a, rv, re) \<in> set rows"
  shows "dict_get (classify_self_review d sid rows) (a_id a) = Some (reviews_self d sid (a_instrument a) rv re)"
proof -
  define ps where "ps = map pair_of_row rows"
  define ms where "ms = membership_of d sid ps"
  define keys where "keys = group_keys d (map (as_assignment sid) (ps @ ms)) sid"
  have here: "rv \<in> set (reviewers d)" "re \<in> set (reviewees d)" "rr_id rv = a_reviewer a" "re_id re = a_reviewee a"
    using rows row by (auto simp: rows_ok_def)
  have key: "keys (ap_id p) = (if grouped d (ap_instrument p)
      then Some (subject_key d sid (ap_instrument p) (ap_reviewer p) (reviewee_by_id d (ap_reviewee p)) (ap_reviewee p)) else None)"
    if "p \<in> set (ps @ ms)" for p
  proof -
    have "as_assignment sid p \<in> set (map (as_assignment sid) (ps @ ms))" using that by auto
    from group_keys_get [OF classified_ids [OF rows, of sid, folded ps_def, folded ms_def] this, of d sid]
    show ?thesis by (cases "grouped d (ap_instrument p)") (simp_all add: keys_def)
  qed
  have p: "pair_of_row (a, rv, re) \<in> set ps" using row by (auto simp: ps_def)
  note members = member_rows [OF assms, of sid, folded ps_def, folded ms_def]
  have get: "dict_get (classify_self_review d sid rows) (a_id a) = Some (case keys (a_id a) of
        None \<Rightarrow> is_self_review rv re | Some k \<Rightarrow> k \<in> member_keys keys ms (a_instrument a, a_reviewer a))"
  proof -
    define f where "f = (\<lambda>p :: assignment_pair. case keys (ap_id p) of
            None \<Rightarrow> pair_self_review (ap_email p) (re_identifier (ap_subject p)) (ap_object_id p) (re_object_id (ap_subject p))
          | Some k \<Rightarrow> k \<in> member_keys keys ms (ap_instrument p, ap_reviewer p))"
    have run: "classify_self_review d sid rows = dict_of ap_id f ps"
      by (simp only: classify_self_review_def classify_self_review_pairs_def Let_def ps_def ms_def keys_def f_def)
    have "distinct (map ap_id ps)" using classified_ids [OF rows, of sid] by (simp add: comp_def ps_def)
    from dict_of_get_distinct [OF this p, of f]
    have "dict_get (classify_self_review d sid rows) (a_id a) = Some (f (pair_of_row (a, rv, re)))"
      by (simp only: run row_pair_simps)
    then show ?thesis by (simp only: f_def row_pair_simps is_self_review_def)
  qed
  show ?thesis
  proof (cases "grouped d (a_instrument a)")
    case False
    then show ?thesis using key [of "pair_of_row (a, rv, re)"] p get by (simp add: reviews_self_def)
  next
    case True
    define k where "k = subject_key d sid (a_instrument a) (a_reviewer a) (Some re) (a_reviewee a)"
    have ka: "keys (a_id a) = Some k"
      using key [of "pair_of_row (a, rv, re)"] p True reviewee_by_id_eq [OF people here(2)] here by (simp add: k_def)
    have mk: "keys (ap_id m) = Some (subject_key d sid (a_instrument a) (a_reviewer a) (reviewee_by_id d (ap_reviewee m)) (ap_reviewee m))"
      if "m \<in> set ms" "(ap_instrument m, ap_reviewer m) = (a_instrument a, a_reviewer a)" for m
      using key [of m] that True by simp
    have "k \<in> member_keys keys ms (a_instrument a, a_reviewer a) \<longleftrightarrow> \<not> is_catch_all_key k
        \<and> (\<exists>m \<in> set ms. (ap_instrument m, ap_reviewer m) = (a_instrument a, a_reviewer a) \<and> keys (ap_id m) = Some k)"
      unfolding member_keys_def set_map_filter by (auto split: option.splits if_splits)
    also have "\<dots> \<longleftrightarrow> \<not> is_catch_all_key k
        \<and> (\<exists>m \<in> set ms. (ap_instrument m, ap_reviewer m) = (a_instrument a, a_reviewer a)
            \<and> subject_key d sid (a_instrument a) (a_reviewer a) (reviewee_by_id d (ap_reviewee m)) (ap_reviewee m) = k)"
      using mk by (intro conj_cong refl bex_cong) simp
    also have "\<dots> \<longleftrightarrow> reviews_self d sid (a_instrument a) rv re"
      unfolding members [of "\<lambda>i. subject_key d sid (a_instrument a) (a_reviewer a) (reviewee_by_id d i) i = k"]
      using True here reviewee_by_id_eq [OF people]
      by (auto simp: reviews_self_def Let_def k_def session_reviewees_def)
    finally show ?thesis using get ka by simp
  qed
qed

end
