(* ===== verification/Rule_Predicates.thy ===== *)
theory Rule_Predicates
  imports Rule_Schema Store
begin

text \<open>
  What a predicate reads of a pair and what its operators say
  (\<open>app/services/rules/fields.py\<close>, \<open>app/services/rules/predicates.py\<close>). The relationship
  lookup the engine binds for a run is an argument, \<open>None\<close> when nothing is bound. The regular
  expression search \<open>re.search(pattern, text, flags)\<close> is a parameter: pattern, text, whether
  case is ignored.
\<close>

type_synonym pair_lookup = "(int \<times> int \<Rightarrow> relationship option) option"
type_synonym candidate = "reviewer \<times> reviewee"
type_synonym regex_search = "string \<Rightarrow> string \<Rightarrow> bool \<Rightarrow> bool"

section \<open>Fields\<close>

definition FIELD_MAP :: "(string \<times> string \<times> string) list" where
  "FIELD_MAP =
     [(''reviewer.email'', ''reviewer'', ''email''),
      (''reviewer.tag1'', ''reviewer'', ''tag_1''),
      (''reviewer.tag2'', ''reviewer'', ''tag_2''),
      (''reviewer.tag3'', ''reviewer'', ''tag_3''),
      (''reviewee.email'', ''reviewee'', ''email_or_identifier''),
      (''reviewee.tag1'', ''reviewee'', ''tag_1''),
      (''reviewee.tag2'', ''reviewee'', ''tag_2''),
      (''reviewee.tag3'', ''reviewee'', ''tag_3''),
      (''pair_context.tag1'', ''pair_context'', ''tag_1''),
      (''pair_context.tag2'', ''pair_context'', ''tag_2''),
      (''pair_context.tag3'', ''pair_context'', ''tag_3'')]"

definition parse_field :: "string \<Rightarrow> (string \<times> string) result" where
  "parse_field dotted =
     (case dict_get FIELD_MAP dotted of None \<Rightarrow> Inl (KeyError dotted) | Some sa \<Rightarrow> Inr sa)"

text \<open>\<open>getattr(row, attribute, None)\<close> on the columns a field can name.\<close>

definition reviewer_attr :: "reviewer \<Rightarrow> string \<Rightarrow> string option" where
  "reviewer_attr r a =
     (if a = ''email'' then Some (rr_email r) else if a = ''tag_1'' then rr_tag1 r
      else if a = ''tag_2'' then rr_tag2 r else if a = ''tag_3'' then rr_tag3 r else None)"

definition reviewee_attr :: "reviewee \<Rightarrow> string \<Rightarrow> string option" where
  "reviewee_attr r a =
     (if a = ''email_or_identifier'' then Some (re_identifier r) else if a = ''tag_1'' then re_tag1 r
      else if a = ''tag_2'' then re_tag2 r else if a = ''tag_3'' then re_tag3 r else None)"

definition relationship_attr :: "relationship \<Rightarrow> string \<Rightarrow> string option" where
  "relationship_attr r a =
     (if a = ''tag_1'' then rel_tag1 r else if a = ''tag_2'' then rel_tag2 r
      else if a = ''tag_3'' then rel_tag3 r else None)"

definition resolve_pair_context :: "pair_lookup \<Rightarrow> candidate \<Rightarrow> string \<Rightarrow> string option" where
  "resolve_pair_context bound p attribute =
     (case bound of
        None \<Rightarrow> None
      | Some lookup \<Rightarrow>
         (case lookup (rr_id (fst p), re_id (snd p)) of
            None \<Rightarrow> None
          | Some rel \<Rightarrow>
             if rel_status rel \<noteq> ''active'' then None
             else (case relationship_attr rel attribute of
                     None \<Rightarrow> None
                   | Some raw \<Rightarrow> if py_strip raw = [] then None else Some raw)))"

definition get_field_value :: "pair_lookup \<Rightarrow> string \<Rightarrow> candidate \<Rightarrow> string option result" where
  "get_field_value bound dotted p =
     bindE (parse_field dotted) (\<lambda>(side, attribute). Inr (
       if side = ''pair_context'' then resolve_pair_context bound p attribute
       else (case (if side = ''reviewer'' then reviewer_attr (fst p) attribute else reviewee_attr (snd p) attribute) of
               None \<Rightarrow> None
             | Some raw \<Rightarrow> if py_strip raw = [] then None else Some raw)))"

definition get_field_values :: "pair_lookup \<Rightarrow> string \<Rightarrow> candidate \<Rightarrow> string list result" where
  "get_field_values bound dotted p =
     bindE (parse_field dotted) (\<lambda>(side, attribute). Inr (
       case (if side = ''pair_context'' then resolve_pair_context bound p attribute
             else if side = ''reviewer'' then reviewer_attr (fst p) attribute
             else reviewee_attr (snd p) attribute) of
         None \<Rightarrow> [] | Some v \<Rightarrow> [v]))"

section \<open>Values\<close>

text \<open>\<open>str(value)\<close> of an operand; \<open>None\<close> for \<open>None\<close>. A list's text is never read.\<close>

fun nat_text :: "nat \<Rightarrow> string" where
  "nat_text n = (if n < 10 then [char_of (48 + n)] else nat_text (n div 10) @ [char_of (48 + n mod 10)])"

declare nat_text.simps [simp del]

definition int_text :: "int \<Rightarrow> string" where
  "int_text k = (if k < 0 then CHR ''-'' # nat_text (nat (- k)) else nat_text (nat k))"

definition operand_text :: "operand \<Rightarrow> string option" where
  "operand_text v =
     (case v of NoOperand \<Rightarrow> None | StrOperand s \<Rightarrow> Some s | IntOperand k \<Rightarrow> Some (int_text k)
      | FloatOperand s \<Rightarrow> Some s | ListOperand _ \<Rightarrow> None)"

definition normalise :: "bool \<Rightarrow> string option \<Rightarrow> string option" where
  "normalise case_sensitive v =
     (case v of None \<Rightarrow> None
      | Some s \<Rightarrow> (let text = py_strip s in
          if text = [] then None else Some (if case_sensitive then text else py_lower text)))"

definition values_of :: "pair_lookup \<Rightarrow> string \<Rightarrow> predicate \<Rightarrow> candidate \<Rightarrow> string list result" where
  "values_of bound dotted pr p =
     bindE (get_field_values bound dotted p) (\<lambda>raws. Inr (
       if raws = [] then []
       else if length raws = 1 then
         (case normalise (pr_case_sensitive pr) (Some (hd raws)) of None \<Rightarrow> [] | Some v \<Rightarrow> [v])
       else List.map_filter (\<lambda>raw. normalise (pr_case_sensitive pr) (Some raw)) raws))"

definition lhs :: "pair_lookup \<Rightarrow> predicate \<Rightarrow> candidate \<Rightarrow> string list result" where
  "lhs bound pr p = values_of bound (pr_field pr) pr p"

section \<open>Operators\<close>

definition op_equals :: "pair_lookup \<Rightarrow> predicate \<Rightarrow> candidate \<Rightarrow> bool result" where
  "op_equals bound pr p =
     (case normalise (pr_case_sensitive pr) (operand_text (pr_operand pr)) of
        None \<Rightarrow> Inr False
      | Some rhs \<Rightarrow> bindE (lhs bound pr p) (\<lambda>vs. Inr (rhs \<in> set vs)))"

definition op_in :: "pair_lookup \<Rightarrow> predicate \<Rightarrow> candidate \<Rightarrow> bool result" where
  "op_in bound pr p =
     (let items = (case pr_operand pr of ListOperand xs \<Rightarrow> xs | _ \<Rightarrow> []);
          members = set (List.map_filter (\<lambda>x. normalise (pr_case_sensitive pr) (Some x)) items)
      in bindE (lhs bound pr p) (\<lambda>vs. Inr (list_ex (\<lambda>v. v \<in> members) vs)))"

definition op_matches :: "regex_search \<Rightarrow> pair_lookup \<Rightarrow> predicate \<Rightarrow> candidate \<Rightarrow> bool result" where
  "op_matches search bound pr p =
     bindE (lhs bound pr p) (\<lambda>vs. Inr (list_ex
       (\<lambda>v. search (or_empty (operand_text (pr_operand pr))) v (\<not> pr_case_sensitive pr)) vs))"

definition op_not_matches :: "regex_search \<Rightarrow> pair_lookup \<Rightarrow> predicate \<Rightarrow> candidate \<Rightarrow> bool result" where
  "op_not_matches search bound pr p =
     bindE (lhs bound pr p) (\<lambda>vs. Inr (
       if vs = [] then False
       else list_all (\<lambda>v. \<not> search (or_empty (operand_text (pr_operand pr))) v (\<not> pr_case_sensitive pr)) vs))"

definition op_is_empty :: "pair_lookup \<Rightarrow> predicate \<Rightarrow> candidate \<Rightarrow> bool result" where
  "op_is_empty bound pr p = bindE (lhs bound pr p) (\<lambda>vs. Inr (vs = []))"

definition op_same_as :: "pair_lookup \<Rightarrow> predicate \<Rightarrow> candidate \<Rightarrow> bool result" where
  "op_same_as bound pr p =
     (let other = or_empty (operand_text (pr_operand pr)) in
      if dict_get FIELD_MAP other = None then Inr False
      else bindE (lhs bound pr p) (\<lambda>ls. bindE (values_of bound other pr p) (\<lambda>rs. Inr (
        if ls = [] \<or> rs = [] then ls = [] \<and> rs = []
        else if length ls = 1 then hd ls \<in> set rs
        else list_ex (\<lambda>v. v \<in> set rs) ls))))"

text \<open>\<open>not\<close> over a call that may raise.\<close>

definition negate :: "bool result \<Rightarrow> bool result" where
  "negate r = bindE r (\<lambda>b. Inr (\<not> b))"

definition evaluate_predicate :: "regex_search \<Rightarrow> pair_lookup \<Rightarrow> predicate \<Rightarrow> candidate \<Rightarrow> bool result" where
  "evaluate_predicate search bound pr p =
     (let oper = pr_operator pr in
      if oper = ''equals'' then op_equals bound pr p
      else if oper = ''not_equals'' then negate (op_equals bound pr p)
      else if oper = ''in'' then op_in bound pr p
      else if oper = ''not_in'' then negate (op_in bound pr p)
      else if oper = ''matches'' then op_matches search bound pr p
      else if oper = ''not_matches'' then op_not_matches search bound pr p
      else if oper = ''is_empty'' then op_is_empty bound pr p
      else if oper = ''is_not_empty'' then negate (op_is_empty bound pr p)
      else if oper = ''same_as'' then op_same_as bound pr p
      else if oper = ''different_from'' then negate (op_same_as bound pr p)
      else Inl (KeyError oper))"

section \<open>A predicate the schema accepts never raises\<close>

lemma allowed_fields: "set ALLOWED_PREDICATE_FIELDS = set (dict_keys FIELD_MAP)"
  by (simp add: ALLOWED_PREDICATE_FIELDS_def FIELD_MAP_def dict_keys_def)

lemma parse_field_Inr: "dotted \<in> set ALLOWED_PREDICATE_FIELDS \<longleftrightarrow> (\<exists>sa. parse_field dotted = Inr sa)"
  unfolding allowed_fields parse_field_def
  using dom_dict_get [of FIELD_MAP, THEN eqset_imp_iff, of dotted] by (auto split: option.splits)

text \<open>The values a field shows: what \<open>get_field_value\<close> finds, normalised; none or one.\<close>

definition shown :: "pair_lookup \<Rightarrow> bool \<Rightarrow> string \<Rightarrow> candidate \<Rightarrow> string option" where
  "shown bound cs dotted p =
     (case get_field_value bound dotted p of Inr v \<Rightarrow> normalise cs v | Inl _ \<Rightarrow> None)"

lemma values_of_shown:
  assumes "dotted \<in> set ALLOWED_PREDICATE_FIELDS"
  shows "values_of bound dotted pr p = Inr (case shown bound (pr_case_sensitive pr) dotted p of None \<Rightarrow> [] | Some v \<Rightarrow> [v])"
proof -
  obtain side attribute where sa: "parse_field dotted = Inr (side, attribute)"
    using assms parse_field_Inr by fastforce
  show ?thesis
    by (auto simp: values_of_def get_field_values_def shown_def get_field_value_def sa normalise_def Let_def
        split: option.splits)
qed

definition pred_holds :: "regex_search \<Rightarrow> pair_lookup \<Rightarrow> predicate \<Rightarrow> candidate \<Rightarrow> bool" where
  "pred_holds search bound pr p = (case evaluate_predicate search bound pr p of Inr b \<Rightarrow> b | Inl _ \<Rightarrow> False)"

lemma valid_predicate_cases:
  assumes "validate_predicate compiles pr = Inr ()"
  shows "pr_field pr \<in> set ALLOWED_PREDICATE_FIELDS" "pr_operator pr \<in> set PREDICATE_OPERATORS"
    "pr_operator pr \<in> set COMPARE_OPERATORS \<Longrightarrow>
       \<exists>other. pr_operand pr = StrOperand other \<and> other \<in> set ALLOWED_PREDICATE_FIELDS
         \<and> field_side (pr_field pr) \<noteq> field_side other"
    "pr_operator pr \<in> set LIST_OPERATORS \<Longrightarrow> \<exists>xs. pr_operand pr = ListOperand xs \<and> xs \<noteq> []"
  using assms
  by (auto simp: validate_predicate_def validate_operand_def Let_def NULLARY_OPERATORS_def COMPARE_OPERATORS_def
      LIST_OPERATORS_def REGEX_OPERATORS_def split: if_splits operand.splits list.splits)

lemma evaluate_valid:
  assumes "validate_predicate compiles pr = Inr ()"
  shows "evaluate_predicate search bound pr p = Inr (pred_holds search bound pr p)"
proof -
  note v = valid_predicate_cases [OF assms]
  have lhs: "lhs bound pr p = Inr (case shown bound (pr_case_sensitive pr) (pr_field pr) p of None \<Rightarrow> [] | Some v \<Rightarrow> [v])"
    using values_of_shown [OF v(1)] by (simp add: lhs_def)
  have same: "\<exists>b. op_same_as bound pr p = Inr b" if compares: "pr_operator pr \<in> set COMPARE_OPERATORS"
  proof -
    obtain other where other: "pr_operand pr = StrOperand other" "other \<in> set ALLOWED_PREDICATE_FIELDS"
      using v(3) [OF compares] by blast
    show ?thesis
      by (cases "dict_get FIELD_MAP other = None")
        (simp_all add: op_same_as_def other(1) operand_text_def Let_def lhs values_of_shown [OF other(2)] exI [of _ False])
  qed
  have "\<exists>b. evaluate_predicate search bound pr p = Inr b"
    using v(2) same
    by (auto simp: evaluate_predicate_def Let_def PREDICATE_OPERATORS_def COMPARE_OPERATORS_def negate_def
        op_equals_def op_in_def op_matches_def op_not_matches_def op_is_empty_def lhs split: option.splits)
  then show ?thesis by (auto simp: pred_holds_def)
qed

end
