(* ===== verification/Rule_Engine.thy ===== *)
theory Rule_Engine
  imports Rule_Predicates "HOL-Library.Multiset"
begin

text \<open>
  The assignment rule engine (\<open>app/services/rules/engine.py\<close>, \<open>quotas.py\<close>): from a rule set
  and two rosters to the pairs that survive, the exclusion counts and the warnings. Python's
  \<open>random.Random(seed).sample(range(n), k)\<close> is a parameter: the seed's text, \<open>n\<close>, \<open>k\<close>.
  Object identity of a roster row is the row's id. A warning is its case and its numbers.
\<close>

type_synonym sampler = "string \<Rightarrow> nat \<Rightarrow> nat \<Rightarrow> nat list"

datatype warning =
    QuotaMinimum (quota_id: string) (candidates_found: nat) (at_scope: quota_scope) (at_key: string) (minimum: int)
  | ZeroAssignments

section \<open>Quotas\<close>

definition axis_key :: "quota \<Rightarrow> candidate \<Rightarrow> string" where
  "axis_key q p = (if q_scope q = PER_REVIEWER then rr_email (fst p) else re_identifier (snd p))"

definition stable_pair_sort_key :: "candidate \<Rightarrow> string \<times> string" where
  "stable_pair_sort_key p = (rr_email (fst p), re_identifier (snd p))"

text \<open>\<open>xs[:cap]\<close>; the schema keeps \<open>cap\<close> at least 0.\<close>

definition slice_to :: "int \<Rightarrow> 'a list \<Rightarrow> 'a list" where
  "slice_to cap xs = take (if 0 \<le> cap then nat cap else length xs - nat (- cap)) xs"

definition quota_cap :: "quota \<Rightarrow> candidate list \<Rightarrow> int" where
  "quota_cap q axis_pairs = (case q_max q of Some m \<Rightarrow> m | None \<Rightarrow> int (length axis_pairs))"

definition seed_text :: "int \<Rightarrow> string \<Rightarrow> string" where
  "seed_text seed k = int_text seed @ ''::'' @ k"

definition keep_of_axis :: "sampler \<Rightarrow> quota \<Rightarrow> int \<Rightarrow> string \<Rightarrow> candidate list \<Rightarrow> candidate list" where
  "keep_of_axis sample q seed k axis_pairs =
     (let cap = quota_cap q axis_pairs in
      if q_strategy q = RANDOM then
        map ((!) axis_pairs)
          (sort (sample (seed_text seed k) (length axis_pairs) (nat (min cap (int (length axis_pairs))))))
      else slice_to cap axis_pairs)"

definition quota_step ::
  "sampler \<Rightarrow> string \<Rightarrow> quota \<Rightarrow> int \<Rightarrow> (string \<times> candidate list) list \<Rightarrow> candidate list \<times> nat \<times> warning list \<Rightarrow> string
     \<Rightarrow> candidate list \<times> nat \<times> warning list" where
  "quota_step sample rid q seed grouped acc k =
     (case acc of (selected, excluded, warnings) \<Rightarrow>
      let axis_pairs = sort_key stable_pair_sort_key (case dict_get grouped k of None \<Rightarrow> [] | Some l \<Rightarrow> l);
          kept = keep_of_axis sample q seed k axis_pairs;
          warned = (case q_min q of
              Some lo \<Rightarrow> if int (length axis_pairs) < lo
                then [QuotaMinimum rid (length axis_pairs) (q_scope q) k lo] else []
            | None \<Rightarrow> [])
      in (selected @ kept, excluded + (length axis_pairs - length kept), warnings @ warned))"

definition apply_quota ::
  "sampler \<Rightarrow> candidate list \<Rightarrow> string \<Rightarrow> quota \<Rightarrow> int \<Rightarrow> candidate list \<times> nat \<times> warning list" where
  "apply_quota sample pairs rid q fallback_seed =
     (let grouped = group_into (axis_key q) id pairs;
          seed = (case q_seed q of Some s \<Rightarrow> s | None \<Rightarrow> fallback_seed);
          (selected, excluded, warnings) =
            foldl (quota_step sample rid q seed grouped) ([], 0, []) (sort (dict_keys grouped))
      in (sort_key stable_pair_sort_key selected, excluded, warnings))"

section \<open>Keys of a pair\<close>

definition pair_sort_key :: "candidate \<Rightarrow> string \<times> string" where
  "pair_sort_key p = (normalize_email (Some (rr_email (fst p))), normalize_email (Some (re_identifier (snd p))))"

definition pair_identity_key :: "candidate \<Rightarrow> int \<times> int" where
  "pair_identity_key p = (rr_id (fst p), re_id (snd p))"

definition engine_self_review :: "reviewer \<Rightarrow> reviewee \<Rightarrow> bool" where
  "engine_self_review rv re =
     same_identity (rr_object_id rv) (Some (rr_email rv)) (re_object_id re) (Some (re_identifier re))"

section \<open>Enabled rules\<close>

text \<open>\<open>_enabled_rule\<close>: \<open>None\<close> for a disabled rule, a composite without its disabled children.\<close>

fun enabled_rule :: "rule \<Rightarrow> rule option" where
  "enabled_rule (CompositeRule i e oper rs) =
     (if \<not> e then None
      else (let children = List.map_filter id (map enabled_rule rs) in
        if children = [] then None
        else if children = rs then Some (CompositeRule i e oper rs)
        else Some (CompositeRule i e oper children)))"
| "enabled_rule r = (if \<not> rule_enabled r then None else Some r)"

section \<open>Content rules\<close>

definition is_quota :: "rule \<Rightarrow> bool" where
  "is_quota r = (case r of QuotaRule _ _ _ \<Rightarrow> True | _ \<Rightarrow> False)"

definition is_filter_rule :: "rule \<Rightarrow> bool" where
  "is_filter_rule r = (case r of FilterRule _ _ _ \<Rightarrow> True | _ \<Rightarrow> False)"

definition content_child :: "rule \<Rightarrow> rule result" where
  "content_child r = (if is_quota r then Inl (ValueError (rule_id r)) else Inr r)"

definition combine :: "composite_op \<Rightarrow> bool list \<Rightarrow> bool" where
  "combine oper vs = (case oper of
      AND_OP \<Rightarrow> list_all id vs | OR_OP \<Rightarrow> list_ex id vs | NOT_OP \<Rightarrow> \<not> list_all id vs)"

text \<open>
  \<open>_content_rule_matches\<close>. The children's verdicts are computed one after the other, all of
  them; a quota among them raises. (A quota itself never gets here: \<open>evaluate\<close> sorts them out.)
\<close>

fun content_rule_matches :: "regex_search \<Rightarrow> pair_lookup \<Rightarrow> candidate \<Rightarrow> rule \<Rightarrow> bool result" where
  "content_rule_matches search bound p (FilterRule i e pr) = evaluate_predicate search bound pr p"
| "content_rule_matches search bound p (MatchRule i e pr) = evaluate_predicate search bound pr p"
| "content_rule_matches search bound p (QuotaRule i e q) = Inl (ValueError i)"
| "content_rule_matches search bound p (CompositeRule i e oper rs) =
     bindE (all_results (map (\<lambda>child.
         bindE (content_child child) (\<lambda>_. content_rule_matches search bound p child)) rs))
       (\<lambda>vs. Inr (combine oper vs))"

text \<open>The pairs a rule keeps, and how many it drops.\<close>

definition apply_one_content_rule ::
  "regex_search \<Rightarrow> pair_lookup \<Rightarrow> candidate list \<Rightarrow> rule \<Rightarrow> (candidate list \<times> nat) result" where
  "apply_one_content_rule search bound candidates r =
     bindE (all_results (map (\<lambda>p. content_rule_matches search bound p r) candidates)) (\<lambda>vs.
       let included = map fst (filter (\<lambda>(p, v). v \<noteq> is_filter_rule r) (zip candidates vs))
       in Inr (included, length candidates - length included))"

section \<open>The combinators\<close>

definition predicate_key :: "rule \<Rightarrow> string" where
  "predicate_key r = ''predicate.'' @ rule_id r"

fun all_of_loop ::
  "regex_search \<Rightarrow> pair_lookup \<Rightarrow> rule list \<Rightarrow> candidate list \<Rightarrow> (string \<times> nat) list
     \<Rightarrow> (candidate list \<times> (string \<times> nat) list) result" where
  "all_of_loop search bound [] survivors counts = Inr (survivors, counts)"
| "all_of_loop search bound (r # rs) survivors counts =
     bindE (apply_one_content_rule search bound survivors r) (\<lambda>(survivors', dropped).
       all_of_loop search bound rs survivors'
         (if dropped \<noteq> 0 then dict_put (predicate_key r) dropped counts else counts))"

fun any_of_loop ::
  "regex_search \<Rightarrow> pair_lookup \<Rightarrow> candidate list \<Rightarrow> rule list \<Rightarrow> ((int \<times> int) \<times> candidate) list
     \<Rightarrow> ((int \<times> int) \<times> candidate) list result" where
  "any_of_loop search bound candidates [] kept = Inr kept"
| "any_of_loop search bound candidates (r # rs) kept =
     bindE (apply_one_content_rule search bound candidates r) (\<lambda>(included, _).
       any_of_loop search bound candidates rs
         (foldl (\<lambda>k p. dict_put (pair_identity_key p) p k) kept included))"

text \<open>\<open>d.pop(key, None)\<close>; \<open>counts[key] = counts.get(key, 0) + n\<close>.\<close>

definition dict_pop :: "'k \<Rightarrow> ('k \<times> 'v) list \<Rightarrow> ('k \<times> 'v) list" where
  "dict_pop k d = filter (\<lambda>kv. fst kv \<noteq> k) d"

definition count_add :: "string \<Rightarrow> nat \<Rightarrow> (string \<times> nat) list \<Rightarrow> (string \<times> nat) list" where
  "count_add k n d = dict_put k ((case dict_get d k of None \<Rightarrow> 0 | Some m \<Rightarrow> m) + n) d"

type_synonym working = "((int \<times> int) \<times> candidate) list"

fun pipeline_filter ::
  "regex_search \<Rightarrow> pair_lookup \<Rightarrow> rule \<Rightarrow> candidate list \<Rightarrow> working \<times> (string \<times> nat) list
     \<Rightarrow> (working \<times> (string \<times> nat) list) result" where
  "pipeline_filter search bound r [] acc = Inr acc"
| "pipeline_filter search bound r (p # ps) (working, counts) =
     bindE (content_rule_matches search bound p r) (\<lambda>v.
       pipeline_filter search bound r ps
         (if v \<and> dict_get working (pair_identity_key p) \<noteq> None
          then (dict_pop (pair_identity_key p) working, count_add (predicate_key r) 1 counts)
          else (working, counts)))"

fun pipeline_match ::
  "regex_search \<Rightarrow> pair_lookup \<Rightarrow> rule \<Rightarrow> candidate list \<Rightarrow> working \<Rightarrow> working result" where
  "pipeline_match search bound r [] working = Inr working"
| "pipeline_match search bound r (p # ps) working =
     bindE (content_rule_matches search bound p r) (\<lambda>v.
       pipeline_match search bound r ps (if v then dict_put (pair_identity_key p) p working else working))"

fun pipeline_loop ::
  "regex_search \<Rightarrow> pair_lookup \<Rightarrow> candidate list \<Rightarrow> rule list \<Rightarrow> working \<times> (string \<times> nat) list
     \<Rightarrow> (working \<times> (string \<times> nat) list) result" where
  "pipeline_loop search bound candidates [] acc = Inr acc"
| "pipeline_loop search bound candidates (r # rs) (working, counts) =
     (if is_filter_rule r
      then bindE (pipeline_filter search bound r (map snd working) (working, counts))
             (pipeline_loop search bound candidates rs)
      else bindE (pipeline_match search bound r candidates working)
             (\<lambda>working'. pipeline_loop search bound candidates rs (working', counts)))"

definition apply_content_rules ::
  "regex_search \<Rightarrow> pair_lookup \<Rightarrow> candidate list \<Rightarrow> rule list \<Rightarrow> combinator
     \<Rightarrow> (candidate list \<times> (string \<times> nat) list) result" where
  "apply_content_rules search bound candidates rules comb =
     (if rules = [] then Inr (candidates, [])
      else (case comb of
        ALL_OF \<Rightarrow> all_of_loop search bound rules candidates []
      | ANY_OF \<Rightarrow>
          bindE (any_of_loop search bound candidates rules []) (\<lambda>kept.
            let survivors = sort_key pair_sort_key (map snd kept);
                dropped = length candidates - length survivors
            in Inr (survivors, if dropped = 0 then [] else [(''predicate.any_of'', dropped)]))
      | PIPELINE \<Rightarrow>
          bindE (pipeline_loop search bound candidates rules (dict_of pair_identity_key id candidates, []))
            (\<lambda>(working, counts). Inr (sort_key pair_sort_key (map snd working), counts))))"

section \<open>A run\<close>

record evaluation =
  e_pairs :: "candidate list"
  e_excluded :: "(string \<times> nat) list"
  e_warnings :: "warning list"

definition quota_key :: "quota \<Rightarrow> string" where
  "quota_key q = (if q_scope q = PER_REVIEWER then ''quota.per_reviewer'' else ''quota.per_reviewee'')"

definition quota_round ::
  "sampler \<Rightarrow> int \<Rightarrow> candidate list \<times> (string \<times> nat) list \<times> warning list \<Rightarrow> string \<times> quota
     \<Rightarrow> candidate list \<times> (string \<times> nat) list \<times> warning list" where
  "quota_round sample fallback_seed acc rq =
     (case acc of (survivors, counts, warnings) \<Rightarrow>
      case apply_quota sample survivors (fst rq) (snd rq) fallback_seed of
        (survivors', excluded, warned) \<Rightarrow>
          (survivors', if excluded \<noteq> 0 then count_add (quota_key (snd rq)) excluded counts else counts,
           warnings @ warned))"

definition quotas_of :: "rule list \<Rightarrow> (string \<times> quota) list" where
  "quotas_of rules = map (\<lambda>r. (rule_id r, rule_quota r)) (filter is_quota rules)"

text \<open>
  \<open>_evaluate_inner\<close>: \<open>rvs\<close> and \<open>res\<close> the rosters, \<open>override\<close> the caller's word on self-reviews.
\<close>

definition evaluate ::
  "regex_search \<Rightarrow> sampler \<Rightarrow> rule_set \<Rightarrow> reviewer list \<Rightarrow> reviewee list \<Rightarrow> bool option \<Rightarrow> int \<Rightarrow> pair_lookup
     \<Rightarrow> evaluation result" where
  "evaluate search sample rs rvs res override revision_seed bound =
     (let candidates = sort_key pair_sort_key (List.product rvs res);
          exclude_self = (case override of Some b \<Rightarrow> b | None \<Rightarrow> ru_exclude_self rs);
          own = filter (\<lambda>(rv, re). engine_self_review rv re) candidates;
          survivors = (if exclude_self then filter (\<lambda>(rv, re). \<not> engine_self_review rv re) candidates else candidates);
          counts = (if exclude_self \<and> own \<noteq> [] then [(''self_review'', length own)] else []);
          live = List.map_filter enabled_rule (ru_rules rs);
          quotas = quotas_of live;
          fallback_seed = (case ru_seed rs of Some s \<Rightarrow> s | None \<Rightarrow> revision_seed)
      in bindE (apply_content_rules search bound survivors (filter (\<lambda>r. \<not> is_quota r) live) (ru_combinator rs))
        (\<lambda>(survivors, excluded).
          let counts = foldl (\<lambda>c (k, n). count_add k n c) counts excluded;
              (survivors, counts, warnings) = foldl (quota_round sample fallback_seed) (survivors, counts, []) quotas;
              survivors = (if quotas = [] then sort_key pair_sort_key survivors else survivors)
          in Inr \<lparr>e_pairs = survivors, e_excluded = counts,
                  e_warnings = warnings @ (if survivors = [] then [ZeroAssignments] else [])\<rparr>))"

section \<open>Checks before a run\<close>

datatype rule_issue = NoRules | NoReviewers | NoReviewees | MinimumTooHigh string int quota_scope nat

definition quota_issues :: "nat \<Rightarrow> nat \<Rightarrow> rule \<Rightarrow> rule_issue list" where
  "quota_issues n_reviewers n_reviewees r = (case r of
      QuotaRule i _ q \<Rightarrow>
        (let axis_size = (if q_scope q = PER_REVIEWEE then n_reviewees else n_reviewers) in
         case q_min q of
           Some lo \<Rightarrow> if int axis_size < lo then [MinimumTooHigh i lo (q_scope q) axis_size] else []
         | None \<Rightarrow> [])
    | _ \<Rightarrow> [])"

definition validate_rule_set :: "rule_set \<Rightarrow> reviewer list option \<Rightarrow> reviewee list option \<Rightarrow> rule_issue list" where
  "validate_rule_set rs rvs res =
     (if ru_rules rs = [] \<and> \<not> ru_exclude_self rs then [NoRules] else [])
     @ (case (rvs, res) of
          (Some rvs, Some res) \<Rightarrow>
            (if rvs = [] then [NoReviewers] else []) @ (if res = [] then [NoReviewees] else [])
            @ concat (map (quota_issues (length rvs) (length res)) (ru_rules rs))
        | _ \<Rightarrow> [])"

end
