(* ===== verification/Rule_Quota.thy ===== *)
theory Rule_Quota
  imports Rule_Engine
begin

text \<open>
  Quotas: the loop of \<open>apply_quota\<close> as a map over the sorted axis keys, and the bounds it keeps.
\<close>

section \<open>Lists cut by a key\<close>

lemma sum_one_key: "distinct ks \<Longrightarrow> sum_list (map (\<lambda>k. if a = k then 1 else 0) ks) = (if a \<in> set ks then 1 else (0::nat))"
  by (induction ks) auto

lemma length_by_keys:
  assumes "distinct ks" "f ` set xs \<subseteq> set ks"
  shows "sum_list (map (\<lambda>k. length (filter (\<lambda>x. f x = k) xs)) ks) = length xs"
  using assms(2)
proof (induction xs)
  case (Cons x xs)
  have "sum_list (map (\<lambda>k. length (filter (\<lambda>y. f y = k) (x # xs))) ks)
      = sum_list (map (\<lambda>k. (if f x = k then 1 else 0) + length (filter (\<lambda>y. f y = k) xs)) ks)"
    by (intro arg_cong [where f = sum_list] map_cong) auto
  also have "\<dots> = sum_list (map (\<lambda>k. if f x = k then 1 else 0) ks) + length xs"
    using Cons by (simp add: sum_list_addf)
  also have "sum_list (map (\<lambda>k. if f x = k then 1 else (0::nat)) ks) = 1"
    using sum_one_key [OF assms(1), of "f x"] Cons.prems by auto
  finally show ?case by simp
qed (simp add: sum_list_0)

lemma filter_concat_keys:
  assumes "distinct ks" "\<And>k x. k \<in> set ks \<Longrightarrow> x \<in> set (g k) \<Longrightarrow> f x = k"
  shows "filter (\<lambda>x. f x = k) (concat (map g ks)) = (if k \<in> set ks then g k else [])"
  using assms
proof (induction ks)
  case (Cons j ks)
  have here: "filter (\<lambda>x. f x = k) (g j) = (if j = k then g j else [])"
    using Cons.prems(2) [of j] by (auto simp: filter_id_conv filter_empty_conv)
  then show ?case using Cons by auto
qed simp

lemma concat_keys_subseteq:
  assumes "distinct ks" "\<And>k. k \<in> set ks \<Longrightarrow> mset (g k) \<subseteq># mset (filter (\<lambda>x. f x = k) xs)"
  shows "mset (concat (map g ks)) \<subseteq># mset xs"
proof (rule mset_subset_eqI)
  fix x
  have key: "f y = k" if "k \<in> set ks" "y \<in> set (g k)" for k y
    using mset_subset_eqD [OF assms(2) [OF that(1)]] that(2) by fastforce
  have "count (mset (concat (map g ks))) x = count (mset (filter (\<lambda>y. f y = f x) (concat (map g ks)))) x"
    by simp
  also have "\<dots> = (if f x \<in> set ks then count (mset (g (f x))) x else 0)"
    by (simp only: filter_concat_keys [where f = f, OF assms(1) key]) simp
  also have "\<dots> \<le> count (mset xs) x"
    using mset_subset_eq_count [OF assms(2), of "f x" x] by (auto simp: mset_filter)
  finally show "count (mset (concat (map g ks))) x \<le> count (mset xs) x" .
qed

lemma mset_nths_subseteq:
  assumes "distinct idx" "set idx \<subseteq> {..<length xs}"
  shows "mset (map ((!) xs) idx) \<subseteq># mset xs"
proof -
  have "mset_set (set idx) \<subseteq># mset_set (set [0..<length xs])"
    using assms(2) by (intro subset_imp_msubset_mset_set) (auto simp: atLeast0LessThan)
  then have "mset idx \<subseteq># mset [0..<length xs]"
    using assms(1) mset_set_set [of idx] mset_set_set [of "[0..<length xs]"] by simp
  then have "image_mset ((!) xs) (mset idx) \<subseteq># image_mset ((!) xs) (mset [0..<length xs])"
    by (rule image_mset_subseteq_mono)
  moreover have "image_mset ((!) xs) (mset [0..<length xs]) = mset xs"
    by (metis map_nth mset_map)
  ultimately show ?thesis by simp
qed

section \<open>One axis key\<close>

text \<open>What Python documents of \<open>random.sample(range(n), k)\<close>: \<open>k\<close> different elements of the range.\<close>

definition samples :: "sampler \<Rightarrow> bool" where
  "samples sample \<longleftrightarrow> (\<forall>s n k. k \<le> n \<longrightarrow>
     distinct (sample s n k) \<and> set (sample s n k) \<subseteq> {..<n} \<and> length (sample s n k) = k)"

text \<open>How many of \<open>n\<close> pairs a quota leaves on one axis key.\<close>

definition allowed_by :: "quota \<Rightarrow> nat \<Rightarrow> nat" where
  "allowed_by q n = (case q_max q of None \<Rightarrow> n | Some m \<Rightarrow> min (nat m) n)"

lemma keep_of_axis_bounds:
  assumes "samples sample" "validate_quota q = Inr ()"
  shows "mset (keep_of_axis sample q seed k ps) \<subseteq># mset ps"
    and "length (keep_of_axis sample q seed k ps) = allowed_by q (length ps)"
proof -
  have cap: "0 \<le> quota_cap q ps"
    using assms(2) by (auto simp: validate_quota_def quota_cap_def split: option.splits if_splits)
  let ?n = "length ps" and ?k = "nat (min (quota_cap q ps) (int (length ps)))"
  have k: "?k \<le> ?n" by simp
  then have drawn: "distinct (sample s ?n ?k)" "set (sample s ?n ?k) \<subseteq> {..<?n}" "length (sample s ?n ?k) = ?k" for s
    using assms(1) by (auto simp only: samples_def)
  have allowed: "?k = allowed_by q ?n"
    by (auto simp: quota_cap_def allowed_by_def min_def split: option.splits)
  have round: "slice_to (quota_cap q ps) ps = take (nat (quota_cap q ps)) ps" using cap by (simp add: slice_to_def)
  show "mset (keep_of_axis sample q seed k ps) \<subseteq># mset ps"
  proof (cases "q_strategy q")
    case RANDOM
    then show ?thesis
      using mset_nths_subseteq [of "sort (sample (seed_text seed k) ?n ?k)" ps] drawn
      by (simp add: keep_of_axis_def Let_def)
  next
    case ROUND_ROBIN
    have "mset (take m ps) \<subseteq># mset ps" for m
      by (metis append_take_drop_id mset_append mset_subset_eq_add_left)
    then show ?thesis using ROUND_ROBIN by (simp add: keep_of_axis_def Let_def round)
  qed
  show "length (keep_of_axis sample q seed k ps) = allowed_by q (length ps)"
  proof (cases "q_strategy q")
    case RANDOM
    then show ?thesis using drawn(3) allowed by (simp add: keep_of_axis_def Let_def)
  next
    case ROUND_ROBIN
    have "nat (quota_cap q ps) = (case q_max q of None \<Rightarrow> ?n | Some m \<Rightarrow> nat m)"
      by (simp add: quota_cap_def split: option.split)
    then show ?thesis using ROUND_ROBIN
      by (simp add: keep_of_axis_def Let_def round allowed_by_def min.commute split: option.split)
  qed
qed

section \<open>The loop\<close>

definition axis_pairs :: "quota \<Rightarrow> candidate list \<Rightarrow> string \<Rightarrow> candidate list" where
  "axis_pairs q ps k = sort_key stable_pair_sort_key (filter (\<lambda>p. axis_key q p = k) ps)"

definition axis_warning :: "string \<Rightarrow> quota \<Rightarrow> candidate list \<Rightarrow> string \<Rightarrow> warning list" where
  "axis_warning rid q ps k = (case q_min q of
      Some lo \<Rightarrow> if int (length (axis_pairs q ps k)) < lo
        then [QuotaMinimum rid (length (axis_pairs q ps k)) (q_scope q) k lo] else []
    | None \<Rightarrow> [])"

lemma grouped_axis:
  "(case dict_get (group_into (axis_key q) id ps) k of None \<Rightarrow> [] | Some l \<Rightarrow> l) = filter (\<lambda>p. axis_key q p = k) ps"
  by (simp add: group_into_get Let_def)

lemma quota_loop:
  "foldl (quota_step sample rid q seed (group_into (axis_key q) id ps)) (sel, n, ws) ks =
     (sel @ concat (map (\<lambda>k. keep_of_axis sample q seed k (axis_pairs q ps k)) ks),
      n + sum_list (map (\<lambda>k. length (axis_pairs q ps k) - length (keep_of_axis sample q seed k (axis_pairs q ps k))) ks),
      ws @ concat (map (axis_warning rid q ps) ks))"
proof (induction ks arbitrary: sel n ws)
  case (Cons k ks)
  have "quota_step sample rid q seed (group_into (axis_key q) id ps) (sel, n, ws) k =
     (sel @ keep_of_axis sample q seed k (axis_pairs q ps k),
      n + (length (axis_pairs q ps k) - length (keep_of_axis sample q seed k (axis_pairs q ps k))),
      ws @ axis_warning rid q ps k)"
    by (simp only: quota_step_def prod.case grouped_axis Let_def axis_pairs_def axis_warning_def)
  then show ?case
    by (simp only: foldl_Cons Cons.IH list.map concat.simps sum_list.Cons append_assoc add.assoc)
qed simp

lemma axis_pairs_facts:
  "mset (axis_pairs q ps k) = mset (filter (\<lambda>p. axis_key q p = k) ps)"
  "length (axis_pairs q ps k) = length (filter (\<lambda>p. axis_key q p = k) ps)"
  by (simp_all add: axis_pairs_def)

text \<open>The keys the loop runs over.\<close>

abbreviation axis_keys :: "quota \<Rightarrow> candidate list \<Rightarrow> string list" where
  "axis_keys q ps \<equiv> sort (dict_keys (group_into (axis_key q) id ps))"

lemma axis_keys_facts: "distinct (axis_keys q ps)" "set (axis_keys q ps) = axis_key q ` set ps"
  by (simp_all add: group_into_keys)

lemma quota_keeps_bounds:
  assumes "samples sample" "validate_quota q = Inr ()"
    and "apply_quota sample pairs rid q seed = (kept, excluded, warnings)"
  shows "mset kept \<subseteq># mset pairs
    \<and> length kept + excluded = length pairs
    \<and> (\<forall>k. length (filter (\<lambda>p. axis_key q p = k) kept) = allowed_by q (length (filter (\<lambda>p. axis_key q p = k) pairs)))
    \<and> at_key ` set warnings = {k \<in> axis_key q ` set pairs.
        \<exists>lo. q_min q = Some lo \<and> int (length (filter (\<lambda>p. axis_key q p = k) pairs)) < lo}
    \<and> sorted (map stable_pair_sort_key kept)"
proof -
  define s where "s = (case q_seed q of Some s \<Rightarrow> s | None \<Rightarrow> seed)"
  define keep where "keep k = keep_of_axis sample q s k (axis_pairs q pairs k)" for k
  note run = assms(3) [unfolded apply_quota_def Let_def quota_loop prod.case s_def [symmetric] keep_def [symmetric]]
  have kept: "kept = sort_key stable_pair_sort_key (concat (map keep (axis_keys q pairs)))"
    and warnings: "warnings = concat (map (axis_warning rid q pairs) (axis_keys q pairs))"
    and excluded: "excluded = sum_list (map (\<lambda>k. length (axis_pairs q pairs k) - length (keep k)) (axis_keys q pairs))"
    using run by simp_all
  have sub: "mset (keep k) \<subseteq># mset (filter (\<lambda>p. axis_key q p = k) pairs)" for k
    using keep_of_axis_bounds(1) [OF assms(1,2), of s k "axis_pairs q pairs k"]
    by (simp only: keep_def axis_pairs_facts(1))
  have len: "length (keep k) = allowed_by q (length (filter (\<lambda>p. axis_key q p = k) pairs))" for k
    using keep_of_axis_bounds(2) [OF assms(1,2)] by (simp add: keep_def axis_pairs_facts(2))
  have key: "axis_key q p = k" if "p \<in> set (keep k)" for p k
    using mset_subset_eqD [OF sub] that by fastforce
  have "mset kept \<subseteq># mset pairs"
    using concat_keys_subseteq [OF axis_keys_facts(1), of q pairs keep "axis_key q" pairs] sub by (simp add: kept)
  moreover have "length kept + excluded = length pairs"
  proof -
    have "length kept + excluded = sum_list (map (\<lambda>k. length (keep k)
        + (length (axis_pairs q pairs k) - length (keep k))) (axis_keys q pairs))"
      by (simp add: kept excluded length_concat comp_def sum_list_addf)
    also have "\<dots> = sum_list (map (\<lambda>k. length (filter (\<lambda>p. axis_key q p = k) pairs)) (axis_keys q pairs))"
      by (intro arg_cong [where f = sum_list] map_cong)
        (auto simp: axis_pairs_facts len allowed_by_def split: option.split)
    also have "\<dots> = length pairs" by (rule length_by_keys) (simp_all only: axis_keys_facts order_refl)
    finally show ?thesis .
  qed
  moreover have "length (filter (\<lambda>p. axis_key q p = k) kept) = allowed_by q (length (filter (\<lambda>p. axis_key q p = k) pairs))" for k
  proof -
    have "mset (filter (\<lambda>p. axis_key q p = k) kept)
        = mset (filter (\<lambda>p. axis_key q p = k) (concat (map keep (axis_keys q pairs))))"
      unfolding kept mset_filter mset_sort ..
    also have "\<dots> = mset (if k \<in> axis_key q ` set pairs then keep k else [])"
      by (simp only: filter_concat_keys [OF axis_keys_facts(1) key] axis_keys_facts(2))
    finally have same: "length (filter (\<lambda>p. axis_key q p = k) kept) = length (if k \<in> axis_key q ` set pairs then keep k else [])"
      by (rule mset_eq_length)
    show ?thesis
    proof (cases "k \<in> axis_key q ` set pairs")
      case True
      then show ?thesis using same len [of k] by simp
    next
      case False
      then have "filter (\<lambda>p. axis_key q p = k) pairs = []" by (auto simp: filter_empty_conv)
      then show ?thesis using same False by (simp add: allowed_by_def split: option.split)
    qed
  qed
  moreover have "at_key ` set warnings = {k \<in> axis_key q ` set pairs.
        \<exists>lo. q_min q = Some lo \<and> int (length (filter (\<lambda>p. axis_key q p = k) pairs)) < lo}"
    using axis_keys_facts(2) [of q pairs]
    by (cases "q_min q") (auto simp: warnings axis_warning_def axis_pairs_facts(2) image_iff split: if_splits)
  moreover have "sorted (map stable_pair_sort_key kept)" by (simp add: kept)
  ultimately show ?thesis by blast
qed

text \<open>
  C35. A quota keeps its bounds. On every axis key (an address) it leaves as many pairs as the
  maximum allows and no fewer, all of them without a maximum; it invents no pair and doubles
  none; what it reports as excluded and what it keeps are together what it was given; it warns
  of exactly the keys that had fewer candidates than the minimum; its result is in the order of
  the addresses. This holds for any sampler that draws what it is asked to.
\<close>

theorem apply_quota_bounds:
  assumes "samples sample" "validate_quota q = Inr ()"
    and "apply_quota sample pairs rid q seed = (kept, excluded, warnings)"
  shows "mset kept \<subseteq># mset pairs
    \<and> length kept + excluded = length pairs
    \<and> (\<forall>k. length (filter (\<lambda>p. axis_key q p = k) kept) = allowed_by q (length (filter (\<lambda>p. axis_key q p = k) pairs)))
    \<and> at_key ` set warnings = {k \<in> axis_key q ` set pairs.
        \<exists>lo. q_min q = Some lo \<and> int (length (filter (\<lambda>p. axis_key q p = k) pairs)) < lo}
    \<and> sorted (map stable_pair_sort_key kept)"
  using quota_keeps_bounds [OF assms] .

text \<open>Two reviewers, three subjects; at most two a reviewer, three wanted.\<close>

definition demo_reviewer :: "int \<Rightarrow> string \<Rightarrow> reviewer" where
  "demo_reviewer k address = \<lparr>rr_id = k, rr_session = 1, rr_name = ''R'', rr_email = address, rr_status = ''active'',
     rr_tag1 = None, rr_tag2 = None, rr_tag3 = None, rr_object_id = None, rr_directory_mail = None\<rparr>"

definition demo_reviewee :: "int \<Rightarrow> string \<Rightarrow> reviewee" where
  "demo_reviewee k address = \<lparr>re_id = k, re_session = 1, re_name = ''E'', re_identifier = address, re_status = ''active'',
     re_tag1 = Some address, re_tag2 = None, re_tag3 = None, re_object_id = None\<rparr>"

definition demo_quota :: quota where
  "demo_quota = \<lparr>q_scope = PER_REVIEWER, q_min = Some 2, q_max = Some 2, q_strategy = ROUND_ROBIN, q_seed = None\<rparr>"

definition demo_pairs :: "candidate list" where
  "demo_pairs = [(demo_reviewer 1 ''a'', demo_reviewee 7 ''z''), (demo_reviewer 1 ''a'', demo_reviewee 5 ''x''),
     (demo_reviewer 2 ''b'', demo_reviewee 6 ''y''), (demo_reviewer 1 ''a'', demo_reviewee 6 ''y'')]"

definition first_k :: sampler where
  "first_k s n k = [0..<k]"

lemma apply_quota_bounds_witness:
  "(\<exists>kept excluded warnings. apply_quota first_k demo_pairs ''q'' demo_quota 0 = (kept, excluded, warnings)
      \<and> map pair_identity_key kept = [(1, 5), (1, 6), (2, 6)] \<and> length kept + excluded = 4
      \<and> length (filter (\<lambda>p. axis_key demo_quota p = ''a'') kept) = 2
      \<and> at_key ` set warnings = {''b''})"
proof -
  have s: "samples first_k" by (auto simp: samples_def first_k_def)
  have v: "validate_quota demo_quota = Inr ()"
    by (simp add: validate_quota_def validate_min_max_def demo_quota_def)
  obtain kept excluded warnings where run: "apply_quota first_k demo_pairs ''q'' demo_quota 0 = (kept, excluded, warnings)"
    by (metis prod_cases3)
  have kept: "map pair_identity_key (fst (apply_quota first_k demo_pairs ''q'' demo_quota 0)) = [(1, 5), (1, 6), (2, 6)]"
    by code_simp
  have few: "length (filter (\<lambda>p. axis_key demo_quota p = ''a'') demo_pairs) = 3"
    "length (filter (\<lambda>p. axis_key demo_quota p = ''b'') demo_pairs) = 1"
    "length demo_pairs = 4" "q_min demo_quota = Some 2" "q_max demo_quota = Some 2"
    by code_simp+
  have keys: "axis_key demo_quota ` set demo_pairs = {''a'', ''b''}"
    by (simp add: axis_key_def demo_quota_def demo_pairs_def demo_reviewer_def insert_commute)
  note b = apply_quota_bounds [OF s v run, unfolded few keys]
  have "length (filter (\<lambda>p. axis_key demo_quota p = ''a'') kept) = 2"
    using b few(1) by (simp add: allowed_by_def few)
  moreover have "at_key ` set warnings = {''b''}"
  proof -
    have "at_key ` set warnings = {k \<in> {''a'', ''b''}. \<exists>lo. Some 2 = Some lo
        \<and> int (length (filter (\<lambda>p. axis_key demo_quota p = k) demo_pairs)) < lo}"
      by (rule b [THEN conjunct2, THEN conjunct2, THEN conjunct2, THEN conjunct1])
    also have "\<dots> = {''b''}" by (auto simp: few)
    finally show ?thesis .
  qed
  moreover have "length kept + excluded = 4" using b few(3) by simp
  ultimately show ?thesis using run kept by simp
qed

end
