(* ===== verification/Rule_Verdicts.thy ===== *)
theory Rule_Verdicts
  imports Rule_Quota
begin

text \<open>
  What one stored rule says of a pair: a compositional reading that skips disabled rules, and
  its equality with what the engine does (prune the tree, then evaluate it).
\<close>

section \<open>The reading\<close>

text \<open>A rule says nothing of a pair when it is disabled or when nothing inside it speaks.\<close>

fun says :: "regex_search \<Rightarrow> pair_lookup \<Rightarrow> candidate \<Rightarrow> rule \<Rightarrow> bool option" where
  "says search bound p (FilterRule i e pr) = (if e then Some (pred_holds search bound pr p) else None)"
| "says search bound p (MatchRule i e pr) = (if e then Some (pred_holds search bound pr p) else None)"
| "says search bound p (QuotaRule i e q) = None"
| "says search bound p (CompositeRule i e oper rs) =
     (if \<not> e then None
      else (let vs = List.map_filter id (map (says search bound p) rs) in
        if vs = [] then None else Some (combine oper vs)))"

text \<open>An enabled quota below an enabled composite.\<close>

fun nested_quota :: "rule \<Rightarrow> bool" where
  "nested_quota (CompositeRule i e oper rs) = (e \<and> list_ex (\<lambda>r. (is_quota r \<and> rule_enabled r) \<or> nested_quota r) rs)"
| "nested_quota r = False"

section \<open>Pruning\<close>

lemma map_filter_id: "List.map_filter id (map f xs) = List.map_filter f xs"
  by (induction xs) (auto simp: List.map_filter_def)

lemma enabled_composite:
  "enabled_rule (CompositeRule i e oper rs) =
     (if \<not> e \<or> List.map_filter enabled_rule rs = [] then None
      else Some (CompositeRule i e oper (List.map_filter enabled_rule rs)))"
  by (simp add: Let_def map_filter_id)

declare enabled_rule.simps(1) [simp del]

lemma says_composite:
  "says search bound p (CompositeRule i e oper rs) =
     (let vs = List.map_filter (says search bound p) rs in
      if \<not> e \<or> vs = [] then None else Some (combine oper vs))"
  by (simp add: Let_def map_filter_id)

declare says.simps(4) [simp del]

lemma enabled_same: "enabled_rule r = Some r' \<Longrightarrow> rule_id r' = rule_id r \<and> is_quota r' = is_quota r
    \<and> is_filter_rule r' = is_filter_rule r \<and> rule_enabled r' \<and> rule_enabled r"
  by (cases r) (auto simp: enabled_composite is_quota_def is_filter_rule_def split: if_splits)

lemma enabled_quota: "is_quota r \<Longrightarrow> enabled_rule r = (if rule_enabled r then Some r else None)"
  by (cases r) (auto simp: is_quota_def)

text \<open>Nothing disabled is left, and pruning again changes nothing.\<close>

lemma map_filter_fixed: "(\<And>x. x \<in> set xs \<Longrightarrow> f x = Some x) \<Longrightarrow> List.map_filter f xs = xs"
  by (induction xs) (auto simp: map_filter_simps')

lemma enabled_idem: "enabled_rule r = Some r' \<Longrightarrow> enabled_rule r' = Some r'"
proof (induction r arbitrary: r' rule: enabled_rule.induct)
  case (1 i e oper rs)
  have "List.map_filter enabled_rule (List.map_filter enabled_rule rs) = List.map_filter enabled_rule rs"
    by (rule map_filter_fixed) (use 1(1) "1.prems" in \<open>auto simp: set_map_filter enabled_composite split: if_splits\<close>)
  then show ?case using "1.prems" by (auto simp: enabled_composite split: if_splits)
qed (auto split: if_splits)

lemma all_results_length: "all_results rs = Inr ys \<Longrightarrow> length ys = length rs"
  by (induction rs arbitrary: ys) auto

section \<open>Evaluation of a pruned rule\<close>

text \<open>A child of a composite, as the evaluation meets it.\<close>

abbreviation child_matches :: "regex_search \<Rightarrow> pair_lookup \<Rightarrow> candidate \<Rightarrow> rule \<Rightarrow> bool result" where
  "child_matches search bound p c \<equiv> bindE (content_child c) (\<lambda>_. content_rule_matches search bound p c)"

definition agrees :: "regex_search \<Rightarrow> pair_lookup \<Rightarrow> candidate \<Rightarrow> rule \<Rightarrow> bool" where
  "agrees search bound p r \<longleftrightarrow>
     (case enabled_rule r of
        None \<Rightarrow> says search bound p r = None \<and> \<not> nested_quota r
      | Some r' \<Rightarrow>
          if nested_quota r then \<exists>i. content_rule_matches search bound p r' = Inl (ValueError i)
          else \<exists>b. content_rule_matches search bound p r' = Inr b \<and> says search bound p r = Some b)"

lemma children_agree:
  assumes "\<And>c. c \<in> set rs \<Longrightarrow> is_quota c \<or> agrees search bound p c"
    and "\<not> list_ex (\<lambda>r. (is_quota r \<and> rule_enabled r) \<or> nested_quota r) rs"
  shows "all_results (map (child_matches search bound p) (List.map_filter enabled_rule rs))
      = Inr (List.map_filter (says search bound p) rs)"
  using assms
proof (induction rs)
  case (Cons c rs)
  have rest: "all_results (map (child_matches search bound p) (List.map_filter enabled_rule rs))
      = Inr (List.map_filter (says search bound p) rs)" using Cons by simp
  show ?case
  proof (cases "is_quota c")
    case True
    then show ?thesis using Cons.prems(2) rest
      by (cases c) (auto simp: is_quota_def map_filter_simps')
  next
    case False
    then have "agrees search bound p c" using Cons.prems(1) by auto
    then show ?thesis using Cons.prems(2) rest False enabled_same [of c]
      by (auto simp: agrees_def map_filter_simps' content_child_def split: option.splits)
  qed
qed (simp add: map_filter_simps')

lemma all_results_error:
  assumes "\<And>r. r \<in> set rs \<Longrightarrow> (\<exists>i. r = Inl (ValueError i)) \<or> (\<exists>b. r = Inr b)" "\<exists>r \<in> set rs. \<exists>i. r = Inl (ValueError i)"
  shows "\<exists>i. all_results rs = Inl (ValueError i)"
  using assms
proof (induction rs)
  case (Cons r rs)
  show ?case
  proof (cases r)
    case (Inl e)
    then show ?thesis using Cons.prems(1) [of r] by auto
  next
    case (Inr b)
    then have "\<exists>i. all_results rs = Inl (ValueError i)" using Cons by auto
    then show ?thesis using Inr by auto
  qed
qed simp

lemma children_raise:
  assumes "\<And>c. c \<in> set rs \<Longrightarrow> is_quota c \<or> agrees search bound p c"
    and "list_ex (\<lambda>r. (is_quota r \<and> rule_enabled r) \<or> nested_quota r) rs"
  shows "\<exists>i. all_results (map (child_matches search bound p) (List.map_filter enabled_rule rs)) = Inl (ValueError i)"
proof (rule all_results_error)
  have one: "if (is_quota c \<and> rule_enabled c) \<or> nested_quota c then \<exists>i. child_matches search bound p c' = Inl (ValueError i)
      else \<exists>b. child_matches search bound p c' = Inr b" if "c \<in> set rs" "enabled_rule c = Some c'" for c c'
  proof (cases "is_quota c")
    case True
    then show ?thesis using that(2) by (cases c) (auto simp: content_child_def is_quota_def split: if_splits)
  next
    case False
    then show ?thesis using assms(1) [OF that(1)] that(2) enabled_same [OF that(2)]
      by (auto simp: agrees_def content_child_def split: if_splits)
  qed
  fix r
  assume "r \<in> set (map (child_matches search bound p) (List.map_filter enabled_rule rs))"
  then obtain c c' where "c \<in> set rs" "enabled_rule c = Some c'" "r = child_matches search bound p c'"
    by (auto simp: set_map_filter)
  then show "(\<exists>i. r = Inl (ValueError i)) \<or> (\<exists>b. r = Inr b)" using one [of c c'] by (auto split: if_splits)
next
  obtain c where c: "c \<in> set rs" "(is_quota c \<and> rule_enabled c) \<or> nested_quota c" using assms(2) by (auto simp: list_ex_iff)
  have "\<exists>c'. enabled_rule c = Some c'"
    using c assms(1) [OF c(1)] enabled_quota [of c] by (cases "is_quota c") (auto simp: agrees_def split: option.splits, cases c, auto)
  then obtain c' where c': "enabled_rule c = Some c'" ..
  have "\<exists>i. child_matches search bound p c' = Inl (ValueError i)"
  proof (cases "is_quota c")
    case True
    then show ?thesis using enabled_same [OF c'] by (auto simp: content_child_def)
  next
    case False
    then show ?thesis using assms(1) [OF c(1)] c c' enabled_same [OF c'] by (auto simp: agrees_def content_child_def)
  qed
  moreover have "c' \<in> set (List.map_filter enabled_rule rs)" using c(1) c' by (auto simp: set_map_filter)
  ultimately show "\<exists>r \<in> set (map (child_matches search bound p) (List.map_filter enabled_rule rs)). \<exists>i. r = Inl (ValueError i)"
    by fastforce
qed

lemma valid_children:
  assumes "validate_rule compiles (CompositeRule i e oper rs) = Inr ()" "c \<in> set rs"
  shows "validate_rule compiles c = Inr ()"
  using assms all_results_unit [of "validate_rule compiles" rs] by (auto split: if_splits)

lemma valid_rule_agrees:
  assumes "validate_rule compiles r = Inr ()" "\<not> is_quota r"
  shows "agrees search bound p r"
  using assms
proof (induction r rule: nested_quota.induct)
  case (1 i e oper rs)
  have kids: "is_quota c \<or> agrees search bound p c" if "c \<in> set rs" for c
    using 1(1) [OF that] valid_children [OF "1.prems"(1) that] that by auto
  show ?case
  proof (cases "e \<and> nested_quota (CompositeRule i e oper rs)")
    case True
    then show ?thesis
      using children_raise [OF kids] by (fastforce simp: agrees_def enabled_composite)
  next
    case False
    show ?thesis
    proof (cases e)
      case True
      then have all: "all_results (map (child_matches search bound p) (List.map_filter enabled_rule rs))
          = Inr (List.map_filter (says search bound p) rs)"
        using False children_agree [OF kids] by auto
      then have "List.map_filter enabled_rule rs = [] \<longleftrightarrow> List.map_filter (says search bound p) rs = []"
        using all_results_length by fastforce
      then show ?thesis using all False True by (auto simp: agrees_def enabled_composite says_composite)
    qed (simp add: agrees_def enabled_composite says_composite)
  qed
qed (auto simp: agrees_def evaluate_valid is_quota_def split: if_splits)

text \<open>
  C34. The engine reads a stored rule as written, disabled parts apart: pruning the tree and
  evaluating what is left gives the rule's compositional reading, in which a disabled rule, and
  a composite with nothing enabled in it, says nothing. It raises exactly when an enabled quota
  sits below an enabled composite, which the schema's checks let through. The pruned rule keeps
  its id and kind, holds nothing disabled, and is pruned.
\<close>

theorem pruned_rule_reads_as_written:
  assumes "validate_rule compiles r = Inr ()" "\<not> is_quota r"
  shows "(case enabled_rule r of
        None \<Rightarrow> says search bound p r = None \<and> \<not> nested_quota r
      | Some r' \<Rightarrow>
          rule_id r' = rule_id r \<and> is_filter_rule r' = is_filter_rule r \<and> enabled_rule r' = Some r'
          \<and> (if nested_quota r then \<exists>i. content_rule_matches search bound p r' = Inl (ValueError i)
             else \<exists>b. content_rule_matches search bound p r' = Inr b \<and> says search bound p r = Some b))"
  using valid_rule_agrees [OF assms, of search bound p] enabled_same [of r] enabled_idem [of r]
  by (auto simp: agrees_def split: option.splits if_splits)

definition demo_match :: "string \<Rightarrow> bool \<Rightarrow> string \<Rightarrow> rule" where
  "demo_match i e t = MatchRule i e \<lparr>pr_field = ''reviewee.tag1'', pr_operator = ''equals'',
     pr_operand = StrOperand t, pr_case_sensitive = False\<rparr>"

definition no_regex :: regex_search where
  "no_regex pattern subject ignore = False"

lemma pruned_rule_reads_as_written_witness:
  "(\<exists>r'. enabled_rule (CompositeRule ''c'' True OR_OP [demo_match ''m'' False ''x'', demo_match ''n'' True ''y'']) = Some r'
      \<and> content_rule_matches no_regex None (demo_reviewer 1 ''a'', demo_reviewee 5 ''x'') r' = Inr False)
    \<and> (\<exists>i. content_rule_matches no_regex None (demo_reviewer 1 ''a'', demo_reviewee 5 ''x'')
        (CompositeRule ''c'' True AND_OP [QuotaRule ''q'' True demo_quota]) = Inl (ValueError i))"
proof -
  let ?r = "CompositeRule ''c'' True OR_OP [demo_match ''m'' False ''x'', demo_match ''n'' True ''y'']"
  let ?q = "CompositeRule ''c'' True AND_OP [QuotaRule ''q'' True demo_quota]"
  have valid: "validate_rule (\<lambda>_. True) ?r = Inr ()" "\<not> is_quota ?r" "validate_rule (\<lambda>_. True) ?q = Inr ()" "\<not> is_quota ?q"
    by code_simp+
  have pruned: "enabled_rule ?r = Some (CompositeRule ''c'' True OR_OP [demo_match ''n'' True ''y''])"
    "enabled_rule ?q = Some ?q" "\<not> nested_quota ?r" "nested_quota ?q"
    by code_simp+
  have "says no_regex None (demo_reviewer 1 ''a'', demo_reviewee 5 ''x'') ?r = Some False" by code_simp
  then show ?thesis
    using pruned_rule_reads_as_written [OF valid(1,2), of no_regex None "(demo_reviewer 1 ''a'', demo_reviewee 5 ''x'')"]
      pruned_rule_reads_as_written [OF valid(3,4), of no_regex None "(demo_reviewer 1 ''a'', demo_reviewee 5 ''x'')"] pruned
    by auto
qed

end
