(* ===== verification/Rule_Outcome.thy ===== *)
theory Rule_Outcome
  imports Rule_Verdicts
begin

text \<open>
  What a run of the engine gives: the pairs each combinator keeps, stated over what the stored
  rules say, the bounds of every quota, and where every candidate went.
\<close>

section \<open>The reading of a rule list\<close>

text \<open>What the rules say of a pair, in order: whether a rule is a filter, and its verdict.\<close>

definition verdicts :: "regex_search \<Rightarrow> pair_lookup \<Rightarrow> rule list \<Rightarrow> candidate \<Rightarrow> (bool \<times> bool) list" where
  "verdicts search bound rules p =
     List.map_filter (\<lambda>r. map_option (\<lambda>b. (is_filter_rule r, b)) (says search bound p r)) rules"

text \<open>
  A filter that holds is against a pair, any other rule that holds is for it. In a pipeline the
  last rule with something to say of the pair has the word: a filter that holds drops it,
  another rule that holds brings it back.
\<close>

fun kept_by :: "combinator \<Rightarrow> (bool \<times> bool) list \<Rightarrow> bool" where
  "kept_by ALL_OF vs = list_all (\<lambda>(f, b). b \<noteq> f) vs"
| "kept_by ANY_OF vs = (vs = [] \<or> list_ex (\<lambda>(f, b). b \<noteq> f) vs)"
| "kept_by PIPELINE vs = foldl (\<lambda>k (f, b). if f then k \<and> \<not> b else k \<or> b) True vs"

section \<open>Rules that do not raise\<close>

definition verdict :: "regex_search \<Rightarrow> pair_lookup \<Rightarrow> candidate \<Rightarrow> rule \<Rightarrow> bool" where
  "verdict search bound p r = (case content_rule_matches search bound p r of Inr b \<Rightarrow> b | Inl _ \<Rightarrow> False)"

abbreviation rule_keeps :: "regex_search \<Rightarrow> pair_lookup \<Rightarrow> rule \<Rightarrow> candidate \<Rightarrow> bool" where
  "rule_keeps search bound r p \<equiv> verdict search bound p r \<noteq> is_filter_rule r"

definition total_rules :: "regex_search \<Rightarrow> pair_lookup \<Rightarrow> rule list \<Rightarrow> bool" where
  "total_rules search bound rs \<longleftrightarrow>
     (\<forall>r \<in> set rs. \<forall>p. content_rule_matches search bound p r = Inr (verdict search bound p r))"

abbreviation content_of :: "rule list \<Rightarrow> rule list" where
  "content_of rules \<equiv> filter (\<lambda>r. \<not> is_quota r) (List.map_filter enabled_rule rules)"

definition runnable :: "(string \<Rightarrow> bool) \<Rightarrow> rule list \<Rightarrow> bool" where
  "runnable compiles rules \<longleftrightarrow> list_all (\<lambda>r. validate_rule compiles r = Inr () \<and> \<not> nested_quota r) rules"

lemma runnable_rule:
  assumes "validate_rule compiles r = Inr ()" "\<not> nested_quota r"
  shows "(case enabled_rule r of
       None \<Rightarrow> says search bound p r = None
     | Some r' \<Rightarrow> if is_quota r then r' = r \<and> says search bound p r = None
         else content_rule_matches search bound p r' = Inr (verdict search bound p r')
           \<and> says search bound p r = Some (verdict search bound p r') \<and> is_filter_rule r' = is_filter_rule r \<and> \<not> is_quota r')"
proof (cases "is_quota r")
  case True
  then show ?thesis by (cases r) (auto simp: is_quota_def)
next
  case False
  then show ?thesis
    using valid_rule_agrees [OF assms(1) False, of search bound p] assms(2) enabled_same [of r]
    by (auto simp: agrees_def verdict_def split: option.splits)
qed

lemma runnable_content:
  assumes "runnable compiles rules"
  shows "total_rules search bound (content_of rules)"
    and "verdicts search bound rules p = map (\<lambda>r. (is_filter_rule r, verdict search bound p r)) (content_of rules)"
proof -
  show "total_rules search bound (content_of rules)"
    unfolding total_rules_def
  proof (intro ballI allI)
    fix r' p
    assume "r' \<in> set (content_of rules)"
    then obtain r where r: "r \<in> set rules" "enabled_rule r = Some r'" "\<not> is_quota r'" by (auto simp: set_map_filter)
    with assms have "validate_rule compiles r = Inr ()" "\<not> nested_quota r" by (auto simp: runnable_def list_all_iff)
    from runnable_rule [OF this, of search bound p] r(2,3)
    show "content_rule_matches search bound p r' = Inr (verdict search bound p r')" by (auto split: if_splits)
  qed
  show "verdicts search bound rules p = map (\<lambda>r. (is_filter_rule r, verdict search bound p r)) (content_of rules)"
    using assms
  proof (induction rules)
    case (Cons r rules)
    then have "validate_rule compiles r = Inr ()" "\<not> nested_quota r" by (simp_all add: runnable_def)
    from runnable_rule [OF this, of search bound p] Cons show ?case
      by (auto simp: verdicts_def map_filter_simps' runnable_def split: option.splits if_splits)
  qed (simp add: verdicts_def map_filter_simps')
qed

section \<open>Counting\<close>

definition counted :: "(string \<times> nat) list \<Rightarrow> nat" where
  "counted c = sum_list (map snd c)"

lemma counted_simps [simp]: "counted [] = 0" "counted ((k, n) # c) = n + counted c"
  by (simp_all add: counted_def)

lemma counted_put_new: "k \<notin> set (dict_keys c) \<Longrightarrow> counted (dict_put k n c) = counted c + n"
  by (induction c) (auto simp: dict_keys_def)

lemma counted_add: "counted (count_add k n c) = counted c + n"
  unfolding count_add_def by (induction c) (auto simp: dict_get_def)

lemma counted_merge: "counted (foldl (\<lambda>c (k, n). count_add k n c) c xs) = counted c + counted xs"
  by (induction xs arbitrary: c) (auto simp: counted_add)

section \<open>ALL_OF\<close>

lemma apply_one_total:
  assumes "total_rules search bound [r]"
  shows "apply_one_content_rule search bound cs r =
    Inr (filter (rule_keeps search bound r) cs, length cs - length (filter (rule_keeps search bound r) cs))"
proof -
  have "map fst (filter (\<lambda>(p, v). v \<noteq> is_filter_rule r) (zip cs (map (\<lambda>p. verdict search bound p r) cs)))
      = filter (rule_keeps search bound r) cs"
    by (induction cs) auto
  moreover have "all_results (map (\<lambda>p. content_rule_matches search bound p r) cs) = Inr (map (\<lambda>p. verdict search bound p r) cs)"
    using assms by (intro all_results_map_Inr) (simp add: total_rules_def del: split_paired_All)
  ultimately show ?thesis by (simp only: apply_one_content_rule_def Let_def bindE_simps)
qed

lemma total_Cons: "total_rules search bound (r # rs) \<longleftrightarrow> total_rules search bound [r] \<and> total_rules search bound rs"
  by (auto simp: total_rules_def)

lemma predicate_key_eq: "predicate_key r = predicate_key r' \<longleftrightarrow> rule_id r = rule_id r'"
  by (simp add: predicate_key_def)

lemma all_of_total:
  assumes "total_rules search bound rs"
  shows "\<exists>counts'. all_of_loop search bound rs cs counts
      = Inr (filter (\<lambda>p. \<forall>r \<in> set rs. rule_keeps search bound r p) cs, counts')
    \<and> (distinct (map rule_id rs) \<longrightarrow> predicate_key ` set rs \<inter> set (dict_keys counts) = {} \<longrightarrow>
       counted counts' + length (filter (\<lambda>p. \<forall>r \<in> set rs. rule_keeps search bound r p) cs)
         = counted counts + length cs)"
  using assms
proof (induction rs arbitrary: cs counts)
  case (Cons r rs)
  let ?k = "filter (rule_keeps search bound r) cs"
  let ?n = "length cs - length ?k"
  let ?c = "if ?n \<noteq> 0 then dict_put (predicate_key r) ?n counts else counts"
  note one = apply_one_total [OF Cons.prems [unfolded total_Cons [of _ _ r rs], THEN conjunct1]]
  from Cons.IH [OF Cons.prems [unfolded total_Cons [of _ _ r rs], THEN conjunct2], of ?k ?c]
  obtain counts' where loop: "all_of_loop search bound rs ?k ?c
      = Inr (filter (\<lambda>p. \<forall>r \<in> set rs. rule_keeps search bound r p) ?k, counts')"
    and sums: "distinct (map rule_id rs) \<longrightarrow> predicate_key ` set rs \<inter> set (dict_keys ?c) = {} \<longrightarrow>
       counted counts' + length (filter (\<lambda>p. \<forall>r \<in> set rs. rule_keeps search bound r p) ?k) = counted ?c + length ?k"
    by blast
  have both: "filter (\<lambda>p. \<forall>r' \<in> set (r # rs). rule_keeps search bound r' p) cs
      = filter (\<lambda>p. \<forall>r \<in> set rs. rule_keeps search bound r p) ?k"
    by (simp add: conj_commute)
  have sum: "counted ?c + length ?k = counted counts + length cs"
    if fresh: "predicate_key r \<notin> set (dict_keys counts)"
  proof -
    have "counted ?c = counted counts + ?n" using counted_put_new [OF fresh, of ?n] by (cases "?n = 0") simp_all
    moreover have "length ?k \<le> length cs" by (rule length_filter_le)
    ultimately show ?thesis by linarith
  qed
  have "predicate_key ` set rs \<inter> set (dict_keys ?c) = {}"
    if "distinct (map rule_id (r # rs))" "predicate_key ` set (r # rs) \<inter> set (dict_keys counts) = {}"
  proof -
    have "predicate_key r \<notin> predicate_key ` set rs"
      using that(1) predicate_key_eq by (fastforce simp: image_iff)
    then show ?thesis using that(2) by (auto simp: dict_keys_put)
  qed
  then show ?case
    using loop sums one sum unfolding both by (intro exI [of _ counts']) auto
qed simp

section \<open>Dictionaries of pairs\<close>

text \<open>
  A dictionary of pairs under their identity, over candidates whose identities differ: it is
  the set of its values.
\<close>

definition pair_dict :: "candidate list \<Rightarrow> working \<Rightarrow> bool" where
  "pair_dict cs w \<longleftrightarrow> distinct (dict_keys w) \<and> (\<forall>(k, p) \<in> set w. k = pair_identity_key p \<and> p \<in> set cs)"

abbreviation put_pair :: "working \<Rightarrow> candidate \<Rightarrow> working" where
  "put_pair w p \<equiv> dict_put (pair_identity_key p) p w"

lemma set_dict_put: "distinct (dict_keys w) \<Longrightarrow> set (dict_put k v w) = {e \<in> set w. fst e \<noteq> k} \<union> {(k, v)}"
proof (induction w)
  case (Cons e w)
  obtain a b where e: "e = (a, b)" by (cases e)
  show ?case
    by (cases "k = a") (use Cons in \<open>force simp: e dict_keys_def\<close>)+
qed simp

lemma pair_dict_put:
  assumes "pair_dict cs w" "p \<in> set cs" "inj_on pair_identity_key (set cs)"
  shows "pair_dict cs (put_pair w p)" and "snd ` set (put_pair w p) = insert p (snd ` set w)"
proof -
  have w: "distinct (dict_keys w)" and entries: "\<And>e. e \<in> set w \<Longrightarrow> fst e = pair_identity_key (snd e) \<and> snd e \<in> set cs"
    using assms(1) by (auto simp: pair_dict_def)
  show "pair_dict cs (put_pair w p)"
    using assms(2) entries unfolding pair_dict_def by (auto simp: set_dict_put [OF w] distinct_dict_put [OF w])
  have "snd e = p" if "e \<in> set w" "fst e = pair_identity_key p" for e
    using entries [OF that(1)] that(2) assms(2,3) by (auto simp: inj_on_def)
  then show "snd ` set (put_pair w p) = insert p (snd ` set w)"
    by (auto simp: set_dict_put [OF w] image_iff)
qed

lemma pair_dict_puts:
  assumes "pair_dict cs w" "set ps \<subseteq> set cs" "inj_on pair_identity_key (set cs)"
  shows "pair_dict cs (foldl put_pair w ps) \<and> snd ` set (foldl put_pair w ps) = set ps \<union> snd ` set w"
  using assms(1,2)
proof (induction ps arbitrary: w)
  case (Cons p ps)
  then have p: "p \<in> set cs" and ps: "set ps \<subseteq> set cs" by auto
  show ?case
    using Cons.IH [OF pair_dict_put(1) [OF Cons.prems(1) p assms(3)] ps] pair_dict_put(2) [OF Cons.prems(1) p assms(3)]
    by auto
qed simp

lemma pair_dict_empty: "pair_dict cs []"
  by (simp add: pair_dict_def dict_keys_def)

lemma pair_dict_values: "pair_dict cs w \<Longrightarrow> distinct (map snd w)"
proof -
  assume w: "pair_dict cs w"
  then have "map fst w = map pair_identity_key (map snd w)" by (auto simp: pair_dict_def)
  moreover have "distinct (map fst w)" using w by (simp add: pair_dict_def dict_keys_def)
  ultimately show "distinct (map snd w)" by (metis distinct_map)
qed

text \<open>Sorted into the order of the keys, they are the candidates the set picks out.\<close>

lemma pair_dict_mset:
  assumes "pair_dict cs w" "distinct cs" "snd ` set w = {p \<in> set cs. P p}"
  shows "mset (map snd w) = mset (filter P cs)"
  using assms pair_dict_values [OF assms(1)] by (intro set_eq_iff_mset_eq_distinct [THEN iffD1]) auto

section \<open>ANY_OF\<close>

lemma any_of_total:
  assumes "total_rules search bound rs"
  shows "any_of_loop search bound cs rs kept
    = Inr (foldl put_pair kept (concat (map (\<lambda>r. filter (rule_keeps search bound r) cs) rs)))"
  using assms
proof (induction rs arbitrary: kept)
  case (Cons r rs)
  then have "total_rules search bound [r]" "total_rules search bound rs"
    using total_Cons [of search bound r rs] by blast+
  then show ?case using Cons.IH apply_one_total [of search bound r cs] by (simp add: foldl_append)
qed simp

section \<open>PIPELINE\<close>

lemma dict_pop_absent: "dict_get w k = None \<Longrightarrow> filter (\<lambda>kv. fst kv \<noteq> k) w = w"
  by (auto simp: dict_get_def map_of_eq_None_iff filter_id_conv)

lemma pipeline_filter_total:
  assumes "total_rules search bound [r]"
  shows "\<exists>counts'. pipeline_filter search bound r ps (w, counts)
    = Inr (filter (\<lambda>kv. \<forall>p \<in> set ps. verdict search bound p r \<longrightarrow> pair_identity_key p \<noteq> fst kv) w, counts')"
proof (induction ps arbitrary: w counts)
  case (Cons p ps)
  have m: "content_rule_matches search bound p r = Inr (verdict search bound p r)"
    using assms by (simp add: total_rules_def del: split_paired_All)
  let ?w = "filter (\<lambda>kv. verdict search bound p r \<longrightarrow> pair_identity_key p \<noteq> fst kv) w"
  have step: "\<exists>c. (if verdict search bound p r \<and> dict_get w (pair_identity_key p) \<noteq> None
      then (dict_pop (pair_identity_key p) w, count_add (predicate_key r) 1 counts) else (w, counts)) = (?w, c)"
    using dict_pop_absent [of w "pair_identity_key p"]
    by (cases "verdict search bound p r") (auto simp: dict_pop_def eq_commute)
  then obtain c where c: "(if verdict search bound p r \<and> dict_get w (pair_identity_key p) \<noteq> None
      then (dict_pop (pair_identity_key p) w, count_add (predicate_key r) 1 counts) else (w, counts)) = (?w, c)" ..
  obtain counts' where "pipeline_filter search bound r ps (?w, c)
      = Inr (filter (\<lambda>kv. \<forall>p \<in> set ps. verdict search bound p r \<longrightarrow> pair_identity_key p \<noteq> fst kv) ?w, counts')"
    using Cons.IH by blast
  then show ?case by (intro exI [of _ counts']) (simp only: pipeline_filter.simps m bindE_simps c, simp add: conj_commute)
qed simp

lemma pipeline_match_total:
  assumes "total_rules search bound [r]"
  shows "pipeline_match search bound r ps w = Inr (foldl put_pair w (filter (\<lambda>p. verdict search bound p r) ps))"
proof (induction ps arbitrary: w)
  case (Cons p ps)
  have "content_rule_matches search bound p r = Inr (verdict search bound p r)"
    using assms by (simp add: total_rules_def del: split_paired_All)
  then show ?case using Cons by simp
qed simp

text \<open>The word so far, folded over the rules.\<close>

definition word_of :: "regex_search \<Rightarrow> pair_lookup \<Rightarrow> candidate \<Rightarrow> bool \<Rightarrow> rule \<Rightarrow> bool" where
  "word_of search bound p k r =
     (if is_filter_rule r then k \<and> \<not> verdict search bound p r else k \<or> verdict search bound p r)"

lemma pipeline_total:
  assumes "total_rules search bound rs" "inj_on pair_identity_key (set cs)"
    and "pair_dict cs w" "snd ` set w = {p \<in> set cs. K p}"
  shows "\<exists>w' counts'. pipeline_loop search bound cs rs (w, counts) = Inr (w', counts')
    \<and> pair_dict cs w' \<and> snd ` set w' = {p \<in> set cs. foldl (word_of search bound p) (K p) rs}"
  using assms(1,3,4)
proof (induction rs arbitrary: w counts K)
  case (Cons r rs)
  have t: "total_rules search bound [r]" "total_rules search bound rs"
    using Cons.prems(1) total_Cons [of search bound r rs] by blast+
  have entries: "\<And>e. e \<in> set w \<Longrightarrow> fst e = pair_identity_key (snd e) \<and> snd e \<in> set cs"
    using Cons.prems(2) by (auto simp: pair_dict_def)
  show ?case
  proof (cases "is_filter_rule r")
    case True
    let ?w = "filter (\<lambda>kv. \<forall>p \<in> set (map snd w). verdict search bound p r \<longrightarrow> pair_identity_key p \<noteq> fst kv) w"
    obtain c where run: "pipeline_filter search bound r (map snd w) (w, counts) = Inr (?w, c)"
      using pipeline_filter_total [OF t(1)] by blast
    have here: "?w = filter (\<lambda>kv. \<not> verdict search bound (snd kv) r) w"
    proof (rule filter_cong [OF refl])
      fix e
      assume e: "e \<in> set w"
      have same: "p = snd e" if "p \<in> snd ` set w" "pair_identity_key p = fst e" for p
        using that(1) that(2) entries [OF e] entries inj_onD [OF assms(2), of p "snd e"] by auto
      have "snd e \<in> snd ` set w" using e by (rule imageI)
      then show "(\<forall>p \<in> set (map snd w). verdict search bound p r \<longrightarrow> pair_identity_key p \<noteq> fst e)
          \<longleftrightarrow> \<not> verdict search bound (snd e) r"
        unfolding set_map using same entries [OF e] by metis
    qed
    have "pair_dict cs ?w" using Cons.prems(2) unfolding here by (auto simp: pair_dict_def dict_keys_def distinct_map_filter)
    moreover have "snd ` set ?w = {p \<in> set cs. word_of search bound p (K p) r}"
    proof -
      have "snd ` set (filter (\<lambda>kv. \<not> verdict search bound (snd kv) r) w) = {p \<in> snd ` set w. \<not> verdict search bound p r}"
        by force
      then show ?thesis unfolding here Cons.prems(3) using True by (auto simp: word_of_def)
    qed
    ultimately show ?thesis using Cons.IH [OF t(2)] run True by auto
  next
    case False
    let ?w = "foldl put_pair w (filter (\<lambda>p. verdict search bound p r) cs)"
    have "pair_dict cs ?w \<and> snd ` set ?w = set (filter (\<lambda>p. verdict search bound p r) cs) \<union> snd ` set w"
      using pair_dict_puts [OF Cons.prems(2) _ assms(2), of "filter (\<lambda>p. verdict search bound p r) cs"] by auto
    moreover from this have "snd ` set ?w = {p \<in> set cs. word_of search bound p (K p) r}"
      using Cons.prems(3) False by (auto simp: word_of_def)
    ultimately show ?thesis using Cons.IH [OF t(2)] pipeline_match_total [OF t(1)] False by auto
  qed
qed auto

section \<open>The content rules\<close>

lemma content_rules_outcome:
  assumes "runnable compiles rules" "distinct cs" "inj_on pair_identity_key (set cs)" "sorted (map pair_sort_key cs)"
  shows "\<exists>survivors counts. apply_content_rules search bound cs (content_of rules) comb = Inr (survivors, counts)
    \<and> mset survivors = mset (filter (\<lambda>p. kept_by comb (verdicts search bound rules p)) cs)
    \<and> sorted (map pair_sort_key survivors)
    \<and> (comb \<noteq> PIPELINE \<longrightarrow> distinct (map rule_id (content_of rules)) \<longrightarrow> counted counts + length survivors = length cs)"
proof (cases "content_of rules = []")
  case True
  then show ?thesis using assms(4) runnable_content(2) [OF assms(1)]
    by (cases comb) (auto simp: apply_content_rules_def)
next
  case False
  note t = runnable_content(1) [OF assms(1), of search bound] and v = runnable_content(2) [OF assms(1), of search bound]
  let ?C = "content_of rules"
  show ?thesis
  proof (cases comb)
    case ALL_OF
    have "filter (\<lambda>p. kept_by comb (verdicts search bound rules p)) cs = filter (\<lambda>p. \<forall>r \<in> set ?C. rule_keeps search bound r p) cs"
      unfolding v ALL_OF by (rule filter_cong) (simp_all add: list_all_iff del: set_filter)
    moreover have "sorted (map pair_sort_key (filter P cs))" for P
      using assms(4) by (rule sorted_filter)
    ultimately show ?thesis
      using all_of_total [OF t, of cs "[]"] False ALL_OF by (auto simp: apply_content_rules_def dict_keys_def simp del: filter_filter)
  next
    case ANY_OF
    define kept where "kept = foldl put_pair [] (concat (map (\<lambda>r. filter (rule_keeps search bound r) cs) ?C))"
    have k: "pair_dict cs kept" "snd ` set kept = {p \<in> set cs. \<exists>r \<in> set ?C. rule_keeps search bound r p}"
      using pair_dict_puts [OF pair_dict_empty _ assms(3), of "concat (map (\<lambda>r. filter (rule_keeps search bound r) cs) ?C)"]
      unfolding kept_def by auto
    have m: "mset (map snd kept) = mset (filter (\<lambda>p. kept_by comb (verdicts search bound rules p)) cs)"
      using False by (intro pair_dict_mset [OF k(1) assms(2)]) (simp add: k(2) v ANY_OF list_ex_iff del: set_filter)
    have "length kept \<le> length cs" using mset_eq_length [OF m] length_filter_le [of _ cs] by simp
    moreover have "apply_content_rules search bound cs ?C comb =
        (let survivors = sort_key pair_sort_key (map snd kept); dropped = length cs - length survivors
         in Inr (survivors, if dropped = 0 then [] else [(''predicate.any_of'', dropped)]))"
      using any_of_total [OF t] False by (simp add: apply_content_rules_def ANY_OF kept_def)
    ultimately show ?thesis using m by (auto simp: Let_def)
  next
    case PIPELINE
    have start: "pair_dict cs (dict_of pair_identity_key id cs)" "snd ` set (dict_of pair_identity_key id cs) = {p \<in> set cs. True}"
      using pair_dict_puts [OF pair_dict_empty subset_refl assms(3)] by (simp_all add: dict_of_def id_def)
    obtain w counts where run: "pipeline_loop search bound cs ?C (dict_of pair_identity_key id cs, []) = Inr (w, counts)"
      and w: "pair_dict cs w" "snd ` set w = {p \<in> set cs. foldl (word_of search bound p) True ?C}"
      using pipeline_total [OF t assms(3) start] by blast
    have word: "foldl (word_of search bound p) k ?C
        = foldl (\<lambda>k (f, b). if f then k \<and> \<not> b else k \<or> b) k (verdicts search bound rules p)" for p k
      unfolding v by (simp only: foldl_map prod.case word_of_def [abs_def])
    have "mset (map snd w) = mset (filter (\<lambda>p. kept_by comb (verdicts search bound rules p)) cs)"
      by (rule pair_dict_mset [OF w(1) assms(2)]) (simp only: w(2) word PIPELINE kept_by.simps)
    then show ?thesis using run False by (simp add: apply_content_rules_def PIPELINE)
  qed
qed

section \<open>The quotas of a run\<close>

abbreviation live_quotas :: "rule_set \<Rightarrow> (string \<times> quota) list" where
  "live_quotas rs \<equiv> quotas_of (List.map_filter enabled_rule (ru_rules rs))"

lemma valid_quotas:
  assumes "list_all (\<lambda>r. validate_rule compiles r = Inr ()) rules" "rq \<in> set (quotas_of (List.map_filter enabled_rule rules))"
  shows "validate_quota (snd rq) = Inr ()"
proof -
  obtain r r' where r: "r \<in> set rules" "enabled_rule r = Some r'" "is_quota r'" "rq = (rule_id r', rule_quota r')"
    using assms(2) by (auto simp: quotas_of_def set_map_filter)
  then have "validate_rule compiles r = Inr ()" "is_quota r"
    using assms(1) enabled_same [OF r(2)] by (auto simp: list_all_iff)
  then show ?thesis using r by (cases r) (auto simp: is_quota_def split: if_splits)
qed

lemma runnable_quotas:
  "runnable compiles rules \<Longrightarrow> rq \<in> set (quotas_of (List.map_filter enabled_rule rules)) \<Longrightarrow> validate_quota (snd rq) = Inr ()"
  by (rule valid_quotas) (auto simp: runnable_def list_all_iff)

lemma axis_fewer: "mset xs \<subseteq># mset ys \<Longrightarrow> length (filter P xs) \<le> length (filter P ys)"
  by (metis mset_filter multiset_filter_mono size_mset size_mset_mono)

lemma no_zero_warning: "ZeroAssignments \<notin> set (snd (snd (apply_quota sample ps rid q seed)))"
  by (auto simp: apply_quota_def Let_def quota_loop axis_warning_def split: option.splits if_splits)

lemma quota_outcome:
  assumes "samples sample" "validate_quota q = Inr ()"
  obtains kept excluded warnings where "apply_quota sample ps rid q seed = (kept, excluded, warnings)"
    "mset kept \<subseteq># mset ps" "length kept + excluded = length ps" "ZeroAssignments \<notin> set warnings"
    "\<And>m k. q_max q = Some m \<Longrightarrow> int (length (filter (\<lambda>p. axis_key q p = k) kept)) \<le> m"
proof -
  obtain kept excluded warnings where run: "apply_quota sample ps rid q seed = (kept, excluded, warnings)"
    by (metis prod_cases3)
  note b = quota_keeps_bounds [OF assms run]
  have "int (length (filter (\<lambda>p. axis_key q p = k) kept)) \<le> m" if m: "q_max q = Some m" for m k
  proof -
    have "0 \<le> m" using m assms(2) by (auto simp: validate_quota_def split: if_splits)
    moreover have "length (filter (\<lambda>p. axis_key q p = k) kept) \<le> nat m" using b m by (simp add: allowed_by_def)
    ultimately show ?thesis by linarith
  qed
  then show thesis using that [OF run] b no_zero_warning [of sample ps rid q seed] run by simp
qed

lemma quota_rounds:
  assumes "samples sample" "\<forall>rq \<in> set qs. validate_quota (snd rq) = Inr ()"
  shows "\<exists>s' c' w'. foldl (quota_round sample seed) (s, c, w) qs = (s', c', w')
    \<and> mset s' \<subseteq># mset s \<and> counted c' + length s' = counted c + length s
    \<and> (ZeroAssignments \<in> set w' \<longleftrightarrow> ZeroAssignments \<in> set w)
    \<and> (\<forall>rq \<in> set qs. \<forall>m k. q_max (snd rq) = Some m \<longrightarrow> int (length (filter (\<lambda>p. axis_key (snd rq) p = k) s')) \<le> m)"
  using assms(2)
proof (induction qs arbitrary: s c w)
  case (Cons rq qs)
  then have q: "validate_quota (snd rq) = Inr ()" and qs: "\<forall>rq \<in> set qs. validate_quota (snd rq) = Inr ()" by simp_all
  obtain kept excluded warnings where one: "apply_quota sample s (fst rq) (snd rq) seed = (kept, excluded, warnings)"
    "mset kept \<subseteq># mset s" "length kept + excluded = length s" "ZeroAssignments \<notin> set warnings"
    "\<And>m k. q_max (snd rq) = Some m \<Longrightarrow> int (length (filter (\<lambda>p. axis_key (snd rq) p = k) kept)) \<le> m"
    using quota_outcome [OF assms(1) q] by blast
  define c1 where "c1 = (if excluded \<noteq> 0 then count_add (quota_key (snd rq)) excluded c else c)"
  from Cons.IH [OF qs, of kept c1 "w @ warnings"] obtain s' c' w' where rest: "foldl (quota_round sample seed) (kept, c1, w @ warnings) qs = (s', c', w')"
    "mset s' \<subseteq># mset kept" "counted c' + length s' = counted c1 + length kept"
    "ZeroAssignments \<in> set w' \<longleftrightarrow> ZeroAssignments \<in> set (w @ warnings)"
    "\<forall>rq \<in> set qs. \<forall>m k. q_max (snd rq) = Some m \<longrightarrow> int (length (filter (\<lambda>p. axis_key (snd rq) p = k) s')) \<le> m"
    by blast
  have step: "quota_round sample seed (s, c, w) rq = (kept, c1, w @ warnings)"
    by (simp add: quota_round_def one(1) c1_def)
  have "int (length (filter (\<lambda>p. axis_key (snd rq) p = k) s')) \<le> m" if "q_max (snd rq) = Some m" for m k
    using one(5) [OF that, of k] axis_fewer [OF rest(2), of "\<lambda>p. axis_key (snd rq) p = k"] by linarith
  moreover have "counted c1 + length kept = counted c + length s"
    using one(3) by (auto simp: c1_def counted_add)
  ultimately show ?case
    using rest one(2,4) step subset_mset.order_trans [OF rest(2) one(2)] by (intro exI [of _ s'] exI [of _ c'] exI [of _ w']) auto
qed simp

section \<open>A run\<close>

text \<open>The pairs a run may emit: what the rules say, and the self-reviews when they are excluded.\<close>

definition excludes_self :: "bool option \<Rightarrow> rule_set \<Rightarrow> bool" where
  "excludes_self override rs = (case override of Some b \<Rightarrow> b | None \<Rightarrow> ru_exclude_self rs)"

definition eligible_pairs ::
  "regex_search \<Rightarrow> rule_set \<Rightarrow> reviewer list \<Rightarrow> reviewee list \<Rightarrow> bool option \<Rightarrow> pair_lookup \<Rightarrow> candidate list" where
  "eligible_pairs search rs rvs res override bound =
     filter (\<lambda>p. \<not> (excludes_self override rs \<and> engine_self_review (fst p) (snd p))
               \<and> kept_by (ru_combinator rs) (verdicts search bound (ru_rules rs) p)) (List.product rvs res)"

lemma product_keys:
  assumes "distinct (map rr_id rvs)" "distinct (map re_id res)"
  shows "distinct (List.product rvs res)" "inj_on pair_identity_key (set (List.product rvs res))"
proof -
  show "distinct (List.product rvs res)" using assms by (simp add: distinct_product distinct_map)
  show "inj_on pair_identity_key (set (List.product rvs res))"
    using assms by (auto simp: inj_on_def pair_identity_key_def distinct_map)
qed

text \<open>The candidates the content rules see, and what their selection counted.\<close>

definition candidates_of :: "bool option \<Rightarrow> rule_set \<Rightarrow> reviewer list \<Rightarrow> reviewee list \<Rightarrow> candidate list" where
  "candidates_of override rs rvs res =
     (let candidates = sort_key pair_sort_key (List.product rvs res)
      in if excludes_self override rs then filter (\<lambda>(rv, re). \<not> engine_self_review rv re) candidates else candidates)"

definition self_counts :: "bool option \<Rightarrow> rule_set \<Rightarrow> reviewer list \<Rightarrow> reviewee list \<Rightarrow> (string \<times> nat) list" where
  "self_counts override rs rvs res =
     (let own = filter (\<lambda>(rv, re). engine_self_review rv re) (sort_key pair_sort_key (List.product rvs res))
      in if excludes_self override rs \<and> own \<noteq> [] then [(''self_review'', length own)] else [])"

lemma candidates_facts:
  assumes "distinct (map rr_id rvs)" "distinct (map re_id res)"
  shows "distinct (candidates_of override rs rvs res)"
    and "inj_on pair_identity_key (set (candidates_of override rs rvs res))"
    and "sorted (map pair_sort_key (candidates_of override rs rvs res))"
    and "counted (self_counts override rs rvs res) + length (candidates_of override rs rvs res) = length rvs * length res"
    and "mset (candidates_of override rs rvs res)
      = mset (filter (\<lambda>p. \<not> (excludes_self override rs \<and> engine_self_review (fst p) (snd p))) (List.product rvs res))"
proof -
  let ?cands = "sort_key pair_sort_key (List.product rvs res)"
  show "distinct (candidates_of override rs rvs res)" "inj_on pair_identity_key (set (candidates_of override rs rvs res))"
    "sorted (map pair_sort_key (candidates_of override rs rvs res))"
    using product_keys [OF assms] sorted_filter [of pair_sort_key ?cands]
    by (auto simp: candidates_of_def Let_def inj_on_def)
  have "length (filter (\<lambda>(rv, re). engine_self_review rv re) ?cands)
      + length (filter (\<lambda>(rv, re). \<not> engine_self_review rv re) ?cands) = length rvs * length res"
    using sum_length_filter_compl [of "\<lambda>(rv, re). engine_self_review rv re" ?cands]
    by (simp add: case_prod_beta')
  then show "counted (self_counts override rs rvs res) + length (candidates_of override rs rvs res) = length rvs * length res"
    by (auto simp: self_counts_def candidates_of_def Let_def)
  show "mset (candidates_of override rs rvs res)
      = mset (filter (\<lambda>p. \<not> (excludes_self override rs \<and> engine_self_review (fst p) (snd p))) (List.product rvs res))"
    by (simp add: candidates_of_def Let_def case_prod_beta)
qed

lemma evaluate_candidates:
  "evaluate search sample rs rvs res override revision_seed bound =
     bindE (apply_content_rules search bound (candidates_of override rs rvs res) (content_of (ru_rules rs)) (ru_combinator rs))
       (\<lambda>(s1, c1). case foldl (quota_round sample (case ru_seed rs of Some s \<Rightarrow> s | None \<Rightarrow> revision_seed))
            (s1, foldl (\<lambda>c (k, n). count_add k n c) (self_counts override rs rvs res) c1, []) (live_quotas rs) of
          (s2, c2, w) \<Rightarrow>
            let out = (if live_quotas rs = [] then sort_key pair_sort_key s2 else s2)
            in Inr \<lparr>e_pairs = out, e_excluded = c2, e_warnings = w @ (if out = [] then [ZeroAssignments] else [])\<rparr>)"
  by (simp only: evaluate_def candidates_of_def self_counts_def excludes_self_def Let_def)

lemma run_outcome:
  assumes "runnable compiles (ru_rules rs)" "samples sample"
    and "distinct (map rr_id rvs)" "distinct (map re_id res)"
  shows "\<exists>ev. evaluate search sample rs rvs res override revision_seed bound = Inr ev
    \<and> mset (e_pairs ev) \<subseteq># mset (eligible_pairs search rs rvs res override bound)
    \<and> (live_quotas rs = [] \<longrightarrow> mset (e_pairs ev) = mset (eligible_pairs search rs rvs res override bound)
         \<and> sorted (map pair_sort_key (e_pairs ev)))
    \<and> (\<forall>rq \<in> set (live_quotas rs). \<forall>m k. q_max (snd rq) = Some m \<longrightarrow>
         int (length (filter (\<lambda>p. axis_key (snd rq) p = k) (e_pairs ev))) \<le> m)
    \<and> (ZeroAssignments \<in> set (e_warnings ev) \<longleftrightarrow> e_pairs ev = [])
    \<and> (ru_combinator rs \<noteq> PIPELINE \<longrightarrow> distinct (map rule_id (content_of (ru_rules rs))) \<longrightarrow>
         length (e_pairs ev) + counted (e_excluded ev) = length rvs * length res)"
proof -
  note cs = candidates_facts [OF assms(3,4), of override rs]
  obtain s1 c1 where content: "apply_content_rules search bound (candidates_of override rs rvs res)
        (content_of (ru_rules rs)) (ru_combinator rs) = Inr (s1, c1)"
    and s1: "mset s1 = mset (filter (\<lambda>p. kept_by (ru_combinator rs) (verdicts search bound (ru_rules rs) p)) (candidates_of override rs rvs res))"
      "sorted (map pair_sort_key s1)"
      "ru_combinator rs \<noteq> PIPELINE \<longrightarrow> distinct (map rule_id (content_of (ru_rules rs)))
         \<longrightarrow> counted c1 + length s1 = length (candidates_of override rs rvs res)"
    using content_rules_outcome [OF assms(1) cs(1-3)] by blast
  have pool: "mset s1 = mset (eligible_pairs search rs rvs res override bound)"
    by (simp add: s1(1) eligible_pairs_def cs(5) filter_filter_mset conj_commute)
  define c2 where "c2 = foldl (\<lambda>c (k, n). count_add k n c) (self_counts override rs rvs res) c1"
  have quotas: "\<forall>rq \<in> set (live_quotas rs). validate_quota (snd rq) = Inr ()"
    using runnable_quotas [OF assms(1)] by blast
  define seed where "seed = (case ru_seed rs of Some s \<Rightarrow> s | None \<Rightarrow> revision_seed)"
  obtain s2 c3 w where rounds: "foldl (quota_round sample seed) (s1, c2, []) (live_quotas rs) = (s2, c3, w)"
    and s2: "mset s2 \<subseteq># mset s1" "counted c3 + length s2 = counted c2 + length s1" "ZeroAssignments \<notin> set w"
      "\<forall>rq \<in> set (live_quotas rs). \<forall>m k. q_max (snd rq) = Some m \<longrightarrow> int (length (filter (\<lambda>p. axis_key (snd rq) p = k) s2)) \<le> m"
    using quota_rounds [OF assms(2) quotas, of seed s1 c2 "[]"] by auto
  define out where "out = (if live_quotas rs = [] then sort_key pair_sort_key s2 else s2)"
  have run: "evaluate search sample rs rvs res override revision_seed bound
      = Inr \<lparr>e_pairs = out, e_excluded = c3, e_warnings = w @ (if out = [] then [ZeroAssignments] else [])\<rparr>"
    by (simp only: evaluate_candidates content bindE_simps prod.case c2_def [symmetric] seed_def [symmetric] rounds Let_def out_def)
  have same: "mset out = mset s2" by (simp add: out_def)
  have "length out + counted c3 = length rvs * length res"
    if "ru_combinator rs \<noteq> PIPELINE" "distinct (map rule_id (content_of (ru_rules rs)))"
    using s1(3) that s2(2) cs(4) mset_eq_length [OF same] counted_merge [of "self_counts override rs rvs res" c1]
    by (simp add: c2_def)
  moreover have "int (length (filter (\<lambda>p. axis_key (snd rq) p = k) out)) \<le> m"
    if "rq \<in> set (live_quotas rs)" "q_max (snd rq) = Some m" for rq m k
  proof -
    have "length (filter (\<lambda>p. axis_key (snd rq) p = k) out) \<le> length (filter (\<lambda>p. axis_key (snd rq) p = k) s2)"
      by (rule axis_fewer) (simp add: same)
    moreover have "int (length (filter (\<lambda>p. axis_key (snd rq) p = k) s2)) \<le> m" using s2(4) that by blast
    ultimately show ?thesis by linarith
  qed
  moreover have "mset out = mset s1 \<and> sorted (map pair_sort_key out)" if "live_quotas rs = []"
    using rounds that by (simp add: out_def)
  ultimately show ?thesis using run s2(1,3) same pool by (intro exI conjI) auto
qed

lemma unique_content_ids:
  assumes "distinct (concat (map rule_ids rules))"
  shows "distinct (map rule_id (content_of rules))"
proof -
  have "distinct (map rule_id (List.map_filter enabled_rule rules))
      \<and> set (map rule_id (List.map_filter enabled_rule rules)) \<subseteq> set (concat (map rule_ids rules))"
    using assms
  proof (induction rules)
    case (Cons r rules)
    then show ?case
      using enabled_same [of r] by (auto simp: map_filter_simps' rule_ids_children [of r] split: option.splits)
  qed (simp add: map_filter_simps')
  then show ?thesis by (simp add: distinct_map_filter)
qed

text \<open>
  C36. A run emits what the rules say. Over rules that pass the schema's checks and hold no
  quota inside a composite it never raises; without a live quota its pairs are exactly the
  pairs of the two rosters that the combinator keeps (all rules, any rule, or the last word of
  a pipeline), self-reviews aside when they are excluded, each once and in the order of the
  normalised addresses; with quotas they are among those, and the maximum of every quota, not
  only of the last, holds of the result. It warns of no assignments exactly when there are none.
\<close>

theorem evaluate_emits_what_rules_say:
  assumes "runnable compiles (ru_rules rs)" "samples sample"
    and "distinct (map rr_id rvs)" "distinct (map re_id res)"
  shows "\<exists>ev. evaluate search sample rs rvs res override revision_seed bound = Inr ev
    \<and> mset (e_pairs ev) \<subseteq># mset (eligible_pairs search rs rvs res override bound)
    \<and> (live_quotas rs = [] \<longrightarrow> mset (e_pairs ev) = mset (eligible_pairs search rs rvs res override bound)
         \<and> sorted (map pair_sort_key (e_pairs ev)))
    \<and> (\<forall>rq \<in> set (live_quotas rs). \<forall>m k. q_max (snd rq) = Some m \<longrightarrow>
         int (length (filter (\<lambda>p. axis_key (snd rq) p = k) (e_pairs ev))) \<le> m)
    \<and> (ZeroAssignments \<in> set (e_warnings ev) \<longleftrightarrow> e_pairs ev = [])"
  using run_outcome [OF assms] by blast

text \<open>
  C37. Every pair is accounted for. When the schema found no repeated rule id and the combinator
  is not the pipeline (which counts a pair again when it comes back), the pairs a run emits and
  its exclusion counts add up to all pairs of the two rosters, whatever rules, quotas and
  self-review setting it ran with.
\<close>

theorem evaluate_accounts_for_every_pair:
  assumes "runnable compiles (ru_rules rs)" "samples sample"
    and "distinct (map rr_id rvs)" "distinct (map re_id res)"
    and "validate_unique_rule_ids (ru_rules rs) = Some (Inr ())" "ru_combinator rs \<noteq> PIPELINE"
    and "evaluate search sample rs rvs res override revision_seed bound = Inr ev"
  shows "length (e_pairs ev) + counted (e_excluded ev) = length rvs * length res"
  using run_outcome [OF assms(1-4), of search override revision_seed bound] assms(5-7)
    unique_content_ids [of "ru_rules rs"] unique_ids_iff [of "ru_rules rs"] by auto

definition demo_rules :: "combinator \<Rightarrow> rule_set" where
  "demo_rules comb = \<lparr>ru_combinator = comb, ru_rules =
     [FilterRule ''f'' True \<lparr>pr_field = ''reviewee.email'', pr_operator = ''equals'', pr_operand = StrOperand ''Z'', pr_case_sensitive = False\<rparr>,
      QuotaRule ''q'' True \<lparr>q_scope = PER_REVIEWER, q_min = None, q_max = Some 1, q_strategy = ROUND_ROBIN, q_seed = None\<rparr>],
     ru_exclude_self = True, ru_seed = None\<rparr>"

definition demo_rvs :: "reviewer list" where
  "demo_rvs = [demo_reviewer 1 ''a'', demo_reviewer 2 ''b'']"

definition demo_res :: "reviewee list" where
  "demo_res = [demo_reviewee 5 ''A'', demo_reviewee 6 ''z'', demo_reviewee 7 ''y'']"

lemma demo_run:
  "runnable (\<lambda>_. True) (ru_rules (demo_rules ALL_OF))" "samples first_k"
  "distinct (map rr_id demo_rvs)" "distinct (map re_id demo_res)"
proof -
  show "runnable (\<lambda>_. True) (ru_rules (demo_rules ALL_OF))" by code_simp
  show "samples first_k" by (auto simp: samples_def first_k_def)
qed (simp_all add: demo_rvs_def demo_res_def demo_reviewer_def demo_reviewee_def)

lemma evaluate_emits_what_rules_say_witness:
  "\<exists>ev. evaluate no_regex first_k (demo_rules ALL_OF) demo_rvs demo_res None 0 None = Inr ev
    \<and> length (filter (\<lambda>p. rr_email (fst p) = ''b'') (e_pairs ev)) \<le> 1
    \<and> (ZeroAssignments \<in> set (e_warnings ev) \<longleftrightarrow> e_pairs ev = [])"
proof -
  have "live_quotas (demo_rules ALL_OF) = [(''q'', \<lparr>q_scope = PER_REVIEWER, q_min = None, q_max = Some 1, q_strategy = ROUND_ROBIN, q_seed = None\<rparr>)]"
    by code_simp
  then show ?thesis
    using evaluate_emits_what_rules_say [OF demo_run, of no_regex None 0 None] by (auto simp: axis_key_def)
qed

lemma evaluate_accounts_for_every_pair_witness:
  "\<exists>ev. evaluate no_regex first_k (demo_rules ALL_OF) demo_rvs demo_res None 0 None = Inr ev
    \<and> map pair_identity_key (e_pairs ev) = [(1, 7), (2, 5)] \<and> length (e_pairs ev) + counted (e_excluded ev) = 6"
proof -
  have "map_sum (\<lambda>_. ()) (\<lambda>ev. map pair_identity_key (e_pairs ev))
      (evaluate no_regex first_k (demo_rules ALL_OF) demo_rvs demo_res None 0 None) = Inr [(1, 7), (2, 5)]" by code_simp
  then obtain ev where ev: "evaluate no_regex first_k (demo_rules ALL_OF) demo_rvs demo_res None 0 None = Inr ev"
    "map pair_identity_key (e_pairs ev) = [(1, 7), (2, 5)]"
    by (cases "evaluate no_regex first_k (demo_rules ALL_OF) demo_rvs demo_res None 0 None") auto
  have "distinct (concat (map rule_ids (ru_rules (demo_rules ALL_OF))))" by code_simp
  then show ?thesis
    using evaluate_accounts_for_every_pair [OF demo_run _ _ ev(1)] ev
    by (simp add: unique_ids_iff demo_rules_def demo_rvs_def demo_res_def)
qed

end
