(* ===== verification/Assignment_Generation.thy ===== *)
theory Assignment_Generation
  imports Self_Review Rule_Outcome
begin

text \<open>
  Generating the assignments of a session (\<open>app/services/assignments/_generate.py\<close>): the diff of
  the engine's pairs against the rows of an instrument, the write that applies it, the dry run
  behind the operator's confirmation, the staleness verdict, and the bulk toggle. The verdict's
  cache (\<open>instruments.cached_reconcile_*\<close>) and the display-field seeding are not in the model:
  the verdict is the one recomputed on a miss. Iterating a Python set is iterating the keys in
  the order they were stored. \<open>fresh\<close> is the database's choice of a new row's id.
\<close>

type_synonym id_pair = "int \<times> int"

section \<open>Inputs\<close>

definition list_reviewers :: "db \<Rightarrow> int \<Rightarrow> reviewer list" where
  "list_reviewers d sid = sort_key rr_id (filter (\<lambda>r. rr_session r = sid) (reviewers d))"

definition list_reviewees :: "db \<Rightarrow> int \<Rightarrow> reviewee list" where
  "list_reviewees d sid = sort_key re_id (filter (\<lambda>r. re_session r = sid) (reviewees d))"

definition combinator_of :: "string \<Rightarrow> combinator result" where
  "combinator_of s = (if s = ''ALL_OF'' then Inr ALL_OF else if s = ''ANY_OF'' then Inr ANY_OF
     else if s = ''PIPELINE'' then Inr PIPELINE else Inl (ValueError s))"

definition session_rule_set_to_schema :: "(string \<Rightarrow> bool) \<Rightarrow> session_rule_set \<Rightarrow> rule_set result" where
  "session_rule_set_to_schema compiles row =
     bindE (combinator_of (sr_combinator row)) (\<lambda>comb.
     bindE (all_results (map (validate_rule compiles) (sr_rules row))) (\<lambda>_.
     bindE (the (validate_unique_rule_ids (sr_rules row))) (\<lambda>_.
       Inr \<lparr>ru_combinator = comb, ru_rules = sr_rules row, ru_exclude_self = False, ru_seed = sr_seed row\<rparr>)))"

definition full_matrix_schema :: rule_set where
  "full_matrix_schema = \<lparr>ru_combinator = ALL_OF, ru_rules = [], ru_exclude_self = False, ru_seed = Some 0\<rparr>"

text \<open>What the engine is run with for an instrument, and whether its rule set drops self-reviews.\<close>

definition engine_schema :: "(string \<Rightarrow> bool) \<Rightarrow> session_rule_set option \<Rightarrow> (rule_set \<times> int) result" where
  "engine_schema compiles row = (case row of
       None \<Rightarrow> Inr (full_matrix_schema, 0)
     | Some r \<Rightarrow> bindE (session_rule_set_to_schema compiles r) (\<lambda>schema. Inr (schema, sr_id r)))"

definition excludes_own :: "session_rule_set option \<Rightarrow> bool" where
  "excludes_own row = (case row of None \<Rightarrow> False | Some r \<Rightarrow> sr_exclude_self r)"

record reconcile_inputs =
  in_targets :: "instrument list"
  in_reviewers :: "reviewer list"
  in_reviewees :: "reviewee list"
  in_lookup :: "int \<times> int \<Rightarrow> relationship option"
  in_rule_sets :: "(int \<times> session_rule_set) list"

definition rule_set_for :: "reconcile_inputs \<Rightarrow> instrument \<Rightarrow> session_rule_set option result" where
  "rule_set_for inputs i =
     (case i_rule_set i of
        None \<Rightarrow> Inr None
      | Some k \<Rightarrow> (case dict_get (in_rule_sets inputs) k of
            None \<Rightarrow> Inl (ValueError ''missing session_rule_set'') | Some row \<Rightarrow> Inr (Some row)))"

definition load_reconcile_inputs :: "db \<Rightarrow> int \<Rightarrow> int option \<Rightarrow> reconcile_inputs result" where
  "load_reconcile_inputs d sid target =
     (let all_instruments = filter (\<lambda>i. case target of None \<Rightarrow> True | Some k \<Rightarrow> i_id i = k)
            (sort_key (\<lambda>i. (i_order i, i_id i)) (session_instruments d sid));
          wanted = set (List.map_filter i_rule_set all_instruments)
      in if target \<noteq> None \<and> all_instruments = [] then Inl (ValueError ''instrument not found'')
         else Inr \<lparr>in_targets = all_instruments, in_reviewers = list_reviewers d sid, in_reviewees = list_reviewees d sid,
           in_lookup = pair_context_lookup d sid,
           in_rule_sets = dict_of sr_id id (filter (\<lambda>r. sr_id r \<in> wanted) (rule_sets d))\<rparr>)"

section \<open>The diff of one instrument\<close>

record instrument_diff =
  di_new :: "(id_pair \<times> reviewer \<times> reviewee \<times> bool) list"
  di_existing :: "(id_pair \<times> assignment) list"
  di_insert :: "id_pair list"
  di_delete :: "id_pair list"
  di_keep :: "id_pair list"
  di_responses_deleted :: nat
  di_pairs :: nat
  di_excluded :: "(string \<times> nat) list"

definition with_self_review_exclusions :: "(string \<times> nat) list \<Rightarrow> nat \<Rightarrow> (string \<times> nat) list" where
  "with_self_review_exclusions engine_counts excluded_by_rule =
     (if excluded_by_rule \<noteq> 0 then count_add ''self_review'' excluded_by_rule engine_counts else engine_counts)"

definition roster_key :: "instrument \<Rightarrow> (int \<times> int \<Rightarrow> relationship option) \<Rightarrow> reviewer \<Rightarrow> reviewee \<Rightarrow> string list" where
  "roster_key i lookup rv re =
     group_key_for_pair (Some re) (rr_id rv) (re_id re) (decode_group_kind (i_group_kind i)) lookup"

text \<open>The groups a reviewer is a member of, by the roster, the catch-all group aside.\<close>

definition self_review_groups ::
  "instrument \<Rightarrow> (int \<times> int \<Rightarrow> relationship option) \<Rightarrow> reviewer list \<Rightarrow> reviewee list \<Rightarrow> (int \<times> string list) set" where
  "self_review_groups i lookup rvs res =
     set (map (\<lambda>(rv, re). (rr_id rv, roster_key i lookup rv re))
       (filter (\<lambda>(rv, re). is_self_review rv re \<and> \<not> is_catch_all_key (roster_key i lookup rv re)) (List.product rvs res)))"

definition diff_self ::
  "instrument \<Rightarrow> (int \<times> int \<Rightarrow> relationship option) \<Rightarrow> reviewer list \<Rightarrow> reviewee list \<Rightarrow> candidate \<Rightarrow> bool" where
  "diff_self i lookup rvs res p =
     (if i_group_kind i \<noteq> None
      then (rr_id (fst p), roster_key i lookup (fst p) (snd p)) \<in> self_review_groups i lookup rvs res
      else is_self_review (fst p) (snd p))"

definition pair_include :: "instrument \<Rightarrow> bool \<Rightarrow> candidate \<Rightarrow> bool" where
  "pair_include i is_self p =
     ((if is_self then i_self_reviews i else True) \<and> reviewer_active (fst p) \<and> reviewee_active (snd p))"

definition instrument_rows :: "db \<Rightarrow> int \<Rightarrow> int \<Rightarrow> assignment list" where
  "instrument_rows d sid iid = filter (\<lambda>a. a_session a = sid \<and> a_instrument a = iid) (assignments d)"

definition diff_of ::
  "db \<Rightarrow> int \<Rightarrow> instrument \<Rightarrow> bool \<Rightarrow> reviewer list \<Rightarrow> reviewee list \<Rightarrow> (int \<times> int \<Rightarrow> relationship option)
     \<Rightarrow> evaluation \<Rightarrow> instrument_diff" where
  "diff_of d sid i exclude_self rvs res lookup ev =
     (let is_self = diff_self i lookup rvs res;
          kept = filter (\<lambda>p. \<not> (is_self p \<and> exclude_self)) (e_pairs ev);
          excluded_by_rule = length (filter (\<lambda>p. is_self p \<and> exclude_self) (e_pairs ev));
          new_pairs = dict_of pair_identity_key (\<lambda>p. (fst p, snd p, pair_include i (is_self p) p)) kept;
          existing = dict_of pair_of id (instrument_rows d sid (i_id i));
          to_delete = filter (\<lambda>k. k \<notin> set (dict_keys new_pairs)) (dict_keys existing);
          delete_ids = map (\<lambda>k. a_id (the (dict_get existing k))) to_delete
      in \<lparr>di_new = new_pairs, di_existing = existing,
          di_insert = filter (\<lambda>k. k \<notin> set (dict_keys existing)) (dict_keys new_pairs),
          di_delete = to_delete,
          di_keep = filter (\<lambda>k. k \<in> set (dict_keys existing)) (dict_keys new_pairs),
          di_responses_deleted = length (filter (\<lambda>r. r_assignment r \<in> set delete_ids) (responses d)),
          di_pairs = length new_pairs,
          di_excluded = with_self_review_exclusions (e_excluded ev) excluded_by_rule\<rparr>)"

definition diff_one_instrument ::
  "regex_search \<Rightarrow> sampler \<Rightarrow> (string \<Rightarrow> bool) \<Rightarrow> db \<Rightarrow> int \<Rightarrow> instrument \<Rightarrow> session_rule_set option
     \<Rightarrow> reviewer list \<Rightarrow> reviewee list \<Rightarrow> (int \<times> int \<Rightarrow> relationship option) \<Rightarrow> bool option \<Rightarrow> instrument_diff result" where
  "diff_one_instrument search sample compiles d sid i row rvs res lookup override =
     bindE (engine_schema compiles row)
       (\<lambda>(schema, revision_seed).
          bindE (evaluate search sample schema rvs res override revision_seed (Some lookup))
            (\<lambda>ev. Inr (diff_of d sid i (excludes_own row) rvs res lookup ev)))"

section \<open>Applying it\<close>

record reconcile_state =
  st_stale :: bool
  st_eligible :: nat
  st_self_reviews_excluded :: nat
  st_load_error :: "error option"

definition count_of :: "(string \<times> nat) list \<Rightarrow> string \<Rightarrow> nat" where
  "count_of counts k = (case dict_get counts k of None \<Rightarrow> 0 | Some n \<Rightarrow> n)"

definition delete_ids :: "instrument_diff \<Rightarrow> int list" where
  "delete_ids df = map (\<lambda>k. a_id (the (dict_get (di_existing df) k))) (di_delete df)"

definition insert_pairs :: "(assignment list \<Rightarrow> int) \<Rightarrow> int \<Rightarrow> int \<Rightarrow> instrument_diff \<Rightarrow> assignment list \<Rightarrow> assignment list" where
  "insert_pairs fresh sid iid df rows =
     foldl (\<lambda>as k. case dict_get (di_new df) k of
          None \<Rightarrow> as
        | Some (rv, re, inc) \<Rightarrow> as @ [\<lparr>a_id = fresh as, a_session = sid, a_reviewer = rr_id rv, a_reviewee = re_id re,
              a_instrument = iid, a_include = inc, a_self_review = False\<rparr>]) rows (di_insert df)"

text \<open>The rows of the kept pairs and the \<open>include\<close> each gets.\<close>

definition kept_includes :: "instrument_diff \<Rightarrow> (int \<times> bool) list" where
  "kept_includes df = map (\<lambda>k. (a_id (the (dict_get (di_existing df) k)), snd (snd (the (dict_get (di_new df) k))))) (di_keep df)"

definition keep_pairs :: "instrument_diff \<Rightarrow> assignment list \<Rightarrow> assignment list" where
  "keep_pairs df = map (\<lambda>a. case dict_get (kept_includes df) (a_id a) of None \<Rightarrow> a | Some inc \<Rightarrow> a\<lparr>a_include := inc\<rparr>)"

definition generated_payload :: "instrument_diff \<Rightarrow> nat \<Rightarrow> payload" where
  "generated_payload df cleared = Counts (
     [(''new'', int (length (di_insert df))), (''deleted'', int (length (di_delete df))), (''kept'', int (length (di_keep df))),
      (''responses_deleted'', int (di_responses_deleted df)), (''pairs'', int (di_pairs df)), (''instruments'', 1)]
     @ map (\<lambda>(reason, n). (''excluded_'' @ reason, int n)) (di_excluded df)
     @ (if cleared \<noteq> 0 then [(''group_responses_cleared'', int cleared)] else []))"

definition apply_diff ::
  "(assignment list \<Rightarrow> int) \<Rightarrow> int \<Rightarrow> instrument \<Rightarrow> instrument_diff \<Rightarrow> db \<Rightarrow> db" where
  "apply_diff fresh sid i df d =
     (let gone = set (delete_ids df);
          d1 = d\<lparr>responses := filter (\<lambda>r. r_assignment r \<notin> gone) (responses d),
                 assignments := filter (\<lambda>a. a_id a \<notin> gone) (assignments d)\<rparr>;
          d2 = d1\<lparr>assignments := insert_pairs fresh sid (i_id i) df (assignments d1)\<rparr>;
          d3 = d2\<lparr>assignments := keep_pairs df (assignments d2)\<rparr>
      in fst (recompute_self_review_classification sid d3))"

definition materialise_one_instrument ::
  "(assignment list \<Rightarrow> int) \<Rightarrow> regex_search \<Rightarrow> sampler \<Rightarrow> (string \<Rightarrow> bool) \<Rightarrow> int option \<Rightarrow> int \<Rightarrow> instrument
     \<Rightarrow> session_rule_set option \<Rightarrow> reviewer list \<Rightarrow> reviewee list \<Rightarrow> (int \<times> int \<Rightarrow> relationship option)
     \<Rightarrow> bool option \<Rightarrow> db \<Rightarrow> (db \<times> nat \<times> nat \<times> reconcile_state) result" where
  "materialise_one_instrument fresh search sample compiles user sid i row rvs res lookup override d =
     bindE (diff_one_instrument search sample compiles d sid i row rvs res lookup override) (\<lambda>df.
       let groups_before = (if i_group_kind i \<noteq> None \<and> di_insert df \<noteq> []
             then snapshot_group_partitions d sid {i_id i} else [])
       in bindE (clear_changed_groups (apply_diff fresh sid i df d) sid groups_before None) (\<lambda>(d', cleared).
            Inr (write_event ''assignments.generated'' user (Some sid) (generated_payload df cleared) None
                   ([(''instrument_id'', i_id i)] @ (case row of None \<Rightarrow> [] | Some r \<Rightarrow> [(''rule_set_id'', sr_id r)]))
                   ([(''mode'', JStr ''rule_based'')]
                      @ (case override of None \<Rightarrow> [] | Some b \<Rightarrow> [(''exclude_self_reviews'', JBool b)])) d',
                 length (di_delete df), length (di_insert df),
                 \<lparr>st_stale = False, st_eligible = di_pairs df,
                  st_self_reviews_excluded = count_of (di_excluded df) ''self_review'', st_load_error = None\<rparr>)))"

fun materialise_all ::
  "(assignment list \<Rightarrow> int) \<Rightarrow> regex_search \<Rightarrow> sampler \<Rightarrow> (string \<Rightarrow> bool) \<Rightarrow> int option \<Rightarrow> int \<Rightarrow> reconcile_inputs
     \<Rightarrow> bool option \<Rightarrow> instrument list \<Rightarrow> db \<times> nat \<times> nat \<Rightarrow> (db \<times> nat \<times> nat) result" where
  "materialise_all fresh search sample compiles user sid inputs override [] acc = Inr acc"
| "materialise_all fresh search sample compiles user sid inputs override (i # is) (d, replaced, new) =
     bindE (rule_set_for inputs i) (\<lambda>row.
     bindE (materialise_one_instrument fresh search sample compiles user sid i row
              (in_reviewers inputs) (in_reviewees inputs) (in_lookup inputs) override d)
       (\<lambda>(d', replaced_here, new_here, state).
          materialise_all fresh search sample compiles user sid inputs override is
            (d', replaced + replaced_here, new + new_here)))"

end
