(* ===== verification/Reconcile.thy ===== *)
theory Reconcile
  imports Assignment_Generation
begin

text \<open>
  The calls around the diff (\<open>app/services/assignments/_generate.py\<close>, \<open>_coverage.py\<close>,
  \<open>ensure_default_instrument\<close>): \<open>replace_assignments\<close>, its dry run \<open>reconcile_impact\<close>, the
  staleness verdict, the bulk toggle and the counts. The verdict's cache and the seeding of
  display fields are not modelled. A new row's id is the database's choice, here \<open>id_source\<close>.
\<close>

record id_source =
  new_instrument_id :: "instrument list \<Rightarrow> int"
  new_field_id :: "response_field list \<Rightarrow> int"
  new_assignment_id :: "assignment list \<Rightarrow> int"

section \<open>The default instrument\<close>

definition default_field :: "int \<Rightarrow> int \<Rightarrow> string \<Rightarrow> string \<Rightarrow> string \<Rightarrow> rat \<Rightarrow> rat \<Rightarrow> rat option \<Rightarrow> bool \<Rightarrow> int \<Rightarrow> response_field" where
  "default_field k iid key label data_type lo hi step required order =
     \<lparr>f_id = k, f_instrument = iid, f_key = key, f_label = label, f_required = required, f_order = order, f_visible = True,
      f_branch_parent = None, f_branch_op = None, f_branch_value = None, f_branch_mode = None,
      f_data_type = Some data_type, f_min = Some lo, f_max = Some hi, f_step = step, f_list_csv = None\<rparr>"

text \<open>\<open>DEFAULT_RESPONSE_FIELDS\<close>, on an instrument, under the ids the rows get.\<close>

definition DEFAULT_RESPONSE_FIELDS :: "(int \<Rightarrow> int \<Rightarrow> response_field) list" where
  "DEFAULT_RESPONSE_FIELDS =
     [\<lambda>iid k. default_field k iid ''rating'' ''Rating'' ''Integer'' 1 5 (Some 1) True 1,
      \<lambda>iid k. default_field k iid ''comments'' ''Comments'' ''String'' 0 2000 None False 2]"

definition default_instrument :: "int \<Rightarrow> int \<Rightarrow> bool \<Rightarrow> instrument" where
  "default_instrument k sid self_reviews = \<lparr>i_id = k, i_session = sid, i_order = 0, i_accepting = False, i_deadline_closed_at = None,
     i_starts_new_page = False, i_group_kind = None, i_rule_set = None, i_self_reviews = self_reviews\<rparr>"

text \<open>The seed of \<open>self_reviews_active\<close>: the session's, \<open>True\<close> when there is no such row.\<close>

definition session_self_reviews_active :: "db \<Rightarrow> int \<Rightarrow> bool" where
  "session_self_reviews_active d sid = (case sessions d sid of None \<Rightarrow> True | Some s \<Rightarrow> s_self_reviews s)"

definition ensure_default_instrument :: "id_source \<Rightarrow> int \<Rightarrow> db \<Rightarrow> db \<times> instrument" where
  "ensure_default_instrument ids sid d =
     (let (d, i) = (case sort_key i_id (session_instruments d sid) of
            i # _ \<Rightarrow> (d, i)
          | [] \<Rightarrow> (let i = default_instrument (new_instrument_id ids (instruments d)) sid (session_self_reviews_active d sid)
                  in (d\<lparr>instruments := instruments d @ [i]\<rparr>, i)));
          has_fields = list_ex (\<lambda>f. f_instrument f = i_id i) (fields_tbl d)
      in (if has_fields then d
          else d\<lparr>fields_tbl := foldl (\<lambda>fs spec. fs @ [spec (i_id i) (new_field_id ids fs)]) (fields_tbl d) DEFAULT_RESPONSE_FIELDS\<rparr>,
          i))"

section \<open>Generate\<close>

text \<open>
  The gate after a run: a row whose stored flag is not the classification is an error under
  test, corrected in production.
\<close>

definition drift_gate :: "bool \<Rightarrow> int \<Rightarrow> db \<Rightarrow> db result" where
  "drift_gate test_env sid d =
     (if verify_self_review_classification d sid = [] then Inr d
      else if test_env then Inl AssertionError
      else Inr (fst (recompute_self_review_classification sid d)))"

definition replace_assignments ::
  "id_source \<Rightarrow> bool \<Rightarrow> regex_search \<Rightarrow> sampler \<Rightarrow> (string \<Rightarrow> bool) \<Rightarrow> int option \<Rightarrow> int option \<Rightarrow> bool option
     \<Rightarrow> int \<Rightarrow> db \<Rightarrow> (db \<times> nat \<times> nat) result" where
  "replace_assignments ids test_env search sample compiles user target override sid d =
     bindE (require_editable d sid) (\<lambda>_.
       let d = fst (ensure_default_instrument ids sid d)
       in bindE (load_reconcile_inputs d sid target) (\<lambda>inputs.
            if in_targets inputs = [] then Inr (d, 0, 0)
            else bindE (materialise_all (new_assignment_id ids) search sample compiles user sid inputs override
                          (in_targets inputs) (invalidate_if_validated user ''assignments_generated'' sid d, 0, 0))
              (\<lambda>(d, replaced, new). bindE (drift_gate test_env sid d) (\<lambda>d. Inr (d, replaced, new)))))"

section \<open>The dry run\<close>

record impact =
  im_new :: nat
  im_deleted :: nat
  im_kept :: nat
  im_responses_deleted :: nat
  im_group_responses_cleared :: nat

definition responses_lost :: "impact \<Rightarrow> nat" where
  "responses_lost im = im_responses_deleted im + im_group_responses_cleared im"

text \<open>The groups the kept and new pairs would form.\<close>

definition projected_groups ::
  "instrument \<Rightarrow> (int \<times> int \<Rightarrow> relationship option) \<Rightarrow> instrument_diff \<Rightarrow> id_pair list list" where
  "projected_groups i lookup df =
     map snd (group_into (\<lambda>k. case the (dict_get (di_new df) k) of (rv, re, _) \<Rightarrow> (rr_id rv, roster_key i lookup rv re)) id
       (di_keep df @ di_insert df))"

definition projected_changed ::
  "instrument \<Rightarrow> (int \<times> int \<Rightarrow> relationship option) \<Rightarrow> instrument_diff \<Rightarrow> pair list list \<Rightarrow> int set" where
  "projected_changed i lookup df before =
     (let origin_of = origins before
      in (\<Union>members \<in> set (filter (\<lambda>g. \<not> keeps_answer g origin_of) (projected_groups i lookup df)).
            (\<lambda>k. a_id (the (dict_get (di_existing df) k))) ` (set members \<inter> set (di_keep df))))"

definition projected_group_clears ::
  "db \<Rightarrow> int \<Rightarrow> instrument \<Rightarrow> instrument_diff \<Rightarrow> (int \<times> int \<Rightarrow> relationship option) \<Rightarrow> nat" where
  "projected_group_clears d sid i df lookup =
     (if i_group_kind i = None \<or> di_insert df = [] then 0
      else (case dict_get (snapshot_group_partitions d sid {i_id i}) (i_id i) of
          None \<Rightarrow> 0
        | Some before \<Rightarrow> if before = [] then 0
            else length (filter (\<lambda>r. r_assignment r \<in> projected_changed i lookup df before) (responses d))))"

definition add_impact :: "impact \<Rightarrow> instrument_diff \<Rightarrow> nat \<Rightarrow> impact" where
  "add_impact im df cleared = \<lparr>im_new = im_new im + length (di_insert df), im_deleted = im_deleted im + length (di_delete df),
     im_kept = im_kept im + length (di_keep df), im_responses_deleted = im_responses_deleted im + di_responses_deleted df,
     im_group_responses_cleared = im_group_responses_cleared im + cleared\<rparr>"

fun impact_loop ::
  "regex_search \<Rightarrow> sampler \<Rightarrow> (string \<Rightarrow> bool) \<Rightarrow> db \<Rightarrow> int \<Rightarrow> reconcile_inputs \<Rightarrow> bool option
     \<Rightarrow> instrument list \<Rightarrow> impact \<Rightarrow> impact result" where
  "impact_loop search sample compiles d sid inputs override [] im = Inr im"
| "impact_loop search sample compiles d sid inputs override (i # is) im =
     bindE (rule_set_for inputs i) (\<lambda>row.
     bindE (diff_one_instrument search sample compiles d sid i row
              (in_reviewers inputs) (in_reviewees inputs) (in_lookup inputs) override)
       (\<lambda>df. impact_loop search sample compiles d sid inputs override is
               (add_impact im df (projected_group_clears d sid i df (in_lookup inputs)))))"

definition reconcile_impact ::
  "regex_search \<Rightarrow> sampler \<Rightarrow> (string \<Rightarrow> bool) \<Rightarrow> int option \<Rightarrow> bool option \<Rightarrow> int \<Rightarrow> db \<Rightarrow> impact result" where
  "reconcile_impact search sample compiles target override sid d =
     bindE (load_reconcile_inputs d sid target) (\<lambda>inputs.
       impact_loop search sample compiles d sid inputs override (in_targets inputs)
         \<lparr>im_new = 0, im_deleted = 0, im_kept = 0, im_responses_deleted = 0, im_group_responses_cleared = 0\<rparr>)"

section \<open>Staleness\<close>

text \<open>\<open>Counter(...)[key]\<close>.\<close>

definition counter :: "string list \<Rightarrow> string \<Rightarrow> nat" where
  "counter xs k = length (filter (\<lambda>x. x = k) xs)"

definition never_generated_excluded :: "reviewer list \<Rightarrow> reviewee list \<Rightarrow> nat" where
  "never_generated_excluded rvs res =
     (let address = (\<lambda>e. normalize_email (Some (re_identifier e))); bound = (\<lambda>e. or_empty (re_object_id e) \<noteq> []);
          by_address = counter (map address res);
          unbound_by_address = counter (map address (filter (\<lambda>e. \<not> bound e) res));
          by_account = counter (map (\<lambda>e. normalize_object_id (re_object_id e)) (filter bound res))
      in foldl (\<lambda>excluded r.
           let a = normalize_email (Some (rr_email r)) in
           if or_empty (rr_object_id r) \<noteq> []
           then excluded + by_account (normalize_object_id (rr_object_id r)) + (if a \<noteq> [] then unbound_by_address a else 0)
           else if a \<noteq> [] then excluded + by_address a else excluded) 0 rvs)"

text \<open>\<open>total - excluded\<close> is an integer; the count never exceeds the total.\<close>

definition full_matrix_never_generated_state :: "reviewer list \<Rightarrow> reviewee list \<Rightarrow> bool option \<Rightarrow> reconcile_state" where
  "full_matrix_never_generated_state rvs res override =
     (let total = length rvs * length res;
          excluded = (if override = Some True then never_generated_excluded rvs res else 0)
      in \<lparr>st_stale = False, st_eligible = total - excluded, st_self_reviews_excluded = excluded, st_load_error = None\<rparr>)"

definition rule_set_load_error :: "(string \<Rightarrow> bool) \<Rightarrow> session_rule_set \<Rightarrow> error \<Rightarrow> error" where
  "rule_set_load_error compiles row e =
     (case rules_payload_error compiles (sr_rules row) of Some (Some reason) \<Rightarrow> reason | _ \<Rightarrow> e)"

definition verdict_of_diff :: "instrument_diff \<Rightarrow> reconcile_state" where
  "verdict_of_diff df = \<lparr>st_stale = di_existing df \<noteq> [] \<and> (di_insert df \<noteq> [] \<or> di_delete df \<noteq> []), st_eligible = di_pairs df,
     st_self_reviews_excluded = count_of (di_excluded df) ''self_review'', st_load_error = None\<rparr>"

definition instrument_verdict ::
  "regex_search \<Rightarrow> sampler \<Rightarrow> (string \<Rightarrow> bool) \<Rightarrow> db \<Rightarrow> int \<Rightarrow> reconcile_inputs \<Rightarrow> bool option \<Rightarrow> instrument
     \<Rightarrow> reconcile_state result" where
  "instrument_verdict search sample compiles d sid inputs override i =
     bindE (rule_set_for inputs i) (\<lambda>row.
       if row = None \<and> instrument_rows d sid (i_id i) = []
       then Inr (full_matrix_never_generated_state (in_reviewers inputs) (in_reviewees inputs) override)
       else (case diff_one_instrument search sample compiles d sid i row
                    (in_reviewers inputs) (in_reviewees inputs) (in_lookup inputs) override of
           Inr df \<Rightarrow> Inr (verdict_of_diff df)
         | Inl e \<Rightarrow> (case (e, row) of
               (ValueError _, Some r) \<Rightarrow> Inr \<lparr>st_stale = False, st_eligible = 0, st_self_reviews_excluded = 0,
                  st_load_error = Some (rule_set_load_error compiles r e)\<rparr>
             | _ \<Rightarrow> Inl e)))"

definition staleness_by_instrument ::
  "regex_search \<Rightarrow> sampler \<Rightarrow> (string \<Rightarrow> bool) \<Rightarrow> bool option \<Rightarrow> int \<Rightarrow> db \<Rightarrow> (int \<times> reconcile_state) list result" where
  "staleness_by_instrument search sample compiles override sid d =
     bindE (load_reconcile_inputs d sid None) (\<lambda>inputs.
       bindE (all_results (map (\<lambda>i. bindE (instrument_verdict search sample compiles d sid inputs override i)
                (\<lambda>st. Inr (i_id i, st))) (in_targets inputs)))
         (\<lambda>verdicts. Inr (dict_of fst snd verdicts)))"

section \<open>The bulk toggle and the counts\<close>

text \<open>Both sides of a row are there: the columns are foreign keys.\<close>

definition both_active :: "db \<Rightarrow> assignment \<Rightarrow> bool" where
  "both_active d a =
     (case (reviewer_by_id d (a_reviewer a), reviewee_by_id d (a_reviewee a)) of
        (Some rv, Some re) \<Rightarrow> reviewer_active rv \<and> reviewee_active re | _ \<Rightarrow> False)"

definition bulk_set_assignment_include :: "int option \<Rightarrow> int \<Rightarrow> int list \<Rightarrow> bool \<Rightarrow> db \<Rightarrow> (db \<times> nat) result" where
  "bulk_set_assignment_include user sid ids inc d =
     bindE (require_editable d sid) (\<lambda>_.
       if ids = [] then Inr (d, 0)
       else
         let rows = filter (\<lambda>a. a_session a = sid \<and> a_id a \<in> set ids) (assignments d);
             skipped = filter (\<lambda>a. inc \<and> \<not> both_active d a) rows;
             flips = filter (\<lambda>a. \<not> (inc \<and> \<not> both_active d a) \<and> a_include a \<noteq> inc) rows;
             d' = d\<lparr>assignments := map (\<lambda>a. if a_id a \<in> a_id ` set flips then a\<lparr>a_include := inc\<rparr> else a) (assignments d)\<rparr>
         in Inr (write_event ''assignments.bulk_include_set'' user (Some sid)
                   (Counts [(''flipped'', int (length flips)),
                            (''skipped_inactive'', int (length (filter (\<lambda>a. \<not> a_include a) skipped)))])
                   None [] [(''include'', JBool inc)] d',
                 length flips))"

definition generate_full_matrix :: "reviewer list \<Rightarrow> reviewee list \<Rightarrow> bool \<Rightarrow> candidate list \<times> (string \<times> nat) list" where
  "generate_full_matrix rvs res exclude_self =
     (let inactive_reviewers = length (filter (\<lambda>r. \<not> reviewer_active r) rvs);
          inactive_reviewees = length (filter (\<lambda>r. \<not> reviewee_active r) res);
          candidates = List.product (sort_key rr_id (filter reviewer_active rvs)) (sort_key re_id (filter reviewee_active res));
          dropped = filter (\<lambda>(rv, re). exclude_self \<and> is_self_review rv re) candidates
      in (filter (\<lambda>(rv, re). \<not> (exclude_self \<and> is_self_review rv re)) candidates,
          (if dropped \<noteq> [] then [(''self_review'', length dropped)] else [])
          @ (if inactive_reviewers \<noteq> 0 then [(''inactive_reviewer'', inactive_reviewers)] else [])
          @ (if inactive_reviewees \<noteq> 0 then [(''inactive_reviewee'', inactive_reviewees)] else [])))"

definition existing_count :: "db \<Rightarrow> int \<Rightarrow> int option \<Rightarrow> nat" where
  "existing_count d sid iid = length (filter (\<lambda>a. a_session a = sid \<and> (iid = None \<or> Some (a_instrument a) = iid)) (assignments d))"

definition existing_count_per_instrument :: "db \<Rightarrow> int \<Rightarrow> (int \<times> nat) list" where
  "existing_count_per_instrument d sid =
     map (\<lambda>(k, as). (k, length as)) (group_into a_instrument id (filter (\<lambda>a. a_session a = sid) (assignments d)))"

definition included_count_per_instrument :: "db \<Rightarrow> int \<Rightarrow> (int \<times> nat) list" where
  "included_count_per_instrument d sid =
     map (\<lambda>(k, as). (k, length as)) (group_into a_instrument id (filter (\<lambda>a. a_session a = sid \<and> a_include a) (assignments d)))"

end
