(* ===== verification/Reconcile_Facts.thy ===== *)
theory Reconcile_Facts
  imports Reconcile
begin

text \<open>
  What a diff holds and what applying it leaves: the facts behind the properties of
  \<open>Generation_Properties\<close>.
\<close>

section \<open>A run emits pairs of the rosters\<close>

lemma one_rule_subset:
  "apply_one_content_rule search bound cs r = Inr (kept, n) \<Longrightarrow> set kept \<subseteq> set cs"
  by (auto simp: apply_one_content_rule_def Let_def dest!: set_zip_leftD [of "(_, _)"])

lemma all_of_subset:
  "all_of_loop search bound rs cs counts = Inr (kept, c) \<Longrightarrow> set kept \<subseteq> set cs"
proof (induction rs arbitrary: cs counts)
  case (Cons r rs)
  then obtain s n where one: "apply_one_content_rule search bound cs r = Inr (s, n)" by (auto simp: split_beta)
  with Cons.prems have "set kept \<subseteq> set s" by (intro Cons.IH) simp
  then show ?case using one_rule_subset [OF one] by blast
qed simp

lemma entry_put: "(k', v') \<in> set (dict_put k v d) \<Longrightarrow> v' = v \<or> (\<exists>j. (j, v') \<in> set d)"
  by (induction d) (auto split: if_splits)

lemma values_put: "snd ` set (dict_put k v d) \<subseteq> insert v (snd ` set d)"
proof
  fix x
  assume "x \<in> snd ` set (dict_put k v d)"
  then obtain k' where "(k', x) \<in> set (dict_put k v d)" by auto
  from entry_put [OF this] show "x \<in> insert v (snd ` set d)" by (auto intro: rev_image_eqI)
qed

lemma values_puts: "snd ` set (foldl put_pair w ps) \<subseteq> set ps \<union> snd ` set w"
proof (induction ps arbitrary: w)
  case (Cons p ps)
  have "snd ` set (put_pair w p) \<subseteq> insert p (snd ` set w)" by (rule values_put)
  moreover have "snd ` set (foldl put_pair (put_pair w p) ps) \<subseteq> set ps \<union> snd ` set (put_pair w p)" by (rule Cons)
  ultimately show ?case by (simp only: foldl.simps list.set) blast
qed simp

lemma any_of_subset:
  "any_of_loop search bound cs rs kept = Inr out \<Longrightarrow> snd ` set out \<subseteq> set cs \<union> snd ` set kept"
proof (induction rs arbitrary: kept)
  case (Cons r rs)
  then obtain s n where one: "apply_one_content_rule search bound cs r = Inr (s, n)" by (auto simp: split_beta)
  with Cons.prems have "snd ` set out \<subseteq> set cs \<union> snd ` set (foldl put_pair kept s)" by (intro Cons.IH) simp
  then show ?case using one_rule_subset [OF one] values_puts [of kept s] by blast
qed simp

lemma pipeline_filter_subset:
  "pipeline_filter search bound r ps (w, c) = Inr (w', c') \<Longrightarrow> set w' \<subseteq> set w"
proof (induction ps arbitrary: w c)
  case (Cons p ps)
  then obtain v where v: "content_rule_matches search bound p r = Inr v" by auto
  show ?case using Cons.prems v
    by (auto split: if_splits dest!: Cons.IH simp: dict_pop_def)
qed simp

lemma pipeline_match_subset:
  "pipeline_match search bound r ps w = Inr w' \<Longrightarrow> snd ` set w' \<subseteq> set ps \<union> snd ` set w"
proof (induction ps arbitrary: w)
  case (Cons p ps)
  then obtain v where v: "content_rule_matches search bound p r = Inr v" by auto
  with Cons.prems have "snd ` set w' \<subseteq> set ps \<union> snd ` set (if v then put_pair w p else w)" by (intro Cons.IH) simp
  moreover have "snd ` set (put_pair w p) \<subseteq> insert p (snd ` set w)" by (rule values_put)
  ultimately show ?case by (cases v) (simp_all only: if_True if_False list.set, blast+)
qed simp

lemma pipeline_subset:
  "pipeline_loop search bound cs rs (w, c) = Inr (w', c') \<Longrightarrow> snd ` set w' \<subseteq> set cs \<union> snd ` set w"
proof (induction rs arbitrary: w c)
  case (Cons r rs)
  show ?case
  proof (cases "is_filter_rule r")
    case True
    with Cons.prems obtain w1 c1 where one: "pipeline_filter search bound r (map snd w) (w, c) = Inr (w1, c1)"
      "pipeline_loop search bound cs rs (w1, c1) = Inr (w', c')" by auto
    have "set w1 \<subseteq> set w" using pipeline_filter_subset [OF one(1)] .
    then show ?thesis using Cons.IH [OF one(2)] by blast
  next
    case False
    with Cons.prems obtain w1 where one: "pipeline_match search bound r cs w = Inr w1"
      "pipeline_loop search bound cs rs (w1, c) = Inr (w', c')" by auto
    then show ?thesis using Cons.IH [OF one(2)] pipeline_match_subset [OF one(1)] by blast
  qed
qed simp

lemma content_rules_subset:
  assumes "apply_content_rules search bound cs rules comb = Inr (kept, c)"
  shows "set kept \<subseteq> set cs"
proof (cases "rules = []")
  case True
  then show ?thesis using assms by (simp add: apply_content_rules_def)
next
  case False
  show ?thesis
  proof (cases comb)
    case ALL_OF
    then show ?thesis using assms False all_of_subset by (auto simp: apply_content_rules_def)
  next
    case ANY_OF
    with assms False obtain out where "any_of_loop search bound cs rules [] = Inr out" "set kept = snd ` set out"
      by (auto simp: apply_content_rules_def Let_def)
    from any_of_subset [OF this(1)] this(2) show ?thesis by simp
  next
    case PIPELINE
    with assms False obtain w where "pipeline_loop search bound cs rules (dict_of pair_identity_key id cs, []) = Inr (w, c)"
      "set kept = snd ` set w" by (auto simp: apply_content_rules_def split_beta)
    from pipeline_subset [OF this(1)] this(2) have "set kept \<subseteq> set cs \<union> snd ` set (dict_of pair_identity_key id cs)" by simp
    moreover have "snd ` set (dict_of pair_identity_key id cs) \<subseteq> set cs"
      using values_puts [of "[]" cs] by (simp add: dict_of_def id_def)
    ultimately show ?thesis by blast
  qed
qed

lemma evaluate_subset:
  assumes "evaluate search sample rs rvs res override seed bound = Inr ev" "samples sample"
    and "list_all (\<lambda>r. validate_rule compiles r = Inr ()) (ru_rules rs)"
  shows "set (e_pairs ev) \<subseteq> set (List.product rvs res)"
proof -
  obtain s1 c1 where content: "apply_content_rules search bound (candidates_of override rs rvs res)
      (content_of (ru_rules rs)) (ru_combinator rs) = Inr (s1, c1)"
    using assms(1) unfolding evaluate_candidates by (auto simp: split_beta)
  have quotas: "\<forall>rq \<in> set (live_quotas rs). validate_quota (snd rq) = Inr ()"
    using valid_quotas [OF assms(3)] by blast
  define s where "s = (case ru_seed rs of Some s \<Rightarrow> s | None \<Rightarrow> seed)"
  define c2 where "c2 = foldl (\<lambda>c (k, n). count_add k n c) (self_counts override rs rvs res) c1"
  obtain s2 c3 w where rounds: "foldl (quota_round sample s) (s1, c2, []) (live_quotas rs) = (s2, c3, w)" "mset s2 \<subseteq># mset s1"
    using quota_rounds [OF assms(2) quotas, of s s1 c2 "[]"] by blast
  note run = assms(1) [unfolded evaluate_candidates content, unfolded s_def [symmetric] bindE_simps prod.case,
      unfolded c2_def [symmetric], unfolded rounds(1) Let_def prod.case]
  have "e_pairs ev = (if live_quotas rs = [] then sort_key pair_sort_key s2 else s2)"
    by (simp only: Inr_inject [OF run, symmetric] evaluation.select_convs)
  then have "set (e_pairs ev) = set s2" by simp
  also have "\<dots> \<subseteq> set s1" using set_mset_mono [OF rounds(2)] by simp
  also have "\<dots> \<subseteq> set (candidates_of override rs rvs res)" by (rule content_rules_subset [OF content])
  also have "\<dots> \<subseteq> set (List.product rvs res)" by (auto simp: candidates_of_def Let_def)
  finally show ?thesis .
qed

section \<open>What a diff holds\<close>

lemma dict_put_new: "k \<notin> set (dict_keys d) \<Longrightarrow> dict_put k v d = d @ [(k, v)]"
  by (induction d) (auto simp: dict_keys_def)

lemma dict_of_distinct: "distinct (map key xs) \<Longrightarrow> dict_of key val xs = map (\<lambda>x. (key x, val x)) xs"
proof (induction xs rule: rev_induct)
  case (snoc x xs)
  have "dict_of key val (xs @ [x]) = dict_put (key x) (val x) (dict_of key val xs)" by (simp add: dict_of_def)
  also have "dict_of key val xs = map (\<lambda>x. (key x, val x)) xs" using snoc by simp
  also have "dict_put (key x) (val x) \<dots> = \<dots> @ [(key x, val x)]"
    using snoc.prems by (intro dict_put_new) (simp add: dict_keys_def comp_def)
  finally show ?case by simp
qed (simp add: dict_of_def)

lemma rows_distinct:
  assumes "keyed_assignments d"
  shows "distinct (map pair_of (instrument_rows d sid iid))" "distinct (map a_id (instrument_rows d sid iid))"
proof -
  have rows: "instrument_rows d sid iid = filter (\<lambda>a. a_session a = sid) (instrument_members d iid)"
    by (simp add: instrument_rows_def instrument_members_def conj_commute)
  show "distinct (map pair_of (instrument_rows d sid iid))" "distinct (map a_id (instrument_rows d sid iid))"
    using members_distinct [OF assms, of iid] by (simp_all add: rows distinct_map_filter)
qed

definition new_keys :: "instrument_diff \<Rightarrow> id_pair set" where
  "new_keys df = set (dict_keys (di_new df))"

lemma diff_parts:
  assumes "keyed_assignments d" and df: "df = diff_of d sid i ex rvs res lookup ev"
  defines "R \<equiv> instrument_rows d sid (i_id i)"
  shows "di_existing df = map (\<lambda>a. (pair_of a, a)) R"
    and "di_delete df = map pair_of (filter (\<lambda>a. pair_of a \<notin> new_keys df) R)"
    and "delete_ids df = map a_id (filter (\<lambda>a. pair_of a \<notin> new_keys df) R)"
    and "di_insert df = filter (\<lambda>k. k \<notin> pair_of ` set R) (dict_keys (di_new df))"
    and "di_keep df = filter (\<lambda>k. k \<in> pair_of ` set R) (dict_keys (di_new df))"
    and "di_responses_deleted df = length (filter (\<lambda>r. r_assignment r \<in> set (delete_ids df)) (responses d))"
    and "di_pairs df = length (di_new df)"
proof -
  have ex: "di_existing df = dict_of pair_of id R" by (simp add: df diff_of_def Let_def R_def)
  show existing: "di_existing df = map (\<lambda>a. (pair_of a, a)) R"
    unfolding ex using dict_of_distinct [OF rows_distinct(1) [OF assms(1)], of id] by (simp add: R_def)
  then have keys: "dict_keys (di_existing df) = map pair_of R" by (simp add: dict_keys_def comp_def)
  show delete: "di_delete df = map pair_of (filter (\<lambda>a. pair_of a \<notin> new_keys df) R)"
  proof -
    have "di_delete df = filter (\<lambda>k. k \<notin> new_keys df) (dict_keys (di_existing df))"
      by (simp add: df diff_of_def Let_def new_keys_def)
    then show ?thesis by (simp add: keys filter_map comp_def)
  qed
  have get: "dict_get (di_existing df) (pair_of a) = Some a" if "a \<in> set R" for a
    using that rows_distinct(1) [OF assms(1), of sid "i_id i"]
    by (auto simp: existing dict_get_def R_def comp_def intro!: map_of_is_SomeI)
  show ids: "delete_ids df = map a_id (filter (\<lambda>a. pair_of a \<notin> new_keys df) R)"
    unfolding delete_ids_def delete map_map comp_def by (rule map_cong [OF refl]) (simp add: get)
  show "di_insert df = filter (\<lambda>k. k \<notin> pair_of ` set R) (dict_keys (di_new df))"
    "di_keep df = filter (\<lambda>k. k \<in> pair_of ` set R) (dict_keys (di_new df))"
    using keys by (simp_all add: df diff_of_def Let_def R_def)
  show "di_responses_deleted df = length (filter (\<lambda>r. r_assignment r \<in> set (delete_ids df)) (responses d))"
    by (simp add: df diff_of_def Let_def delete_ids_def)
  show "di_pairs df = length (di_new df)" by (simp add: df diff_of_def Let_def)
qed

text \<open>An entry of \<open>new_pairs\<close> is an emitted pair, under its identity, with its \<open>include\<close>.\<close>

lemma diff_new_entry:
  assumes "(k, rv, re, inc) \<in> set (di_new (diff_of d sid i ex rvs res lookup ev))"
  shows "k = (rr_id rv, re_id re)" and "(rv, re) \<in> set (e_pairs ev)"
    and "inc = pair_include i (diff_self i lookup rvs res (rv, re)) (rv, re)"
    and "\<not> (ex \<and> diff_self i lookup rvs res (rv, re))"
proof -
  let ?self = "diff_self i lookup rvs res"
  let ?val = "\<lambda>p. (fst p, snd p, pair_include i (?self p) p)"
  let ?kept = "filter (\<lambda>p. \<not> (?self p \<and> ex)) (e_pairs ev)"
  have new: "di_new (diff_of d sid i ex rvs res lookup ev) = dict_of pair_identity_key ?val ?kept"
    by (simp add: diff_of_def Let_def)
  have "dict_get (dict_of pair_identity_key ?val ?kept) k = Some (rv, re, inc)"
    using assms unfolding new dict_items [OF dict_of_keys(2)] .
  then obtain p where p: "p \<in> set ?kept" "pair_identity_key p = k" "?val p = (rv, re, inc)"
    by (auto simp: dict_of_get Let_def split: if_splits dest!: last_in_set)
  then show "k = (rr_id rv, re_id re)" "(rv, re) \<in> set (e_pairs ev)"
    "inc = pair_include i (?self (rv, re)) (rv, re)" "\<not> (ex \<and> ?self (rv, re))"
    by (auto simp: pair_identity_key_def)
qed

lemma diff_new_keys:
  shows "new_keys (diff_of d sid i ex rvs res lookup ev)
     = pair_identity_key ` {p \<in> set (e_pairs ev). \<not> (ex \<and> diff_self i lookup rvs res p)}"
    and "distinct (dict_keys (di_new (diff_of d sid i ex rvs res lookup ev)))"
  by (auto simp: new_keys_def diff_of_def Let_def dict_of_keys)

section \<open>The rows after it is applied\<close>

definition fresh_ids :: "(assignment list \<Rightarrow> int) \<Rightarrow> bool" where
  "fresh_ids fresh \<longleftrightarrow> (\<forall>as. 0 \<le> fresh as \<and> fresh as \<notin> a_id ` set as)"

definition keyed_pairs :: "instrument_diff \<Rightarrow> bool" where
  "keyed_pairs df \<longleftrightarrow> distinct (dict_keys (di_new df)) \<and> (\<forall>(k, rv, re, inc) \<in> set (di_new df). k = (rr_id rv, re_id re))"

lemma keyed_pairs_diff: "keyed_pairs (diff_of d sid i ex rvs res lookup ev)"
  using diff_new_entry(1) diff_new_keys(2) unfolding keyed_pairs_def by blast

text \<open>The rows an insert adds, in the order of their pairs.\<close>

definition inserted :: "int \<Rightarrow> int \<Rightarrow> instrument_diff \<Rightarrow> assignment \<Rightarrow> bool" where
  "inserted sid iid df a \<longleftrightarrow> a_session a = sid \<and> a_instrument a = iid \<and> \<not> a_self_review a \<and> 0 \<le> a_id a
     \<and> (\<exists>rv re. dict_get (di_new df) (pair_of a) = Some (rv, re, a_include a))"

lemma insert_pairs_rows:
  assumes "fresh_ids fresh" "keyed_pairs df" "set (di_insert df) \<subseteq> new_keys df" "distinct (map a_id rows)"
  obtains new where "insert_pairs fresh sid iid df rows = rows @ new" "map pair_of new = di_insert df"
    "distinct (map a_id (rows @ new))" "\<forall>a \<in> set new. inserted sid iid df a"
proof -
  let ?step = "\<lambda>as k. case dict_get (di_new df) k of None \<Rightarrow> as
      | Some (rv, re, inc) \<Rightarrow> as @ [\<lparr>a_id = fresh as, a_session = sid, a_reviewer = rr_id rv, a_reviewee = re_id re,
              a_instrument = iid, a_include = inc, a_self_review = False\<rparr>]"
  have "\<exists>new. foldl ?step rows ks = rows @ new \<and> map pair_of new = ks \<and> distinct (map a_id (rows @ new))
      \<and> (\<forall>a \<in> set new. inserted sid iid df a)"
    if "set ks \<subseteq> new_keys df" for ks
    using that
  proof (induction ks rule: rev_induct)
    case (snoc k ks)
    then obtain new where new: "foldl ?step rows ks = rows @ new" "map pair_of new = ks" "distinct (map a_id (rows @ new))"
      "\<forall>a \<in> set new. inserted sid iid df a" by auto
    have "k \<in> dom (dict_get (di_new df))" using snoc.prems by (simp add: dom_dict_get new_keys_def)
    then obtain rv re inc where get: "dict_get (di_new df) k = Some (rv, re, inc)" by auto
    then have k: "k = (rr_id rv, re_id re)" using assms(2) map_of_dict [OF get] by (auto simp: keyed_pairs_def)
    define a where "a = \<lparr>a_id = fresh (rows @ new), a_session = sid, a_reviewer = rr_id rv, a_reviewee = re_id re,
              a_instrument = iid, a_include = inc, a_self_review = False\<rparr>"
    have fresh: "0 \<le> fresh (rows @ new)" "fresh (rows @ new) \<notin> a_id ` set (rows @ new)"
      using assms(1) unfolding fresh_ids_def by blast+
    have "foldl ?step rows (ks @ [k]) = rows @ new @ [a]" by (simp add: new(1) get a_def)
    moreover have "map pair_of (new @ [a]) = ks @ [k]" using new(2) k by (simp add: a_def)
    moreover have "distinct (map a_id (rows @ new @ [a]))" using new(3) fresh(2) by (auto simp: a_def)
    moreover have "inserted sid iid df a" using fresh(1) get k by (simp add: inserted_def a_def)
    ultimately show ?case using new(4) by (intro exI [of _ "new @ [a]"]) simp
  qed (use assms(4) in simp)
  from this [OF assms(3)] show thesis using that unfolding insert_pairs_def by blast
qed

text \<open>A row without the two flags a run may change.\<close>

definition skel :: "assignment \<Rightarrow> assignment" where
  "skel a = a\<lparr>a_include := False, a_self_review := False\<rparr>"

lemma skel_simps [simp]:
  "a_id (skel a) = a_id a" "a_session (skel a) = a_session a" "a_reviewer (skel a) = a_reviewer a"
  "a_reviewee (skel a) = a_reviewee a" "a_instrument (skel a) = a_instrument a"
  by (simp_all add: skel_def)

lemma skel_update [simp]: "skel (a\<lparr>a_include := b\<rparr>) = skel a" "skel (a\<lparr>a_self_review := c\<rparr>) = skel a"
  by (simp_all add: skel_def)

lemma skel_idem [simp]: "skel (skel a) = skel a"
  by (simp add: skel_def)

lemma keep_pairs_skel [simp]: "map skel (keep_pairs df as) = map skel as"
  by (simp add: keep_pairs_def split: option.split)

lemma update_rows_skel [simp]: "map skel (update_rows ch as) = map skel as"
  by (auto simp: update_rows_def skel_def split: option.split)

lemma recompute_simps [simp]:
  "assignments (fst (recompute_self_review_classification sid d)) = update_rows (changed_rows d sid) (assignments d)"
  "responses (fst (recompute_self_review_classification sid d)) = responses d"
  "reviewers (fst (recompute_self_review_classification sid d)) = reviewers d"
  "reviewees (fst (recompute_self_review_classification sid d)) = reviewees d"
  "relationships (fst (recompute_self_review_classification sid d)) = relationships d"
  "instruments (fst (recompute_self_review_classification sid d)) = instruments d"
  "rule_sets (fst (recompute_self_review_classification sid d)) = rule_sets d"
  "sessions (fst (recompute_self_review_classification sid d)) = sessions d"
  by (simp_all add: recompute_self_review_classification_def Let_def)

text \<open>The rows left after the delete; the rows a run leaves are those and the inserted ones.\<close>

abbreviation rows_left :: "instrument_diff \<Rightarrow> db \<Rightarrow> assignment list" where
  "rows_left df d \<equiv> filter (\<lambda>a. a_id a \<notin> set (delete_ids df)) (assignments d)"

lemma apply_diff_rows:
  assumes "fresh_ids fresh" "keyed_pairs df" "set (di_insert df) \<subseteq> new_keys df" "distinct (map a_id (assignments d))"
  obtains new d3 where "map pair_of new = di_insert df" "distinct (map a_id (rows_left df d @ new))"
    "\<forall>a \<in> set new. inserted sid (i_id i) df a"
    "d3 = d\<lparr>responses := filter (\<lambda>r. r_assignment r \<notin> set (delete_ids df)) (responses d),
            assignments := keep_pairs df (rows_left df d @ new)\<rparr>"
    "apply_diff fresh sid i df d = fst (recompute_self_review_classification sid d3)"
proof -
  have "distinct (map a_id (rows_left df d))" using assms(4) by (rule distinct_map_filter)
  from insert_pairs_rows [OF assms(1-3) this, of sid "i_id i"] obtain new where
    new: "insert_pairs fresh sid (i_id i) df (rows_left df d) = rows_left df d @ new" "map pair_of new = di_insert df"
    "distinct (map a_id (rows_left df d @ new))" "\<forall>a \<in> set new. inserted sid (i_id i) df a" .
  show thesis by (rule that [OF new(2-4) refl]) (simp add: apply_diff_def Let_def new(1))
qed

section \<open>The stored classification\<close>

definition rows_sound :: "db \<Rightarrow> bool" where
  "rows_sound d \<longleftrightarrow> distinct (map a_id (assignments d)) \<and> (\<forall>a \<in> set (assignments d). 0 \<le> a_id a
     \<and> a_reviewer a \<in> rr_id ` set (reviewers d) \<and> a_reviewee a \<in> re_id ` set (reviewees d)
     \<and> (\<exists>i \<in> set (instruments d). i_id i = a_instrument a \<and> i_session i = a_session a))"

definition row_reviewer :: "db \<Rightarrow> assignment \<Rightarrow> reviewer" where
  "row_reviewer d a = the (reviewer_by_id d (a_reviewer a))"

definition row_reviewee :: "db \<Rightarrow> assignment \<Rightarrow> reviewee" where
  "row_reviewee d a = the (reviewee_by_id d (a_reviewee a))"

definition expected_self :: "db \<Rightarrow> int \<Rightarrow> assignment \<Rightarrow> bool" where
  "expected_self d sid a = reviews_self d sid (a_instrument a) (row_reviewer d a) (row_reviewee d a)"

lemma row_people:
  assumes "people_keyed d" "rows_sound d" "a \<in> set (assignments d)"
  shows "reviewer_by_id d (a_reviewer a) = Some (row_reviewer d a)" "reviewee_by_id d (a_reviewee a) = Some (row_reviewee d a)"
    "row_reviewer d a \<in> set (reviewers d)" "row_reviewee d a \<in> set (reviewees d)"
    "rr_id (row_reviewer d a) = a_reviewer a" "re_id (row_reviewee d a) = a_reviewee a"
proof -
  obtain rv re where "rv \<in> set (reviewers d)" "rr_id rv = a_reviewer a" "re \<in> set (reviewees d)" "re_id re = a_reviewee a"
    using assms(2,3) by (force simp: rows_sound_def)
  then have p: "reviewer_by_id d (a_reviewer a) = Some rv" "reviewee_by_id d (a_reviewee a) = Some re"
    "rv \<in> set (reviewers d)" "re \<in> set (reviewees d)" "rr_id rv = a_reviewer a" "re_id re = a_reviewee a"
    using reviewer_by_id_eq [OF assms(1), of rv] reviewee_by_id_eq [OF assms(1), of re] by simp_all
  then show "reviewer_by_id d (a_reviewer a) = Some (row_reviewer d a)" "reviewee_by_id d (a_reviewee a) = Some (row_reviewee d a)"
    "row_reviewer d a \<in> set (reviewers d)" "row_reviewee d a \<in> set (reviewees d)"
    "rr_id (row_reviewer d a) = a_reviewer a" "re_id (row_reviewee d a) = a_reviewee a"
    by (simp_all add: row_reviewer_def row_reviewee_def)
qed

lemma joined_rows_eq:
  assumes "people_keyed d" "rows_sound d"
  shows "joined_rows d sid = map (\<lambda>a. (a, row_reviewer d a, row_reviewee d a)) (filter (\<lambda>a. a_session a = sid) (assignments d))"
proof -
  have "List.map_filter (\<lambda>a. case (reviewer_by_id d (a_reviewer a), reviewee_by_id d (a_reviewee a)) of
       (Some rv, Some re) \<Rightarrow> Some (a, rv, re) | _ \<Rightarrow> None) xs = map (\<lambda>a. (a, row_reviewer d a, row_reviewee d a)) xs"
    if "set xs \<subseteq> set (assignments d)" for xs
    using that by (induction xs) (auto simp: map_filter_simps' row_people(1,2) [OF assms])
  then show ?thesis unfolding joined_rows_def by simp
qed

lemma joined_rows_ok:
  assumes "people_keyed d" "rows_sound d"
  shows "rows_ok d (joined_rows d sid)"
  using assms(2) row_people [OF assms] unfolding joined_rows_eq [OF assms] rows_ok_def rows_sound_def
  by (auto simp: comp_def distinct_map_filter)

lemma classified:
  assumes "people_keyed d" "rows_sound d" "a \<in> set (assignments d)" "a_session a = sid"
  shows "dict_get (classify_self_review d sid (joined_rows d sid)) (a_id a) = Some (expected_self d sid a)"
proof -
  have "(a, row_reviewer d a, row_reviewee d a) \<in> set (joined_rows d sid)"
    using assms(3,4) by (auto simp: joined_rows_eq [OF assms(1,2)])
  from classify_is_rule [OF assms(1) joined_rows_ok [OF assms(1,2)] this] show ?thesis by (simp add: expected_self_def)
qed

definition settle :: "db \<Rightarrow> int \<Rightarrow> assignment \<Rightarrow> assignment" where
  "settle d sid a = (if a_session a = sid \<and> a_self_review a \<noteq> expected_self d sid a
     then a\<lparr>a_self_review := expected_self d sid a,
            a_include := include_after_flip d sid (a, row_reviewer d a, row_reviewee d a) (expected_self d sid a)\<rparr> else a)"

lemma changed_rows_entry:
  assumes "people_keyed d" "rows_sound d"
  shows "(k, v) \<in> set (changed_rows d sid) \<longleftrightarrow> (\<exists>a \<in> set (assignments d). a_session a = sid \<and> a_id a = k
    \<and> a_self_review a \<noteq> expected_self d sid a
    \<and> v = (expected_self d sid a, include_after_flip d sid (a, row_reviewer d a, row_reviewee d a) (expected_self d sid a), a_include a))"
proof -
  define c where "c = dict_get (classify_self_review d sid (joined_rows d sid))"
  have c: "the (c (a_id a)) = expected_self d sid a" if "a \<in> set (assignments d)" "a_session a = sid" for a
    using classified [OF assms that] by (simp add: c_def)
  have "(k, v) \<in> set (changed_rows d sid) \<longleftrightarrow> (\<exists>a \<in> set (assignments d). a_session a = sid
      \<and> a_self_review a \<noteq> the (c (a_id a))
      \<and> (k, v) = (a_id a, the (c (a_id a)), include_after_flip d sid (a, row_reviewer d a, row_reviewee d a) (the (c (a_id a))), a_include a))"
    unfolding changed_rows_def Let_def c_def [symmetric] set_map_filter unfolding joined_rows_eq [OF assms]
    by (auto split: if_splits)
  then show ?thesis using c by auto
qed

lemma recompute_rows:
  assumes "people_keyed d" "rows_sound d"
  shows "update_rows (changed_rows d sid) (assignments d) = map (settle d sid) (assignments d)"
  unfolding update_rows_def
proof (rule map_cong [OF refl])
  fix a
  assume a: "a \<in> set (assignments d)"
  note entry = changed_rows_entry [OF assms, of "a_id a" _ sid]
  have same: "b = a" if "b \<in> set (assignments d)" "a_id b = a_id a" for b
    using assms(2) a that by (auto simp: rows_sound_def distinct_map inj_on_def)
  show "(case dict_get (changed_rows d sid) (a_id a) of None \<Rightarrow> a
      | Some (is_self, inc, _) \<Rightarrow> a\<lparr>a_self_review := is_self, a_include := inc\<rparr>) = settle d sid a"
  proof (cases "dict_get (changed_rows d sid) (a_id a)")
    case None
    then have "(a_id a, v) \<notin> set (changed_rows d sid)" for v by (force simp: dict_get_def map_of_eq_None_iff)
    then have "\<not> (a_session a = sid \<and> a_self_review a \<noteq> expected_self d sid a)" unfolding entry using a by blast
    then show ?thesis using None by (auto simp: settle_def)
  next
    case (Some v)
    from map_of_dict [OF this] show ?thesis unfolding entry using same Some by (auto simp: settle_def)
  qed
qed

text \<open>The rule reads the rosters, the relationships and the instruments alone.\<close>

definition same_setup :: "db \<Rightarrow> db \<Rightarrow> bool" where
  "same_setup d e \<longleftrightarrow> reviewers d = reviewers e \<and> reviewees d = reviewees e \<and> relationships d = relationships e
     \<and> instruments d = instruments e \<and> rule_sets d = rule_sets e"

lemma same_setup_lookup:
  assumes "same_setup d e"
  shows "pair_context_lookup d sid = pair_context_lookup e sid" "boundary_of d iid = boundary_of e iid"
    "reviewee_by_id d k = reviewee_by_id e k" "reviewer_by_id d k = reviewer_by_id e k"
    "grouped d iid = grouped e iid" "session_reviewees d sid = session_reviewees e sid"
    "session_instruments d sid = session_instruments e sid"
  using assms unfolding same_setup_def
  by (auto simp: pair_context_lookup_def list_for_session_def boundary_of_def reviewee_by_id_def reviewer_by_id_def grouped_def session_reviewees_def
      session_instruments_def)

lemma same_setup_self:
  assumes "same_setup d e"
  shows "reviews_self d sid iid rv re = reviews_self e sid iid rv re" "expected_self d sid a = expected_self e sid a"
  using same_setup_lookup [OF assms]
  by (simp_all add: reviews_self_def subject_key_def expected_self_def row_reviewer_def row_reviewee_def)

lemma verify_iff:
  assumes "people_keyed d" "rows_sound d"
  shows "verify_self_review_classification d sid = []
    \<longleftrightarrow> (\<forall>a \<in> set (assignments d). a_session a = sid \<longrightarrow> a_self_review a = expected_self d sid a)"
proof -
  define c where "c = dict_get (classify_self_review d sid (joined_rows d sid))"
  have c: "the (c (a_id a)) = expected_self d sid a" if "a \<in> set (assignments d)" "a_session a = sid" for a
    using classified [OF assms that] by (simp add: c_def)
  have "x \<notin> set (verify_self_review_classification d sid) \<longleftrightarrow> (\<forall>a \<in> set (assignments d). a_session a = sid \<longrightarrow>
      a_self_review a \<noteq> the (c (a_id a)) \<longrightarrow> x \<noteq> (a_id a, a_self_review a, the (c (a_id a))))" for x
    unfolding verify_self_review_classification_def Let_def c_def [symmetric] set_map_filter
    unfolding joined_rows_eq [OF assms] by (auto split: if_splits)
  then have "set (verify_self_review_classification d sid) = {} \<longleftrightarrow> (\<forall>a \<in> set (assignments d). a_session a = sid \<longrightarrow>
      a_self_review a = the (c (a_id a)))" by (simp only: set_eq_iff empty_iff) blast
  then show ?thesis using c by auto
qed

section \<open>What a run reads of one instrument\<close>

text \<open>
  The setup, the rows of the instrument but for their flags, and the answers on them: a run on
  another instrument leaves it as it is.
\<close>

definition member_ids :: "db \<Rightarrow> int \<Rightarrow> int set" where
  "member_ids d iid = a_id ` set (instrument_members d iid)"

definition focus :: "int \<Rightarrow> db \<Rightarrow> db" where
  "focus iid d = blank_db\<lparr>instruments := instruments d, reviewers := reviewers d, reviewees := reviewees d,
     relationships := relationships d, rule_sets := rule_sets d, assignments := map skel (instrument_members d iid),
     responses := filter (\<lambda>r. r_assignment r \<in> member_ids d iid) (responses d)\<rparr>"

lemma focus_simps [simp]:
  "assignments (focus iid d) = map skel (instrument_members d iid)"
  "responses (focus iid d) = filter (\<lambda>r. r_assignment r \<in> member_ids d iid) (responses d)"
  "same_setup (focus iid d) d"
  by (simp_all add: focus_def same_setup_def)

lemma focus_rows [simp]:
  "instrument_members (focus iid d) iid = map skel (instrument_members d iid)"
  "instrument_rows (focus iid d) sid iid = map skel (instrument_rows d sid iid)"
proof -
  show "instrument_members (focus iid d) iid = map skel (instrument_members d iid)"
    unfolding instrument_members_def focus_simps(1) filter_map by (simp add: instrument_members_def comp_def)
  show "instrument_rows (focus iid d) sid iid = map skel (instrument_rows d sid iid)"
    unfolding instrument_rows_def focus_simps(1) filter_map
    by (simp add: instrument_members_def comp_def conj_commute)
qed

lemma keyed_focus: "keyed_assignments d \<Longrightarrow> keyed_assignments (focus iid d)"
  using members_distinct [of d iid]
  by (auto simp: keyed_assignments_def comp_def distinct_map instrument_members_def inj_on_def)

lemma dict_of_map: "dict_of k v (map f xs) = dict_of (\<lambda>x. k (f x)) (\<lambda>x. v (f x)) xs"
  by (simp add: dict_of_def foldl_map)

lemma group_into_map: "group_into k v (map f xs) = group_into (\<lambda>x. k (f x)) (\<lambda>x. v (f x)) xs"
  by (simp add: group_into_def foldl_map)

lemma group_keys_skel:
  assumes "same_setup e d"
  shows "group_keys e (map skel xs) sid = group_keys d xs sid"
proof -
  note look = same_setup_lookup [OF assms]
  have "group_instrument_ids e S = group_instrument_ids d S" for S
    using assms by (simp add: group_instrument_ids_def same_setup_def)
  then show ?thesis
    unfolding group_keys_def group_key_by_assignment_def Let_def
    by (simp add: look filter_map dict_of_map comp_def image_image)
qed

lemma groups_focus: "instrument_groups (focus iid d) sid iid = instrument_groups d sid iid"
  using group_keys_skel [OF focus_simps(3), of iid d "instrument_members d iid" sid]
  by (simp add: instrument_groups_def Let_def dict_of_map group_into_map list_all_iff)

lemma snapshot_focus: "snapshot_group_partitions (focus iid d) sid {iid} = snapshot_group_partitions d sid {iid}"
proof -
  have ex: "list_ex (\<lambda>r. r_assignment r = a_id a) (responses (focus iid d)) = list_ex (\<lambda>r. r_assignment r = a_id a) (responses d)"
    if "a \<in> set (instrument_members d iid)" for a
    using that by (auto simp: list_ex_iff member_ids_def)
  have "map a_instrument (filter (\<lambda>a. a_instrument a \<in> {iid} \<and> list_ex (\<lambda>r. r_assignment r = a_id a) (responses (focus iid d)))
          (assignments (focus iid d)))
      = map a_instrument (filter (\<lambda>a. list_ex (\<lambda>r. r_assignment r = a_id a) (responses (focus iid d))) (instrument_members d iid))"
    unfolding focus_simps(1) by (simp add: filter_map comp_def) (simp add: instrument_members_def conj_commute)
  also have "\<dots> = map a_instrument (filter (\<lambda>a. list_ex (\<lambda>r. r_assignment r = a_id a) (responses d)) (instrument_members d iid))"
    using ex by (simp cong: filter_cong)
  also have "\<dots> = map a_instrument (filter (\<lambda>a. a_instrument a \<in> {iid} \<and> list_ex (\<lambda>r. r_assignment r = a_id a) (responses d)) (assignments d))"
    by (simp add: instrument_members_def conj_commute)
  finally have same: "map a_instrument (filter (\<lambda>a. a_instrument a \<in> {iid} \<and> list_ex (\<lambda>r. r_assignment r = a_id a) (responses (focus iid d)))
          (assignments (focus iid d)))
      = map a_instrument (filter (\<lambda>a. a_instrument a \<in> {iid} \<and> list_ex (\<lambda>r. r_assignment r = a_id a) (responses d)) (assignments d))" .
  define ks where "ks = remdups (map a_instrument (filter
      (\<lambda>a. a_instrument a \<in> {iid} \<and> list_ex (\<lambda>r. r_assignment r = a_id a) (responses d)) (assignments d)))"
  have "map (\<lambda>k. (k, fst (instrument_groups (focus iid d) sid k))) ks = map (\<lambda>k. (k, fst (instrument_groups d sid k))) ks"
  proof (rule map_cong [OF refl])
    fix k
    assume "k \<in> set ks"
    then have "k = iid" by (auto simp: ks_def)
    then show "(k, fst (instrument_groups (focus iid d) sid k)) = (k, fst (instrument_groups d sid k))"
      by (simp only: groups_focus)
  qed
  then show ?thesis by (simp only: snapshot_group_partitions_def Let_def same ks_def)
qed

text \<open>The diff of an instrument, as far as the run uses it.\<close>

lemma rows_are_members: "set (instrument_rows d sid iid) \<subseteq> set (instrument_members d iid)"
  by (auto simp: instrument_rows_def instrument_members_def)

lemma diff_focus:
  fixes sid :: int and i :: instrument and ex :: bool and rvs :: "reviewer list" and res :: "reviewee list"
    and lookup :: "int \<times> int \<Rightarrow> relationship option" and ev :: evaluation
  assumes "keyed_assignments d"
  defines "df \<equiv> diff_of d sid i ex rvs res lookup ev" and "df' \<equiv> diff_of (focus (i_id i) d) sid i ex rvs res lookup ev"
  shows "di_new df' = di_new df" "di_insert df' = di_insert df" "di_delete df' = di_delete df" "di_keep df' = di_keep df"
    "di_responses_deleted df' = di_responses_deleted df" "di_excluded df' = di_excluded df"
    "a_id (the (dict_get (di_existing df') k)) = a_id (the (dict_get (di_existing df) k))"
proof -
  note p = diff_parts [OF assms(1) df_def [THEN meta_eq_to_obj_eq]]
    and q = diff_parts [OF keyed_focus [OF assms(1)] df'_def [THEN meta_eq_to_obj_eq], unfolded focus_rows]
  show new: "di_new df' = di_new df" by (simp add: df_def df'_def diff_of_def Let_def)
  then have keys: "new_keys df' = new_keys df" by (simp add: new_keys_def)
  show "di_insert df' = di_insert df" "di_keep df' = di_keep df" unfolding p(4,5) q(4,5) new by (simp_all add: image_image)
  show "di_delete df' = di_delete df" unfolding p(2) q(2) keys by (simp add: filter_map comp_def)
  have ids: "delete_ids df' = delete_ids df" unfolding p(3) q(3) keys by (simp add: filter_map comp_def)
  have "set (delete_ids df) \<subseteq> member_ids d (i_id i)" unfolding p(3) member_ids_def using rows_are_members by fastforce
  then show "di_responses_deleted df' = di_responses_deleted df"
    unfolding p(6) q(6) ids focus_simps filter_filter by (intro arg_cong [where f = length] filter_cong) auto
  show "di_excluded df' = di_excluded df" by (simp add: df_def df'_def diff_of_def Let_def)
  have "dict_get (map (\<lambda>a. (pair_of a, skel a)) R) k = map_option skel (dict_get (map (\<lambda>a. (pair_of a, a)) R) k)" for R
    unfolding dict_get_def by (induction R) auto
  then have get: "dict_get (di_existing df') k = map_option skel (dict_get (di_existing df) k)"
    unfolding p(1) q(1) by (simp add: comp_def)
  show "a_id (the (dict_get (di_existing df') k)) = a_id (the (dict_get (di_existing df) k))"
    unfolding get by (cases "dict_get (di_existing df) k") simp_all
qed

section \<open>Keys of a pair\<close>

text \<open>What a generation run may rely on: keys and foreign keys of the tables it reads.\<close>

definition gen_ok :: "db \<Rightarrow> bool" where
  "gen_ok d \<longleftrightarrow> people_keyed d \<and> rows_sound d \<and> keyed_assignments d \<and> distinct (map i_id (instruments d))
     \<and> (\<forall>r \<in> set (responses d). r_assignment r \<in> a_id ` set (assignments d))"

lemma gen_ok_parts:
  assumes "gen_ok d"
  shows "people_keyed d" "rows_sound d" "keyed_assignments d" "inj_on i_id (set (instruments d))"
    "distinct (map a_id (assignments d))"
  using assms by (auto simp: gen_ok_def distinct_map keyed_assignments_def)

lemma rows_of_instrument:
  assumes "gen_ok d" "i \<in> set (instruments d)" "i_session i = sid"
  shows "instrument_rows d sid (i_id i) = instrument_members d (i_id i)"
proof -
  have "a_session a = sid" if a: "a \<in> set (assignments d)" "a_instrument a = i_id i" for a
  proof -
    obtain j where j: "j \<in> set (instruments d)" "i_id j = a_instrument a" "i_session j = a_session a"
      using gen_ok_parts(2) [OF assms(1)] a(1) by (auto simp: rows_sound_def)
    then have "j = i" using gen_ok_parts(4) [OF assms(1)] assms(2) a(2) by (auto dest: inj_onD)
    then show ?thesis using j assms(3) by simp
  qed
  then show ?thesis unfolding instrument_rows_def instrument_members_def by (intro filter_cong) auto
qed

definition pair_key :: "db \<Rightarrow> int \<Rightarrow> int \<Rightarrow> pair \<Rightarrow> string list" where
  "pair_key d sid iid k = subject_key d sid iid (fst k) (reviewee_by_id d (snd k)) (snd k)"

definition peers :: "db \<Rightarrow> int \<Rightarrow> int \<Rightarrow> pair set \<Rightarrow> pair \<Rightarrow> pair set" where
  "peers d sid iid N k = {k' \<in> N. fst k' = fst k \<and> pair_key d sid iid k' = pair_key d sid iid k}"

lemma same_setup_peers:
  assumes "same_setup d e"
  shows "pair_key d sid iid = pair_key e sid iid" "peers d sid iid = peers e sid iid"
proof -
  show "pair_key d sid iid = pair_key e sid iid"
    by (rule ext) (simp only: pair_key_def subject_key_def same_setup_lookup [OF assms])
  then show "peers d sid iid = peers e sid iid" by (intro ext) (simp only: peers_def)
qed

lemma boundary_of_instrument:
  assumes "inj_on i_id (set (instruments d))" "i \<in> set (instruments d)"
  shows "boundary_of d (i_id i) = decode_group_kind (i_group_kind i)" "grouped d (i_id i) \<longleftrightarrow> i_group_kind i \<noteq> None"
proof -
  have "find (\<lambda>j. i_id j = i_id i) (instruments d) = Some i" by (rule find_key [OF assms])
  then show "boundary_of d (i_id i) = decode_group_kind (i_group_kind i)" by (simp add: boundary_of_def)
  show "grouped d (i_id i) \<longleftrightarrow> i_group_kind i \<noteq> None"
    using assms by (auto simp: grouped_def dest: inj_onD)
qed

lemma roster_key_pair:
  assumes "gen_ok d" "i \<in> set (instruments d)"
  shows "roster_key i (pair_context_lookup d sid) rv re = subject_key d sid (i_id i) (rr_id rv) (Some re) (re_id re)"
    and "re \<in> set (reviewees d) \<Longrightarrow> pair_key d sid (i_id i) (rr_id rv, re_id re) = roster_key i (pair_context_lookup d sid) rv re"
  using boundary_of_instrument(1) [OF gen_ok_parts(4) [OF assms(1)] assms(2)] reviewee_by_id_eq [OF gen_ok_parts(1) [OF assms(1)]]
  by (simp_all add: roster_key_def subject_key_def pair_key_def)

lemma group_of_peers:
  assumes "keyed_assignments d" "grouped d iid" "a \<in> set (instrument_members d iid)"
  shows "group_of d sid a = peers d sid iid (pair_of ` set (instrument_members d iid)) (pair_of a)"
proof -
  let ?ms = "instrument_members d iid"
  have inst: "a_instrument m = iid" if "m \<in> set ?ms" for m using that by (simp add: instrument_members_def)
  have key: "group_keys d ?ms sid (a_id m) = Some (pair_key d sid iid (pair_of m))" if "m \<in> set ?ms" for m
    using group_keys_get [OF members_distinct(1) [OF assms(1)] that] inst [OF that] assms(2) by (simp add: pair_key_def)
  have "group_of d sid a = pair_of ` {m \<in> set ?ms. a_reviewer m = a_reviewer a
      \<and> group_keys d ?ms sid (a_id m) = group_keys d ?ms sid (a_id a)}"
    using key [OF assms(3)] inst [OF assms(3)] by (simp add: group_of_def Let_def)
  also have "{m \<in> set ?ms. a_reviewer m = a_reviewer a \<and> group_keys d ?ms sid (a_id m) = group_keys d ?ms sid (a_id a)}
      = {m \<in> set ?ms. fst (pair_of m) = fst (pair_of a) \<and> pair_key d sid iid (pair_of m) = pair_key d sid iid (pair_of a)}"
    using key assms(3) by auto
  finally show ?thesis by (simp only: peers_def Compr_image_eq)
qed

text \<open>The test of a diff on an unsaved pair is the rule.\<close>

lemma diff_self_is_rule:
  assumes "gen_ok d" "i \<in> set (instruments d)" "rv \<in> set (list_reviewers d sid)"
  shows "diff_self i (pair_context_lookup d sid) (list_reviewers d sid) (list_reviewees d sid) (rv, re)
    = reviews_self d sid (i_id i) rv re"
proof -
  let ?lookup = "pair_context_lookup d sid"
  have rosters: "set (list_reviewees d sid) = set (session_reviewees d sid)" "set (list_reviewers d sid) \<subseteq> set (reviewers d)"
    by (auto simp: list_reviewees_def session_reviewees_def list_reviewers_def)
  have one: "rv' = rv" if "rv' \<in> set (list_reviewers d sid)" "rr_id rv' = rr_id rv" for rv'
  proof (rule inj_onD [where f = rr_id and A = "set (reviewers d)"])
    show "inj_on rr_id (set (reviewers d))" using gen_ok_parts(1) [OF assms(1)] by (simp add: people_keyed_def distinct_map)
  qed (use that assms(3) rosters(2) in auto)
  show ?thesis
  proof (cases "i_group_kind i = None")
    case True
    then show ?thesis using boundary_of_instrument(2) [OF gen_ok_parts(4) [OF assms(1)] assms(2)]
      by (simp add: diff_self_def reviews_self_def)
  next
    case False
    have "(rr_id rv, k) \<in> self_review_groups i ?lookup (list_reviewers d sid) (list_reviewees d sid) \<longleftrightarrow>
        \<not> is_catch_all_key k \<and> (\<exists>own \<in> set (session_reviewees d sid). is_self_review rv own \<and> roster_key i ?lookup rv own = k)" for k
      unfolding self_review_groups_def using one assms(3) rosters(1) by (auto simp: image_iff)
    then show ?thesis using False boundary_of_instrument(2) [OF gen_ok_parts(4) [OF assms(1)] assms(2)]
      by (simp add: diff_self_def reviews_self_def Let_def roster_key_pair(1) [OF assms(1,2)])
  qed
qed

section \<open>The groups a run redraws\<close>

lemma group_into_values:
  "set (map snd (group_into key val xs)) = (\<lambda>x. map val (filter (\<lambda>y. key y = key x) xs)) ` set xs"
proof -
  have "(k, l) \<in> set (group_into key val xs) \<longleftrightarrow> k \<in> key ` set xs \<and> l = map val (filter (\<lambda>y. key y = k) xs)" for k l
    unfolding dict_items [OF group_into_keys(2) [of key val xs]]
    by (auto simp: group_into_get Let_def filter_empty_conv)
  then have "c \<in> set (group_into key val xs) \<longleftrightarrow> c \<in> (\<lambda>x. (key x, map val (filter (\<lambda>y. key y = key x) xs))) ` set xs" for c
    by (cases c) (simp only: image_iff prod.inject, blast)
  then have "set (group_into key val xs) = (\<lambda>x. (key x, map val (filter (\<lambda>y. key y = key x) xs))) ` set xs" by blast
  then show ?thesis by (simp add: image_image)
qed

lemma projected_group_sets:
  assumes "gen_ok d" "i \<in> set (instruments d)" "keyed_pairs df"
    and "\<And>k rv re inc. (k, rv, re, inc) \<in> set (di_new df) \<Longrightarrow> re \<in> set (reviewees d)"
    and "set (di_keep df @ di_insert df) = new_keys df"
  shows "set ` set (projected_groups i (pair_context_lookup d sid) df) = peers d sid (i_id i) (new_keys df) ` new_keys df"
proof -
  let ?lookup = "pair_context_lookup d sid" and ?ks = "di_keep df @ di_insert df"
  define f where "f = (\<lambda>k. case the (dict_get (di_new df) k) of (rv, re, _) \<Rightarrow> (rr_id rv, roster_key i ?lookup rv re))"
  have f: "f k = (fst k, pair_key d sid (i_id i) k)" if "k \<in> new_keys df" for k
  proof -
    have "k \<in> dom (dict_get (di_new df))" using that by (simp add: dom_dict_get new_keys_def)
    then obtain rv re inc where get: "dict_get (di_new df) k = Some (rv, re, inc)" by auto
    from map_of_dict [OF this] have "k = (rr_id rv, re_id re)" "re \<in> set (reviewees d)"
      using assms(3,4) by (auto simp: keyed_pairs_def)
    then show ?thesis using roster_key_pair(2) [OF assms(1,2)] get by (simp add: f_def)
  qed
  have "set ` set (projected_groups i ?lookup df) = (\<lambda>k. set (filter (\<lambda>k'. f k' = f k) ?ks)) ` set ?ks"
    unfolding projected_groups_def f_def [symmetric] group_into_values by (simp add: image_image)
  also have "\<dots> = peers d sid (i_id i) (new_keys df) ` new_keys df"
    unfolding assms(5)
  proof (rule image_cong [OF refl])
    fix k
    assume "k \<in> new_keys df"
    then have "f k' = f k \<longleftrightarrow> fst k' = fst k \<and> pair_key d sid (i_id i) k' = pair_key d sid (i_id i) k" if "k' \<in> new_keys df" for k'
      using f that by simp
    then show "set (filter (\<lambda>k'. f k' = f k) ?ks) = peers d sid (i_id i) (new_keys df) k"
      unfolding peers_def set_filter assms(5) by blast
  qed
  finally show ?thesis .
qed

section \<open>One run\<close>

text \<open>A diff of an instrument of the session, against the session's rosters.\<close>

definition run_of :: "db \<Rightarrow> int \<Rightarrow> instrument \<Rightarrow> instrument_diff \<Rightarrow> bool" where
  "run_of d sid i df \<longleftrightarrow> gen_ok d \<and> i \<in> set (instruments d) \<and> i_session i = sid
     \<and> (\<exists>ex ev. set (e_pairs ev) \<subseteq> set (List.product (list_reviewers d sid) (list_reviewees d sid))
          \<and> df = diff_of d sid i ex (list_reviewers d sid) (list_reviewees d sid) (pair_context_lookup d sid) ev)"

lemma run_facts:
  assumes "run_of d sid i df"
  defines "R \<equiv> instrument_members d (i_id i)"
  shows "keyed_pairs df" "set (di_insert df) \<subseteq> new_keys df"
    and "set (di_keep df @ di_insert df) = new_keys df"
    and "set (delete_ids df) = a_id ` {a \<in> set R. pair_of a \<notin> new_keys df}"
    and "length (delete_ids df) = length (di_delete df)"
    and "set (di_insert df) = new_keys df - pair_of ` set R" "distinct (di_insert df)"
    and "di_existing df = map (\<lambda>a. (pair_of a, a)) R"
    and "di_responses_deleted df = length (filter (\<lambda>r. r_assignment r \<in> set (delete_ids df)) (responses d))"
    and "set (di_keep df) = new_keys df \<inter> pair_of ` set R"
proof -
  have ok: "gen_ok d" "i \<in> set (instruments d)" "i_session i = sid" using assms(1) by (auto simp: run_of_def)
  obtain ex ev where df: "df = diff_of d sid i ex (list_reviewers d sid) (list_reviewees d sid) (pair_context_lookup d sid) ev"
    using assms(1) by (auto simp: run_of_def)
  note p = diff_parts [OF gen_ok_parts(3) [OF ok(1)] df, unfolded rows_of_instrument [OF ok], folded R_def]
  show kp: "keyed_pairs df" unfolding df by (rule keyed_pairs_diff)
  show "set (di_insert df) = new_keys df - pair_of ` set R" unfolding p(4) new_keys_def by auto
  then show "set (di_insert df) \<subseteq> new_keys df" by blast
  show "set (di_keep df) = new_keys df \<inter> pair_of ` set R" unfolding p(5) new_keys_def set_filter by blast
  show "set (di_keep df @ di_insert df) = new_keys df" unfolding p(4,5) new_keys_def set_append set_filter by blast
  show "set (delete_ids df) = a_id ` {a \<in> set R. pair_of a \<notin> new_keys df}" unfolding p(3) by simp
  show "length (delete_ids df) = length (di_delete df)" unfolding p(2,3) by simp
  show "distinct (di_insert df)" unfolding p(4) using kp by (simp add: keyed_pairs_def)
  show "di_existing df = map (\<lambda>a. (pair_of a, a)) R"
    "di_responses_deleted df = length (filter (\<lambda>r. r_assignment r \<in> set (delete_ids df)) (responses d))"
    by (fact p(1) p(6))+
qed

lemma run_new_entry:
  assumes "run_of d sid i df" "dict_get (di_new df) k = Some (rv, re, inc)"
  shows "k = (rr_id rv, re_id re)" "rv \<in> set (list_reviewers d sid)" "re \<in> set (list_reviewees d sid)"
    "rv \<in> set (reviewers d)" "re \<in> set (reviewees d)"
    "inc = pair_include i (reviews_self d sid (i_id i) rv re) (rv, re)"
proof -
  have ok: "gen_ok d" "i \<in> set (instruments d)" using assms(1) by (auto simp: run_of_def)
  obtain ex ev where df: "df = diff_of d sid i ex (list_reviewers d sid) (list_reviewees d sid) (pair_context_lookup d sid) ev"
    and sub: "set (e_pairs ev) \<subseteq> set (List.product (list_reviewers d sid) (list_reviewees d sid))"
    using assms(1) by (auto simp: run_of_def)
  note e = diff_new_entry [OF map_of_dict [OF assms(2), unfolded df]]
  show "k = (rr_id rv, re_id re)" by (fact e(1))
  have p: "(rv, re) \<in> set (List.product (list_reviewers d sid) (list_reviewees d sid))" using e(2) sub by blast
  then show people: "rv \<in> set (list_reviewers d sid)" "re \<in> set (list_reviewees d sid)" by auto
  then show "rv \<in> set (reviewers d)" "re \<in> set (reviewees d)" by (auto simp: list_reviewers_def list_reviewees_def)
  show "inc = pair_include i (reviews_self d sid (i_id i) rv re) (rv, re)"
    using e(3) unfolding diff_self_is_rule [OF ok people(1)] .
qed

lemma gen_ok_skel:
  assumes "gen_ok d" "same_setup e d" "map skel (assignments e) = map skel (assignments d)" "set (responses e) \<subseteq> set (responses d)"
  shows "gen_ok e"
proof -
  have map_skel: "map f (assignments e) = map f (assignments d)" if "\<And>a. f (skel a) = f a" for f :: "assignment \<Rightarrow> 'x"
  proof -
    have "map f xs = map f (map skel xs)" for xs using that by simp
    then show ?thesis using assms(3) by metis
  qed
  have all_skel: "(\<forall>a \<in> set (assignments e). P a) \<longleftrightarrow> (\<forall>a \<in> set (assignments d). P a)" if "\<And>a. P (skel a) = P a" for P
    using map_skel [of P, OF that] by (metis (mono_tags, lifting) imageE imageI list.set_map)
  have "people_keyed e" using assms(1,2) by (simp add: gen_ok_def people_keyed_def same_setup_def)
  moreover have "rows_sound e"
    using assms(1,2) map_skel [of a_id] unfolding gen_ok_def rows_sound_def same_setup_def
    by (subst all_skel) simp_all
  moreover have "keyed_assignments e"
    using assms(1) map_skel [of a_id] map_skel [of "\<lambda>a. (a_instrument a, pair_of a)"]
    by (simp add: gen_ok_def keyed_assignments_def)
  moreover have "a_id ` set (assignments e) = a_id ` set (assignments d)"
    using map_skel [of a_id] by (metis list.set_map skel_simps(1))
  ultimately show ?thesis using assms(1,2,4) by (auto simp: gen_ok_def same_setup_def)
qed

text \<open>The tables after the diff is written, before the classification is stored again.\<close>

definition written :: "instrument_diff \<Rightarrow> db \<Rightarrow> assignment list \<Rightarrow> db" where
  "written df d new = d\<lparr>responses := filter (\<lambda>r. r_assignment r \<notin> set (delete_ids df)) (responses d),
     assignments := keep_pairs df (rows_left df d @ new)\<rparr>"

definition new_rows :: "db \<Rightarrow> int \<Rightarrow> instrument \<Rightarrow> instrument_diff \<Rightarrow> assignment list \<Rightarrow> bool" where
  "new_rows d sid i df new \<longleftrightarrow> map pair_of new = di_insert df \<and> distinct (map a_id (rows_left df d @ new))
     \<and> (\<forall>a \<in> set new. inserted sid (i_id i) df a)"

lemma deleted_rows:
  assumes "run_of d sid i df" "a \<in> set (assignments d)"
  shows "a_id a \<in> set (delete_ids df) \<longleftrightarrow> a_instrument a = i_id i \<and> pair_of a \<notin> new_keys df"
proof -
  have "inj_on a_id (set (assignments d))" using assms(1) by (simp add: run_of_def gen_ok_def keyed_assignments_def distinct_map)
  then have "b = a" if "b \<in> set (assignments d)" "a_id b = a_id a" for b using that assms(2) by (auto dest: inj_onD)
  then show ?thesis
    using assms(2) by (auto simp: run_facts(4) [OF assms(1)] instrument_members_def image_iff)
qed

lemma written_ok:
  assumes "run_of d sid i df" "new_rows d sid i df new"
  shows "gen_ok (written df d new)"
proof -
  have ok: "gen_ok d" "i \<in> set (instruments d)" "i_session i = sid" using assms(1) by (auto simp: run_of_def)
  have new: "map pair_of new = di_insert df" "distinct (map a_id (rows_left df d @ new))"
    "\<And>a. a \<in> set new \<Longrightarrow> inserted sid (i_id i) df a" using assms(2) by (auto simp: new_rows_def)
  let ?e = "d\<lparr>responses := filter (\<lambda>r. r_assignment r \<notin> set (delete_ids df)) (responses d), assignments := rows_left df d @ new\<rparr>"
  have people: "a_reviewer a \<in> rr_id ` set (reviewers d)" "a_reviewee a \<in> re_id ` set (reviewees d)" if a: "a \<in> set new" for a
  proof -
    obtain rv re where get: "dict_get (di_new df) (pair_of a) = Some (rv, re, a_include a)"
      using new(3) [OF a] by (auto simp: inserted_def)
    show "a_reviewer a \<in> rr_id ` set (reviewers d)" "a_reviewee a \<in> re_id ` set (reviewees d)"
      using run_new_entry(1,4,5) [OF assms(1) get] by auto
  qed
  have "rows_sound ?e"
    using gen_ok_parts(2) [OF ok(1)] new people ok(2,3) unfolding rows_sound_def
    by (auto simp: inserted_def)
  moreover have "keyed_assignments ?e"
  proof -
    have "distinct (map (\<lambda>a. (a_instrument a, pair_of a)) (rows_left df d))"
      using gen_ok_parts(3) [OF ok(1)] by (simp add: keyed_assignments_def distinct_map_filter)
    moreover have pairs: "map (\<lambda>a. (a_instrument a, pair_of a)) new = map (Pair (i_id i)) (di_insert df)"
      unfolding new(1) [symmetric] using new(3) by (simp add: inserted_def)
    then have "distinct (map (\<lambda>a. (a_instrument a, pair_of a)) new)"
      using run_facts(7) [OF assms(1)] by (simp add: distinct_map inj_on_def)
    moreover have "(a_instrument a, pair_of a) \<notin> set (map (\<lambda>a. (a_instrument a, pair_of a)) new)" if "a \<in> set (assignments d)" for a
      unfolding pairs using run_facts(6) [OF assms(1)] that by (auto simp: instrument_members_def)
    ultimately have "distinct (map (\<lambda>a. (a_instrument a, pair_of a)) (rows_left df d @ new))"
      unfolding map_append distinct_append by auto
    then show ?thesis using new(2) by (simp add: keyed_assignments_def)
  qed
  moreover have "r_assignment r \<in> a_id ` set (rows_left df d)"
    if "r \<in> set (responses d)" "r_assignment r \<notin> set (delete_ids df)" for r
    using ok(1) that by (auto simp: gen_ok_def)
  ultimately have "gen_ok ?e" using ok(1) by (auto simp: gen_ok_def people_keyed_def)
  then show ?thesis
    by (rule gen_ok_skel) (simp_all add: written_def same_setup_def)
qed

lemma keep_pairs_append [simp]: "keep_pairs df (xs @ ys) = keep_pairs df xs @ keep_pairs df ys"
  by (simp add: keep_pairs_def)

lemma members_skel:
  assumes "map skel (assignments e) = map skel xs"
  shows "map skel (instrument_members e iid) = map skel (filter (\<lambda>a. a_instrument a = iid) xs)"
proof -
  have "map skel (filter (\<lambda>a. a_instrument a = iid) ys) = filter (\<lambda>a. a_instrument a = iid) (map skel ys)" for ys
    by (simp add: filter_map comp_def)
  then show ?thesis using assms by (simp add: instrument_members_def)
qed

lemma set_via_skel: "map skel xs = map skel ys \<Longrightarrow> (\<And>a. f (skel a) = f a) \<Longrightarrow> f ` set xs = f ` set ys"
proof -
  assume "map skel xs = map skel ys" and f: "\<And>a. f (skel a) = f a"
  then have "f ` set (map skel xs) = f ` set (map skel ys)" by simp
  then show "f ` set xs = f ` set ys" by (simp add: image_image f)
qed

lemma written_members:
  assumes "run_of d sid i df" "new_rows d sid i df new"
    and "map skel (assignments e) = map skel (assignments (written df d new))"
  shows "pair_of ` set (instrument_members e (i_id i)) = new_keys df"
    and "j \<noteq> i_id i \<Longrightarrow> map skel (instrument_members e j) = map skel (instrument_members d j)"
proof -
  have new: "map pair_of new = di_insert df" "\<And>a. a \<in> set new \<Longrightarrow> a_instrument a = i_id i"
    using assms(2) by (auto simp: new_rows_def inserted_def)
  have rows: "map skel (assignments e) = map skel (rows_left df d @ new)" using assms(3) by (simp add: written_def)
  note gone = deleted_rows [OF assms(1)]
  have "pair_of ` set (instrument_members e (i_id i)) = pair_of ` set (filter (\<lambda>a. a_instrument a = i_id i) (rows_left df d @ new))"
    by (rule set_via_skel [OF members_skel [OF rows]]) simp
  also have "\<dots> = pair_of ` {a \<in> set (instrument_members d (i_id i)). pair_of a \<in> new_keys df} \<union> set (map pair_of new)"
    using gone new(2) by (auto simp: instrument_members_def)
  also have "\<dots> = new_keys df" unfolding new(1) run_facts(6) [OF assms(1)] by auto
  finally show "pair_of ` set (instrument_members e (i_id i)) = new_keys df" .
  assume j: "j \<noteq> i_id i"
  have "filter (\<lambda>a. a_instrument a = j) (rows_left df d @ new) = instrument_members d j"
  proof -
    have "filter (\<lambda>a. a_instrument a = j) (rows_left df d) = instrument_members d j"
      unfolding instrument_members_def filter_filter
      by (rule filter_cong [OF refl]) (use gone j in auto)
    moreover have "filter (\<lambda>a. a_instrument a = j) new = []" using new(2) j by (auto simp: filter_empty_conv)
    ultimately show ?thesis by simp
  qed
  then show "map skel (instrument_members e j) = map skel (instrument_members d j)" using members_skel [OF rows, of j] by simp
qed

text \<open>Which kept rows the dry run says would lose their answers.\<close>

lemma existing_row:
  assumes "run_of d sid i df" "a \<in> set (instrument_members d (i_id i))"
  shows "dict_get (di_existing df) (pair_of a) = Some a"
  unfolding run_facts(8) [OF assms(1)] dict_get_def
  using members_distinct(2) [of d "i_id i"] assms by (intro map_of_is_SomeI) (auto simp: comp_def run_of_def gen_ok_def)

lemma projected_changed_iff:
  assumes run: "run_of d sid i df" and a: "a \<in> set (instrument_members d (i_id i))"
  defines "gs \<equiv> fst (instrument_groups d sid (i_id i))"
  shows "a_id a \<in> projected_changed i (pair_context_lookup d sid) df gs
    \<longleftrightarrow> pair_of a \<in> new_keys df \<and> \<not> (\<exists>g \<in> set gs. peers d sid (i_id i) (new_keys df) (pair_of a) \<subseteq> set g)"
proof -
  let ?P = "projected_groups i (pair_context_lookup d sid) df" and ?R = "instrument_members d (i_id i)"
  have ok: "gen_ok d" "i \<in> set (instruments d)" "keyed_assignments d" using run by (auto simp: run_of_def gen_ok_def)
  have sets: "set ` set ?P = peers d sid (i_id i) (new_keys df) ` new_keys df"
  proof (rule projected_group_sets [OF ok(1,2) run_facts(1) [OF run] _ run_facts(3) [OF run]])
    fix k rv re inc
    assume e: "(k, rv, re, inc) \<in> set (di_new df)"
    have "distinct (dict_keys (di_new df))" using run_facts(1) [OF run] by (simp add: keyed_pairs_def)
    from run_new_entry(5) [OF run dict_items [OF this, THEN iffD1, OF e]] show "re \<in> set (reviewees d)" .
  qed
  have self: "k \<in> peers d sid (i_id i) (new_keys df) k" if "k \<in> new_keys df" for k
    using that by (simp add: peers_def)
  have same: "peers d sid (i_id i) (new_keys df) k' = peers d sid (i_id i) (new_keys df) k"
    if "k \<in> peers d sid (i_id i) (new_keys df) k'" for k k' using that by (auto simp: peers_def)
  have keeps: "keeps_answer g (origins gs) \<longleftrightarrow> (\<exists>h \<in> set gs. set g \<subseteq> set h)" if "g \<in> set ?P" for g
  proof (rule keeps_answer_iff)
    show "set g = set h" if "g \<in> set gs" "h \<in> set gs" "set g \<inter> set h \<noteq> {}" for g h
      using snapshot_disjoint [OF ok(3)] that by (simp add: gs_def)
    have "set g \<in> peers d sid (i_id i) (new_keys df) ` new_keys df" using that sets by blast
    then show "g \<noteq> []" using self by force
  qed
  have id: "a_id (the (dict_get (di_existing df) (pair_of b))) = a_id b" if "b \<in> set ?R" for b
    using existing_row [OF run that] by simp
  have one: "b = a" if "b \<in> set ?R" "a_id b = a_id a" for b
    using members_distinct(1) [OF ok(3), of "i_id i"] a that by (auto simp: distinct_map dest: inj_onD)
  have inner: "(\<exists>k \<in> S \<inter> (new_keys df \<inter> pair_of ` set ?R). a_id a = a_id (the (dict_get (di_existing df) k)))
      \<longleftrightarrow> pair_of a \<in> S \<inter> new_keys df" for S
  proof
    assume "\<exists>k \<in> S \<inter> (new_keys df \<inter> pair_of ` set ?R). a_id a = a_id (the (dict_get (di_existing df) k))"
    then obtain b where b: "pair_of b \<in> S \<inter> new_keys df" "b \<in> set ?R" "a_id a = a_id (the (dict_get (di_existing df) (pair_of b)))" by blast
    then have "b = a" by (intro one) (simp_all add: id)
    then show "pair_of a \<in> S \<inter> new_keys df" using b(1) by simp
  next
    assume "pair_of a \<in> S \<inter> new_keys df"
    then show "\<exists>k \<in> S \<inter> (new_keys df \<inter> pair_of ` set ?R). a_id a = a_id (the (dict_get (di_existing df) k))"
      using a id [OF a] by (intro bexI [of _ "pair_of a"]) auto
  qed
  have "a_id a \<in> projected_changed i (pair_context_lookup d sid) df gs \<longleftrightarrow>
      (\<exists>g \<in> set ?P. \<not> keeps_answer g (origins gs)
        \<and> (\<exists>k \<in> set g \<inter> (new_keys df \<inter> pair_of ` set ?R). a_id a = a_id (the (dict_get (di_existing df) k))))"
    unfolding projected_changed_def Let_def run_facts(10) [OF run] by auto
  also have "\<dots> \<longleftrightarrow> (\<exists>g \<in> set ?P. \<not> (\<exists>h \<in> set gs. set g \<subseteq> set h) \<and> pair_of a \<in> set g \<inter> new_keys df)"
    using inner keeps by (intro bex_cong refl) simp
  also have "\<dots> \<longleftrightarrow> (\<exists>g \<in> set ` set ?P. \<not> (\<exists>h \<in> set gs. g \<subseteq> set h) \<and> pair_of a \<in> g \<inter> new_keys df)" by simp
  also have "\<dots> \<longleftrightarrow> pair_of a \<in> new_keys df \<and> \<not> (\<exists>g \<in> set gs. peers d sid (i_id i) (new_keys df) (pair_of a) \<subseteq> set g)"
    (is "?L \<longleftrightarrow> ?r")
  proof
    assume ?L
    then obtain k' where k': "\<not> (\<exists>h \<in> set gs. peers d sid (i_id i) (new_keys df) k' \<subseteq> set h)"
      "pair_of a \<in> peers d sid (i_id i) (new_keys df) k'" "pair_of a \<in> new_keys df" unfolding sets by blast
    then show ?r unfolding same [OF k'(2)] by blast
  next
    assume ?r
    then show ?L unfolding sets using self [of "pair_of a"] by blast
  qed
  finally show ?thesis .
qed

lemma projected_within:
  assumes "run_of d sid i df"
  shows "projected_changed i lookup df gs \<subseteq> member_ids d (i_id i)"
proof
  fix x
  assume "x \<in> projected_changed i lookup df gs"
  then obtain k where k: "k \<in> set (di_keep df)" "x = a_id (the (dict_get (di_existing df) k))"
    by (auto simp: projected_changed_def Let_def)
  then obtain b where b: "b \<in> set (instrument_members d (i_id i))" "k = pair_of b" unfolding run_facts(10) [OF assms] by blast
  then have "x = a_id b" using k(2) existing_row [OF assms b(1)] by simp
  then show "x \<in> member_ids d (i_id i)" using b(1) by (simp add: member_ids_def)
qed

lemma changed_after_iff:
  assumes run: "run_of d sid i df" and new: "new_rows d sid i df new" and grp: "i_group_kind i \<noteq> None"
    and e: "gen_ok e" "same_setup e d" "map skel (assignments e) = map skel (assignments (written df d new))"
    and r: "r \<in> set (responses d)"
  defines "gs \<equiv> fst (instrument_groups d sid (i_id i))"
  shows "r_assignment r \<notin> set (delete_ids df) \<and> r_assignment r \<in> changed_assignments e sid (snapshot_group_partitions d sid {i_id i})
    \<longleftrightarrow> i_id i \<in> answered d {i_id i} \<and> r_assignment r \<in> projected_changed i (pair_context_lookup d sid) df gs"
proof -
  let ?before = "snapshot_group_partitions d sid {i_id i}"
  have ok: "gen_ok d" "i \<in> set (instruments d)" "keyed_assignments d" using run by (auto simp: run_of_def gen_ok_def)
  obtain a where a: "a \<in> set (assignments d)" "r_assignment r = a_id a" using ok(1) r by (auto simp: gen_ok_def)
  have one: "b = a" if "b \<in> set (assignments d)" "a_id b = a_id a" for b
    using ok(3) a(1) that by (auto simp: keyed_assignments_def distinct_map dest: inj_onD)
  have mem: "a_id a \<in> member_ids d (i_id i) \<longleftrightarrow> a_instrument a = i_id i"
    using one a(1) by (auto simp: member_ids_def instrument_members_def)
  show ?thesis
  proof (cases "a_id a \<in> set (delete_ids df)")
    case True
    then have "a_instrument a = i_id i" "pair_of a \<notin> new_keys df" using deleted_rows [OF run a(1)] by auto
    then show ?thesis using projected_changed_iff [OF run, of a] a True by (simp add: gs_def instrument_members_def)
  next
    case False
    have rows: "map skel (assignments e) = map skel (rows_left df d @ new)" using e(3) by (simp add: written_def)
    have "a \<in> set (rows_left df d @ new)" using False a(1) by simp
    then have "skel a \<in> skel ` set (assignments e)" unfolding set_via_skel [OF rows, of skel, OF skel_idem] by (rule imageI)
    then obtain b where b: "b \<in> set (assignments e)" "skel b = skel a" by auto
    then have same: "a_id b = a_id a" "a_instrument b = a_instrument a" "pair_of b = pair_of a"
      by (metis skel_simps(1), metis skel_simps(5), metis skel_simps(3,4))
    have dis: "set g = set h" if "(k, hs) \<in> set ?before" "g \<in> set hs" "h \<in> set hs" "set g \<inter> set h \<noteq> {}" for k hs g h
      using that snapshot_disjoint [OF ok(3)] by (auto simp: snapshot_mem)
    have only: "k = i_id i" if "k \<in> answered d {i_id i}" for k using that by (auto simp: answered_def)
    have "a_id b \<in> changed_assignments e sid ?before \<longleftrightarrow>
        (\<exists>hs. (a_instrument b, hs) \<in> set ?before \<and> \<not> (\<exists>g \<in> set hs. group_of e sid b \<subseteq> set g))"
      by (rule changed_assignments_iff [OF gen_ok_parts(3) [OF e(1)] b(1)]) (rule dis)
    also have "\<dots> \<longleftrightarrow> a_instrument a = i_id i \<and> i_id i \<in> answered d {i_id i} \<and> \<not> (\<exists>g \<in> set gs. group_of e sid b \<subseteq> set g)"
      unfolding snapshot_mem same(2) gs_def using only by (cases "a_instrument a = i_id i") auto
    finally have changed: "a_id b \<in> changed_assignments e sid ?before \<longleftrightarrow>
        a_instrument a = i_id i \<and> i_id i \<in> answered d {i_id i} \<and> \<not> (\<exists>g \<in> set gs. group_of e sid b \<subseteq> set g)" .
    show ?thesis
    proof (cases "a_instrument a = i_id i")
      case True
      have g: "grouped e (i_id i)" "grouped d (i_id i)"
        using boundary_of_instrument(2) [OF gen_ok_parts(4) [OF ok(1)] ok(2)] grp same_setup_lookup(5) [OF e(2)] by simp_all
      have bm: "b \<in> set (instrument_members e (i_id i))" using b(1) same True by (simp add: instrument_members_def)
      have "group_of e sid b = peers d sid (i_id i) (new_keys df) (pair_of a)"
        using group_of_peers [OF gen_ok_parts(3) [OF e(1)] g(1) bm] written_members(1) [OF run new e(3)]
        by (simp only: same_setup_peers [OF e(2)] same(3))
      moreover have "pair_of a \<in> new_keys df" using False deleted_rows [OF run a(1)] True by simp
      ultimately show ?thesis using projected_changed_iff [OF run, of a] a(1) False True changed
        by (simp add: a(2) same(1) gs_def instrument_members_def)
    next
      case other: False
      then have "a_id a \<notin> projected_changed i (pair_context_lookup d sid) df gs" using projected_within [OF run] mem by blast
      then show ?thesis using other changed a(2) same(1) by simp
    qed
  qed
qed

lemma length_filter_Int: "length (filter P (filter Q xs)) = length (filter (\<lambda>x. Q x \<and> P x) xs)"
  by simp

lemma clears_as_projected:
  assumes run: "run_of d sid i df" and new: "new_rows d sid i df new" and ins: "di_insert df \<noteq> []" "i_group_kind i \<noteq> None"
    and e: "gen_ok e" "same_setup e d" "map skel (assignments e) = map skel (assignments (written df d new))"
      "responses e = responses (written df d new)"
  shows "length (filter (\<lambda>r. r_assignment r \<in> changed_assignments e sid (snapshot_group_partitions d sid {i_id i})) (responses e))
    = projected_group_clears d sid i df (pair_context_lookup d sid)"
proof -
  let ?before = "snapshot_group_partitions d sid {i_id i}" and ?gs = "fst (instrument_groups d sid (i_id i))"
  let ?changed = "changed_assignments e sid ?before"
  have count: "length (filter (\<lambda>r. r_assignment r \<in> ?changed) (responses e))
      = length (filter (\<lambda>r. i_id i \<in> answered d {i_id i} \<and> r_assignment r \<in> projected_changed i (pair_context_lookup d sid) df ?gs) (responses d))"
    unfolding e(4) written_def
    using changed_after_iff [OF run new ins(2) e(1-3)] by (auto intro!: arg_cong [where f = length] filter_cong)
  have keys: "dict_get ?before (i_id i) = (if i_id i \<in> answered d {i_id i} then Some ?gs else None)"
  proof (cases "i_id i \<in> answered d {i_id i}")
    case True
    then have mem: "(i_id i, ?gs) \<in> set ?before" by (simp add: snapshot_mem)
    have "v = ?gs" if "(i_id i, v) \<in> set ?before" for v using that by (simp add: snapshot_mem)
    then show ?thesis using True weak_map_of_SomeI [OF mem] unfolding dict_get_def by (auto dest: map_of_SomeD)
  next
    case False
    then have "i_id i \<notin> fst ` set ?before" using snapshot_mem [of "i_id i" _ d sid "{i_id i}"] by force
    then show ?thesis using False by (simp add: dict_get_def map_of_eq_None_iff)
  qed
  have "?gs \<noteq> []" if "i_id i \<in> answered d {i_id i}"
  proof -
    have "instrument_members d (i_id i) \<noteq> []" using that by (auto simp: answered_def instrument_members_def filter_empty_conv)
    then show ?thesis using instrument_groups_sets(1) [of d sid "i_id i"] run by (auto simp: run_of_def gen_ok_def)
  qed
  then show ?thesis using count keys ins by (auto simp: projected_group_clears_def)
qed

end
