(* ===== verification/Generation_Run.thy ===== *)
theory Generation_Run
  imports Reconcile_Facts
begin

text \<open>
  What one instrument's run leaves (\<open>_materialise_one_instrument\<close>) and what the loop over the
  instruments makes of it.
\<close>

section \<open>Flags of the written rows\<close>

lemma new_key_entry: "k \<in> new_keys df \<Longrightarrow> \<exists>rv re inc. dict_get (di_new df) k = Some (rv, re, inc)"
  using dom_dict_get [of "di_new df"] by (fastforce simp: new_keys_def dom_def)

lemma kept_include:
  assumes run: "run_of d sid i df" and a: "a \<in> set (instrument_members d (i_id i))" "pair_of a \<in> new_keys df"
  shows "\<exists>rv re inc. dict_get (di_new df) (pair_of a) = Some (rv, re, inc) \<and> dict_get (kept_includes df) (a_id a) = Some inc"
proof -
  let ?R = "instrument_members d (i_id i)"
  have k: "keyed_assignments d" using run by (simp add: run_of_def gen_ok_def)
  obtain rv re inc where get: "dict_get (di_new df) (pair_of a) = Some (rv, re, inc)"
    using new_key_entry [OF a(2)] by blast
  have keep: "set (di_keep df) = new_keys df \<inter> pair_of ` set ?R" by (rule run_facts(10) [OF run])
  have here: "(a_id a, inc) \<in> set (kept_includes df)"
    unfolding kept_includes_def set_map keep
    using a existing_row [OF run a(1)] get by (intro image_eqI [of _ _ "pair_of a"]) simp_all
  have "v = inc" if "(a_id a, v) \<in> set (kept_includes df)" for v
  proof -
    obtain k where k': "k \<in> set (di_keep df)" "a_id a = a_id (the (dict_get (di_existing df) k))"
      "v = snd (snd (the (dict_get (di_new df) k)))" using \<open>(a_id a, v) \<in> set (kept_includes df)\<close> by (auto simp: kept_includes_def)
    then obtain b where b: "b \<in> set ?R" "k = pair_of b" unfolding keep by blast
    then have "a_id b = a_id a" using k'(2) existing_row [OF run b(1)] by simp
    then have "b = a" using b(1) a(1) members_distinct(1) [OF k, of "i_id i"] by (auto simp: distinct_map dest: inj_onD)
    then show ?thesis using k'(3) b(2) get by simp
  qed
  moreover obtain v where v: "dict_get (kept_includes df) (a_id a) = Some v"
    using weak_map_of_SomeI [OF here] by (auto simp: dict_get_def)
  ultimately have "v = inc" using map_of_dict [OF v] by simp
  then show ?thesis using get v by simp
qed

lemma kept_include_ids:
  assumes run: "run_of d sid i df" and "dict_get (kept_includes df) k = Some inc"
  shows "\<exists>a \<in> set (instrument_members d (i_id i)). pair_of a \<in> new_keys df \<and> a_id a = k"
proof -
  obtain q where q: "q \<in> set (di_keep df)" "k = a_id (the (dict_get (di_existing df) q))"
    using map_of_dict [OF assms(2)] by (auto simp: kept_includes_def)
  then obtain b where "b \<in> set (instrument_members d (i_id i))" "q = pair_of b" "q \<in> new_keys df"
    unfolding run_facts(10) [OF run] by blast
  then show ?thesis using q(2) existing_row [OF run] by auto
qed

lemma written_include:
  assumes run: "run_of d sid i df" and new: "new_rows d sid i df new"
    and a: "a \<in> set (assignments (written df d new))" "a_instrument a = i_id i"
  shows "\<exists>rv re. dict_get (di_new df) (pair_of a) = Some (rv, re, a_include a)"
proof -
  let ?f = "\<lambda>a. case dict_get (kept_includes df) (a_id a) of None \<Rightarrow> a | Some inc \<Rightarrow> a\<lparr>a_include := inc\<rparr>"
  have f: "a_id (?f b) = a_id b" "a_instrument (?f b) = a_instrument b" "pair_of (?f b) = pair_of b" for b
    by (simp_all split: option.split)
  obtain b where b: "b \<in> set (rows_left df d @ new)" "a = ?f b"
    using a(1) unfolding written_def keep_pairs_def by auto
  show ?thesis
  proof (cases "b \<in> set new")
    case True
    have "dict_get (kept_includes df) (a_id b) = None"
    proof (rule ccontr)
      assume "dict_get (kept_includes df) (a_id b) \<noteq> None"
      then obtain c where c: "c \<in> set (instrument_members d (i_id i))" "pair_of c \<in> new_keys df" "a_id c = a_id b"
        using kept_include_ids [OF run] by fast
      then have "c \<in> set (rows_left df d)" using deleted_rows [OF run, of c] by (simp add: instrument_members_def)
      then have "a_id c \<in> a_id ` set (rows_left df d)" by (rule imageI)
      moreover have "a_id c \<in> a_id ` set new" using True c(3) by simp
      moreover have "a_id ` set (rows_left df d) \<inter> a_id ` set new = {}" using new by (simp add: new_rows_def)
      ultimately show False by blast
    qed
    then have "a = b" using b(2) by simp
    then show ?thesis using new True by (auto simp: new_rows_def inserted_def)
  next
    case False
    then have bd: "b \<in> set (assignments d)" "a_id b \<notin> set (delete_ids df)" using b(1) by auto
    have "a_instrument b = i_id i" using a(2) b(2) f(2) [of b] by simp
    then have "b \<in> set (instrument_members d (i_id i))" "pair_of b \<in> new_keys df"
      using bd deleted_rows [OF run bd(1)] by (simp_all add: instrument_members_def)
    from kept_include [OF run this] obtain rv re inc where get: "dict_get (di_new df) (pair_of b) = Some (rv, re, inc)"
      "dict_get (kept_includes df) (a_id b) = Some inc" by blast
    then have "pair_of a = pair_of b" "a_include a = inc" using b(2) f(3) [of b] by simp_all
    then show ?thesis using get(1) by (intro exI [of _ rv] exI [of _ re]) simp
  qed
qed

text \<open>Rows of other instruments are as they were.\<close>

lemma written_others:
  assumes run: "run_of d sid i df" and new: "new_rows d sid i df new" and "j \<noteq> i_id i"
  shows "instrument_members (written df d new) j = instrument_members d j"
proof -
  let ?f = "\<lambda>a. case dict_get (kept_includes df) (a_id a) of None \<Rightarrow> a | Some inc \<Rightarrow> a\<lparr>a_include := inc\<rparr>"
  have inst: "a_instrument (?f b) = a_instrument b" for b by (simp split: option.split)
  have gone: "a_id a \<notin> set (delete_ids df)" if "a \<in> set (assignments d)" "a_instrument a = j" for a
    using deleted_rows [OF run that(1)] that(2) assms(3) by simp
  have same: "?f a = a" if "a \<in> set (assignments d)" "a_instrument a = j" for a
  proof -
    have "dict_get (kept_includes df) (a_id a) = None"
    proof (rule ccontr)
      assume "dict_get (kept_includes df) (a_id a) \<noteq> None"
      then obtain c where c: "c \<in> set (instrument_members d (i_id i))" "a_id c = a_id a"
        using kept_include_ids [OF run] by fast
      have "inj_on a_id (set (assignments d))" using run by (simp add: run_of_def gen_ok_def keyed_assignments_def distinct_map)
      then have "c = a" using c that(1) by (auto simp: instrument_members_def dest: inj_onD)
      then show False using c(1) that(2) assms(3) by (simp add: instrument_members_def)
    qed
    then show ?thesis by simp
  qed
  have none: "filter (\<lambda>a. a_instrument a = j) new = []"
    using new assms(3) by (auto simp: new_rows_def inserted_def filter_empty_conv)
  have "instrument_members (written df d new) j = map ?f (filter (\<lambda>a. a_instrument a = j) (rows_left df d))"
    unfolding instrument_members_def written_def keep_pairs_def
    by (simp add: filter_map comp_def inst none del: filter_filter)
  also have "filter (\<lambda>a. a_instrument a = j) (rows_left df d) = instrument_members d j"
    unfolding instrument_members_def filter_filter by (rule filter_cong [OF refl]) (use gone in auto)
  also have "map ?f (instrument_members d j) = instrument_members d j"
    using same by (intro map_idI) (simp add: instrument_members_def)
  finally show ?thesis .
qed

section \<open>Storing the classification\<close>

lemma expected_skel: "expected_self d sid (skel a) = expected_self d sid a"
  by (simp add: expected_self_def row_reviewer_def row_reviewee_def)

lemma settle_simps [simp]:
  "skel (settle d sid a) = skel a" "a_id (settle d sid a) = a_id a" "a_instrument (settle d sid a) = a_instrument a"
  "a_session (settle d sid a) = a_session a" "a_reviewer (settle d sid a) = a_reviewer a" "a_reviewee (settle d sid a) = a_reviewee a"
  by (simp_all add: settle_def skel_def)

lemma settle_self: "a_session a = sid \<Longrightarrow> a_self_review (settle d sid a) = expected_self d sid a"
  by (simp add: settle_def)

definition settled :: "db \<Rightarrow> int \<Rightarrow> int \<Rightarrow> bool" where
  "settled d sid j \<longleftrightarrow> (\<forall>a \<in> set (instrument_members d j). a_session a = sid \<longrightarrow> a_self_review a = expected_self d sid a)"

lemma self_reviews_on_instrument:
  assumes "gen_ok d" "i \<in> set (instruments d)" "i_session i = sid"
  shows "self_reviews_on d sid (i_id i) = i_self_reviews i"
proof -
  have "distinct (map i_id (session_instruments d sid))" using assms(1) by (simp add: gen_ok_def session_instruments_def distinct_map_filter)
  from dict_of_get_distinct [OF this, of i i_self_reviews] show ?thesis
    using assms(2,3) by (simp add: self_reviews_on_def session_instruments_def)
qed

text \<open>A row written with its pair's \<open>include\<close> keeps it when its flag is corrected.\<close>

lemma settle_include:
  assumes "gen_ok d" "i \<in> set (instruments d)" "i_session i = sid" "a_instrument a = i_id i" "a_session a = sid"
    and "a_include a = pair_include i (expected_self d sid a) (row_reviewer d a, row_reviewee d a)"
  shows "a_include (settle d sid a) = a_include a"
  using assms(4-6) self_reviews_on_instrument [OF assms(1-3)]
  by (auto simp: settle_def include_after_flip_def pair_include_def)

lemma clear_without_question:
  "clear_changed_groups d sid before None = Inr
     (d\<lparr>responses := filter (\<lambda>r. r_assignment r \<notin> changed_assignments d sid before) (responses d)\<rparr>,
      length (filter (\<lambda>r. r_assignment r \<in> changed_assignments d sid before) (responses d)))"
  by (simp add: clear_changed_groups_def Let_def)

section \<open>After one instrument's run\<close>

definition after_run :: "db \<Rightarrow> int \<Rightarrow> instrument \<Rightarrow> instrument_diff \<Rightarrow> db \<Rightarrow> bool" where
  "after_run d sid i df d' \<longleftrightarrow> gen_ok d' \<and> same_setup d' d
     \<and> length (responses d') + di_responses_deleted df + projected_group_clears d sid i df (pair_context_lookup d sid)
         = length (responses d)
     \<and> length (assignments d') + length (di_delete df) = length (assignments d) + length (di_insert df)
     \<and> pair_of ` set (instrument_members d' (i_id i)) = new_keys df
     \<and> verify_self_review_classification d' sid = []
     \<and> (\<forall>j. j \<noteq> i_id i \<longrightarrow> focus j d' = focus j d \<and> (settled d sid j \<longrightarrow> instrument_members d' j = instrument_members d j))
     \<and> (\<forall>a \<in> set (instrument_members d' (i_id i)).
          a_include a = pair_include i (a_self_review a) (row_reviewer d' a, row_reviewee d' a))
     \<and> (\<forall>a \<in> set (instrument_members d (i_id i)). pair_of a \<in> new_keys df
          \<longrightarrow> skel a \<in> skel ` set (instrument_members d' (i_id i)))"

text \<open>The tables once the classification is stored; \<open>new\<close> are the inserted rows.\<close>

lemma stored_rows:
  assumes run: "run_of d sid i df" and new: "new_rows d sid i df new"
    and e: "e = fst (recompute_self_review_classification sid (written df d new))"
  shows "gen_ok e" "same_setup e d" "map skel (assignments e) = map skel (assignments (written df d new))"
    "responses e = responses (written df d new)"
    "assignments e = map (settle (written df d new) sid) (assignments (written df d new))"
proof -
  let ?w = "written df d new"
  have w: "gen_ok ?w" by (rule written_ok [OF run new])
  show rows: "map skel (assignments e) = map skel (assignments ?w)" unfolding e by simp
  show resp: "responses e = responses ?w" unfolding e by simp
  have stp: "same_setup e ?w" unfolding e by (simp add: same_setup_def)
  then show "same_setup e d" by (simp add: same_setup_def written_def)
  show "gen_ok e" by (rule gen_ok_skel [OF w stp rows]) (simp add: resp)
  show "assignments e = map (settle ?w sid) (assignments ?w)"
    unfolding e recompute_simps by (rule recompute_rows [OF gen_ok_parts(1,2) [OF w]])
qed

lemma stored_flags:
  assumes run: "run_of d sid i df" and new: "new_rows d sid i df new"
    and e: "e = fst (recompute_self_review_classification sid (written df d new))"
  shows "\<forall>a \<in> set (assignments e). a_session a = sid \<longrightarrow> a_self_review a = expected_self e sid a"
    and "\<forall>a \<in> set (instrument_members e (i_id i)).
      a_include a = pair_include i (a_self_review a) (row_reviewer e a, row_reviewee e a)"
    and "\<forall>j. j \<noteq> i_id i \<longrightarrow> settled d sid j \<longrightarrow> instrument_members e j = instrument_members d j"
proof -
  let ?w = "written df d new"
  note st = stored_rows [OF assms]
  have ok: "gen_ok d" "i \<in> set (instruments d)" "i_session i = sid" using run by (auto simp: run_of_def)
  have wd: "same_setup ?w d" by (simp add: written_def same_setup_def)
  have ew: "same_setup e ?w" using st(2) by (simp add: written_def same_setup_def)
  have exp: "expected_self e sid (settle ?w sid a) = expected_self ?w sid a" for a
  proof -
    have "expected_self e sid (settle ?w sid a) = expected_self ?w sid (settle ?w sid a)" by (rule same_setup_self(2) [OF ew])
    also have "\<dots> = expected_self ?w sid (skel (settle ?w sid a))" by (rule expected_skel [symmetric])
    also have "\<dots> = expected_self ?w sid a" by (simp only: settle_simps expected_skel)
    finally show ?thesis .
  qed
  show self: "\<forall>a \<in> set (assignments e). a_session a = sid \<longrightarrow> a_self_review a = expected_self e sid a"
    unfolding st(5) using exp settle_self by auto
  have w: "gen_ok ?w" "i \<in> set (instruments ?w)" using written_ok [OF run new] ok(2) by (simp_all add: written_def)
  show "\<forall>a \<in> set (instrument_members e (i_id i)).
      a_include a = pair_include i (a_self_review a) (row_reviewer e a, row_reviewee e a)"
  proof
    fix a
    assume "a \<in> set (instrument_members e (i_id i))"
    then obtain b where b: "b \<in> set (assignments ?w)" "a = settle ?w sid b" "a_instrument b = i_id i"
      unfolding instrument_members_def st(5) by auto
    obtain rv re where get: "dict_get (di_new df) (pair_of b) = Some (rv, re, a_include b)"
      using written_include [OF run new b(1,3)] by blast
    note entry = run_new_entry [OF run get]
    have people: "row_reviewer ?w b = rv" "row_reviewee ?w b = re"
      using reviewer_by_id_eq [OF gen_ok_parts(1) [OF ok(1)] entry(4)] reviewee_by_id_eq [OF gen_ok_parts(1) [OF ok(1)] entry(5)] entry(1)
      by (simp_all add: row_reviewer_def row_reviewee_def same_setup_lookup(3,4) [OF wd])
    have "b \<in> set (instrument_rows ?w sid (i_id i))"
      unfolding rows_of_instrument [OF w ok(3)] using b by (simp add: instrument_members_def)
    then have sess: "a_session b = sid" by (simp add: instrument_rows_def)
    have inc: "a_include b = pair_include i (expected_self ?w sid b) (row_reviewer ?w b, row_reviewee ?w b)"
      using entry(6) by (simp add: people expected_self_def same_setup_self(1) [OF wd] b(3))
    have "row_reviewer e a = row_reviewer ?w b" "row_reviewee e a = row_reviewee ?w b"
      by (simp_all add: b(2) row_reviewer_def row_reviewee_def same_setup_lookup(3,4) [OF ew])
    moreover have "a_self_review a = expected_self ?w sid b" by (simp add: b(2) settle_self [OF sess])
    moreover have "a_include a = a_include b" unfolding b(2) by (rule settle_include [OF w ok(3) b(3) sess inc])
    ultimately show "a_include a = pair_include i (a_self_review a) (row_reviewer e a, row_reviewee e a)" using inc by simp
  qed
  show "\<forall>j. j \<noteq> i_id i \<longrightarrow> settled d sid j \<longrightarrow> instrument_members e j = instrument_members d j"
  proof (intro allI impI)
    fix j
    assume j: "j \<noteq> i_id i" "settled d sid j"
    have "instrument_members e j = map (settle ?w sid) (instrument_members ?w j)"
      unfolding instrument_members_def st(5) by (simp add: filter_map comp_def)
    also have "instrument_members ?w j = instrument_members d j" by (rule written_others [OF run new j(1)])
    also have "map (settle ?w sid) (instrument_members d j) = instrument_members d j"
      using j(2) by (intro map_idI) (auto simp: settled_def settle_def same_setup_self(2) [OF wd])
    finally show "instrument_members e j = instrument_members d j" .
  qed
qed

text \<open>The partitions a run compares against, and the answers it clears by them.\<close>

definition groups_before :: "db \<Rightarrow> int \<Rightarrow> instrument \<Rightarrow> instrument_diff \<Rightarrow> partitions" where
  "groups_before d sid i df = (if i_group_kind i \<noteq> None \<and> di_insert df \<noteq> [] then snapshot_group_partitions d sid {i_id i} else [])"

lemma cleared_count:
  assumes "run_of d sid i df" "new_rows d sid i df new"
    and "e = fst (recompute_self_review_classification sid (written df d new))"
  shows "length (filter (\<lambda>r. r_assignment r \<in> changed_assignments e sid (groups_before d sid i df)) (responses e))
      = projected_group_clears d sid i df (pair_context_lookup d sid)"
    and "r \<in> set (responses e) \<Longrightarrow> r_assignment r \<in> changed_assignments e sid (groups_before d sid i df)
      \<Longrightarrow> r_assignment r \<in> member_ids d (i_id i)"
proof -
  note st = stored_rows [OF assms]
  have "length (filter (\<lambda>r. r_assignment r \<in> changed_assignments e sid (groups_before d sid i df)) (responses e))
      = projected_group_clears d sid i df (pair_context_lookup d sid)
    \<and> (\<forall>r \<in> set (responses e). r_assignment r \<in> changed_assignments e sid (groups_before d sid i df)
         \<longrightarrow> r_assignment r \<in> member_ids d (i_id i))"
  proof (cases "i_group_kind i \<noteq> None \<and> di_insert df \<noteq> []")
    case True
    have "r_assignment r \<in> member_ids d (i_id i)"
      if r: "r \<in> set (responses e)" "r_assignment r \<in> changed_assignments e sid (snapshot_group_partitions d sid {i_id i})" for r
    proof -
      have "r \<in> set (responses d)" "r_assignment r \<notin> set (delete_ids df)" using r(1) st(4) by (auto simp: written_def)
      then show ?thesis using changed_after_iff [OF assms(1,2) True [THEN conjunct1] st(1-3), of r] r(2) projected_within [OF assms(1)]
        by blast
    qed
    then show ?thesis using clears_as_projected [OF assms(1,2) True [THEN conjunct2] True [THEN conjunct1] st(1-4)] True
      by (simp add: groups_before_def)
  next
    case False
    then show ?thesis by (auto simp: groups_before_def changed_assignments_def projected_group_clears_def)
  qed
  then show "length (filter (\<lambda>r. r_assignment r \<in> changed_assignments e sid (groups_before d sid i df)) (responses e))
      = projected_group_clears d sid i df (pair_context_lookup d sid)"
    "r \<in> set (responses e) \<Longrightarrow> r_assignment r \<in> changed_assignments e sid (groups_before d sid i df)
      \<Longrightarrow> r_assignment r \<in> member_ids d (i_id i)" by blast+
qed

lemma same_focus:
  assumes "same_setup e d" "map skel (instrument_members e j) = map skel (instrument_members d j)"
    and "filter (\<lambda>r. r_assignment r \<in> member_ids d j) (responses e) = filter (\<lambda>r. r_assignment r \<in> member_ids d j) (responses d)"
  shows "focus j e = focus j d"
proof -
  have "member_ids e j = member_ids d j"
    unfolding member_ids_def by (rule set_via_skel [OF assms(2)]) simp
  then show ?thesis using assms unfolding focus_def same_setup_def by simp
qed

lemma deleted_count:
  assumes run: "run_of d sid i df"
  shows "length (rows_left df d) + length (di_delete df) = length (assignments d)"
proof -
  have ok: "gen_ok d" "keyed_assignments d" using run by (auto simp: run_of_def gen_ok_def)
  have "set (map a_id (filter (\<lambda>a. a_id a \<in> set (delete_ids df)) (assignments d))) = set (delete_ids df)"
    unfolding run_facts(4) [OF run] by (auto simp: instrument_members_def)
  moreover have "distinct (map a_id (filter (\<lambda>a. a_id a \<in> set (delete_ids df)) (assignments d)))"
    using gen_ok_parts(5) [OF ok(1)] by (rule distinct_map_filter)
  moreover have "distinct (delete_ids df)"
  proof -
    obtain ex ev where df: "df = diff_of d sid i ex (list_reviewers d sid) (list_reviewees d sid) (pair_context_lookup d sid) ev"
      using run by (auto simp: run_of_def)
    show ?thesis unfolding diff_parts(3) [OF ok(2) df]
      by (rule distinct_map_filter) (rule rows_distinct(2) [OF ok(2)])
  qed
  ultimately have "length (filter (\<lambda>a. a_id a \<in> set (delete_ids df)) (assignments d)) = length (delete_ids df)"
    by (metis distinct_card length_map)
  then show ?thesis using sum_length_filter_compl [of "\<lambda>a. a_id a \<in> set (delete_ids df)" "assignments d"] run_facts(5) [OF run]
    by simp
qed

lemma written_count:
  assumes run: "run_of d sid i df" and new: "new_rows d sid i df new"
    and rows: "map skel (assignments e) = map skel (assignments (written df d new))"
  shows "length (assignments e) + length (di_delete df) = length (assignments d) + length (di_insert df)"
proof -
  have "length (assignments e) = length (rows_left df d) + length new"
    using arg_cong [OF rows, of length] by (simp add: written_def del: length_filter_conv_card)
  moreover have "length new = length (di_insert df)" using new unfolding new_rows_def by (metis length_map)
  ultimately show ?thesis using deleted_count [OF run] by linarith
qed

lemma after_clearing:
  assumes run: "run_of d sid i df" and new: "new_rows d sid i df new"
    and e: "e = fst (recompute_self_review_classification sid (written df d new))"
    and d': "same_setup d' e" "assignments d' = assignments e"
      "responses d' = filter (\<lambda>r. r_assignment r \<notin> changed_assignments e sid (groups_before d sid i df)) (responses e)"
  shows "after_run d sid i df d'"
proof -
  note st = stored_rows [OF run new e] and flags = stored_flags [OF run new e] and cc = cleared_count [OF run new e]
  have ok: "gen_ok d" "i \<in> set (instruments d)" "keyed_assignments d" using run by (auto simp: run_of_def gen_ok_def)
  have d'd: "same_setup d' d" using d'(1) st(2) by (simp add: same_setup_def)
  have rows: "map skel (assignments d') = map skel (assignments (written df d new))" using d'(2) st(3) by simp
  have mem: "instrument_members d' = instrument_members e" by (simp add: fun_eq_iff instrument_members_def d'(2))
  have g: "gen_ok d'" by (rule gen_ok_skel [OF st(1) d'(1)]) (auto simp: d'(2,3))
  have lost: "length (responses d') + di_responses_deleted df + projected_group_clears d sid i df (pair_context_lookup d sid)
      = length (responses d)"
  proof -
    have "length (responses d') + projected_group_clears d sid i df (pair_context_lookup d sid) = length (responses e)"
      using sum_length_filter_compl [of "\<lambda>r. r_assignment r \<in> changed_assignments e sid (groups_before d sid i df)" "responses e"]
      by (simp add: cc(1) d'(3))
    moreover have "length (responses e) + di_responses_deleted df = length (responses d)"
      using sum_length_filter_compl [of "\<lambda>r. r_assignment r \<in> set (delete_ids df)" "responses d"]
      by (simp add: st(4) written_def run_facts(9) [OF run])
    ultimately show ?thesis by linarith
  qed
  note count = written_count [OF run new rows]
  have self: "expected_self d' sid a = expected_self e sid a" for a by (rule same_setup_self(2) [OF d'(1)])
  have verify: "verify_self_review_classification d' sid = []"
    using flags(1) unfolding verify_iff [OF gen_ok_parts(1,2) [OF g]] self d'(2) .
  have foc: "focus j d' = focus j d" if j: "j \<noteq> i_id i" for j
  proof (rule same_focus [OF d'd written_members(2) [OF run new rows j]])
    have "a_id a \<notin> member_ids d j" if a: "a \<in> set (instrument_members d (i_id i))" for a
      using gen_ok_parts(5) [OF ok(1)] a j by (auto simp: member_ids_def instrument_members_def distinct_map dest: inj_onD)
    then have apart: "x \<notin> member_ids d j" if "x \<in> member_ids d (i_id i)" for x using that by (auto simp: member_ids_def)
    have "set (delete_ids df) \<subseteq> member_ids d (i_id i)" unfolding run_facts(4) [OF run] by (auto simp: member_ids_def)
    then show "filter (\<lambda>r. r_assignment r \<in> member_ids d j) (responses d') = filter (\<lambda>r. r_assignment r \<in> member_ids d j) (responses d)"
      unfolding d'(3) st(4) written_def using cc(2) apart st(4)
      by (auto simp: written_def intro!: filter_cong)
  qed
  have people: "row_reviewer d' a = row_reviewer e a" "row_reviewee d' a = row_reviewee e a" for a
    by (simp_all add: row_reviewer_def row_reviewee_def same_setup_lookup(3,4) [OF d'(1)])
  have kept: "skel a \<in> skel ` set (instrument_members d' (i_id i))"
    if a: "a \<in> set (instrument_members d (i_id i))" "pair_of a \<in> new_keys df" for a
  proof -
    have "a \<in> set (rows_left df d)" using a deleted_rows [OF run, of a] by (simp add: instrument_members_def)
    then have "a \<in> set (filter (\<lambda>a. a_instrument a = i_id i) (rows_left df d @ new))" using a(1) by (simp add: instrument_members_def)
    moreover have "map skel (assignments d') = map skel (rows_left df d @ new)" using rows by (simp add: written_def)
    ultimately show ?thesis
      using set_via_skel [OF members_skel, of d' "rows_left df d @ new" skel "i_id i"] skel_idem by (metis imageI)
  qed
  show ?thesis
    unfolding after_run_def mem people
    using g d'd lost count written_members(1) [OF run new rows] verify foc flags(2,3) kept by (simp add: mem)
qed

lemma run_step:
  assumes run: "run_of d sid i df" and fresh: "fresh_ids fresh"
    and diff: "diff_one_instrument search sample compiles d sid i row rvs res lookup override = Inr df"
  shows "\<exists>d' st. materialise_one_instrument fresh search sample compiles user sid i row rvs res lookup override d
      = Inr (d', length (di_delete df), length (di_insert df), st) \<and> after_run d sid i df d'"
proof -
  have ok: "gen_ok d" using run by (simp add: run_of_def)
  obtain new d3 where new: "map pair_of new = di_insert df" "distinct (map a_id (rows_left df d @ new))"
    "\<forall>a \<in> set new. inserted sid (i_id i) df a" "d3 = written df d new"
    "apply_diff fresh sid i df d = fst (recompute_self_review_classification sid d3)"
    by (rule apply_diff_rows [OF fresh run_facts(1,2) [OF run] gen_ok_parts(5) [OF ok], where i = i and sid = sid])
      (rule that, assumption+, simp only: written_def)
  then have nr: "new_rows d sid i df new" by (simp add: new_rows_def)
  define e where "e = fst (recompute_self_review_classification sid (written df d new))"
  have e: "apply_diff fresh sid i df d = e" using new(4,5) by (simp add: e_def)
  show ?thesis
    unfolding materialise_one_instrument_def diff bindE_simps Let_def groups_before_def [symmetric] e clear_without_question prod.case
    by (intro exI conjI, rule refl, rule after_clearing [OF run nr e_def]) (simp_all add: same_setup_def)
qed

section \<open>The same diff before and after other runs\<close>

lemma schema_valid:
  assumes "engine_schema compiles row = Inr (schema, seed)"
  shows "list_all (\<lambda>r. validate_rule compiles r = Inr ()) (ru_rules schema)"
proof (cases row)
  case None
  then have "schema = full_matrix_schema" using assms by (simp add: engine_schema_def)
  then show ?thesis by (simp add: full_matrix_schema_def)
next
  case (Some r)
  with assms obtain us where "all_results (map (validate_rule compiles) (sr_rules r)) = Inr us" "ru_rules schema = sr_rules r"
    by (auto simp: engine_schema_def session_rule_set_to_schema_def)
  then show ?thesis using all_results_ok [of "map (validate_rule compiles) (sr_rules r)"] by (auto simp: list_all_iff)
qed

lemma diff_one_Inr:
  assumes "diff_one_instrument search sample compiles d sid i row rvs res lookup override = Inr df"
  obtains schema seed ev where "engine_schema compiles row = Inr (schema, seed)"
    "evaluate search sample schema rvs res override seed (Some lookup) = Inr ev"
    "df = diff_of d sid i (excludes_own row) rvs res lookup ev"
  using assms by (auto simp: diff_one_instrument_def)

lemma diff_is_run:
  assumes "gen_ok d" "i \<in> set (instruments d)" "i_session i = sid" "samples sample"
    and "diff_one_instrument search sample compiles d sid i row (list_reviewers d sid) (list_reviewees d sid)
      (pair_context_lookup d sid) override = Inr df"
  shows "run_of d sid i df"
proof -
  obtain schema seed ev where s: "engine_schema compiles row = Inr (schema, seed)"
    "evaluate search sample schema (list_reviewers d sid) (list_reviewees d sid) override seed (Some (pair_context_lookup d sid)) = Inr ev"
    "df = diff_of d sid i (excludes_own row) (list_reviewers d sid) (list_reviewees d sid) (pair_context_lookup d sid) ev"
    by (rule diff_one_Inr [OF assms(5)])
  show ?thesis
    unfolding run_of_def using assms(1-3) s(3) evaluate_subset [OF s(2) assms(4) schema_valid [OF s(1)]] by blast
qed

text \<open>What the sums of a dry run are made of.\<close>

definition same_counts :: "instrument_diff \<Rightarrow> instrument_diff \<Rightarrow> bool" where
  "same_counts df df' \<longleftrightarrow> di_new df = di_new df' \<and> di_insert df = di_insert df' \<and> di_delete df = di_delete df' \<and> di_keep df = di_keep df'
     \<and> di_responses_deleted df = di_responses_deleted df' \<and> di_excluded df = di_excluded df'"

lemma projected_focus:
  assumes k: "keyed_assignments d" and df: "df = diff_of d sid i ex rvs res lookup ev"
    and df': "df' = diff_of (focus (i_id i) d) sid i ex rvs res lookup ev"
  shows "projected_group_clears d sid i df lookup' = projected_group_clears (focus (i_id i) d) sid i df' lookup'"
proof -
  note same = diff_focus [OF k, where sid = sid and i = i and ex = ex and rvs = rvs and res = res and lookup = lookup and ev = ev, folded df df']
  have changed: "projected_changed i lookup' df' gs = projected_changed i lookup' df gs" for gs
    by (simp add: projected_changed_def projected_groups_def same)
  have "projected_changed i lookup' df gs \<subseteq> member_ids d (i_id i)" for gs
  proof
    fix x
    assume "x \<in> projected_changed i lookup' df gs"
    then obtain key where key: "key \<in> set (di_keep df)" "x = a_id (the (dict_get (di_existing df) key))"
      by (auto simp: projected_changed_def Let_def)
    note p = diff_parts [OF k df]
    have "key \<in> pair_of ` set (instrument_rows d sid (i_id i))" using key(1) unfolding p(5) by simp
    then obtain b where b: "b \<in> set (instrument_rows d sid (i_id i))" "key = pair_of b" by blast
    have "dict_get (di_existing df) (pair_of b) = Some b"
      unfolding p(1) dict_get_def using b(1) rows_distinct(1) [OF k]
      by (intro map_of_is_SomeI) (auto simp: comp_def)
    moreover have "b \<in> set (instrument_members d (i_id i))" using b(1) rows_are_members by blast
    ultimately show "x \<in> member_ids d (i_id i)" using key(2) b(2) by (simp add: member_ids_def)
  qed
  then have "filter (\<lambda>r. r_assignment r \<in> projected_changed i lookup' df gs) (filter (\<lambda>r. r_assignment r \<in> member_ids d (i_id i)) (responses d))
      = filter (\<lambda>r. r_assignment r \<in> projected_changed i lookup' df gs) (responses d)" for gs
    unfolding filter_filter by (intro filter_cong) auto
  then show ?thesis
    by (simp add: projected_group_clears_def snapshot_focus changed same(2) split: option.split)
qed

lemma diff_same:
  assumes k: "keyed_assignments d" "keyed_assignments d0" and f: "focus (i_id i) d = focus (i_id i) d0"
    and one: "diff_one_instrument search sample compiles d0 sid i row rvs res lookup override = Inr df0"
  obtains df where "diff_one_instrument search sample compiles d sid i row rvs res lookup override = Inr df"
    "same_counts df df0" "projected_group_clears d sid i df lookup' = projected_group_clears d0 sid i df0 lookup'"
proof -
  obtain ex ev where df0: "df0 = diff_of d0 sid i ex rvs res lookup ev"
    and run: "diff_one_instrument search sample compiles d sid i row rvs res lookup override = Inr (diff_of d sid i ex rvs res lookup ev)"
    using one by (auto simp: diff_one_instrument_def split_beta)
  have "same_counts (diff_of d sid i ex rvs res lookup ev) df0"
    unfolding same_counts_def df0
    using diff_focus [OF k(1), where sid = sid and i = i and ex = ex and rvs = rvs and res = res and lookup = lookup and ev = ev] diff_focus [OF k(2), where sid = sid and i = i and ex = ex and rvs = rvs and res = res and lookup = lookup and ev = ev] f by simp
  moreover have "projected_group_clears d sid i (diff_of d sid i ex rvs res lookup ev) lookup' = projected_group_clears d0 sid i df0 lookup'"
    using projected_focus [OF k(1) refl refl, where sid = sid and i = i and ex = ex and rvs = rvs and res = res and lookup = lookup and ev = ev and lookup' = lookup'] projected_focus [OF k(2) df0 refl, where lookup' = lookup'] f
    by simp
  ultimately show thesis using that run by blast
qed

lemma diff_same_error:
  "diff_one_instrument search sample compiles d0 sid i row rvs res lookup override = Inl e
    \<Longrightarrow> diff_one_instrument search sample compiles d sid i row rvs res lookup override = Inl e"
  by (auto simp: diff_one_instrument_def bindE_Inl_iff split_beta)

section \<open>The loop over the instruments\<close>

text \<open>Where a run leaves an instrument whose diff, taken before it, is \<open>df\<close>.\<close>

definition generated :: "db \<Rightarrow> instrument \<Rightarrow> instrument_diff \<Rightarrow> db \<Rightarrow> bool" where
  "generated d i df d' \<longleftrightarrow> pair_of ` set (instrument_members d' (i_id i)) = new_keys df
     \<and> (\<forall>a \<in> set (instrument_members d' (i_id i)).
          a_include a = pair_include i (a_self_review a) (row_reviewer d' a, row_reviewee d' a))
     \<and> (\<forall>a \<in> set (instrument_members d (i_id i)). pair_of a \<in> new_keys df
          \<longrightarrow> skel a \<in> skel ` set (instrument_members d' (i_id i)))"

lemma generated_later:
  assumes "generated d i df d1" "same_setup d' d1" "instrument_members d' (i_id i) = instrument_members d1 (i_id i)"
  shows "generated d i df d'"
  using assms unfolding generated_def
  by (simp add: row_reviewer_def row_reviewee_def same_setup_lookup(3,4) [OF assms(2)])

lemma generated_earlier:
  assumes "generated d i df d'" "focus (i_id i) d = focus (i_id i) d0" "new_keys df = new_keys df0"
  shows "generated d0 i df0 d'"
proof -
  have rows: "map skel (instrument_members d0 (i_id i)) = map skel (instrument_members d (i_id i))"
    using arg_cong [OF assms(2), of assignments] by simp
  have "skel a \<in> skel ` set (instrument_members d' (i_id i))"
    if a: "a \<in> set (instrument_members d0 (i_id i))" "pair_of a \<in> new_keys df0" for a
  proof -
    have "skel a \<in> skel ` set (instrument_members d (i_id i))"
      unfolding set_via_skel [OF rows [symmetric], of skel, OF skel_idem] using a(1) by (rule imageI)
    then obtain b where b: "b \<in> set (instrument_members d (i_id i))" "skel b = skel a" by auto
    have "pair_of b = pair_of a" using b(2) by (metis skel_simps(3,4))
    then have "pair_of b \<in> new_keys df" using a(2) assms(3) by simp
    then have "skel b \<in> skel ` set (instrument_members d' (i_id i))" using assms(1) b(1) unfolding generated_def by blast
    then show ?thesis by (simp only: b(2))
  qed
  then show ?thesis using assms(1,3) by (simp add: generated_def)
qed

text \<open>The state of a loop that still has the instruments \<open>is\<close> to run, against the tables it began with.\<close>

definition loop_state :: "db \<Rightarrow> int \<Rightarrow> instrument list \<Rightarrow> db \<Rightarrow> bool" where
  "loop_state d0 sid is d \<longleftrightarrow> gen_ok d0 \<and> gen_ok d \<and> same_setup d d0 \<and> distinct (map i_id is)
     \<and> (\<forall>i \<in> set is. i \<in> set (instruments d0) \<and> i_session i = sid \<and> focus (i_id i) d = focus (i_id i) d0)"

definition session_inputs :: "db \<Rightarrow> int \<Rightarrow> reconcile_inputs \<Rightarrow> bool" where
  "session_inputs d0 sid inputs \<longleftrightarrow> in_reviewers inputs = list_reviewers d0 sid \<and> in_reviewees inputs = list_reviewees d0 sid
     \<and> in_lookup inputs = pair_context_lookup d0 sid"

text \<open>What a finished loop has done, in the terms of the dry run's sums.\<close>

definition loop_done ::
  "regex_search \<Rightarrow> sampler \<Rightarrow> (string \<Rightarrow> bool) \<Rightarrow> db \<Rightarrow> int \<Rightarrow> reconcile_inputs \<Rightarrow> bool option \<Rightarrow> instrument list
     \<Rightarrow> db \<Rightarrow> db \<Rightarrow> bool" where
  "loop_done search sample compiles d0 sid inputs override is d d' \<longleftrightarrow> gen_ok d' \<and> same_setup d' d0
     \<and> (if is = [] then d' = d else verify_self_review_classification d' sid = [])
     \<and> (\<forall>j. j \<notin> i_id ` set is \<longrightarrow> focus j d' = focus j d \<and> (settled d sid j \<longrightarrow> instrument_members d' j = instrument_members d j))
     \<and> (\<forall>i \<in> set is. \<exists>row df. rule_set_for inputs i = Inr row
          \<and> diff_one_instrument search sample compiles d0 sid i row (in_reviewers inputs) (in_reviewees inputs) (in_lookup inputs) override
              = Inr df
          \<and> generated d0 i df d')"

lemma same_rosters:
  assumes "same_setup d e"
  shows "list_reviewers d sid = list_reviewers e sid" "list_reviewees d sid = list_reviewees e sid"
  using assms by (simp_all add: same_setup_def list_reviewers_def list_reviewees_def)

lemma settled_all: "people_keyed d \<Longrightarrow> rows_sound d \<Longrightarrow> verify_self_review_classification d sid = [] \<Longrightarrow> settled d sid j"
  by (simp add: verify_iff settled_def instrument_members_def)

lemma loop_one:
  assumes "loop_state d0 sid (i # is) d" "session_inputs d0 sid inputs" "fresh_ids fresh" "samples sample"
    and diff: "diff_one_instrument search sample compiles d0 sid i row (in_reviewers inputs) (in_reviewees inputs) (in_lookup inputs) override
       = Inr df0"
  shows "\<exists>d1 st. materialise_one_instrument fresh search sample compiles user sid i row
        (in_reviewers inputs) (in_reviewees inputs) (in_lookup inputs) override d
      = Inr (d1, length (di_delete df0), length (di_insert df0), st)
    \<and> loop_state d0 sid is d1 \<and> generated d0 i df0 d1 \<and> verify_self_review_classification d1 sid = []
    \<and> length (responses d1) + di_responses_deleted df0 + projected_group_clears d0 sid i df0 (in_lookup inputs) = length (responses d)
    \<and> length (assignments d1) + length (di_delete df0) = length (assignments d) + length (di_insert df0)
    \<and> (\<forall>j. j \<noteq> i_id i \<longrightarrow> focus j d1 = focus j d \<and> (settled d sid j \<longrightarrow> instrument_members d1 j = instrument_members d j))"
proof -
  have ls: "gen_ok d0" "gen_ok d" "same_setup d d0" "i \<in> set (instruments d0)" "i_session i = sid" "focus (i_id i) d = focus (i_id i) d0"
    "distinct (map i_id (i # is))" using assms(1) by (auto simp: loop_state_def)
  have inputs: "in_reviewers inputs = list_reviewers d sid" "in_reviewees inputs = list_reviewees d sid"
    "in_lookup inputs = pair_context_lookup d sid"
    using assms(2) same_rosters [OF ls(3)] same_setup_lookup(1) [OF ls(3)] by (simp_all add: session_inputs_def)
  obtain df where df: "diff_one_instrument search sample compiles d sid i row
        (in_reviewers inputs) (in_reviewees inputs) (in_lookup inputs) override = Inr df"
    "same_counts df df0" "projected_group_clears d sid i df (in_lookup inputs) = projected_group_clears d0 sid i df0 (in_lookup inputs)"
    by (rule diff_same [OF gen_ok_parts(3) [OF ls(2)] gen_ok_parts(3) [OF ls(1)] ls(6) diff, where lookup' = "in_lookup inputs"])
  have "i \<in> set (instruments d)" using ls(3,4) by (simp add: same_setup_def)
  from diff_is_run [OF ls(2) this ls(5) assms(4) df(1) [unfolded inputs]] have run: "run_of d sid i df" .
  obtain d1 st where one: "materialise_one_instrument fresh search sample compiles user sid i row
      (in_reviewers inputs) (in_reviewees inputs) (in_lookup inputs) override d
      = Inr (d1, length (di_delete df), length (di_insert df), st)" "after_run d sid i df d1"
    using run_step [OF run assms(3) df(1)] by blast
  note after = one(2) [unfolded after_run_def]
  have keys: "new_keys df = new_keys df0" using df(2) by (simp add: same_counts_def new_keys_def)
  have "generated d i df d1" using after by (simp add: generated_def)
  then have "generated d0 i df0 d1" by (rule generated_earlier [OF _ ls(6) keys])
  moreover have "loop_state d0 sid is d1"
    using assms(1) after ls(7) unfolding loop_state_def same_setup_def by (auto simp: image_iff)
  ultimately show ?thesis
    using one(1) after df(2,3) by (intro exI [of _ d1] exI [of _ st]) (simp add: same_counts_def inputs)
qed

lemma impact_parts:
  "im_new (add_impact im df c) = im_new im + length (di_insert df)"
  "im_deleted (add_impact im df c) = im_deleted im + length (di_delete df)"
  "responses_lost (add_impact im df c) = responses_lost im + di_responses_deleted df + c"
  by (simp_all add: add_impact_def responses_lost_def)

text \<open>The dry run's loop and the real one, step for step.\<close>

lemma loops_agree:
  assumes "loop_state d0 sid is d" "session_inputs d0 sid inputs" "fresh_ids fresh" "samples sample"
  shows "case impact_loop search sample compiles d0 sid inputs override is im of
      Inl e \<Rightarrow> materialise_all fresh search sample compiles user sid inputs override is (d, a, b) = Inl e
    | Inr im' \<Rightarrow> \<exists>d' a' b'. materialise_all fresh search sample compiles user sid inputs override is (d, a, b) = Inr (d', a', b')
        \<and> a' + im_deleted im = a + im_deleted im' \<and> b' + im_new im = b + im_new im'
        \<and> length (responses d') + responses_lost im' = length (responses d) + responses_lost im
        \<and> length (assignments d') + a' + b = length (assignments d) + a + b'
        \<and> loop_done search sample compiles d0 sid inputs override is d d'"
  using assms(1)
proof (induction "is" arbitrary: d a b im)
  case Nil
  then show ?case by (simp add: loop_done_def loop_state_def)
next
  case (Cons i "is")
  show ?case
  proof (cases "rule_set_for inputs i")
    case (Inl e)
    then show ?thesis by simp
  next
    case row: (Inr row)
    let ?diff = "\<lambda>d. diff_one_instrument search sample compiles d sid i row
        (in_reviewers inputs) (in_reviewees inputs) (in_lookup inputs) override"
    show ?thesis
    proof (cases "?diff d0")
      case (Inl e)
      then show ?thesis using row diff_same_error [OF Inl, of d] by (simp add: materialise_one_instrument_def)
    next
      case (Inr df0)
      let ?c = "projected_group_clears d0 sid i df0 (in_lookup inputs)" and ?im = "\<lambda>im. add_impact im df0"
      obtain d1 st where one: "materialise_one_instrument fresh search sample compiles user sid i row
          (in_reviewers inputs) (in_reviewees inputs) (in_lookup inputs) override d
          = Inr (d1, length (di_delete df0), length (di_insert df0), st)"
        "loop_state d0 sid is d1" "generated d0 i df0 d1" "verify_self_review_classification d1 sid = []"
        "length (responses d1) + di_responses_deleted df0 + ?c = length (responses d)"
        "length (assignments d1) + length (di_delete df0) = length (assignments d) + length (di_insert df0)"
        "\<forall>j. j \<noteq> i_id i \<longrightarrow> focus j d1 = focus j d \<and> (settled d sid j \<longrightarrow> instrument_members d1 j = instrument_members d j)"
        using loop_one [OF Cons.prems assms(2-4) Inr, of user] by blast
      have impact: "impact_loop search sample compiles d0 sid inputs override (i # is) im
          = impact_loop search sample compiles d0 sid inputs override is (add_impact im df0 ?c)"
        using row Inr by simp
      have real: "materialise_all fresh search sample compiles user sid inputs override (i # is) (d, a, b)
          = materialise_all fresh search sample compiles user sid inputs override is
              (d1, a + length (di_delete df0), b + length (di_insert df0))"
        using row one(1) by simp
      have fin: "loop_done search sample compiles d0 sid inputs override (i # is) d d'"
        if rest: "loop_done search sample compiles d0 sid inputs override is d1 d'" for d'
      proof -
        have ls: "gen_ok d1" "i_id i \<notin> i_id ` set is" "same_setup d1 d0"
          using one(2) Cons.prems by (auto simp: loop_state_def)
        note r = rest [unfolded loop_done_def]
        have set1: "settled d1 sid j" for j by (rule settled_all [OF gen_ok_parts(1,2) [OF ls(1)] one(4)])
        have dd: "same_setup d' d1" using r ls(3) by (simp add: same_setup_def)
        have "generated d0 i df0 d'" using generated_later [OF one(3) dd] r ls(2) set1 by blast
        moreover have "verify_self_review_classification d' sid = []"
          using r one(4) by (cases "is = []") simp_all
        ultimately show ?thesis unfolding loop_done_def using r one(7) set1 row Inr by auto
      qed
      note IH = Cons.IH [OF one(2), where im = "add_impact im df0 ?c" and a = "a + length (di_delete df0)"
          and b = "b + length (di_insert df0)"]
      show ?thesis
      proof (cases "impact_loop search sample compiles d0 sid inputs override is (add_impact im df0 ?c)")
        case (Inl e)
        then show ?thesis using IH unfolding impact real by simp
      next
        case (Inr im')
        then obtain d' a' b' where rest: "materialise_all fresh search sample compiles user sid inputs override is
              (d1, a + length (di_delete df0), b + length (di_insert df0)) = Inr (d', a', b')"
            "a' + im_deleted (add_impact im df0 ?c) = a + length (di_delete df0) + im_deleted im'"
            "b' + im_new (add_impact im df0 ?c) = b + length (di_insert df0) + im_new im'"
            "length (responses d') + responses_lost im' = length (responses d1) + responses_lost (add_impact im df0 ?c)"
            "length (assignments d') + a' + (b + length (di_insert df0)) = length (assignments d1) + (a + length (di_delete df0)) + b'"
            "loop_done search sample compiles d0 sid inputs override is d1 d'" using IH by auto
        have "a' + im_deleted im = a + im_deleted im'" "b' + im_new im = b + im_new im'"
          "length (responses d') + responses_lost im' = length (responses d) + responses_lost im"
          "length (assignments d') + a' + b = length (assignments d) + a + b'"
          using rest(2-5) one(5,6) by (simp_all add: impact_parts)
        then show ?thesis unfolding impact real Inr sum.case using rest(1) fin [OF rest(6)] by blast
      qed
    qed
  qed
qed

end
