(* ===== verification/Generation_Properties.thy ===== *)
theory Generation_Properties
  imports Generation_Run
begin

text \<open>
  What Generate promises: the confirmation's dry run foretells the run, the rows of every
  instrument are the rules' pairs with the right flags, and a run leaves nothing stale.
\<close>

section \<open>Before the loop\<close>

lemma first_instrument:
  assumes "session_instruments d sid \<noteq> []"
  obtains i xs where "sort_key i_id (session_instruments d sid) = i # xs"
  using assms by (cases "sort_key i_id (session_instruments d sid)") (metis length_0_conv length_sort, blast)

lemma ensure_default_keeps:
  assumes "session_instruments d sid \<noteq> []"
  shows "same_setup (fst (ensure_default_instrument ids sid d)) d"
    and "assignments (fst (ensure_default_instrument ids sid d)) = assignments d"
    and "responses (fst (ensure_default_instrument ids sid d)) = responses d"
proof -
  obtain i xs where "sort_key i_id (session_instruments d sid) = i # xs" by (rule first_instrument [OF assms])
  then show "same_setup (fst (ensure_default_instrument ids sid d)) d"
    "assignments (fst (ensure_default_instrument ids sid d)) = assignments d"
    "responses (fst (ensure_default_instrument ids sid d)) = responses d"
    by (simp_all add: ensure_default_instrument_def same_setup_def)
qed

lemma invalidate_keeps:
  "same_setup (invalidate_if_validated user reason sid d) d"
  "assignments (invalidate_if_validated user reason sid d) = assignments d"
  "responses (invalidate_if_validated user reason sid d) = responses d"
  by (simp_all add: invalidate_if_validated_def flip_to_draft_def set_status_def same_setup_def split: option.split)

lemma load_same:
  assumes "same_setup d e"
  shows "load_reconcile_inputs d sid target = load_reconcile_inputs e sid target"
proof -
  have "rule_sets d = rule_sets e" using assms by (simp add: same_setup_def)
  then show ?thesis
    by (simp only: load_reconcile_inputs_def same_rosters [OF assms] same_setup_lookup(7) [OF assms] same_setup_lookup(1) [OF assms])
qed

lemma loaded:
  assumes "load_reconcile_inputs d sid target = Inr inputs"
  shows "session_inputs d sid inputs" "set (in_targets inputs) = {i \<in> set (session_instruments d sid). target = None \<or> target = Some (i_id i)}"
    "distinct (map i_id (instruments d)) \<Longrightarrow> distinct (map i_id (in_targets inputs))"
proof -
  let ?all = "filter (\<lambda>i. case target of None \<Rightarrow> True | Some k \<Rightarrow> i_id i = k)
      (sort_key (\<lambda>i. (i_order i, i_id i)) (session_instruments d sid))"
  have inputs: "in_targets inputs = ?all" "session_inputs d sid inputs"
    using assms by (auto simp: load_reconcile_inputs_def Let_def session_inputs_def split: if_splits)
  show "session_inputs d sid inputs" by (fact inputs(2))
  show "set (in_targets inputs) = {i \<in> set (session_instruments d sid). target = None \<or> target = Some (i_id i)}"
    unfolding inputs(1) by (cases target) auto
  assume "distinct (map i_id (instruments d))"
  then have "distinct (map i_id (session_instruments d sid))" by (simp add: session_instruments_def distinct_map_filter)
  then show "distinct (map i_id (in_targets inputs))"
    unfolding inputs(1) by (simp add: distinct_map distinct_filter inj_on_def)
qed

lemma focus_same:
  assumes "same_setup d e" "assignments d = assignments e" "responses d = responses e"
  shows "focus j d = focus j e"
  using assms by (simp add: focus_def same_setup_def member_ids_def instrument_members_def)

text \<open>The tables the loop begins with are those of the dry run.\<close>

lemma loop_start:
  assumes "gen_ok d" "load_reconcile_inputs d sid target = Inr inputs"
    and e: "same_setup e d" "assignments e = assignments d" "responses e = responses d"
  shows "loop_state d sid (in_targets inputs) e"
proof -
  have "gen_ok e" by (rule gen_ok_skel [OF assms(1) e(1)]) (simp_all add: e)
  moreover have "distinct (map i_id (instruments d))" using assms(1) by (simp add: gen_ok_def)
  ultimately show ?thesis
    using assms(1) e(1) loaded(2,3) [OF assms(2)] focus_same [OF e]
    by (auto simp: loop_state_def session_instruments_def)
qed

text \<open>The whole call against the dry run.\<close>

lemma replace_against_impact:
  assumes ok: "gen_ok d" "fresh_ids (new_assignment_id ids)" "samples sample"
    and gate: "require_editable d sid = Inr s" and some: "session_instruments d sid \<noteq> []"
  shows "case reconcile_impact search sample compiles target override sid d of
      Inl e \<Rightarrow> replace_assignments ids test_env search sample compiles user target override sid d = Inl e
    | Inr im \<Rightarrow> \<exists>d' inputs d1. replace_assignments ids test_env search sample compiles user target override sid d
          = Inr (d', im_deleted im, im_new im)
        \<and> length (responses d') + responses_lost im = length (responses d)
        \<and> length (assignments d') + im_deleted im = length (assignments d) + im_new im
        \<and> load_reconcile_inputs d sid target = Inr inputs \<and> in_targets inputs \<noteq> []
        \<and> loop_done search sample compiles d sid inputs override (in_targets inputs) d1 d'"
proof (cases "load_reconcile_inputs d sid target")
  case (Inl e)
  then show ?thesis
    using gate load_same [OF ensure_default_keeps(1) [OF some]]
    by (simp add: reconcile_impact_def replace_assignments_def Let_def)
next
  case (Inr inputs)
  define d1 where "d1 = invalidate_if_validated user ''assignments_generated'' sid (fst (ensure_default_instrument ids sid d))"
  have d1: "same_setup d1 d" "assignments d1 = assignments d" "responses d1 = responses d"
    unfolding d1_def using ensure_default_keeps [OF some] invalidate_keeps [of user "''assignments_generated''" sid]
    by (simp_all add: same_setup_def)
  have targets: "in_targets inputs \<noteq> []"
  proof (cases target)
    case None
    then have "set (in_targets inputs) = set (session_instruments d sid)" using loaded(2) [OF Inr] by simp
    then show ?thesis using some by auto
  next
    case (Some k)
    then show ?thesis using Inr by (auto simp: load_reconcile_inputs_def Let_def split: if_splits)
  qed
  let ?zero = "\<lparr>im_new = 0, im_deleted = 0, im_kept = 0, im_responses_deleted = 0, im_group_responses_cleared = 0\<rparr>"
  let ?fresh = "new_assignment_id ids"
  have dry: "reconcile_impact search sample compiles target override sid d
      = impact_loop search sample compiles d sid inputs override (in_targets inputs) ?zero"
    by (simp add: reconcile_impact_def Inr)
  have real: "replace_assignments ids test_env search sample compiles user target override sid d
      = bindE (materialise_all ?fresh search sample compiles user sid inputs override (in_targets inputs) (d1, 0, 0))
          (\<lambda>(d, replaced, new). bindE (drift_gate test_env sid d) (\<lambda>d. Inr (d, replaced, new)))"
    using gate load_same [OF ensure_default_keeps(1) [OF some], of ids] Inr targets
    by (simp add: replace_assignments_def Let_def d1_def)
  note loops = loops_agree [OF loop_start [OF ok(1) Inr d1] loaded(1) [OF Inr] ok(2,3), where im = ?zero and a = 0 and b = 0
      and search = search and compiles = compiles and override = override and user = user]
  show ?thesis
  proof (cases "impact_loop search sample compiles d sid inputs override (in_targets inputs) ?zero")
    case (Inl e)
    then show ?thesis using loops unfolding dry real by simp
  next
    case (Inr im)
    then obtain d' a' b' where run: "materialise_all ?fresh search sample compiles user sid inputs override (in_targets inputs) (d1, 0, 0)
        = Inr (d', a', b')" "a' = im_deleted im" "b' = im_new im"
      "length (responses d') + responses_lost im = length (responses d)"
      "length (assignments d') + a' = length (assignments d) + b'"
      "loop_done search sample compiles d sid inputs override (in_targets inputs) d1 d'"
      using loops d1 by (auto simp: responses_lost_def)
    have "drift_gate test_env sid d' = Inr d'" using run(6) targets by (simp add: loop_done_def drift_gate_def)
    then show ?thesis
      unfolding dry real Inr sum.case run(1)
      using run \<open>load_reconcile_inputs d sid target = Inr inputs\<close> targets
      by (intro exI [of _ d'] exI [of _ inputs] exI [of _ d1]) simp
  qed
qed

section \<open>The dry run\<close>

text \<open>
  C38. What the operator confirms is what happens: over tables that keep their keys, for a session
  with an instrument, \<open>replace_assignments\<close> raises exactly what the dry run raises, and otherwise
  deletes and inserts the numbers of rows the dry run counted and loses exactly the
  \<open>responses_lost\<close> it announced, regrouped answers included. The gate on the stored
  classification never fires, under test or in production.
\<close>

theorem dry_run_is_the_run:
  assumes "gen_ok d" "fresh_ids (new_assignment_id ids)" "samples sample"
    and "require_editable d sid = Inr s" "session_instruments d sid \<noteq> []"
  shows "case reconcile_impact search sample compiles target override sid d of
      Inl e \<Rightarrow> replace_assignments ids test_env search sample compiles user target override sid d = Inl e
    | Inr im \<Rightarrow> \<exists>d'. replace_assignments ids test_env search sample compiles user target override sid d
          = Inr (d', im_deleted im, im_new im)
        \<and> length (responses d') + responses_lost im = length (responses d)
        \<and> length (assignments d') + im_deleted im = length (assignments d) + im_new im
        \<and> verify_self_review_classification d' sid = []"
  using replace_against_impact [OF assms, where search = search and compiles = compiles and target = target
      and override = override and test_env = test_env and user = user]
  by (auto simp: loop_done_def split: sum.splits)

section \<open>The rows of a run\<close>

lemma rule_set_row:
  assumes "load_reconcile_inputs d sid target = Inr inputs" "rule_set_for inputs i = Inr row"
  shows "case i_rule_set i of None \<Rightarrow> row = None | Some k \<Rightarrow> \<exists>r \<in> set (rule_sets d). row = Some r \<and> sr_id r = k"
proof (cases "i_rule_set i")
  case (Some k)
  obtain P where "in_rule_sets inputs = dict_of sr_id id (filter P (rule_sets d))"
    using assms(1) by (auto simp: load_reconcile_inputs_def Let_def split: if_splits)
  then have "row = Some r \<Longrightarrow> r \<in> set (rule_sets d) \<and> sr_id r = k" "row \<noteq> None" for r
    using assms(2) Some by (auto simp: rule_set_for_def dict_of_get Let_def split: if_splits option.splits dest!: last_in_set)
  then show ?thesis using Some by (cases row) auto
qed (use assms(2) in \<open>simp add: rule_set_for_def\<close>)

lemma run_done:
  assumes "gen_ok d" "fresh_ids (new_assignment_id ids)" "samples sample" "session_instruments d sid \<noteq> []"
    and run: "replace_assignments ids test_env search sample compiles user target override sid d = Inr (d', deleted, new)"
  obtains inputs d1 where "load_reconcile_inputs d sid target = Inr inputs"
    "loop_done search sample compiles d sid inputs override (in_targets inputs) d1 d'"
    "verify_self_review_classification d' sid = []"
proof -
  obtain s where gate: "require_editable d sid = Inr s"
    using run by (auto simp: replace_assignments_def)
  note against = replace_against_impact [OF assms(1-3) gate assms(4), where search = search and compiles = compiles and target = target
      and override = override and test_env = test_env and user = user]
  show thesis
  proof (cases "reconcile_impact search sample compiles target override sid d")
    case (Inl e)
    then show ?thesis using against run by simp
  next
    case (Inr im)
    then obtain inputs d1 where i: "load_reconcile_inputs d sid target = Inr inputs" "in_targets inputs \<noteq> []"
      "loop_done search sample compiles d sid inputs override (in_targets inputs) d1 d'" using against run by auto
    show ?thesis by (rule that [OF i(1,3)]) (use i(2,3) in \<open>simp add: loop_done_def\<close>)
  qed
qed

text \<open>The pairs of the rules, once the rule set's word on self-reviews is applied.\<close>

definition wanted_pairs :: "db \<Rightarrow> int \<Rightarrow> instrument \<Rightarrow> session_rule_set option \<Rightarrow> evaluation \<Rightarrow> pair set" where
  "wanted_pairs d sid i row ev = pair_identity_key `
     {p \<in> set (e_pairs ev). \<not> (excludes_own row \<and> reviews_self d sid (i_id i) (fst p) (snd p))}"

lemma new_keys_wanted:
  assumes "gen_ok d" "i \<in> set (instruments d)" "samples sample" "engine_schema compiles row = Inr (schema, seed)"
    and "evaluate search sample schema (list_reviewers d sid) (list_reviewees d sid) override seed (Some (pair_context_lookup d sid)) = Inr ev"
  shows "new_keys (diff_of e sid i (excludes_own row) (list_reviewers d sid) (list_reviewees d sid) (pair_context_lookup d sid) ev)
    = wanted_pairs d sid i row ev"
proof -
  have "set (e_pairs ev) \<subseteq> set (List.product (list_reviewers d sid) (list_reviewees d sid))"
    by (rule evaluate_subset [OF assms(5,3) schema_valid [OF assms(4)]])
  then have "diff_self i (pair_context_lookup d sid) (list_reviewers d sid) (list_reviewees d sid) p
      = reviews_self d sid (i_id i) (fst p) (snd p)" if "p \<in> set (e_pairs ev)" for p
    using diff_self_is_rule [OF assms(1,2), of "fst p" sid "snd p"] that by (cases p) auto
  then show ?thesis unfolding diff_new_keys(1) wanted_pairs_def by (intro image_cong) auto
qed

lemma rows_after_run:
  assumes "gen_ok d" "fresh_ids (new_assignment_id ids)" "samples sample"
    and run: "replace_assignments ids test_env search sample compiles user target override sid d = Inr (d', deleted, new)"
    and i: "i \<in> set (instruments d)" "i_session i = sid" "target = None \<or> target = Some (i_id i)"
  obtains row schema seed ev where
    "case i_rule_set i of None \<Rightarrow> row = None | Some k \<Rightarrow> \<exists>r \<in> set (rule_sets d). row = Some r \<and> sr_id r = k"
    "engine_schema compiles row = Inr (schema, seed)"
    "evaluate search sample schema (list_reviewers d sid) (list_reviewees d sid) override seed (Some (pair_context_lookup d sid)) = Inr ev"
    "pair_of ` set (instrument_members d' (i_id i)) = wanted_pairs d sid i row ev"
    "\<forall>a \<in> set (instrument_members d' (i_id i)). a_self_review a = reviews_self d sid (i_id i) (row_reviewer d a) (row_reviewee d a)
        \<and> a_include a = pair_include i (a_self_review a) (row_reviewer d a, row_reviewee d a)"
    "\<forall>a \<in> set (instrument_members d (i_id i)). pair_of a \<in> wanted_pairs d sid i row ev
        \<longrightarrow> (\<exists>b \<in> set (instrument_members d' (i_id i)). a_id b = a_id a \<and> pair_of b = pair_of a)"
    "gen_ok d'" "same_setup d' d" "verify_self_review_classification d' sid = []"
proof -
  have mem: "i \<in> set (session_instruments d sid)" using i(1,2) by (simp add: session_instruments_def)
  then have some: "session_instruments d sid \<noteq> []" by auto
  obtain inputs d1 where r: "load_reconcile_inputs d sid target = Inr inputs"
    "loop_done search sample compiles d sid inputs override (in_targets inputs) d1 d'"
    "verify_self_review_classification d' sid = []"
    by (rule run_done [OF assms(1-3) some run])
  have ins: "in_reviewers inputs = list_reviewers d sid" "in_reviewees inputs = list_reviewees d sid"
    "in_lookup inputs = pair_context_lookup d sid" using loaded(1) [OF r(1)] by (simp_all add: session_inputs_def)
  have g: "gen_ok d'" "same_setup d' d" using r(2) by (simp_all add: loop_done_def)
  have "i \<in> set (in_targets inputs)" unfolding loaded(2) [OF r(1)] using mem i(3) by simp
  then obtain row df where row: "rule_set_for inputs i = Inr row"
    "diff_one_instrument search sample compiles d sid i row (in_reviewers inputs) (in_reviewees inputs) (in_lookup inputs) override = Inr df"
    "generated d i df d'" using r(2) by (auto simp: loop_done_def)
  obtain schema seed ev where ev: "engine_schema compiles row = Inr (schema, seed)"
    "evaluate search sample schema (list_reviewers d sid) (list_reviewees d sid) override seed (Some (pair_context_lookup d sid)) = Inr ev"
    "df = diff_of d sid i (excludes_own row) (list_reviewers d sid) (list_reviewees d sid) (pair_context_lookup d sid) ev"
    using diff_one_Inr [OF row(2)] unfolding ins by metis
  have keys: "new_keys df = wanted_pairs d sid i row ev" unfolding ev(3) by (rule new_keys_wanted [OF assms(1) i(1) assms(3) ev(1,2)])
  have people: "row_reviewer d' a = row_reviewer d a" "row_reviewee d' a = row_reviewee d a" for a
    by (simp_all add: row_reviewer_def row_reviewee_def same_setup_lookup(3,4) [OF g(2)])
  have inst: "i \<in> set (instruments d')" using g(2) i(1) by (simp add: same_setup_def)
  have self: "a_self_review a = reviews_self d sid (i_id i) (row_reviewer d a) (row_reviewee d a)"
    if a: "a \<in> set (instrument_members d' (i_id i))" for a
  proof -
    have "a \<in> set (instrument_rows d' sid (i_id i))" unfolding rows_of_instrument [OF g(1) inst i(2)] by (rule a)
    then have "a \<in> set (assignments d')" "a_session a = sid" "a_instrument a = i_id i" by (simp_all add: instrument_rows_def)
    then show ?thesis using r(3) unfolding verify_iff [OF gen_ok_parts(1,2) [OF g(1)]]
      by (simp add: expected_self_def people same_setup_self(1) [OF g(2)])
  qed
  have kept: "\<exists>b \<in> set (instrument_members d' (i_id i)). a_id b = a_id a \<and> pair_of b = pair_of a"
    if a: "a \<in> set (instrument_members d (i_id i))" "pair_of a \<in> wanted_pairs d sid i row ev" for a
  proof -
    obtain b where "b \<in> set (instrument_members d' (i_id i))" "skel b = skel a"
      using row(3) a keys by (fastforce simp: generated_def)
    then show ?thesis by (metis skel_simps(1,3,4))
  qed
  show thesis
    by (rule that [OF rule_set_row [OF r(1) row(1)] ev(1,2) _ _ _ g r(3)])
      (use row(3) keys self kept people in \<open>simp_all add: generated_def\<close>)
qed

text \<open>
  C39. After a run every instrument it covered has exactly one row for each pair its rules emit,
  less the self-reviews its rule set drops; each row carries the self-review flag the roster gives
  it, and is included exactly when both people are active and, for a self-review, the
  instrument's toggle is on; a pair that had a row keeps that row.
\<close>

theorem generated_rows_follow_the_rules:
  assumes "gen_ok d" "fresh_ids (new_assignment_id ids)" "samples sample"
    and "replace_assignments ids test_env search sample compiles user target override sid d = Inr (d', deleted, new)"
    and "i \<in> set (instruments d)" "i_session i = sid" "target = None \<or> target = Some (i_id i)"
  shows "\<exists>row schema seed ev.
    (case i_rule_set i of None \<Rightarrow> row = None | Some k \<Rightarrow> \<exists>r \<in> set (rule_sets d). row = Some r \<and> sr_id r = k)
    \<and> engine_schema compiles row = Inr (schema, seed)
    \<and> evaluate search sample schema (list_reviewers d sid) (list_reviewees d sid) override seed (Some (pair_context_lookup d sid)) = Inr ev
    \<and> pair_of ` set (instrument_members d' (i_id i)) = wanted_pairs d sid i row ev
    \<and> distinct (map pair_of (instrument_members d' (i_id i)))
    \<and> (\<forall>a \<in> set (instrument_members d' (i_id i)).
          a_self_review a = reviews_self d sid (i_id i) (row_reviewer d a) (row_reviewee d a)
        \<and> (a_include a \<longleftrightarrow> (a_self_review a \<longrightarrow> i_self_reviews i)
              \<and> reviewer_active (row_reviewer d a) \<and> reviewee_active (row_reviewee d a)))
    \<and> (\<forall>a \<in> set (instrument_members d (i_id i)). pair_of a \<in> wanted_pairs d sid i row ev
        \<longrightarrow> (\<exists>b \<in> set (instrument_members d' (i_id i)). a_id b = a_id a \<and> pair_of b = pair_of a))"
proof -
  obtain row schema seed ev where *:
    "case i_rule_set i of None \<Rightarrow> row = None | Some k \<Rightarrow> \<exists>r \<in> set (rule_sets d). row = Some r \<and> sr_id r = k"
    "engine_schema compiles row = Inr (schema, seed)"
    "evaluate search sample schema (list_reviewers d sid) (list_reviewees d sid) override seed (Some (pair_context_lookup d sid)) = Inr ev"
    "pair_of ` set (instrument_members d' (i_id i)) = wanted_pairs d sid i row ev"
    "\<forall>a \<in> set (instrument_members d' (i_id i)). a_self_review a = reviews_self d sid (i_id i) (row_reviewer d a) (row_reviewee d a)
        \<and> a_include a = pair_include i (a_self_review a) (row_reviewer d a, row_reviewee d a)"
    "\<forall>a \<in> set (instrument_members d (i_id i)). pair_of a \<in> wanted_pairs d sid i row ev
        \<longrightarrow> (\<exists>b \<in> set (instrument_members d' (i_id i)). a_id b = a_id a \<and> pair_of b = pair_of a)"
    "gen_ok d'" "same_setup d' d" "verify_self_review_classification d' sid = []"
    by (rule rows_after_run [OF assms])
  have "distinct (map pair_of (instrument_members d' (i_id i)))" by (rule members_distinct(2) [OF gen_ok_parts(3) [OF *(7)]])
  then show ?thesis
    using *(1-6) by (intro exI [of _ row] exI [of _ schema] exI [of _ seed] exI [of _ ev]) (simp add: pair_include_def)
qed

section \<open>The count that stands in for the walk\<close>

lemma length_filter_by: "length (filter P xs) = length (filter P (filter Q xs)) + length (filter P (filter (\<lambda>x. \<not> Q x) xs))"
  by (induction xs) auto

lemma counter_map: "counter (map f xs) k = length (filter (\<lambda>x. f x = k) xs)"
  by (simp add: counter_def filter_map comp_def)

definition own_count :: "reviewee list \<Rightarrow> reviewer \<Rightarrow> nat" where
  "own_count res rv = length (filter (engine_self_review rv) res)"

lemma never_generated_step:
  assumes "tidy_account (rr_object_id r)" "\<forall>e \<in> set res. tidy_account (re_object_id e)"
  defines "a \<equiv> normalize_email (Some (rr_email r))" and "bound \<equiv> \<lambda>e. or_empty (re_object_id e) \<noteq> []"
    and "address \<equiv> \<lambda>e. normalize_email (Some (re_identifier e))"
  shows "own_count res r =
     (if or_empty (rr_object_id r) \<noteq> []
      then counter (map (\<lambda>e. normalize_object_id (re_object_id e)) (filter bound res)) (normalize_object_id (rr_object_id r))
        + (if a \<noteq> [] then counter (map address (filter (\<lambda>e. \<not> bound e) res)) a else 0)
      else if a \<noteq> [] then counter (map address res) a else 0)"
proof -
  have blank: "normalize_object_id v = []" if "or_empty v = []" for v
    using that by (simp add: normalize_object_id_def py_lower_def)
  have e_bound: "bound e \<longleftrightarrow> normalize_object_id (re_object_id e) \<noteq> []" if "e \<in> set res" for e
    using assms(2) that blank by (auto simp: bound_def tidy_account_def)
  show ?thesis
  proof (cases "or_empty (rr_object_id r) \<noteq> []")
    case True
    then have r: "normalize_object_id (rr_object_id r) \<noteq> []" using assms(1) by (simp add: tidy_account_def)
    have "filter (engine_self_review r) (filter bound res)
        = filter (\<lambda>e. normalize_object_id (re_object_id e) = normalize_object_id (rr_object_id r)) (filter bound res)"
      using r e_bound by (intro filter_cong) (auto simp: engine_self_review_def same_identity_def Let_def)
    moreover have "filter (engine_self_review r) (filter (\<lambda>e. \<not> bound e) res)
        = filter (\<lambda>e. a \<noteq> [] \<and> address e = a) (filter (\<lambda>e. \<not> bound e) res)"
      using e_bound by (intro filter_cong) (auto simp: engine_self_review_def same_identity_def Let_def a_def address_def)
    ultimately show ?thesis using True length_filter_by [of "engine_self_review r" res bound]
      by (simp only: own_count_def counter_map) simp
  next
    case False
    then have "normalize_object_id (rr_object_id r) = []" by (simp add: blank)
    then have "filter (engine_self_review r) res = filter (\<lambda>e. a \<noteq> [] \<and> address e = a) res"
      by (intro filter_cong) (auto simp: engine_self_review_def same_identity_def Let_def a_def address_def)
    then show ?thesis using False by (simp add: own_count_def counter_map)
  qed
qed

lemma foldl_sum: "foldl (\<lambda>n x. n + f x) m xs = m + sum_list (map f xs)" for m :: nat
  by (induction xs arbitrary: m) simp_all

lemma excluded_is_own:
  assumes "\<forall>r \<in> set rvs. tidy_account (rr_object_id r)" "\<forall>e \<in> set res. tidy_account (re_object_id e)"
  shows "never_generated_excluded rvs res = length (filter (\<lambda>(rv, re). engine_self_review rv re) (List.product rvs res))"
proof -
  have "never_generated_excluded rvs res = foldl (\<lambda>excluded r. excluded + own_count res r) 0 rvs"
    unfolding never_generated_excluded_def Let_def
  proof (rule foldl_cong [OF refl refl])
    fix n r
    assume "r \<in> set rvs"
    with assms have "tidy_account (rr_object_id r)" by blast
    from never_generated_step [OF this assms(2)]
    show "(if or_empty (rr_object_id r) \<noteq> []
        then n + counter (map (\<lambda>e. normalize_object_id (re_object_id e)) (filter (\<lambda>e. or_empty (re_object_id e) \<noteq> []) res))
              (normalize_object_id (rr_object_id r))
          + (if normalize_email (Some (rr_email r)) \<noteq> []
             then counter (map (\<lambda>e. normalize_email (Some (re_identifier e))) (filter (\<lambda>e. \<not> or_empty (re_object_id e) \<noteq> []) res))
                   (normalize_email (Some (rr_email r))) else 0)
        else if normalize_email (Some (rr_email r)) \<noteq> []
             then n + counter (map (\<lambda>e. normalize_email (Some (re_identifier e))) res) (normalize_email (Some (rr_email r))) else n)
        = n + own_count res r" by simp
  qed
  also have "\<dots> = sum_list (map (own_count res) rvs)"
    using foldl_sum [of "own_count res" 0 rvs] by simp
  also have "\<dots> = length (filter (\<lambda>(rv, re). engine_self_review rv re) (List.product rvs res))"
    by (induction rvs) (simp_all add: own_count_def filter_map comp_def)
  finally show ?thesis .
qed

lemma roster_facts:
  assumes "people_keyed d"
  shows "distinct (map rr_id (list_reviewers d sid))" "distinct (map re_id (list_reviewees d sid))"
    "\<forall>r \<in> set (list_reviewers d sid). tidy_account (rr_object_id r)" "\<forall>e \<in> set (list_reviewees d sid). tidy_account (re_object_id e)"
  using assms by (auto simp: people_keyed_def list_reviewers_def list_reviewees_def distinct_map distinct_filter inj_on_def)

text \<open>A full-matrix run of the engine.\<close>

lemma full_matrix_run:
  "\<exists>ev. evaluate search sample full_matrix_schema rvs res override seed bound = Inr ev
     \<and> set (e_pairs ev) = set (candidates_of override full_matrix_schema rvs res)
     \<and> length (e_pairs ev) = length (candidates_of override full_matrix_schema rvs res)
     \<and> e_excluded ev = self_counts override full_matrix_schema rvs res"
  unfolding evaluate_candidates
  by (simp add: full_matrix_schema_def apply_content_rules_def quotas_of_def map_filter_simps' Let_def)

lemma fast_path:
  assumes "people_keyed d" "instrument_rows d sid (i_id i) = []"
  shows "\<exists>df. diff_one_instrument search sample compiles d sid i None
        (list_reviewers d sid) (list_reviewees d sid) (pair_context_lookup d sid) override = Inr df
    \<and> verdict_of_diff df = full_matrix_never_generated_state (list_reviewers d sid) (list_reviewees d sid) override"
proof -
  let ?rvs = "list_reviewers d sid" and ?res = "list_reviewees d sid" and ?lookup = "pair_context_lookup d sid"
  note people = roster_facts [OF assms(1), of sid]
  let ?cs = "candidates_of override full_matrix_schema ?rvs ?res"
  let ?own = "filter (\<lambda>(rv, re). engine_self_review rv re) (List.product ?rvs ?res)"
  obtain ev where ev: "evaluate search sample full_matrix_schema ?rvs ?res override 0 (Some ?lookup) = Inr ev"
    "set (e_pairs ev) = set ?cs" "length (e_pairs ev) = length ?cs" "e_excluded ev = self_counts override full_matrix_schema ?rvs ?res"
    using full_matrix_run by blast
  let ?df = "diff_of d sid i False ?rvs ?res ?lookup ev"
  have run: "diff_one_instrument search sample compiles d sid i None ?rvs ?res ?lookup override = Inr ?df"
    by (simp add: diff_one_instrument_def engine_schema_def ev(1) excludes_own_def)
  have "distinct ?cs" "inj_on pair_identity_key (set ?cs)" using candidates_facts(1,2) [OF people(1,2)] by blast+
  then have "distinct (e_pairs ev)" "inj_on pair_identity_key (set (e_pairs ev))"
    using ev(2,3) by (metis card_distinct distinct_card, simp)
  then have keys: "distinct (map pair_identity_key (e_pairs ev))" by (simp add: distinct_map)
  have pairs: "di_pairs ?df = length (e_pairs ev)" "di_existing ?df = []" "di_excluded ?df = e_excluded ev"
  proof -
    have "dict_of pair_of id [] = []" by (simp add: dict_of_def)
    then show "di_pairs ?df = length (e_pairs ev)" "di_existing ?df = []" "di_excluded ?df = e_excluded ev"
      by (simp_all add: diff_of_def Let_def assms(2) dict_of_distinct [OF keys] with_self_review_exclusions_def)
  qed
  have exclude: "excludes_self override full_matrix_schema \<longleftrightarrow> override = Some True"
    by (cases override) (auto simp: excludes_self_def full_matrix_schema_def)
  have own: "never_generated_excluded ?rvs ?res = length ?own" by (rule excluded_is_own [OF people(3,4)])
  have sum: "counted (self_counts override full_matrix_schema ?rvs ?res) + length ?cs = length ?rvs * length ?res"
    by (rule candidates_facts(4) [OF people(1,2)])
  have none: "filter (\<lambda>(rv, re). engine_self_review rv re) (sort_key pair_sort_key (List.product ?rvs ?res)) = [] \<longleftrightarrow> ?own = []"
    by (auto simp: filter_empty_conv)
  have len: "length (filter (\<lambda>(rv, re). engine_self_review rv re) (sort_key pair_sort_key (List.product ?rvs ?res))) = length ?own"
    by (metis mset_filter mset_sort size_mset)
  have count: "count_of (self_counts override full_matrix_schema ?rvs ?res) ''self_review'' = (if override = Some True then length ?own else 0)"
    "counted (self_counts override full_matrix_schema ?rvs ?res) = (if override = Some True then length ?own else 0)"
    unfolding self_counts_def Let_def exclude none len by (simp_all add: count_of_def dict_get_def)
  have "verdict_of_diff ?df = full_matrix_never_generated_state ?rvs ?res override"
    using sum unfolding verdict_of_diff_def full_matrix_never_generated_state_def Let_def pairs ev(3,4) count own by auto
  then show ?thesis using run by blast
qed

text \<open>
  The counted verdict of an instrument never generated on the full matrix is the verdict of
  the walk it stands in for: the same number of eligible pairs and of self-reviews excluded,
  bound accounts and shared addresses included.
\<close>

theorem fast_path_is_the_walk:
  assumes "people_keyed d" "instrument_rows d sid (i_id i) = []"
  shows "\<exists>df. diff_one_instrument search sample compiles d sid i None
        (list_reviewers d sid) (list_reviewees d sid) (pair_context_lookup d sid) override = Inr df
    \<and> verdict_of_diff df = full_matrix_never_generated_state (list_reviewers d sid) (list_reviewees d sid) override"
  by (rule fast_path [OF assms])

section \<open>After a run\<close>

lemma instrument_verdict_walk:
  assumes "people_keyed d" "session_inputs d sid inputs" "rule_set_for inputs i = Inr row"
    and "diff_one_instrument search sample compiles d sid i row (in_reviewers inputs) (in_reviewees inputs) (in_lookup inputs) override = Inr df"
  shows "instrument_verdict search sample compiles d sid inputs override i = Inr (verdict_of_diff df)"
proof (cases "row = None \<and> instrument_rows d sid (i_id i) = []")
  case True
  obtain df' where "diff_one_instrument search sample compiles d sid i None
        (list_reviewers d sid) (list_reviewees d sid) (pair_context_lookup d sid) override = Inr df'"
    "verdict_of_diff df' = full_matrix_never_generated_state (list_reviewers d sid) (list_reviewees d sid) override"
    using fast_path [OF assms(1)] True by blast
  then show ?thesis using True assms(2-4) by (simp add: instrument_verdict_def session_inputs_def)
next
  case False
  then show ?thesis using assms(3,4) by (auto simp: instrument_verdict_def)
qed

definition clean_diff :: "db \<Rightarrow> int \<Rightarrow> instrument \<Rightarrow> instrument_diff \<Rightarrow> bool" where
  "clean_diff d sid i df \<longleftrightarrow> di_insert df = [] \<and> di_delete df = [] \<and> di_responses_deleted df = 0
     \<and> di_pairs df = length (instrument_members d (i_id i))"

lemma diff_after_run:
  assumes ok: "gen_ok d" "samples sample" and i: "i \<in> set (instruments d)" "i_session i = sid"
    and schema: "engine_schema compiles row = Inr (schema, seed)"
    and ev: "evaluate search sample schema (list_reviewers d sid) (list_reviewees d sid) override seed (Some (pair_context_lookup d sid)) = Inr ev"
    and rows: "pair_of ` set (instrument_members d (i_id i)) = wanted_pairs d sid i row ev"
  shows "\<exists>df. diff_one_instrument search sample compiles d sid i row
      (list_reviewers d sid) (list_reviewees d sid) (pair_context_lookup d sid) override = Inr df \<and> clean_diff d sid i df"
proof -
  define df where "df = diff_of d sid i (excludes_own row) (list_reviewers d sid) (list_reviewees d sid) (pair_context_lookup d sid) ev"
  have k: "keyed_assignments d" by (rule gen_ok_parts(3) [OF ok(1)])
  have "new_keys df = wanted_pairs d sid i row ev" unfolding df_def by (rule new_keys_wanted [OF ok(1) i(1) ok(2) schema ev])
  then have keys: "new_keys df = pair_of ` set (instrument_members d (i_id i))" using rows by simp
  note p = diff_parts [OF k df_def, unfolded rows_of_instrument [OF ok(1) i]]
  have "di_insert df = []" unfolding p(4) using keys by (auto simp: filter_empty_conv new_keys_def)
  moreover have del: "filter (\<lambda>a. pair_of a \<notin> new_keys df) (instrument_members d (i_id i)) = []"
    unfolding keys by (auto simp: filter_empty_conv)
  then have "di_delete df = []" "delete_ids df = []" unfolding p(2,3) by simp_all
  moreover have "di_pairs df = length (instrument_members d (i_id i))"
  proof -
    have "distinct (dict_keys (di_new df))" unfolding df_def by (rule diff_new_keys(2))
    from distinct_card [OF this] have "length (di_new df) = card (new_keys df)" by (simp add: new_keys_def dict_keys_def)
    also have "\<dots> = length (map pair_of (instrument_members d (i_id i)))"
      unfolding keys using distinct_card [OF members_distinct(2) [OF k, of "i_id i"]] by simp
    finally show ?thesis unfolding p(7) by simp
  qed
  ultimately have "clean_diff d sid i df" unfolding clean_diff_def p(6) by simp
  moreover have "diff_one_instrument search sample compiles d sid i row
      (list_reviewers d sid) (list_reviewees d sid) (pair_context_lookup d sid) override = Inr df"
    by (simp add: diff_one_instrument_def schema ev df_def)
  ultimately show ?thesis by blast
qed

lemma clean_loop:
  assumes "\<forall>i \<in> set is. \<exists>row df. rule_set_for inputs i = Inr row
      \<and> diff_one_instrument search sample compiles d sid i row (in_reviewers inputs) (in_reviewees inputs) (in_lookup inputs) override = Inr df
      \<and> clean_diff d sid i df"
  shows "\<exists>im'. impact_loop search sample compiles d sid inputs override is im = Inr im'
    \<and> im_new im' = im_new im \<and> im_deleted im' = im_deleted im \<and> responses_lost im' = responses_lost im"
  using assms
proof (induction "is" arbitrary: im)
  case (Cons i "is")
  then obtain row df where one: "rule_set_for inputs i = Inr row" "clean_diff d sid i df"
    "diff_one_instrument search sample compiles d sid i row (in_reviewers inputs) (in_reviewees inputs) (in_lookup inputs) override = Inr df"
    by auto
  let ?im = "add_impact im df (projected_group_clears d sid i df (in_lookup inputs))"
  obtain im' where "impact_loop search sample compiles d sid inputs override is ?im = Inr im'" "im_new im' = im_new ?im"
    "im_deleted im' = im_deleted ?im" "responses_lost im' = responses_lost ?im" using Cons by fastforce
  then show ?case using one by (simp add: impact_parts clean_diff_def projected_group_clears_def)
qed simp

text \<open>
  C40. A run leaves nothing to do: read again, no instrument of the session is stale or fails to
  load, each one's eligible count is its number of rows, and a second dry run would insert,
  delete and lose nothing.
\<close>

theorem nothing_stale_after_a_run:
  assumes "gen_ok d" "fresh_ids (new_assignment_id ids)" "samples sample"
    and run: "replace_assignments ids test_env search sample compiles user None override sid d = Inr (d', deleted, new)"
    and some: "session_instruments d sid \<noteq> []"
  shows "(\<exists>vs. staleness_by_instrument search sample compiles override sid d' = Inr vs
      \<and> (\<forall>i \<in> set (session_instruments d sid). \<exists>st. dict_get vs (i_id i) = Some st \<and> \<not> st_stale st
           \<and> st_load_error st = None \<and> st_eligible st = length (instrument_members d' (i_id i))))
    \<and> (\<exists>im. reconcile_impact search sample compiles None override sid d' = Inr im
      \<and> im_new im = 0 \<and> im_deleted im = 0 \<and> responses_lost im = 0)"
proof -
  obtain inputs d1 where r: "load_reconcile_inputs d sid None = Inr inputs"
    "loop_done search sample compiles d sid inputs override (in_targets inputs) d1 d'"
    by (rule run_done [OF assms(1-3) some run])
  have g: "gen_ok d'" "same_setup d' d" using r(2) by (simp_all add: loop_done_def)
  have load: "load_reconcile_inputs d' sid None = Inr inputs" using r(1) load_same [OF g(2)] by simp
  have inputs: "session_inputs d' sid inputs" by (rule loaded(1) [OF load])
  have targets: "set (in_targets inputs) = set (session_instruments d sid)" using loaded(2) [OF r(1)] by simp
  have clean: "\<exists>row df. rule_set_for inputs i = Inr row
      \<and> diff_one_instrument search sample compiles d' sid i row (in_reviewers inputs) (in_reviewees inputs) (in_lookup inputs) override = Inr df
      \<and> clean_diff d' sid i df" if i: "i \<in> set (in_targets inputs)" for i
  proof -
    have mem: "i \<in> set (instruments d)" "i_session i = sid" using i targets by (auto simp: session_instruments_def)
    have ins: "in_reviewers inputs = list_reviewers d sid" "in_reviewees inputs = list_reviewees d sid"
      "in_lookup inputs = pair_context_lookup d sid" using loaded(1) [OF r(1)] by (simp_all add: session_inputs_def)
    obtain row df where row: "rule_set_for inputs i = Inr row" "generated d i df d'"
      "diff_one_instrument search sample compiles d sid i row (in_reviewers inputs) (in_reviewees inputs) (in_lookup inputs) override = Inr df"
      using r(2) i by (auto simp: loop_done_def)
    obtain schema seed ev where ev: "engine_schema compiles row = Inr (schema, seed)"
      "evaluate search sample schema (list_reviewers d sid) (list_reviewees d sid) override seed (Some (pair_context_lookup d sid)) = Inr ev"
      "df = diff_of d sid i (excludes_own row) (list_reviewers d sid) (list_reviewees d sid) (pair_context_lookup d sid) ev"
      using diff_one_Inr [OF row(3)] unfolding ins by metis
    have "wanted_pairs d' sid i row ev = wanted_pairs d sid i row ev"
      by (simp add: wanted_pairs_def same_setup_self(1) [OF g(2)])
    then have rows: "pair_of ` set (instrument_members d' (i_id i)) = wanted_pairs d' sid i row ev"
      using row(2) new_keys_wanted [OF assms(1) mem(1) assms(3) ev(1,2)] by (simp add: generated_def ev(3))
    have "i \<in> set (instruments d')" using mem(1) g(2) by (simp add: same_setup_def)
    from diff_after_run [OF g(1) assms(3) this mem(2) ev(1) _ rows] ev(2) show ?thesis
      using row(1) inputs by (simp add: same_rosters [OF g(2)] same_setup_lookup(1) [OF g(2)] session_inputs_def)
  qed
  have verdict: "\<exists>st. instrument_verdict search sample compiles d' sid inputs override i = Inr st \<and> \<not> st_stale st
      \<and> st_load_error st = None \<and> st_eligible st = length (instrument_members d' (i_id i))" if i: "i \<in> set (in_targets inputs)" for i
  proof -
    obtain row df where one: "rule_set_for inputs i = Inr row"
      "diff_one_instrument search sample compiles d' sid i row (in_reviewers inputs) (in_reviewees inputs) (in_lookup inputs) override = Inr df"
      "clean_diff d' sid i df" using clean [OF i] by blast
    then show ?thesis using instrument_verdict_walk [OF gen_ok_parts(1) [OF g(1)] inputs one(1,2)]
      by (simp add: verdict_of_diff_def clean_diff_def)
  qed
  then obtain v where v: "\<forall>i \<in> set (in_targets inputs). instrument_verdict search sample compiles d' sid inputs override i = Inr (v i) \<and> \<not> st_stale (v i)
      \<and> st_load_error (v i) = None \<and> st_eligible (v i) = length (instrument_members d' (i_id i))" by metis
  have "all_results (map (\<lambda>i. bindE (instrument_verdict search sample compiles d' sid inputs override i) (\<lambda>st. Inr (i_id i, st))) (in_targets inputs))
      = Inr (map (\<lambda>i. (i_id i, v i)) (in_targets inputs))"
    using v by (intro all_results_map_Inr) simp
  then have stale: "staleness_by_instrument search sample compiles override sid d'
      = Inr (dict_of fst snd (map (\<lambda>i. (i_id i, v i)) (in_targets inputs)))"
    by (simp add: staleness_by_instrument_def load)
  have "distinct (map i_id (in_targets inputs))" using loaded(3) [OF r(1)] assms(1) by (simp add: gen_ok_def)
  then have "dict_get (dict_of fst snd (map (\<lambda>i. (i_id i, v i)) (in_targets inputs))) (i_id i) = Some (v i)"
    if "i \<in> set (in_targets inputs)" for i
    unfolding dict_of_map using that by (simp add: dict_of_get_distinct)
  moreover have "\<exists>im. reconcile_impact search sample compiles None override sid d' = Inr im
      \<and> im_new im = 0 \<and> im_deleted im = 0 \<and> responses_lost im = 0"
    using clean_loop [of "in_targets inputs" inputs search sample compiles d' sid override
        "\<lparr>im_new = 0, im_deleted = 0, im_kept = 0, im_responses_deleted = 0, im_group_responses_cleared = 0\<rparr>"] clean
    by (simp add: reconcile_impact_def load responses_lost_def)
  ultimately show ?thesis using stale v targets by auto
qed

section \<open>A session\<close>

text \<open>
  Instrument 7 is grouped by the reviewee's first tag and unpinned; instrument 8 has a rule set that
  drops self-reviews. Reviewer 1 is reviewee 1. Each instrument holds the self-review row, answered.
\<close>

definition gen_person :: "int \<Rightarrow> string \<Rightarrow> reviewer" where
  "gen_person k address = \<lparr>rr_id = k, rr_session = 1, rr_name = ''N'', rr_email = address, rr_status = ''active'',
     rr_tag1 = None, rr_tag2 = None, rr_tag3 = None, rr_object_id = None, rr_directory_mail = None\<rparr>"

definition gen_subject :: "int \<Rightarrow> string \<Rightarrow> reviewee" where
  "gen_subject k address = \<lparr>re_id = k, re_session = 1, re_name = ''N'', re_identifier = address, re_status = ''active'',
     re_tag1 = Some ''r'', re_tag2 = None, re_tag3 = None, re_object_id = None\<rparr>"

definition gen_instrument :: "int \<Rightarrow> string option \<Rightarrow> int option \<Rightarrow> instrument" where
  "gen_instrument k kind rule = \<lparr>i_id = k, i_session = 1, i_order = k, i_accepting = False, i_deadline_closed_at = None,
     i_starts_new_page = False, i_group_kind = kind, i_rule_set = rule, i_self_reviews = True\<rparr>"

definition gen_row :: "int \<Rightarrow> int \<Rightarrow> assignment" where
  "gen_row k iid = \<lparr>a_id = k, a_session = 1, a_reviewer = 1, a_reviewee = 1, a_instrument = iid, a_include = True, a_self_review = True\<rparr>"

definition gen_answer :: "int \<Rightarrow> response" where
  "gen_answer k = \<lparr>r_assignment = k, r_field = 1, r_value = Some ''x'', r_saved_at = Aware 0, r_submitted_at = None, r_version = 1\<rparr>"

definition gen_db :: db where
  "gen_db = blank_db\<lparr>sessions := [1 \<mapsto> demo_session],
     instruments := [gen_instrument 7 (Some ''r1'') None, gen_instrument 8 None (Some 5)],
     reviewers := [gen_person 1 ''a@''],
     reviewees := [gen_subject 1 ''a@'', gen_subject 2 ''c@''],
     rule_sets := [\<lparr>sr_id = 5, sr_session = 1, sr_combinator = ''ALL_OF'', sr_exclude_self = True, sr_seed = None, sr_rules = []\<rparr>],
     assignments := [gen_row 1 7, gen_row 2 8], responses := [gen_answer 1, gen_answer 2]\<rparr>"

definition gen_next_id :: "assignment list \<Rightarrow> int" where
  "gen_next_id as = foldr (\<lambda>a m. max m (a_id a + 1)) as 0"

definition gen_ids :: id_source where
  "gen_ids = \<lparr>new_instrument_id = (\<lambda>_. 0), new_field_id = (\<lambda>_. 0), new_assignment_id = gen_next_id\<rparr>"

lemma gen_next_id_fresh: "fresh_ids gen_next_id"
proof -
  have "0 \<le> gen_next_id as \<and> (\<forall>a \<in> set as. a_id a < gen_next_id as)" for as
    unfolding gen_next_id_def by (induction as) auto
  then show ?thesis by (force simp: fresh_ids_def)
qed

lemma gen_db_facts:
  shows "gen_ok gen_db" "fresh_ids (new_assignment_id gen_ids)" "samples first_k" "\<exists>s. require_editable gen_db 1 = Inr s"
    "session_instruments gen_db 1 \<noteq> []"
proof -
  show "gen_ok gen_db" by code_simp
  show "fresh_ids (new_assignment_id gen_ids)" by (simp add: gen_ids_def gen_next_id_fresh)
  show "samples first_k" by (auto simp: samples_def first_k_def)
  show "\<exists>s. require_editable gen_db 1 = Inr s"
    by (simp add: require_editable_def require_state_Inr lock_session_def lock_conflicts_def gen_db_def blank_db_def
        is_editable_def is_draft_def is_validated_def demo_session_def)
  show "session_instruments gen_db 1 \<noteq> []" by code_simp
qed

lemma gen_impact:
  "reconcile_impact no_regex first_k (\<lambda>_. True) None None 1 gen_db
     = Inr \<lparr>im_new = 2, im_deleted = 1, im_kept = 1, im_responses_deleted = 1, im_group_responses_cleared = 1\<rparr>"
  by code_simp

lemma dry_run_is_the_run_witness:
  "\<exists>d'. replace_assignments gen_ids True no_regex first_k (\<lambda>_. True) None None None 1 gen_db = Inr (d', 1, 2)
     \<and> responses d' = [] \<and> length (assignments d') = 3 \<and> verify_self_review_classification d' 1 = []"
proof -
  obtain s where gate: "require_editable gen_db 1 = Inr s" using gen_db_facts(4) by blast
  from dry_run_is_the_run [OF gen_db_facts(1-3) gate gen_db_facts(5), where search = no_regex and compiles = "\<lambda>_. True"
      and target = None and override = None and test_env = True and user = None]
  obtain d' where d': "replace_assignments gen_ids True no_regex first_k (\<lambda>_. True) None None None 1 gen_db = Inr (d', 1, 2)"
    "length (responses d') + 2 = length (responses gen_db)" "length (assignments d') + 1 = length (assignments gen_db) + 2"
    "verify_self_review_classification d' 1 = []" unfolding gen_impact by (auto simp: responses_lost_def)
  moreover have "length (responses gen_db) = 2" "length (assignments gen_db) = 2" by (simp_all add: gen_db_def)
  ultimately show ?thesis by (intro exI [of _ d']) simp
qed

lemma gen_run:
  obtains d' where "replace_assignments gen_ids True no_regex first_k (\<lambda>_. True) None None None 1 gen_db = Inr (d', 1, 2)"
proof -
  obtain s where gate: "require_editable gen_db 1 = Inr s" using gen_db_facts(4) by blast
  from replace_against_impact [OF gen_db_facts(1-3) gate gen_db_facts(5), where search = no_regex and compiles = "\<lambda>_. True"
      and target = None and override = None and test_env = True and user = None]
  show thesis unfolding gen_impact using that by auto
qed

lemma generated_rows_follow_the_rules_witness:
  "\<exists>d'. replace_assignments gen_ids True no_regex first_k (\<lambda>_. True) None None None 1 gen_db = Inr (d', 1, 2)
     \<and> distinct (map pair_of (instrument_members d' 7))
     \<and> (\<forall>a \<in> set (instrument_members d' 7). a_self_review a = reviews_self gen_db 1 7 (row_reviewer gen_db a) (row_reviewee gen_db a))"
proof -
  obtain d' where run: "replace_assignments gen_ids True no_regex first_k (\<lambda>_. True) None None None 1 gen_db = Inr (d', 1, 2)"
    by (rule gen_run)
  have i: "gen_instrument 7 (Some ''r1'') None \<in> set (instruments gen_db)" "i_session (gen_instrument 7 (Some ''r1'') None) = 1"
    "i_id (gen_instrument 7 (Some ''r1'') None) = 7" by (simp_all add: gen_db_def gen_instrument_def)
  from generated_rows_follow_the_rules [OF gen_db_facts(1-3) run i(1,2)] show ?thesis using run by (auto simp: i(3))
qed

lemma fast_path_is_the_walk_witness:
  "\<exists>df. diff_one_instrument no_regex first_k (\<lambda>_. True) gen_db 1 (gen_instrument 9 None None) None
        (list_reviewers gen_db 1) (list_reviewees gen_db 1) (pair_context_lookup gen_db 1) (Some True) = Inr df
    \<and> verdict_of_diff df = \<lparr>st_stale = False, st_eligible = 1, st_self_reviews_excluded = 1, st_load_error = None\<rparr>"
proof -
  have rows: "instrument_rows gen_db 1 (i_id (gen_instrument 9 None None)) = []" by code_simp
  have state: "full_matrix_never_generated_state (list_reviewers gen_db 1) (list_reviewees gen_db 1) (Some True)
      = \<lparr>st_stale = False, st_eligible = 1, st_self_reviews_excluded = 1, st_load_error = None\<rparr>" by code_simp
  show ?thesis using fast_path_is_the_walk [OF gen_ok_parts(1) [OF gen_db_facts(1)] rows] unfolding state [symmetric] by blast
qed

lemma nothing_stale_after_a_run_witness:
  "\<exists>d' im. replace_assignments gen_ids True no_regex first_k (\<lambda>_. True) None None None 1 gen_db = Inr (d', 1, 2)
     \<and> reconcile_impact no_regex first_k (\<lambda>_. True) None None 1 d' = Inr im \<and> im_new im = 0 \<and> responses_lost im = 0"
proof -
  obtain d' where run: "replace_assignments gen_ids True no_regex first_k (\<lambda>_. True) None None None 1 gen_db = Inr (d', 1, 2)"
    by (rule gen_run)
  from nothing_stale_after_a_run [OF gen_db_facts(1-3) run gen_db_facts(5)] show ?thesis using run by auto
qed

end
