(* ===== verification/Email_Templates.thy ===== *)
theory Email_Templates
  imports Lifecycle Form_Keys
begin

text \<open>
  \<open>app/services/email_templates.py\<close>: the per-session overrides of the email templates, their
  substitution and the three rendered emails. \<open>string.Template.safe_substitute\<close> is written out
  as a scanner. How a date reads in the session's zone is a parameter, \<open>zone_text\<close>.
\<close>

section \<open>Tags\<close>

definition ident_start :: "char \<Rightarrow> bool" where
  "ident_start c = (let n = (of_char c :: nat) in (65 \<le> n \<and> n \<le> 90) \<or> (97 \<le> n \<and> n \<le> 122) \<or> n = 95)"

definition ident_char :: "char \<Rightarrow> bool" where
  "ident_char c = (ident_start c \<or> is_digit c)"

definition ident :: "string \<Rightarrow> string" where
  "ident s = (case s of [] \<Rightarrow> [] | c # _ \<Rightarrow> if ident_start c then takeWhile ident_char s else [])"

text \<open>What follows a \<open>$\<close>: a tag's name and its text, with what comes after it.\<close>

definition tag_after :: "string \<Rightarrow> (string \<times> string \<times> string) option" where
  "tag_after s = (case s of
      [] \<Rightarrow> None
    | c # r \<Rightarrow>
        if c = CHR ''{'' then
          (let n = ident r; after = drop (length n) r
           in if n = [] then None
              else (case after of [] \<Rightarrow> None
                | e # rest \<Rightarrow> if e = CHR ''}'' then Some (n, CHR ''{'' # n @ [CHR ''}''], rest) else None))
        else (let n = ident s in if n = [] then None else Some (n, n, drop (length n) s)))"

lemma tag_after_shorter:
  assumes "tag_after s = Some (n, txt, rest)"
  shows "length rest < length s"
proof (cases s)
  case (Cons c r)
  show ?thesis
  proof (cases "c = CHR ''{''")
    case True
    then obtain e where "drop (length (ident r)) r = e # rest"
      using assms Cons by (auto simp: tag_after_def Let_def split: list.splits if_splits)
    then have "length (drop (length (ident r)) r) = Suc (length rest)" by simp
    then show ?thesis using Cons by simp
  next
    case False
    then have "ident s \<noteq> []" "rest = drop (length (ident s)) s"
      using assms Cons by (auto simp: tag_after_def Let_def split: if_splits)
    then show ?thesis using Cons by simp
  qed
qed (use assms in \<open>simp add: tag_after_def\<close>)

text \<open>\<open>Template(text).safe_substitute(merge)\<close>.\<close>

function safe_substitute :: "(string \<times> string) list \<Rightarrow> string \<Rightarrow> string" where
  "safe_substitute m [] = []"
| "safe_substitute m (c # cs) =
     (if c \<noteq> CHR ''$'' then c # safe_substitute m cs
      else if cs \<noteq> [] \<and> hd cs = CHR ''$'' then CHR ''$'' # safe_substitute m (tl cs)
      else (case tag_after cs of
          None \<Rightarrow> CHR ''$'' # safe_substitute m cs
        | Some (n, txt, rest) \<Rightarrow>
            (case dict_get m n of Some v \<Rightarrow> v | None \<Rightarrow> CHR ''$'' # txt) @ safe_substitute m rest))"
  by pat_completeness auto
termination
  by (relation "measure (length \<circ> snd)") (auto dest!: tag_after_shorter simp: less_Suc_eq)

text \<open>The names \<open>_TAG.finditer\<close> finds in a line.\<close>

function line_tags :: "string \<Rightarrow> string list" where
  "line_tags [] = []"
| "line_tags (c # cs) =
     (if c \<noteq> CHR ''$'' then line_tags cs
      else (case tag_after cs of None \<Rightarrow> line_tags cs | Some (n, _, rest) \<Rightarrow> n # line_tags rest))"
  by pat_completeness auto
termination
  by (relation "measure length") (auto dest: tag_after_shorter)

section \<open>Bodies\<close>

abbreviation newline :: char where "newline \<equiv> CHR 0x0A"

definition add_line :: "string list \<Rightarrow> string \<Rightarrow> string list" where
  "add_line lines line =
     (if line = [] \<and> (lines = [] \<or> last lines = []) then lines else lines @ [line])"

definition drop_empty_lines :: "string \<Rightarrow> (string \<times> string) list \<Rightarrow> string" where
  "drop_empty_lines template merge =
     (let kept = filter (\<lambda>line. \<not> list_ex (\<lambda>t. dict_get merge t = Some []) (line_tags line))
                   (split_char newline template);
          lines = foldl add_line [] kept
      in join_text [newline] (rev (dropWhile (\<lambda>l. l = []) (rev lines))) @ [newline])"

definition DEFAULT_INVITATION_SUBJECT :: string where
  "DEFAULT_INVITATION_SUBJECT = ''Invitation to review: $session_name''"

definition you_ve :: string where
  "you_ve = ''You'' @ [CHR 0x27] @ ''ve''"

definition isn_t :: string where
  "isn_t = ''isn'' @ [CHR 0x27] @ ''t''"

definition DEFAULT_INVITATION_BODY :: string where
  "DEFAULT_INVITATION_BODY = concat (map (\<lambda>l. l @ [newline])
     [''Hi $reviewer_name,'', [],
      you_ve @ '' been invited to review for $session_name.'',
      ''Please complete your review by $deadline.'', [],
      ''Open this link and sign in with your institutional MS365 account: $invite_url'', [],
      ''Questions? Contact $help_contact.''])"

definition DEFAULT_REMINDER_SUBJECT :: string where
  "DEFAULT_REMINDER_SUBJECT = ''Reminder: review for $session_name''"

definition DEFAULT_REMINDER_BODY :: string where
  "DEFAULT_REMINDER_BODY = concat (map (\<lambda>l. l @ [newline])
     [''Hi $reviewer_name,'', [],
      ''Your review for $session_name '' @ isn_t @ '' complete yet.'',
      ''Please complete your review by $deadline.'', [],
      ''Open this link and sign in with your institutional MS365 account: $invite_url'', [],
      ''Questions? Contact $help_contact.''])"

definition DEFAULT_RESPONSES_RECEIVED_SUBJECT :: string where
  "DEFAULT_RESPONSES_RECEIVED_SUBJECT = ''Responses received: $session_name''"

definition DEFAULT_RESPONSES_RECEIVED_BODY :: string where
  "DEFAULT_RESPONSES_RECEIVED_BODY = concat (map (\<lambda>l. l @ [newline])
     [''Hi $reviewer_name,'', [],
      ''Thanks. Your responses for $session_name are recorded as of $submitted_at.'', [],
      ''Questions? Contact $help_contact.''])"

definition HELP_CONTACT_FALLBACK :: string where
  "HELP_CONTACT_FALLBACK = ''the person running this review''"

section \<open>Overrides\<close>

definition OVERRIDE_KEYS :: "string list" where
  "OVERRIDE_KEYS = [''invitation_subject'', ''invitation_body'', ''invitation_cc'', ''invitation_bcc'',
     ''reminder_subject'', ''reminder_body'', ''reminder_cc'', ''reminder_bcc'',
     ''responses_received_subject'', ''responses_received_body'', ''responses_received_cc'',
     ''responses_received_bcc'']"

text \<open>\<open>email_template_overrides or {}\<close>.\<close>

definition overrides_of :: "review_session \<Rightarrow> (string \<times> jval) list" where
  "overrides_of s = (case s_overrides s of None \<Rightarrow> [] | Some o' \<Rightarrow> o')"

definition get_override :: "review_session \<Rightarrow> string \<Rightarrow> string option" where
  "get_override s k = (case dict_get (overrides_of s) k of Some (JStr v) \<Rightarrow> Some v | _ \<Rightarrow> None)"

definition resolve_template :: "review_session \<Rightarrow> string \<Rightarrow> string \<Rightarrow> string" where
  "resolve_template s k dflt =
     (case get_override s k of Some v \<Rightarrow> if py_strip v \<noteq> [] then v else dflt | None \<Rightarrow> dflt)"

definition set_overrides ::
  "review_session \<Rightarrow> (string \<times> string option) list
     \<Rightarrow> review_session \<times> (string \<times> jval \<times> jval) list" where
  "set_overrides s updates =
     (let step = (\<lambda>(cur, chg) (k, new).
            if k \<notin> set OVERRIDE_KEYS then (cur, chg)
            else (let old = (case dict_get cur k of None \<Rightarrow> JNull | Some v \<Rightarrow> v) in
              case new of
                None \<Rightarrow> if old \<noteq> JNull
                  then (filter (\<lambda>e. fst e \<noteq> k) cur, dict_put k (old, JNull) chg) else (cur, chg)
              | Some v \<Rightarrow> if old \<noteq> JStr v
                  then (dict_put k (JStr v) cur, dict_put k (old, JStr v) chg) else (cur, chg)));
          (current, changes) = foldl step (overrides_of s, []) updates
      in (s\<lparr>s_overrides := (if current = [] then None else Some current)\<rparr>, changes))"

abbreviation RESPONSES_RECEIVED_ENABLED_KEY :: string where
  "RESPONSES_RECEIVED_ENABLED_KEY \<equiv> ''responses_received_enabled''"

definition responses_received_enabled :: "review_session \<Rightarrow> bool" where
  "responses_received_enabled s =
     (case dict_get (overrides_of s) RESPONSES_RECEIVED_ENABLED_KEY of Some (JBool b) \<Rightarrow> b | _ \<Rightarrow> True)"

definition set_responses_received_enabled ::
  "review_session \<Rightarrow> bool \<Rightarrow> review_session \<times> (bool \<times> bool) option" where
  "set_responses_received_enabled s enabled =
     (let old = responses_received_enabled s in
      if old = enabled then (s, None)
      else (let cur = (if enabled then filter (\<lambda>e. fst e \<noteq> RESPONSES_RECEIVED_ENABLED_KEY) (overrides_of s)
                       else dict_put RESPONSES_RECEIVED_ENABLED_KEY (JBool False) (overrides_of s))
            in (s\<lparr>s_overrides := (if cur = [] then None else Some cur)\<rparr>, Some (old, enabled))))"

definition lock_for_edit :: "db \<Rightarrow> int \<Rightarrow> review_session result" where
  "lock_for_edit d sid = require_not_archived d sid"

definition record_template_change ::
  "int \<Rightarrow> int \<Rightarrow> string \<Rightarrow> (string \<times> jval \<times> jval) list \<Rightarrow> db \<Rightarrow> db" where
  "record_template_change user sid template changes d =
     (if changes = [] then d
      else write_event ''email_template.updated'' (Some user) (Some sid) (Changes changes) None []
             [(''template'', JStr template)] d)"

definition record_template_reset ::
  "int \<Rightarrow> int \<Rightarrow> string \<Rightarrow> string \<Rightarrow> (string \<times> jval \<times> jval) list \<Rightarrow> db \<Rightarrow> db" where
  "record_template_reset user sid template field changes d =
     (if changes = [] then d
      else write_event ''email_template.reset'' (Some user) (Some sid) (Changes changes) None []
             [(''template'', JStr template), (''field'', JStr field)] d)"

section \<open>The rendered emails\<close>

definition format_deadline :: "(review_session \<Rightarrow> stamp \<Rightarrow> string) \<Rightarrow> review_session \<Rightarrow> string" where
  "format_deadline zone_text s = (case s_deadline s of None \<Rightarrow> [] | Some t \<Rightarrow> zone_text s t)"

definition help_contact :: "review_session \<Rightarrow> string" where
  "help_contact s = py_strip (or_empty (s_help_contact s))"

definition merge_context ::
  "(review_session \<Rightarrow> stamp \<Rightarrow> string) \<Rightarrow> review_session \<Rightarrow> reviewer \<Rightarrow> string \<Rightarrow> (string \<times> string) list" where
  "merge_context zone_text s r url =
     [(''reviewer_name'', rr_name r), (''session_name'', s_name s),
      (''deadline'', format_deadline zone_text s), (''help_contact'', help_contact s),
      (''invite_url'', url)]"

definition body_text ::
  "review_session \<Rightarrow> string \<Rightarrow> string \<Rightarrow> (string \<times> string) list \<Rightarrow> string" where
  "body_text s k dflt merge =
     (case get_override s k of
        Some ov \<Rightarrow>
          if py_strip ov \<noteq> [] then
            safe_substitute (dict_put ''help_contact''
              (let h = or_empty (dict_get merge ''help_contact'') in if h = [] then HELP_CONTACT_FALLBACK else h)
              merge) ov
          else safe_substitute merge (drop_empty_lines dflt merge)
      | None \<Rightarrow> safe_substitute merge (drop_empty_lines dflt merge))"

text \<open>\<open>body.rstrip("\n")\<close>.\<close>

definition rstrip_newlines :: "string \<Rightarrow> string" where
  "rstrip_newlines s = rev (dropWhile (\<lambda>c. c = newline) (rev s))"

definition with_link :: "string \<Rightarrow> string \<Rightarrow> string" where
  "with_link url body =
     (if url \<noteq> [] \<and> \<not> is_substring url body
      then rstrip_newlines body @ [newline, newline] @ ''Open this link: '' @ url @ [newline]
      else body)"

definition render_invitation ::
  "(review_session \<Rightarrow> stamp \<Rightarrow> string) \<Rightarrow> review_session \<Rightarrow> reviewer \<Rightarrow> string \<Rightarrow> string \<times> string" where
  "render_invitation zone_text s r url =
     (let merge = merge_context zone_text s r url in
      (safe_substitute merge (resolve_template s ''invitation_subject'' DEFAULT_INVITATION_SUBJECT),
       with_link url (body_text s ''invitation_body'' DEFAULT_INVITATION_BODY merge)))"

definition render_reminder ::
  "(review_session \<Rightarrow> stamp \<Rightarrow> string) \<Rightarrow> review_session \<Rightarrow> reviewer \<Rightarrow> string \<Rightarrow> string \<times> string" where
  "render_reminder zone_text s r url =
     (let merge = merge_context zone_text s r url in
      (safe_substitute merge (resolve_template s ''reminder_subject'' DEFAULT_REMINDER_SUBJECT),
       body_text s ''reminder_body'' DEFAULT_REMINDER_BODY merge))"

definition latest_submitted_at :: "db \<Rightarrow> int \<Rightarrow> int \<Rightarrow> int option" where
  "latest_submitted_at d sid reviewer_id =
     latest_stamp (filter (\<lambda>r. list_ex (\<lambda>a. a_id a = r_assignment r \<and> a_session a = sid
        \<and> a_reviewer a = reviewer_id) (assignments d)) (responses d))"

definition format_submitted_at ::
  "(review_session \<Rightarrow> stamp \<Rightarrow> string) \<Rightarrow> review_session \<Rightarrow> int option \<Rightarrow> string" where
  "format_submitted_at zone_text s t =
     (case t of None \<Rightarrow> ''(not yet submitted)'' | Some n \<Rightarrow> zone_text s (Aware n))"

definition render_responses_received ::
  "(review_session \<Rightarrow> stamp \<Rightarrow> string) \<Rightarrow> db \<Rightarrow> int \<Rightarrow> review_session \<Rightarrow> reviewer \<Rightarrow> string \<times> string" where
  "render_responses_received zone_text d sid s r =
     (let merge = [(''reviewer_name'', rr_name r), (''session_name'', s_name s),
            (''deadline'', format_deadline zone_text s), (''help_contact'', help_contact s),
            (''submitted_at'', format_submitted_at zone_text s (latest_submitted_at d sid (rr_id r)))] in
      (safe_substitute merge (resolve_template s ''responses_received_subject'' DEFAULT_RESPONSES_RECEIVED_SUBJECT),
       body_text s ''responses_received_body'' DEFAULT_RESPONSES_RECEIVED_BODY merge))"

definition cc_bcc_for :: "review_session \<Rightarrow> string \<Rightarrow> string option \<times> string option" where
  "cc_bcc_for s kind =
     (let value = (\<lambda>k. case get_override s k of Some v \<Rightarrow> if py_strip v \<noteq> [] then Some (py_strip v) else None
                       | None \<Rightarrow> None)
      in (value (kind @ ''_cc''), value (kind @ ''_bcc'')))"

end
