(* ===== verification/Invitations.thy ===== *)
theory Invitations
  imports Email_Templates
begin

text \<open>
  \<open>app/services/invitations.py\<close>: one invitation per assigned active reviewer, its token, its
  sends and reminders into the outbox, the open of its link and the restore after a refused
  send. Each operation is one transaction: an error leaves the database as it was. What the
  code takes from outside is the record \<open>mail_env\<close>: the random tokens, SHA-256, the ids an
  insert gets, the text of a date in the session's zone, and the rows the database refuses.
\<close>

record mail_env =
  me_token :: "db \<Rightarrow> string"
  me_hash :: "string \<Rightarrow> string"
  me_invitation_id :: "invitation list \<Rightarrow> int"
  me_outbox_id :: "outbox_row list \<Rightarrow> int"
  me_zone_text :: "review_session \<Rightarrow> stamp \<Rightarrow> string"
  me_refuses :: "outbox_row \<Rightarrow> bool"

section \<open>Loops that can raise\<close>

fun foldE :: "('a \<Rightarrow> 'b \<Rightarrow> 'b result) \<Rightarrow> 'a list \<Rightarrow> 'b \<Rightarrow> 'b result" where
  "foldE f [] b = Inr b"
| "foldE f (x # xs) b = bindE (f x b) (foldE f xs)"

lemma foldE_keeps:
  assumes "\<And>x b b'. x \<in> set xs \<Longrightarrow> f x b = Inr b' \<Longrightarrow> P b \<Longrightarrow> P b'"
  shows "foldE f xs b = Inr b' \<Longrightarrow> P b \<Longrightarrow> P b'"
  using assms by (induction xs arbitrary: b) auto

section \<open>Rows and reads\<close>

definition get_invitation :: "db \<Rightarrow> int \<Rightarrow> invitation option" where
  "get_invitation d k = find (\<lambda>i. inv_id i = k) (invitations d)"

definition upd_invitation :: "int \<Rightarrow> (invitation \<Rightarrow> invitation) \<Rightarrow> db \<Rightarrow> db" where
  "upd_invitation k f d = d\<lparr>invitations := map (\<lambda>i. if inv_id i = k then f i else i) (invitations d)\<rparr>"

definition add_outbox :: "outbox_row \<Rightarrow> db \<Rightarrow> db" where
  "add_outbox row d = d\<lparr>outbox := outbox d @ [row]\<rparr>"

abbreviation INVITATION_KIND :: string where "INVITATION_KIND \<equiv> ''invitation''"
abbreviation REMINDER_KIND :: string where "REMINDER_KIND \<equiv> ''reminder''"
abbreviation RESPONSES_RECEIVED_KIND :: string where "RESPONSES_RECEIVED_KIND \<equiv> ''responses_received''"
abbreviation SUBJECT_MAX :: nat where "SUBJECT_MAX \<equiv> 255"

text \<open>\<open>directory_accounts.recipient\<close>, of a reviewer.\<close>

definition recipient :: "reviewer \<Rightarrow> string" where
  "recipient r = (if or_empty (rr_object_id r) \<noteq> [] \<and> or_empty (rr_directory_mail r) \<noteq> []
     then or_empty (rr_directory_mail r) else rr_email r)"

definition assigned_active_reviewer_ids :: "db \<Rightarrow> int \<Rightarrow> int list" where
  "assigned_active_reviewer_ids d sid =
     remdups (map rr_id (filter (\<lambda>r. rr_status r = ''active''
       \<and> list_ex (\<lambda>a. a_reviewer a = rr_id r \<and> a_session a = sid \<and> a_include a) (assignments d))
     (reviewers d)))"

definition has_invitations :: "db \<Rightarrow> int \<Rightarrow> bool" where
  "has_invitations d sid = list_ex (\<lambda>i. inv_session i = sid) (invitations d)"

definition has_sent_invitations :: "db \<Rightarrow> int \<Rightarrow> bool" where
  "has_sent_invitations d sid = list_ex (\<lambda>i. inv_session i = sid \<and> inv_sent_at i \<noteq> None) (invitations d)"

text \<open>The join of invitations with their reviewers, in the reviewers' email order.\<close>

definition invitation_rows :: "db \<Rightarrow> (invitation \<Rightarrow> bool) \<Rightarrow> (invitation \<times> reviewer) list" where
  "invitation_rows d P = sort_key (\<lambda>(i, r). rr_email r)
     (concat (map (\<lambda>i. map (Pair i) (filter (\<lambda>r. rr_id r = inv_reviewer i) (reviewers d)))
       (filter P (invitations d))))"

definition list_invitations_for_session :: "db \<Rightarrow> int \<Rightarrow> (invitation \<times> reviewer) list" where
  "list_invitations_for_session d sid = invitation_rows d (\<lambda>i. inv_session i = sid)"

definition is_reviewer_eligible_for_invitation :: "db \<Rightarrow> int \<Rightarrow> int \<Rightarrow> bool" where
  "is_reviewer_eligible_for_invitation d sid rid = (rid \<in> set (assigned_active_reviewer_ids d sid))"

definition list_sendable_invitations :: "db \<Rightarrow> int \<Rightarrow> (invitation \<times> reviewer) list" where
  "list_sendable_invitations d sid =
     (let eligible = assigned_active_reviewer_ids d sid in
      if eligible = [] then []
      else invitation_rows d (\<lambda>i. inv_session i = sid \<and> inv_status i = ''pending''
             \<and> inv_reviewer i \<in> set eligible))"

definition list_outbox_for_session :: "db \<Rightarrow> int \<Rightarrow> outbox_row list" where
  "list_outbox_for_session d sid =
     rev (sort_key (\<lambda>o'. (instant (ob_created_at o'), ob_id o')) (filter (\<lambda>o'. ob_session o' = sid) (outbox d)))"

definition reviewers_eligible_for_invitation :: "db \<Rightarrow> int \<Rightarrow> reviewer list" where
  "reviewers_eligible_for_invitation d sid =
     (let ids = assigned_active_reviewer_ids d sid in
      if ids = [] then [] else sort_key rr_email (filter (\<lambda>r. rr_id r \<in> set ids) (reviewers d)))"

text \<open>
  \<open>lookup_invitation_by_token\<close>: the invitation whose hash the token has, of an active reviewer
  in a session that is not archived.
\<close>

definition lookup_invitation_by_token ::
  "mail_env \<Rightarrow> db \<Rightarrow> string \<Rightarrow> (invitation \<times> review_session \<times> reviewer) option" where
  "lookup_invitation_by_token env d raw =
     (let rows = concat (map (\<lambda>i.
            (case sessions d (inv_session i) of None \<Rightarrow> []
             | Some s \<Rightarrow> if s_status s = Archived then []
                 else map (\<lambda>r. (i, s, r)) (filter (\<lambda>r. rr_id r = inv_reviewer i \<and> rr_status r = ''active'')
                        (reviewers d))))
          (filter (\<lambda>i. inv_token_hash i = me_hash env raw) (invitations d)))
      in case rows of [] \<Rightarrow> None | x # _ \<Rightarrow> Some x)"

section \<open>Links in the outbox\<close>

definition token_char :: "char \<Rightarrow> bool" where
  "token_char c = (ident_char c \<or> c = CHR ''-'')"

text \<open>
  \<open>_INVITE_URL_PATTERN\<close>, \<open>https?://\S+/me/invite/[A-Za-z0-9_\-]+\<close>: the leftmost match; within it
  \<open>\S+\<close> is greedy, so the last \<open>/me/invite/\<close> of the run counts.
\<close>

definition invite_path :: string where
  "invite_path = ''/me/invite/''"

fun link_tail :: "string \<Rightarrow> string option" where
  "link_tail [] = None"
| "link_tail (c # cs) =
     (case link_tail cs of
        Some u \<Rightarrow> Some (c # u)
      | None \<Rightarrow>
          (let n = length invite_path; tok = takeWhile token_char (drop n cs) in
           if take n cs = invite_path \<and> tok \<noteq> [] then Some (c # invite_path @ tok) else None))"

definition link_at :: "string \<Rightarrow> string option" where
  "link_at s =
     (let try_scheme = (\<lambda>p. if take (length p) s = p
            then map_option (\<lambda>u. p @ u) (link_tail (takeWhile (\<lambda>c. \<not> py_space c) (drop (length p) s)))
            else None)
      in case try_scheme ''https://'' of Some u \<Rightarrow> Some u | None \<Rightarrow> try_scheme ''http://'')"

fun find_invite_url :: "string \<Rightarrow> string option" where
  "find_invite_url [] = None"
| "find_invite_url (c # cs) = (case link_at (c # cs) of Some u \<Rightarrow> Some u | None \<Rightarrow> find_invite_url cs)"

definition most_recent_invitation_outbox :: "db \<Rightarrow> int \<Rightarrow> outbox_row option" where
  "most_recent_invitation_outbox d k =
     (let rows = sort_key (\<lambda>o'. (instant (ob_created_at o'), ob_id o'))
            (filter (\<lambda>o'. ob_invitation o' = Some k \<and> ob_kind o' = INVITATION_KIND) (outbox d))
      in if rows = [] then None else Some (last rows))"

definition most_recent_invitation_url :: "db \<Rightarrow> int \<Rightarrow> string option" where
  "most_recent_invitation_url d k =
     (case most_recent_invitation_outbox d k of None \<Rightarrow> None | Some row \<Rightarrow> find_invite_url (ob_body row))"

definition most_recent_invitation_status :: "db \<Rightarrow> int \<Rightarrow> string option" where
  "most_recent_invitation_status d k = map_option ob_status (most_recent_invitation_outbox d k)"

text \<open>\<open>url.rsplit("/", 1)[-1]\<close>.\<close>

definition last_segment :: "string \<Rightarrow> string" where
  "last_segment url = rev (takeWhile (\<lambda>c. c \<noteq> CHR ''/'') (rev url))"

definition url_matches_current_token :: "mail_env \<Rightarrow> string \<Rightarrow> invitation \<Rightarrow> bool" where
  "url_matches_current_token env url iv = (me_hash env (last_segment url) = inv_token_hash iv)"

definition current_invite_url ::
  "mail_env \<Rightarrow> string option \<Rightarrow> invitation \<Rightarrow> (string \<Rightarrow> string) \<Rightarrow> string option" where
  "current_invite_url env url iv build =
     (case url of None \<Rightarrow> None
      | Some u \<Rightarrow> if \<not> url_matches_current_token env u iv then None else Some (build (last_segment u)))"

section \<open>Generating and regenerating\<close>

definition new_invitation :: "mail_env \<Rightarrow> int \<Rightarrow> int \<Rightarrow> db \<Rightarrow> invitation" where
  "new_invitation env sid rid d =
     \<lparr>inv_id = me_invitation_id env (invitations d), inv_session = sid, inv_reviewer = rid,
      inv_token_hash = me_hash env (me_token env d), inv_status = ''pending'', inv_sent_at = None,
      inv_opened_at = None, inv_last_reminder_at = None\<rparr>"

definition add_invitation :: "mail_env \<Rightarrow> int \<Rightarrow> db \<times> int list \<Rightarrow> int \<Rightarrow> db \<times> int list" where
  "add_invitation env sid acc rid = (case acc of (d, ids) \<Rightarrow>
     (let iv = new_invitation env sid rid d
      in (d\<lparr>invitations := invitations d @ [iv]\<rparr>, ids @ [inv_id iv])))"

definition id_pairs :: "(int \<times> int) list \<Rightarrow> (string \<times> int) list list" where
  "id_pairs ps = map (\<lambda>(i, r). [(''invitation_id'', i), (''reviewer_id'', r)]) ps"

definition generate_invitations :: "mail_env \<Rightarrow> int \<Rightarrow> int \<Rightarrow> db \<Rightarrow> db \<times> int list" where
  "generate_invitations env user sid d =
     (let existing = inv_reviewer ` set (filter (\<lambda>i. inv_session i = sid) (invitations d));
          to_create = sort (filter (\<lambda>k. k \<notin> existing) (assigned_active_reviewer_ids d sid));
          (d', ids) = foldl (add_invitation env sid) (d, []) to_create
      in (if ids = [] then d'
          else write_event ''invitations.generated'' (Some user) (Some sid)
                 (SetChanges (id_pairs (zip ids to_create)) []) None [] [] d', ids))"

definition supersede_queued :: "int list \<Rightarrow> db \<Rightarrow> db" where
  "supersede_queued ks d = (if ks = [] then d
     else d\<lparr>outbox := map (\<lambda>o'. if (\<exists>k \<in> set ks. ob_invitation o' = Some k) \<and> ob_status o' = ''queued''
        then o'\<lparr>ob_status := ''failed'',
              ob_error := Some (''Not sent: the invitation'' @ [CHR 0x27] @ ''s link was regenerated first.'')\<rparr>
        else o') (outbox d)\<rparr>)"

definition reset_invitation :: "mail_env \<Rightarrow> int \<Rightarrow> db \<Rightarrow> db" where
  "reset_invitation env k d = upd_invitation k (\<lambda>i. i\<lparr>inv_token_hash := me_hash env (me_token env d),
     inv_status := ''pending'', inv_sent_at := None, inv_opened_at := None,
     inv_last_reminder_at := None\<rparr>) d"

definition regenerate_token :: "mail_env \<Rightarrow> int \<Rightarrow> int \<Rightarrow> db \<Rightarrow> (db \<times> string) result" where
  "regenerate_token env user k d =
     (case get_invitation d k of None \<Rightarrow> Inl NoResultFound
      | Some iv \<Rightarrow> bindE (require_validated_or_ready d (inv_session iv)) (\<lambda>_.
          Inr (write_event ''invitation.regenerated'' (Some user) (Some (inv_session iv)) NoPayload None
                 [(''invitation_id'', k), (''reviewer_id'', inv_reviewer iv)] []
                 (supersede_queued [k] (reset_invitation env k d)), me_token env d)))"

definition regenerate_all_tokens :: "mail_env \<Rightarrow> int \<Rightarrow> int \<Rightarrow> db \<Rightarrow> (db \<times> int list) result" where
  "regenerate_all_tokens env user sid d =
     bindE (require_validated_or_ready d sid) (\<lambda>_.
       (let rows = filter (\<lambda>i. inv_session i = sid) (invitations d); ids = map inv_id rows;
            d' = foldl (\<lambda>d k. reset_invitation env k d) d ids
        in Inr (if ids = [] then d'
             else write_event ''invitations.regenerated'' (Some user) (Some sid)
                    (SetChanges [] (id_pairs (zip ids (map inv_reviewer rows)))) None [] []
                    (supersede_queued ids d'), ids)))"

section \<open>Sending\<close>

record stamps =
  st_status :: string
  st_sent_at :: "stamp option"
  st_opened_at :: "stamp option"
  st_last_reminder_at :: "stamp option"

definition stamps_of :: "invitation \<Rightarrow> stamps" where
  "stamps_of i = \<lparr>st_status = inv_status i, st_sent_at = inv_sent_at i, st_opened_at = inv_opened_at i,
     st_last_reminder_at = inv_last_reminder_at i\<rparr>"

definition outbox_row_for ::
  "mail_env \<Rightarrow> string \<Rightarrow> string option \<Rightarrow> int \<Rightarrow> review_session \<Rightarrow> reviewer \<Rightarrow> int option
     \<Rightarrow> string \<times> string \<Rightarrow> db \<Rightarrow> outbox_row" where
  "outbox_row_for env kind corr sid s r k email d =
     \<lparr>ob_id = me_outbox_id env (outbox d), ob_session = sid, ob_reviewer = Some (rr_id r),
      ob_invitation = k, ob_kind = kind, ob_to_email = recipient r,
      ob_cc_emails = fst (cc_bcc_for s kind), ob_bcc_emails = snd (cc_bcc_for s kind),
      ob_subject = take SUBJECT_MAX (fst email), ob_body = snd email, ob_status = ''queued'',
      ob_created_at = Aware (wall d), ob_sent_at = None, ob_error = None, ob_backend = None,
      ob_from_address = None, ob_correlation = corr\<rparr>"

definition invitation_row ::
  "mail_env \<Rightarrow> (string \<Rightarrow> string) \<Rightarrow> string option \<Rightarrow> int \<Rightarrow> review_session \<Rightarrow> reviewer \<Rightarrow> int \<Rightarrow> db
     \<Rightarrow> outbox_row" where
  "invitation_row env build corr sid s r k d =
     outbox_row_for env INVITATION_KIND corr sid s r (Some k)
       (render_invitation (me_zone_text env) s r (build (me_token env d))) d"

definition send_invitation ::
  "mail_env \<Rightarrow> (string \<Rightarrow> string) \<Rightarrow> int option \<Rightarrow> string \<Rightarrow> string option \<Rightarrow> int \<Rightarrow> review_session
     \<Rightarrow> reviewer \<Rightarrow> int \<Rightarrow> db \<Rightarrow> (db \<times> int \<times> string) result" where
  "send_invitation env build user trigger corr sid s r k d =
     (let raw = me_token env d; row = invitation_row env build corr sid s r k d
      in if me_refuses env row then Inl (DatabaseError ''email_outbox'')
         else Inr (write_event ''invitation.sent'' user (Some sid) NoPayload None
                [(''invitation_id'', k), (''reviewer_id'', rr_id r), (''outbox_id'', ob_id row)]
                [(''trigger'', JStr trigger)]
                (upd_invitation k (\<lambda>i. i\<lparr>inv_token_hash := me_hash env raw, inv_status := ''sent'',
                     inv_sent_at := Some (Aware (wall d)), inv_opened_at := None\<rparr>)
                  (add_outbox row d)), ob_id row, raw))"

text \<open>The sends of a list of rows, in one transaction.\<close>

definition send_rows ::
  "mail_env \<Rightarrow> (string \<Rightarrow> string) \<Rightarrow> int option \<Rightarrow> string \<Rightarrow> int \<Rightarrow> review_session
     \<Rightarrow> (invitation \<times> reviewer) list \<Rightarrow> db \<Rightarrow> db result" where
  "send_rows env build user trigger sid s rows d =
     foldE (\<lambda>(i, r) d. map_sum id fst (send_invitation env build user trigger None sid s r (inv_id i) d)) rows d"

definition send_all_invitations ::
  "mail_env \<Rightarrow> (string \<Rightarrow> string) \<Rightarrow> int \<Rightarrow> int \<Rightarrow> db \<Rightarrow> (db \<times> int) result" where
  "send_all_invitations env build user sid d =
     bindE (require_validated_or_ready d sid) (\<lambda>s.
       (let rows = list_sendable_invitations d sid
        in bindE (send_rows env build (Some user) ''operator'' sid s rows d) (\<lambda>d'. Inr (d', int (length rows)))))"

text \<open>A send or a reminder with the invitation's stamps before and after it.\<close>

definition stamps_at :: "db \<Rightarrow> int \<Rightarrow> stamps option" where
  "stamps_at d k = map_option stamps_of (get_invitation d k)"

definition send_one_invitation ::
  "mail_env \<Rightarrow> (string \<Rightarrow> string) \<Rightarrow> int \<Rightarrow> int \<Rightarrow> reviewer \<Rightarrow> int \<Rightarrow> db
     \<Rightarrow> (db \<times> int \<times> stamps option \<times> stamps option) result" where
  "send_one_invitation env build user sid r k d =
     bindE (require_validated_or_ready d sid) (\<lambda>s.
       case get_invitation d k of None \<Rightarrow> Inl NoResultFound
       | Some iv \<Rightarrow> if inv_status iv \<noteq> ''pending'' then Inl InvitationAlreadySent
           else bindE (send_invitation env build (Some user) ''operator'' None sid s r k d) (\<lambda>(d', oid, _).
             Inr (d', oid, stamps_at d k, stamps_at d' k)))"

definition stamp_text :: "stamp option \<Rightarrow> jval" where
  "stamp_text v = (case v of None \<Rightarrow> JNull | Some t \<Rightarrow> JTime t)"

definition same_stamp :: "stamp option \<Rightarrow> stamp option \<Rightarrow> bool" where
  "same_stamp a b = (as_utc a = as_utc b)"

text \<open>Whether a field goes back: the send changed it, and it still holds what the send wrote.\<close>

definition puts_back :: "('a \<Rightarrow> 'a \<Rightarrow> bool) \<Rightarrow> 'a \<Rightarrow> 'a \<Rightarrow> 'a \<Rightarrow> bool" where
  "puts_back same was wrote cur = (\<not> same was wrote \<and> same cur wrote)"

definition restored_changes :: "stamps \<Rightarrow> stamps \<Rightarrow> stamps \<Rightarrow> (string \<times> jval \<times> jval) list" where
  "restored_changes before stamped cur =
     (if puts_back (=) (st_status before) (st_status stamped) (st_status cur)
      then [(''status'', JStr (st_status cur), JStr (st_status before))] else [])
     @ (if puts_back same_stamp (st_sent_at before) (st_sent_at stamped) (st_sent_at cur)
        then [(''sent_at'', stamp_text (st_sent_at cur), stamp_text (st_sent_at before))] else [])
     @ (if puts_back same_stamp (st_opened_at before) (st_opened_at stamped) (st_opened_at cur)
        then [(''opened_at'', stamp_text (st_opened_at cur), stamp_text (st_opened_at before))] else [])
     @ (if puts_back same_stamp (st_last_reminder_at before) (st_last_reminder_at stamped) (st_last_reminder_at cur)
        then [(''last_reminder_at'', stamp_text (st_last_reminder_at cur), stamp_text (st_last_reminder_at before))]
        else [])"

definition restore_stamps :: "stamps \<Rightarrow> stamps \<Rightarrow> invitation \<Rightarrow> invitation" where
  "restore_stamps before stamped i = i\<lparr>
     inv_status := (if puts_back (=) (st_status before) (st_status stamped) (inv_status i)
        then st_status before else inv_status i),
     inv_sent_at := (if puts_back same_stamp (st_sent_at before) (st_sent_at stamped) (inv_sent_at i)
        then st_sent_at before else inv_sent_at i),
     inv_opened_at := (if puts_back same_stamp (st_opened_at before) (st_opened_at stamped) (inv_opened_at i)
        then st_opened_at before else inv_opened_at i),
     inv_last_reminder_at := (if puts_back same_stamp (st_last_reminder_at before)
          (st_last_reminder_at stamped) (inv_last_reminder_at i)
        then st_last_reminder_at before else inv_last_reminder_at i)\<rparr>"

definition restore_after_failed_send ::
  "int \<Rightarrow> int \<Rightarrow> int \<Rightarrow> stamps \<Rightarrow> stamps \<Rightarrow> db \<Rightarrow> (db \<times> bool) result" where
  "restore_after_failed_send user sid outbox_id before stamped d =
     bindE (lock_session d sid False) (\<lambda>_.
       let iv = (case find (\<lambda>o'. ob_id o' = outbox_id) (outbox d) of
              Some row \<Rightarrow> if ob_status row = ''failed''
                 then (case ob_invitation row of Some k \<Rightarrow> get_invitation d k | None \<Rightarrow> None) else None
            | None \<Rightarrow> None)
       in case iv of None \<Rightarrow> Inr (d, False)
          | Some i \<Rightarrow>
             if list_ex (\<lambda>o'. ob_invitation o' = Some (inv_id i) \<and> outbox_id < ob_id o') (outbox d)
             then Inr (d, False)
             else (let restored = restored_changes before stamped (stamps_of i) in
               if restored = [] then Inr (d, False)
               else Inr (write_event ''invitation.send_reverted'' (Some user) (Some sid) (Changes restored) None
                      [(''invitation_id'', inv_id i), (''reviewer_id'', inv_reviewer i),
                       (''outbox_id'', outbox_id)] []
                      (upd_invitation (inv_id i) (restore_stamps before stamped) d), True)))"

definition record_open :: "int \<Rightarrow> int \<Rightarrow> db \<Rightarrow> (db \<times> bool) result" where
  "record_open user k d =
     (case get_invitation d k of None \<Rightarrow> Inl NoResultFound
      | Some iv \<Rightarrow> bindE (lock_session d (inv_session iv) False) (\<lambda>_.
          if inv_opened_at iv \<noteq> None then Inr (d, False)
          else Inr (write_event ''invitation.opened'' (Some user) (Some (inv_session iv)) NoPayload None
                 [(''invitation_id'', k), (''reviewer_id'', inv_reviewer iv)] []
                 (upd_invitation k (\<lambda>i. i\<lparr>inv_opened_at := Some (Aware (wall d)), inv_status := ''opened''\<rparr>) d),
               True)))"

section \<open>Reminders\<close>

definition reminder_row ::
  "mail_env \<Rightarrow> string option \<Rightarrow> int \<Rightarrow> review_session \<Rightarrow> reviewer \<Rightarrow> int \<Rightarrow> string \<Rightarrow> db \<Rightarrow> outbox_row" where
  "reminder_row env corr sid s r k url d =
     outbox_row_for env REMINDER_KIND corr sid s r (Some k) (render_reminder (me_zone_text env) s r url) d"

definition stamp_reminder :: "int \<Rightarrow> db \<Rightarrow> db" where
  "stamp_reminder k d = upd_invitation k (\<lambda>i. i\<lparr>inv_last_reminder_at := Some (Aware (wall d))\<rparr>) d"

definition send_reminder ::
  "mail_env \<Rightarrow> (string \<Rightarrow> string) \<Rightarrow> int option \<Rightarrow> string option \<Rightarrow> int \<Rightarrow> review_session \<Rightarrow> reviewer
     \<Rightarrow> invitation \<Rightarrow> db \<Rightarrow> (db \<times> int \<times> bool) result" where
  "send_reminder env build user corr sid s r iv d =
     (let k = inv_id iv in
      case current_invite_url env (most_recent_invitation_url d k) iv build of
        None \<Rightarrow> bindE (send_invitation env build user ''operator'' corr sid s r k d) (\<lambda>(d', oid, _).
                 Inr (stamp_reminder k d', oid, True))
      | Some url \<Rightarrow>
          (let row = reminder_row env corr sid s r k url d
           in if me_refuses env row then Inl (DatabaseError ''email_outbox'')
              else Inr (stamp_reminder k (add_outbox row d), ob_id row, False)))"

definition write_reminders_sent :: "int \<Rightarrow> int \<Rightarrow> (int \<times> int) list \<Rightarrow> int \<Rightarrow> db \<Rightarrow> db" where
  "write_reminders_sent user sid pairs fell_back d =
     write_event ''reminders.sent'' (Some user) (Some sid) (SetChanges [] (id_pairs pairs)) None []
       [(''fell_back'', JInt fell_back)] d"

text \<open>The reviewers a reminder goes to: incomplete, with an invitation.\<close>

definition to_remind :: "db \<Rightarrow> int \<Rightarrow> (reviewer \<times> invitation) list" where
  "to_remind d sid = List.map_filter (\<lambda>row.
     if is_incomplete_state (pr_pill_state row)
     then map_option (Pair (pr_reviewer row)) (pr_invitation row) else None) (per_reviewer_progress d sid)"

definition remind_step ::
  "mail_env \<Rightarrow> (string \<Rightarrow> string) \<Rightarrow> int \<Rightarrow> int \<Rightarrow> review_session \<Rightarrow> reviewer \<times> invitation
     \<Rightarrow> db \<times> (int \<times> int) list \<times> int \<Rightarrow> (db \<times> (int \<times> int) list \<times> int) result" where
  "remind_step env build user sid s x acc = (case x of (r, iv) \<Rightarrow> case acc of (d, pairs, fell) \<Rightarrow>
     bindE (send_reminder env build (Some user) None sid s r iv d) (\<lambda>(d', _, fb).
       Inr (d', pairs @ [(inv_id iv, rr_id r)], if fb then fell + 1 else fell)))"

definition send_reminders_to_incomplete ::
  "mail_env \<Rightarrow> (string \<Rightarrow> string) \<Rightarrow> int \<Rightarrow> int \<Rightarrow> db \<Rightarrow> (db \<times> (int \<times> int) list \<times> int) result" where
  "send_reminders_to_incomplete env build user sid d =
     bindE (require_ready d sid) (\<lambda>s.
       bindE (foldE (remind_step env build user sid s) (to_remind d sid) (d, [], 0)) (\<lambda>(d', pairs, fell).
         Inr (if pairs = [] then d' else write_reminders_sent user sid pairs fell d', pairs, fell)))"

definition send_one_reminder ::
  "mail_env \<Rightarrow> (string \<Rightarrow> string) \<Rightarrow> int \<Rightarrow> int \<Rightarrow> reviewer \<Rightarrow> int \<Rightarrow> db
     \<Rightarrow> (db \<times> int \<times> bool \<times> stamps option \<times> stamps option) result" where
  "send_one_reminder env build user sid r k d =
     bindE (require_ready d sid) (\<lambda>s.
       case get_invitation d k of None \<Rightarrow> Inl NoResultFound
       | Some iv \<Rightarrow> bindE (send_reminder env build (Some user) None sid s r iv d) (\<lambda>(d', oid, fb).
           Inr (write_reminders_sent user sid [(k, rr_id r)] (if fb then 1 else 0) d', oid, fb,
                stamps_at d k, stamps_at d' k)))"

section \<open>The responses-received confirmation\<close>

definition has_submitted :: "db \<Rightarrow> int \<Rightarrow> int \<Rightarrow> bool" where
  "has_submitted d sid rid = list_ex (\<lambda>r. r_submitted_at r \<noteq> None
     \<and> list_ex (\<lambda>a. a_id a = r_assignment r \<and> a_session a = sid \<and> a_reviewer a = rid) (assignments d))
     (responses d)"

definition queue_responses_received ::
  "mail_env \<Rightarrow> int \<Rightarrow> int \<Rightarrow> review_session \<Rightarrow> reviewer \<Rightarrow> db \<Rightarrow> db \<times> int option" where
  "queue_responses_received env user sid s r d =
     (if \<not> responses_received_enabled s then (d, None)
      else if \<not> has_submitted d sid (rr_id r) then (d, None)
      else (let fresh = outbox_row_for env RESPONSES_RECEIVED_KIND None sid s r None
                  (render_responses_received (me_zone_text env) d sid s r) d;
                old = find (\<lambda>o'. ob_session o' = sid \<and> ob_reviewer o' = Some (rr_id r)
                   \<and> ob_kind o' = RESPONSES_RECEIVED_KIND \<and> ob_status o' = ''queued'') (outbox d);
                row = (case old of None \<Rightarrow> fresh
                  | Some o' \<Rightarrow> o'\<lparr>ob_to_email := ob_to_email fresh, ob_cc_emails := ob_cc_emails fresh,
                      ob_bcc_emails := ob_bcc_emails fresh, ob_subject := ob_subject fresh,
                      ob_body := ob_body fresh\<rparr>);
                d1 = (case old of None \<Rightarrow> add_outbox row d
                  | Some o' \<Rightarrow> d\<lparr>outbox := map (\<lambda>x. if ob_id x = ob_id o' then row else x) (outbox d)\<rparr>)
            in if me_refuses env row then (d, None)
               else (write_event ''responses_received.queued'' (Some user) (Some sid) NoPayload None
                       [(''reviewer_id'', rr_id r), (''outbox_id'', ob_id row)]
                       [(''refreshed'', JBool (old \<noteq> None))] d1, Some (ob_id row))))"

section \<open>Before a delete\<close>

text \<open>
  \<open>detach_outbox\<close>: the rows lose their links to the invitations, and when the reviewers go too,
  to the reviewers; \<open>None\<close> is the whole session.
\<close>

definition detach_outbox :: "int \<Rightarrow> int list option \<Rightarrow> bool \<Rightarrow> db \<Rightarrow> db" where
  "detach_outbox sid rids reviewers_deleted d =
     (if rids = Some [] then d
      else (let doomed = inv_id ` set (filter (\<lambda>i. inv_session i = sid
                  \<and> (case rids of None \<Rightarrow> True | Some ks \<Rightarrow> inv_reviewer i \<in> set ks)) (invitations d));
                unlink = (\<lambda>o'. if ob_session o' = sid \<and> (case ob_invitation o' of None \<Rightarrow> False
                    | Some k \<Rightarrow> k \<in> doomed) then o'\<lparr>ob_invitation := None\<rparr> else o');
                forget = (\<lambda>o'. if ob_session o' = sid \<and> (case ob_reviewer o' of None \<Rightarrow> False
                    | Some r \<Rightarrow> (case rids of None \<Rightarrow> True | Some ks \<Rightarrow> r \<in> set ks))
                  then o'\<lparr>ob_reviewer := None\<rparr> else o')
            in d\<lparr>outbox := map (\<lambda>o'. if reviewers_deleted then forget (unlink o') else unlink o') (outbox d)\<rparr>))"

end
