(* ===== verification/Email_Dispatch.thy ===== *)
theory Email_Dispatch
  imports Invitations
begin

text \<open>
  \<open>app/services/email_dispatch.py\<close>: one outbox row through a transport, once. The claim is a
  transaction of its own, the stamp another; \<open>meanwhile\<close> is what other requests commit while
  the transport sends. The transport is a parameter: a function from the message to its result.
\<close>

record send_options =
  so_save_to_sent_items :: bool
  so_bcc_self :: "string option"
  so_reply_to :: "string option"

record email_message =
  em_to :: string
  em_subject :: string
  em_body :: string
  em_cc :: "string list"
  em_bcc :: "string list"
  em_reply_to :: "string option"
  em_save_to_sent_items :: bool

record send_result =
  sr_ok :: bool
  sr_error :: "string option"
  sr_response :: "string option"
  sr_failure_kind :: "string option"

definition bulk_send_enabled :: bool where
  "bulk_send_enabled = False"

definition addresses :: "string option \<Rightarrow> string list" where
  "addresses raw = csv_items (or_empty raw)"

definition message_for :: "outbox_row \<Rightarrow> send_options \<Rightarrow> email_message" where
  "message_for row options =
     (let bcc = addresses (ob_bcc_emails row);
          bcc' = (if or_empty (so_bcc_self options) \<noteq> []
                    \<and> py_lower (or_empty (so_bcc_self options)) \<notin> py_lower ` set bcc
                  then bcc @ [or_empty (so_bcc_self options)] else bcc)
      in \<lparr>em_to = ob_to_email row, em_subject = ob_subject row, em_body = ob_body row,
          em_cc = addresses (ob_cc_emails row), em_bcc = bcc', em_reply_to = so_reply_to options,
          em_save_to_sent_items = so_save_to_sent_items options\<rparr>)"

definition upd_outbox :: "int \<Rightarrow> (outbox_row \<Rightarrow> outbox_row) \<Rightarrow> db \<Rightarrow> db" where
  "upd_outbox k f d = d\<lparr>outbox := map (\<lambda>o'. if ob_id o' = k then f o' else o') (outbox d)\<rparr>"

definition claim :: "int \<Rightarrow> db \<Rightarrow> db \<times> bool" where
  "claim k d =
     (if list_ex (\<lambda>o'. ob_id o' = k \<and> ob_status o' = ''queued'') (outbox d)
      then (d\<lparr>outbox := map (\<lambda>o'. if ob_id o' = k \<and> ob_status o' = ''queued''
              then o'\<lparr>ob_status := ''sending''\<rparr> else o') (outbox d)\<rparr>, True)
      else (d, False))"

definition dispatch_refs :: "outbox_row \<Rightarrow> (string \<times> int) list" where
  "dispatch_refs row = [(''outbox_id'', ob_id row)]
     @ (case ob_invitation row of None \<Rightarrow> [] | Some k \<Rightarrow> [(''invitation_id'', k)])
     @ (case ob_reviewer row of None \<Rightarrow> [] | Some k \<Rightarrow> [(''reviewer_id'', k)])"

text \<open>The stamp, written on the row as refreshed after the claim.\<close>

definition stamp_dispatch ::
  "string \<Rightarrow> int option \<Rightarrow> string option \<Rightarrow> int \<Rightarrow> outbox_row \<Rightarrow> send_result \<Rightarrow> db \<Rightarrow> db" where
  "stamp_dispatch backend actor from now row res d =
     (let ctx = [(''kind'', JStr (ob_kind row)), (''backend'', JStr backend)];
          sent = upd_outbox (ob_id row) (\<lambda>o'. o'\<lparr>ob_backend := Some backend, ob_from_address := from\<rparr>) d
      in if sr_ok res
         then write_event ''email.sent'' actor (Some (ob_session row)) NoPayload None (dispatch_refs row) ctx
                (upd_outbox (ob_id row) (\<lambda>o'. o'\<lparr>ob_status := ''sent'', ob_sent_at := Some (Aware now),
                   ob_error := None\<rparr>) sent)
         else write_event ''email.send_failed'' actor (Some (ob_session row)) NoPayload
                (if or_empty (sr_response res) \<noteq> [] then sr_response res else sr_error res)
                (dispatch_refs row) ctx
                (upd_outbox (ob_id row) (\<lambda>o'. o'\<lparr>ob_status := ''failed'', ob_error := sr_error res\<rparr>) sent))"

datatype dispatch_outcome = Sent | Failed "string option" "string option" | NotClaimed

definition dispatch ::
  "(email_message \<Rightarrow> send_result) \<Rightarrow> string \<Rightarrow> int option \<Rightarrow> send_options \<Rightarrow> string option \<Rightarrow> int option
     \<Rightarrow> (db \<Rightarrow> db) \<Rightarrow> int \<Rightarrow> db \<Rightarrow> db \<times> dispatch_outcome" where
  "dispatch transport backend actor options from now meanwhile k d =
     (case claim k d of (d1, claimed) \<Rightarrow>
        if \<not> claimed then (d1, NotClaimed)
        else (case find (\<lambda>o'. ob_id o' = k) (outbox d1) of
            None \<Rightarrow> (d1, NotClaimed)
          | Some row \<Rightarrow>
              (let res = transport (message_for row options); d2 = meanwhile d1
               in (stamp_dispatch backend actor from (now_or now d2) row res d2,
                   if sr_ok res then Sent else Failed (sr_error res) (sr_failure_kind res)))))"

end
