(* ===== verification/Mail_Facts.thy ===== *)
theory Mail_Facts
  imports Email_Dispatch
begin

text \<open>
  What the operations on invitations and the outbox keep: which tables they touch, the types
  and keys of the two tables they write, and that a row once claimed is never queued again.
  The facts are proved per primitive write and lifted over sequences of calls by a locale.
\<close>

section \<open>Sequences of calls\<close>

locale transactions =
  fixes run :: "'act \<Rightarrow> int \<Rightarrow> db \<Rightarrow> db result"
    and legal :: "'act \<Rightarrow> bool"
    and ok :: "db \<Rightarrow> bool"
    and rel :: "db \<Rightarrow> db \<Rightarrow> bool"
  assumes rel_refl: "rel d d"
    and rel_trans: "rel d e \<Longrightarrow> rel e f \<Longrightarrow> rel d f"
    and call: "ok d \<Longrightarrow> legal a \<Longrightarrow> run a sid d = Inr d' \<Longrightarrow> ok d' \<and> rel d d'"
begin

lemma one_call: "ok d \<Longrightarrow> legal (fst c) \<Longrightarrow> ok (attempt run c d) \<and> rel d (attempt run c d)"
  using call rel_refl by (auto simp: attempt_def split: sum.split)

lemma calls:
  assumes "ok d" "\<forall>c \<in> set cs. legal (fst c)"
  shows "ok (foldl (\<lambda>d c. attempt run c d) d cs) \<and> rel d (foldl (\<lambda>d c. attempt run c d) d cs)"
  using assms
proof (induction cs arbitrary: d)
  case (Cons c cs)
  have 1: "ok (attempt run c d)" "rel d (attempt run c d)" using one_call [of d c] Cons.prems by simp_all
  have "ok (foldl (\<lambda>d c. attempt run c d) (attempt run c d) cs)
    \<and> rel (attempt run c d) (foldl (\<lambda>d c. attempt run c d) (attempt run c d) cs)"
    using 1 Cons.prems by (intro Cons.IH) auto
  then show ?case using rel_trans [OF 1(2)] by auto
qed (simp add: rel_refl)

end

section \<open>What a mail operation touches\<close>

definition mail_frame :: "db \<Rightarrow> db \<Rightarrow> bool" where
  "mail_frame d d' = (sessions d' = sessions d \<and> instruments d' = instruments d
     \<and> fields_tbl d' = fields_tbl d \<and> reviewers d' = reviewers d \<and> reviewees d' = reviewees d
     \<and> relationships d' = relationships d \<and> assignments d' = assignments d
     \<and> responses d' = responses d \<and> policies d' = policies d \<and> rule_sets d' = rule_sets d
     \<and> (\<exists>es. audit_log d' = audit_log d @ es) \<and> wall d' = wall d \<and> postgres d' = postgres d
     \<and> held d' = held d \<and> fired_by d' = fired_by d)"

lemma mail_frame_refl [simp]: "mail_frame d d"
  by (simp add: mail_frame_def)

lemma mail_frame_trans: "mail_frame d e \<Longrightarrow> mail_frame e f \<Longrightarrow> mail_frame d f"
  by (auto simp: mail_frame_def)

lemma mail_frame_tables [simp]:
  "mail_frame d (d\<lparr>invitations := is\<rparr>)" "mail_frame d (d\<lparr>outbox := os\<rparr>)"
  "mail_frame d (write_event ty a s pl rs rf cx d)"
  by (simp_all add: mail_frame_def write_event_def)

section \<open>Types and keys\<close>

definition inv_ok :: "invitation \<Rightarrow> bool" where
  "inv_ok i = (inv_status i \<in> {''pending'', ''sent'', ''opened''}
     \<and> (inv_status i = ''opened'' \<longrightarrow> inv_opened_at i \<noteq> None))"

definition ob_ok :: "outbox_row \<Rightarrow> bool" where
  "ob_ok o' = (ob_kind o' \<in> {INVITATION_KIND, REMINDER_KIND, RESPONSES_RECEIVED_KIND}
     \<and> ob_status o' \<in> {''queued'', ''sending'', ''sent'', ''failed''} \<and> length (ob_subject o') \<le> SUBJECT_MAX)"

definition mail_ok :: "db \<Rightarrow> bool" where
  "mail_ok d = (distinct (map inv_id (invitations d)) \<and> distinct (map inv_token_hash (invitations d))
     \<and> list_all inv_ok (invitations d) \<and> distinct (map ob_id (outbox d)) \<and> list_all ob_ok (outbox d))"

text \<open>
  What an insert's id and a random token promise: an id no row of the table has, in the outbox
  above all of them, and a token whose hash no invitation has.
\<close>

definition fresh_mail :: "mail_env \<Rightarrow> bool" where
  "fresh_mail env = (\<forall>d. me_invitation_id env (invitations d) \<notin> inv_id ` set (invitations d)
     \<and> (\<forall>o' \<in> set (outbox d). ob_id o' < me_outbox_id env (outbox d))
     \<and> me_hash env (me_token env d) \<notin> inv_token_hash ` set (invitations d))"

lemma fresh_outbox: "fresh_mail env \<Longrightarrow> me_outbox_id env (outbox d) \<notin> ob_id ` set (outbox (d :: db))"
proof -
  assume "fresh_mail env"
  then have "\<forall>o' \<in> set (outbox d). ob_id o' < me_outbox_id env (outbox d)" unfolding fresh_mail_def by blast
  then show ?thesis by force
qed

text \<open>Rows that left \<open>queued\<close> never come back to it.\<close>

definition settled_ids :: "db \<Rightarrow> int set" where
  "settled_ids d = ob_id ` set (filter (\<lambda>o'. ob_status o' \<noteq> ''queued'') (outbox d))"

definition mail_step :: "db \<Rightarrow> db \<Rightarrow> bool" where
  "mail_step d d' = (mail_frame d d' \<and> (mail_ok d \<longrightarrow> mail_ok d' \<and> settled_ids d \<subseteq> settled_ids d'))"

lemma mail_step_refl [simp]: "mail_step d d"
  by (simp add: mail_step_def)

lemma mail_step_trans: "mail_step d e \<Longrightarrow> mail_step e f \<Longrightarrow> mail_step d f"
  using mail_frame_trans by (auto simp: mail_step_def)

lemma mail_step_event1: "mail_step e (write_event ty a s pl rs rf cx e)"
  unfolding mail_step_def mail_ok_def settled_ids_def by simp

lemma mail_step_event: "mail_step d e \<Longrightarrow> mail_step d (write_event ty a s pl rs rf cx e)"
  by (rule mail_step_trans [OF _ mail_step_event1])

lemma map_keys_update:
  assumes "\<And>x. x \<in> set xs \<Longrightarrow> key x = k \<Longrightarrow> g (h x) = g x"
  shows "map g (map (\<lambda>x. if key x = k then h x else x) xs) = map g xs"
  using assms by (induction xs) auto

text \<open>A write of one invitation row that keeps its token, and one that gives it a fresh token.\<close>

lemma mail_step_upd_invitation:
  assumes "\<And>i. inv_id (f i) = inv_id i" "\<And>i. inv_token_hash (f i) = inv_token_hash i"
    and "\<And>i. inv_ok i \<Longrightarrow> inv_ok (f i)"
  shows "mail_step d (upd_invitation k f d)"
proof -
  have "map inv_id (invitations (upd_invitation k f d)) = map inv_id (invitations d)"
    "map inv_token_hash (invitations (upd_invitation k f d)) = map inv_token_hash (invitations d)"
    by (simp_all add: upd_invitation_def assms(1,2) comp_def if_distrib cong: map_cong)
  moreover have "list_all inv_ok (invitations d) \<Longrightarrow> list_all inv_ok (invitations (upd_invitation k f d))"
    using assms(3) by (auto simp: upd_invitation_def list_all_iff)
  ultimately show ?thesis
    by (simp add: mail_step_def mail_ok_def settled_ids_def) (simp add: upd_invitation_def)
qed

lemma distinct_replace_key:
  assumes "distinct (map key xs)" "distinct (map val xs)" "v \<notin> val ` set xs"
    and "\<And>x. val (h x) = v"
  shows "distinct (map val (map (\<lambda>x. if key x = k then h x else x) xs))"
  using assms(1-3)
proof (induction xs)
  case (Cons x xs)
  have "map (\<lambda>y. if key y = k then h y else y) xs = xs" if "key x = k"
    using Cons.prems(1) that by (intro map_idI) (force simp: image_iff)
  moreover have "val x \<notin> val ` (\<lambda>y. if key y = k then h y else y) ` set xs"
    using Cons.prems assms(4) by (auto simp: image_iff)
  moreover have "v \<notin> val ` set xs" using Cons.prems(3) by simp
  ultimately show ?case using Cons assms(4) by (cases "key x = k") (auto simp: image_iff)
qed simp

lemma mail_step_new_token:
  assumes "\<And>i. inv_id (f i) = inv_id i" "\<And>i. inv_token_hash (f i) = h"
    and "\<And>i. inv_ok (f i)" "h \<notin> inv_token_hash ` set (invitations d)"
  shows "mail_step d (upd_invitation k f d)"
proof -
  have "map inv_id (invitations (upd_invitation k f d)) = map inv_id (invitations d)"
    by (simp add: upd_invitation_def assms(1) comp_def if_distrib cong: map_cong)
  moreover have "mail_ok d \<Longrightarrow> distinct (map inv_token_hash (invitations (upd_invitation k f d)))"
    unfolding upd_invitation_def
    using distinct_replace_key [of inv_id "invitations d" inv_token_hash h f k] assms(2,4)
    by (simp add: mail_ok_def)
  moreover have "list_all inv_ok (invitations d) \<Longrightarrow> list_all inv_ok (invitations (upd_invitation k f d))"
    using assms(3) by (auto simp: upd_invitation_def list_all_iff)
  ultimately show ?thesis
    by (simp add: mail_step_def mail_ok_def settled_ids_def) (simp add: upd_invitation_def)
qed

lemma mail_step_add_outbox:
  assumes "ob_ok row" "ob_id row \<notin> ob_id ` set (outbox d)"
  shows "mail_step d (add_outbox row d)"
  using assms by (auto simp: mail_step_def add_outbox_def mail_ok_def settled_ids_def)

lemma mail_step_map_outbox:
  assumes "\<And>x. ob_id (f x) = ob_id x" "\<And>x. ob_ok x \<Longrightarrow> ob_ok (f x)"
    and "\<And>x. ob_status x \<noteq> ''queued'' \<Longrightarrow> ob_status (f x) \<noteq> ''queued''"
  shows "mail_step d (d\<lparr>outbox := map f (outbox d)\<rparr>)"
proof -
  have ids: "ob_id \<circ> f = ob_id" using assms(1) by (simp add: fun_eq_iff)
  have "settled_ids d \<subseteq> settled_ids (d\<lparr>outbox := map f (outbox d)\<rparr>)"
    using assms(3) assms(1) [symmetric] by (fastforce simp: settled_ids_def image_iff)
  then show ?thesis using assms(2) by (auto simp: mail_step_def mail_ok_def list_all_iff ids)
qed

section \<open>Each operation\<close>

lemma map_sum_fst_Inr [simp]: "map_sum id fst r = Inr d' \<longleftrightarrow> (\<exists>x. r = Inr (d', x))"
  by (cases r) auto

lemma mail_step_generate:
  assumes "fresh_mail env"
  shows "mail_step d (fst (generate_invitations env user sid d))"
proof -
  have one: "mail_step d (fst (add_invitation env sid (d, ids) r))" for d ids r
    using assms by (auto simp: add_invitation_def Let_def mail_step_def mail_ok_def settled_ids_def
        new_invitation_def inv_ok_def fresh_mail_def)
  have "mail_step d (fst (foldl (add_invitation env sid) (d, ids) rs))" for rs ids
  proof (induction rs arbitrary: d ids)
    case (Cons r rs)
    show ?case using one [of d ids r] Cons.IH [of "fst (add_invitation env sid (d, ids) r)"]
      by (metis (no_types) foldl_Cons mail_step_trans prod.collapse)
  qed simp
  then show ?thesis
    by (auto simp: generate_invitations_def Let_def case_prod_beta intro: mail_step_event)
qed

lemma mail_step_supersede: "mail_step d (supersede_queued ks d)"
  by (auto simp: supersede_queued_def ob_ok_def intro!: mail_step_map_outbox)

lemma mail_step_reset:
  assumes "fresh_mail env"
  shows "mail_step d (reset_invitation env k d)"
  unfolding reset_invitation_def
  by (rule mail_step_new_token) (use assms in \<open>auto simp: inv_ok_def fresh_mail_def\<close>)

lemma mail_step_regenerate:
  assumes "fresh_mail env" "regenerate_token env user k d = Inr (d', raw)"
  shows "mail_step d d'"
  using assms mail_step_trans [OF mail_step_reset mail_step_supersede]
  by (auto simp: regenerate_token_def intro: mail_step_event split: option.splits)

lemma mail_step_regenerate_all:
  assumes "fresh_mail env" "regenerate_all_tokens env user sid d = Inr (d', ids)"
  shows "mail_step d d'"
proof -
  have loop: "mail_step d (foldl (\<lambda>d k. reset_invitation env k d) d ks)" for ks
    using mail_step_reset [OF assms(1)] by (induction ks arbitrary: d) (auto intro: mail_step_trans)
  show ?thesis
    using assms(2) mail_step_trans [OF loop mail_step_supersede] loop
    by (auto simp: regenerate_all_tokens_def Let_def intro: mail_step_event split: if_splits)
qed

lemma outbox_row_for_ok:
  "kind \<in> {INVITATION_KIND, REMINDER_KIND, RESPONSES_RECEIVED_KIND} \<Longrightarrow> ob_ok (outbox_row_for env kind corr sid s r k email d)"
  "ob_id (outbox_row_for env kind corr sid s r k email d) = me_outbox_id env (outbox d)"
  by (auto simp: outbox_row_for_def ob_ok_def)

lemma mail_step_send:
  assumes "fresh_mail env" "send_invitation env build user trg corr sid s r k d = Inr (d', oid, raw)"
  shows "mail_step d d'"
proof -
  let ?row = "invitation_row env build corr sid s r k d"
  have 1: "mail_step d (add_outbox ?row d)"
    using assms(1) unfolding invitation_row_def
    by (intro mail_step_add_outbox) (simp_all add: outbox_row_for_ok fresh_outbox)
  have 2: "mail_step (add_outbox ?row d) (upd_invitation k (\<lambda>i. i\<lparr>inv_token_hash := me_hash env (me_token env d),
      inv_status := ''sent'', inv_sent_at := Some (Aware (wall d)), inv_opened_at := None\<rparr>) (add_outbox ?row d))"
    by (rule mail_step_new_token) (use assms(1) in \<open>auto simp: inv_ok_def fresh_mail_def add_outbox_def\<close>)
  show ?thesis using assms(2) mail_step_trans [OF 1 2]
    by (auto simp: send_invitation_def Let_def intro: mail_step_event split: if_splits)
qed

lemma mail_step_foldE:
  assumes "\<And>x b b'. f x b = Inr b' \<Longrightarrow> mail_step (g b) (g b')" "foldE f xs b = Inr b'"
  shows "mail_step (g b) (g b')"
  using assms(2) by (induction xs arbitrary: b) (auto dest: assms(1) intro: mail_step_trans)

lemma mail_step_send_all:
  assumes "fresh_mail env" "send_all_invitations env build user sid d = Inr (d', n)"
  shows "mail_step d d'"
proof -
  have "mail_step x y" if "send_rows env build u trg sid s rows x = Inr y" for u trg s rows x y
  proof -
    let ?f = "\<lambda>(i, r) d. map_sum id fst (send_invitation env build u trg None sid s r (inv_id i) d)"
    have "mail_step b b'" if "?f p b = Inr b'" for p b b'
      using that mail_step_send [OF assms(1)] by (cases p) auto
    from mail_step_foldE [of ?f "\<lambda>x. x", OF this that [unfolded send_rows_def]] show ?thesis .
  qed
  then show ?thesis using assms(2)
    by (auto simp: send_all_invitations_def Let_def)
qed

lemma mail_step_stamp_reminder: "mail_step d (stamp_reminder k d)"
  unfolding stamp_reminder_def by (rule mail_step_upd_invitation) (auto simp: inv_ok_def)

lemma mail_step_send_reminder:
  assumes "fresh_mail env" "send_reminder env build user corr sid s r iv d = Inr (d', oid, fb)"
  shows "mail_step d d'"
proof (cases "current_invite_url env (most_recent_invitation_url d (inv_id iv)) iv build")
  case None
  then show ?thesis using assms mail_step_send [OF assms(1)] mail_step_trans [OF _ mail_step_stamp_reminder]
    by (fastforce simp: send_reminder_def Let_def)
next
  case (Some url)
  have "mail_step d (add_outbox (reminder_row env corr sid s r (inv_id iv) url d) d)"
    using assms(1) unfolding reminder_row_def
    by (intro mail_step_add_outbox) (simp_all add: outbox_row_for_ok fresh_outbox)
  then show ?thesis using Some assms(2) mail_step_trans [OF _ mail_step_stamp_reminder]
    by (auto simp: send_reminder_def Let_def split: if_splits)
qed

lemma mail_step_remind_all:
  assumes "fresh_mail env" "send_reminders_to_incomplete env build user sid d = Inr (d', out)"
  shows "mail_step d d'"
proof -
  have "mail_step (fst b) (fst b')" if "remind_step env build user sid s x b = Inr b'" for s x b b'
    using that mail_step_send_reminder [OF assms(1)]
    by (cases x; cases b) (auto simp: remind_step_def split: if_splits)
  then have loop: "mail_step d e" if "foldE (remind_step env build user sid s) xs (d, [], 0) = Inr (e, p, f)" for s xs e p f
    using mail_step_foldE [of _ fst, OF _ that] by simp
  obtain s e p f where "foldE (remind_step env build user sid s) (to_remind d sid) (d, [], 0) = Inr (e, p, f)"
      "d' = (if p = [] then e else write_reminders_sent user sid p f e)"
    using assms(2) by (auto simp: send_reminders_to_incomplete_def)
  with loop show ?thesis by (simp add: write_reminders_sent_def mail_step_event)
qed

lemma mail_step_open: "record_open user k d = Inr (d', b) \<Longrightarrow> mail_step d d'"
  by (auto simp: record_open_def inv_ok_def split: option.splits if_splits
      intro!: mail_step_event mail_step_upd_invitation)

text \<open>The stamps a restore puts back: what one send or reminder left, and what it found.\<close>

definition ticket_ok :: "stamps \<Rightarrow> stamps \<Rightarrow> bool" where
  "ticket_ok before stamped =
     (st_status before \<in> {''pending'', ''sent'', ''opened''}
      \<and> (st_status before = ''opened'' \<longrightarrow> st_opened_at before \<noteq> None)
      \<and> (st_status stamped = ''sent'' \<and> st_opened_at stamped = None
         \<or> st_status stamped = st_status before \<and> st_opened_at stamped = st_opened_at before))"

lemma restored_pair:
  assumes "sb = C \<longrightarrow> ob \<noteq> None" "si = C \<longrightarrow> oi \<noteq> None" "B \<noteq> C"
    and "ss = B \<and> os = None \<or> ss = sb \<and> os = ob"
    and "(if puts_back (=) sb ss si then sb else si) = C"
  shows "(if puts_back same_stamp ob os oi then ob else oi) \<noteq> None"
  using assms by (cases ob; cases oi) (auto simp: puts_back_def same_stamp_def split: if_splits)

lemma restore_keeps_ok:
  assumes "ticket_ok b s" "inv_ok i"
  shows "inv_ok (restore_stamps b s i)"
proof -
  have "inv_status (restore_stamps b s i) = st_status b \<or> inv_status (restore_stamps b s i) = inv_status i"
    by (simp add: restore_stamps_def)
  then have "inv_status (restore_stamps b s i) \<in> {''pending'', ''sent'', ''opened''}"
    using assms unfolding ticket_ok_def inv_ok_def by metis
  moreover have "inv_opened_at (restore_stamps b s i) \<noteq> None" if "inv_status (restore_stamps b s i) = ''opened''"
    using restored_pair [of "st_status b" "''opened''" "st_opened_at b" "inv_status i" "inv_opened_at i"
        "''sent''" "st_status s" "st_opened_at s"] assms that
    by (simp add: ticket_ok_def inv_ok_def restore_stamps_def)
  ultimately show ?thesis by (simp add: inv_ok_def)
qed

lemma mail_step_restore:
  assumes "ticket_ok b s" "restore_after_failed_send user sid oid b s d = Inr (d', r)"
  shows "mail_step d d'"
proof -
  have "mail_step d (upd_invitation k (restore_stamps b s) d)" for k
    by (rule mail_step_upd_invitation)
      (use restore_keeps_ok [OF assms(1)] in \<open>simp_all add: restore_stamps_def\<close>)
  then show ?thesis using assms(2)
    by (auto simp: restore_after_failed_send_def Let_def intro!: mail_step_event split: option.splits if_splits)
qed

text \<open>A queued row rewritten in place.\<close>

lemma mail_step_rewrite_queued:
  assumes "o' \<in> set (outbox d)" "ob_status o' = ''queued''" "ob_id row = ob_id o'"
    and "ob_ok o' \<Longrightarrow> ob_ok row"
  shows "mail_step d (d\<lparr>outbox := map (\<lambda>x. if ob_id x = ob_id o' then row else x) (outbox d)\<rparr>)"
    (is "mail_step d (d\<lparr>outbox := map ?f (outbox d)\<rparr>)")
proof -
  have ids: "ob_id \<circ> ?f = ob_id" using assms(3) by (simp add: fun_eq_iff)
  have settled: "settled_ids d \<subseteq> settled_ids (d\<lparr>outbox := map ?f (outbox d)\<rparr>)" if "mail_ok d"
  proof
    fix k assume "k \<in> settled_ids d"
    then obtain x where x: "x \<in> set (outbox d)" "ob_status x \<noteq> ''queued''" "k = ob_id x"
      by (auto simp: settled_ids_def)
    have "ob_id x \<noteq> ob_id o'"
      using x assms(1,2) that by (auto simp: mail_ok_def distinct_map inj_on_def)
    then have "?f x = x" by simp
    then show "k \<in> settled_ids (d\<lparr>outbox := map ?f (outbox d)\<rparr>)"
      using x by (auto simp: settled_ids_def image_iff intro!: bexI [of _ x])
  qed
  have "mail_ok (d\<lparr>outbox := map ?f (outbox d)\<rparr>)" if "mail_ok d"
  proof -
    have "distinct (map ob_id (map ?f (outbox d)))" using that by (simp only: map_map ids mail_ok_def)
    moreover have "list_all ob_ok (map ?f (outbox d))"
      using that assms(1,4) by (auto simp: mail_ok_def list_all_iff)
    ultimately show ?thesis using that by (simp add: mail_ok_def)
  qed
  with settled show ?thesis by (simp add: mail_step_def)
qed

lemma mail_step_received:
  assumes "fresh_mail env"
  shows "mail_step d (fst (queue_responses_received env user sid s r d))"
proof -
  let ?fresh = "outbox_row_for env RESPONSES_RECEIVED_KIND None sid s r None
                  (render_responses_received (me_zone_text env) d sid s r) d"
  have new: "mail_step d (add_outbox ?fresh d)"
    using assms by (intro mail_step_add_outbox) (simp_all add: outbox_row_for_ok fresh_outbox)
  have sub: "length (ob_subject ?fresh) \<le> SUBJECT_MAX" by (simp add: outbox_row_for_def)
  have again: "mail_step d (d\<lparr>outbox := map (\<lambda>x. if ob_id x = ob_id o'
        then o'\<lparr>ob_to_email := t, ob_cc_emails := c, ob_bcc_emails := b, ob_subject := ob_subject ?fresh, ob_body := z\<rparr>
        else x) (outbox d)\<rparr>)"
    if "find (\<lambda>x. P x \<and> ob_status x = ''queued'') (outbox d) = Some o'" for o' t c b z P
    using that sub by (intro mail_step_rewrite_queued) (auto simp: find_Some_iff ob_ok_def)
  show ?thesis
    using new again [where P = "\<lambda>o'. ob_session o' = sid \<and> ob_reviewer o' = Some (rr_id r)
       \<and> ob_kind o' = RESPONSES_RECEIVED_KIND"]
    by (auto simp: queue_responses_received_def Let_def intro!: mail_step_event split: option.splits)
qed

lemma mail_step_detach: "mail_step d (detach_outbox sid rids b d)"
  unfolding detach_outbox_def Let_def
  by (simp, intro impI mail_step_map_outbox) (simp_all add: ob_ok_def split: if_splits option.splits)

lemma mail_step_claim: "mail_step d (fst (claim k d))"
  by (auto simp: claim_def ob_ok_def intro!: mail_step_map_outbox)

lemma mail_step_upd_outbox:
  assumes "\<And>x. ob_id (f x) = ob_id x" "\<And>x. ob_ok x \<Longrightarrow> ob_ok (f x)"
    and "\<And>x. ob_status x \<noteq> ''queued'' \<Longrightarrow> ob_status (f x) \<noteq> ''queued''"
  shows "mail_step d (upd_outbox k f d)"
  unfolding upd_outbox_def by (rule mail_step_map_outbox) (use assms in auto)

lemma mail_step_stamp_dispatch: "mail_step d (stamp_dispatch backend actor from now row res d)"
  by (auto simp: stamp_dispatch_def Let_def ob_ok_def
      intro!: mail_step_event mail_step_trans [OF mail_step_upd_outbox mail_step_upd_outbox])

section \<open>One call of the component\<close>

datatype mail_call =
    Generate
  | RegenerateOne int
  | RegenerateAll
  | SendAll
  | SendOne reviewer int
  | RemindAll
  | RemindOne reviewer int
  | Open int
  | Restore int stamps stamps
  | Received review_session reviewer
  | Detach "int list option" bool
  | Claim int
  | StampDispatch string "string option" int outbox_row send_result

fun run_mail :: "mail_env \<Rightarrow> (string \<Rightarrow> string) \<Rightarrow> int \<Rightarrow> mail_call \<Rightarrow> int \<Rightarrow> db \<Rightarrow> db result" where
  "run_mail env build u Generate sid d = Inr (fst (generate_invitations env u sid d))"
| "run_mail env build u (RegenerateOne k) sid d = map_sum id fst (regenerate_token env u k d)"
| "run_mail env build u RegenerateAll sid d = map_sum id fst (regenerate_all_tokens env u sid d)"
| "run_mail env build u SendAll sid d = map_sum id fst (send_all_invitations env build u sid d)"
| "run_mail env build u (SendOne r k) sid d = map_sum id fst (send_one_invitation env build u sid r k d)"
| "run_mail env build u RemindAll sid d = map_sum id fst (send_reminders_to_incomplete env build u sid d)"
| "run_mail env build u (RemindOne r k) sid d = map_sum id fst (send_one_reminder env build u sid r k d)"
| "run_mail env build u (Open k) sid d = map_sum id fst (record_open u k d)"
| "run_mail env build u (Restore oid b s) sid d = map_sum id fst (restore_after_failed_send u sid oid b s d)"
| "run_mail env build u (Received s r) sid d = Inr (fst (queue_responses_received env u sid s r d))"
| "run_mail env build u (Detach rids b) sid d = Inr (detach_outbox sid rids b d)"
| "run_mail env build u (Claim k) sid d = Inr (fst (claim k d))"
| "run_mail env build u (StampDispatch backend from now row res) sid d =
     Inr (stamp_dispatch backend (Some u) from now row res d)"

fun legal_call :: "mail_call \<Rightarrow> bool" where
  "legal_call (Restore oid b s) = ticket_ok b s"
| "legal_call _ = True"

lemma mail_step_call:
  assumes "fresh_mail env" "legal_call a" "run_mail env build u a sid d = Inr d'"
  shows "mail_step d d'"
proof (cases a)
  case (SendOne r k)
  then show ?thesis using assms(3) mail_step_send [OF assms(1)]
    by (auto simp: send_one_invitation_def split: option.splits if_splits)
next
  case (RemindOne r k)
  then show ?thesis using assms(3) mail_step_send_reminder [OF assms(1)]
    by (auto simp: send_one_reminder_def write_reminders_sent_def intro!: mail_step_event split: option.splits)
qed (use assms mail_step_generate mail_step_regenerate mail_step_regenerate_all mail_step_send_all
    mail_step_remind_all mail_step_open mail_step_restore mail_step_received mail_step_detach
    mail_step_claim mail_step_stamp_dispatch in auto)

interpretation mail_calls: transactions "run_mail env build u" legal_call
    "\<lambda>d. fresh_mail env \<and> mail_ok d" mail_step for env build u
proof unfold_locales
  fix d a sid d'
  assume "fresh_mail env \<and> mail_ok d" "legal_call a" "run_mail env build u a sid d = Inr d'"
  then show "(fresh_mail env \<and> mail_ok d') \<and> mail_step d d'"
    using mail_step_call [of env a build u sid d d'] by (auto simp: mail_step_def)
qed (auto intro: mail_step_trans)

end
