(* ===== verification/Mail_Properties.thy ===== *)
theory Mail_Properties
  imports Mail_Facts
begin

text \<open>
  What the invitations and the outbox promise: the types and keys of their tables over any
  sequence of calls, one dispatch per row, a link that resolves to the invitation it was sent
  for, and the restore after a refused send, with the one race that breaks it.
\<close>

section \<open>Sequences of calls\<close>

abbreviation after_calls ::
  "mail_env \<Rightarrow> (string \<Rightarrow> string) \<Rightarrow> int \<Rightarrow> (mail_call \<times> int) list \<Rightarrow> db \<Rightarrow> db" where
  "after_calls env build u calls d \<equiv> foldl (\<lambda>d c. attempt (run_mail env build u) c d) d calls"

text \<open>The rows the claims among some calls were granted.\<close>

fun granted :: "mail_env \<Rightarrow> (string \<Rightarrow> string) \<Rightarrow> int \<Rightarrow> (mail_call \<times> int) list \<Rightarrow> db \<Rightarrow> int list" where
  "granted env build u [] d = []"
| "granted env build u (c # cs) d =
     (case fst c of Claim k \<Rightarrow> if snd (claim k d) then [k] else [] | _ \<Rightarrow> [])
     @ granted env build u cs (attempt (run_mail env build u) c d)"

lemma claim_settles: "snd (claim k d) \<Longrightarrow> k \<in> settled_ids (fst (claim k d))"
  by (auto simp: claim_def settled_ids_def list_ex_iff image_iff split: if_splits)

lemma claim_unsettled: "mail_ok d \<Longrightarrow> snd (claim k d) \<Longrightarrow> k \<notin> settled_ids d"
  by (auto simp: claim_def settled_ids_def list_ex_iff mail_ok_def distinct_map inj_on_def split: if_splits)

lemma granted_once:
  assumes "fresh_mail env" "mail_ok d" "\<forall>c \<in> set cs. legal_call (fst c)"
  shows "distinct (granted env build u cs d) \<and> set (granted env build u cs d) \<inter> settled_ids d = {}"
  using assms(2,3)
proof (induction cs arbitrary: d)
  case (Cons c cs)
  let ?e = "attempt (run_mail env build u) c d"
  have step: "mail_ok ?e" "settled_ids d \<subseteq> settled_ids ?e"
    using mail_calls.one_call [of env d c build u] Cons.prems assms(1) by (auto simp: mail_step_def)
  have IH: "distinct (granted env build u cs ?e)" "set (granted env build u cs ?e) \<inter> settled_ids ?e = {}"
    using Cons.IH [OF step(1)] Cons.prems by auto
  show ?case
  proof (cases "\<exists>k. fst c = Claim k \<and> snd (claim k d)")
    case True
    then obtain k where k: "fst c = Claim k" "snd (claim k d)" by blast
    then have "?e = fst (claim k d)" by (simp add: attempt_def)
    then have "k \<in> settled_ids ?e" "k \<notin> settled_ids d"
      using claim_settles claim_unsettled Cons.prems k(2) by auto
    then show ?thesis using k IH step(2) by auto
  next
    case False
    then have "granted env build u (c # cs) d = granted env build u cs ?e"
      by (cases "fst c") auto
    then show ?thesis using IH step(2) by auto
  qed
qed simp

text \<open>
  C19. Over any sequence of the component's calls, whichever of them fail, the invitations and the
  outbox keep their keys and their types: distinct ids and token hashes, statuses and kinds of
  the closed vocabularies, an opened invitation stamped, a subject the column can hold. No
  other table changes but the log, which grows, and no row that left \<open>queued\<close> comes back to it.
\<close>

theorem mail_calls_keep_types:
  assumes "fresh_mail env" "mail_ok d" "\<forall>c \<in> set calls. legal_call (fst c)"
  shows "mail_ok (after_calls env build u calls d) \<and> mail_frame d (after_calls env build u calls d)
    \<and> settled_ids d \<subseteq> settled_ids (after_calls env build u calls d)"
  using mail_calls.calls [of env d calls build u] assms by (simp add: mail_step_def)

text \<open>
  C20. However claims are interleaved with each other and with every other call, a row is granted
  to one dispatch at most, and never one that had left \<open>queued\<close> before: no email goes to the
  transport twice.
\<close>

theorem one_dispatch_per_row:
  assumes "fresh_mail env" "mail_ok d" "\<forall>c \<in> set calls. legal_call (fst c)"
  shows "distinct (granted env build u calls d)
    \<and> (\<forall>o' \<in> set (outbox d). ob_status o' \<noteq> ''queued'' \<longrightarrow> ob_id o' \<notin> set (granted env build u calls d))"
  using granted_once [OF assms, of build u] by (auto simp: settled_ids_def)

section \<open>A link and its invitation\<close>

lemma is_substring_prefix: "is_substring u (u @ b)"
proof (cases "u @ b")
  case (Cons x xs)
  then have "take (length u) (x # xs) = u" by (metis append_eq_conv_conj)
  then show ?thesis by (simp add: Cons)
qed simp

lemma is_substring_middle: "is_substring u (a @ u @ b)"
  by (induction a) (simp_all add: is_substring_prefix)

lemma with_link_has_link: "url \<noteq> [] \<Longrightarrow> is_substring url (with_link url body)"
  using is_substring_middle [of url "rstrip_newlines body @ [newline, newline] @ ''Open this link: ''" "[newline]"]
  by (simp add: with_link_def)

lemma filter_one:
  assumes "distinct (map key xs)" "x \<in> set xs"
  shows "filter (\<lambda>y. key y = key x) xs = [x]"
  using assms by (induction xs) (auto simp: image_iff filter_empty_conv)

lemma filter_active_one:
  assumes "distinct (map rr_id rs)" "r \<in> set rs" "rr_status r = ''active''"
  shows "filter (\<lambda>x. rr_id x = rr_id r \<and> rr_status x = ''active'') rs = [r]"
proof -
  have "filter (\<lambda>x. rr_id x = rr_id r \<and> rr_status x = ''active'') rs
      = filter (\<lambda>x. rr_status x = ''active'') (filter (\<lambda>x. rr_id x = rr_id r) rs)"
    by (simp add: conj_commute)
  also have "\<dots> = [r]" unfolding filter_one [OF assms(1,2)] using assms(3) by simp
  finally show ?thesis .
qed

text \<open>The invitations after a send: only the row sent changes, to a fresh token.\<close>

lemma send_Inr:
  assumes "send_invitation env build u trg corr sid s r k d = Inr (d', oid, raw)"
  shows "raw = me_token env d"
    and "invitations d' = map (\<lambda>i. if inv_id i = k then i\<lparr>inv_token_hash := me_hash env raw,
           inv_status := ''sent'', inv_sent_at := Some (Aware (wall d)), inv_opened_at := None\<rparr> else i) (invitations d)"
    and "outbox d' = outbox d @ [invitation_row env build corr sid s r k d]"
    and "oid = ob_id (invitation_row env build corr sid s r k d)"
    and "mail_frame d d'"
proof -
  show "raw = me_token env d" "oid = ob_id (invitation_row env build corr sid s r k d)"
    "outbox d' = outbox d @ [invitation_row env build corr sid s r k d]"
    using assms by (auto simp: send_invitation_def Let_def upd_invitation_def add_outbox_def split: if_splits)
  show "invitations d' = map (\<lambda>i. if inv_id i = k then i\<lparr>inv_token_hash := me_hash env raw,
           inv_status := ''sent'', inv_sent_at := Some (Aware (wall d)), inv_opened_at := None\<rparr> else i) (invitations d)"
    using assms by (auto simp: send_invitation_def Let_def upd_invitation_def add_outbox_def split: if_splits)
  show "mail_frame d d'"
    using assms by (auto simp: send_invitation_def Let_def upd_invitation_def add_outbox_def mail_frame_def
        write_event_def split: if_splits)
qed

text \<open>The rows a token's hash finds.\<close>

definition joined :: "db \<Rightarrow> invitation \<Rightarrow> (invitation \<times> review_session \<times> reviewer) list" where
  "joined d i = (case sessions d (inv_session i) of None \<Rightarrow> []
     | Some s \<Rightarrow> if s_status s = Archived then []
         else map (\<lambda>r. (i, s, r)) (filter (\<lambda>r. rr_id r = inv_reviewer i \<and> rr_status r = ''active'') (reviewers d)))"

lemma lookup_joined:
  "lookup_invitation_by_token env d raw =
     (case concat (map (joined d) (filter (\<lambda>i. inv_token_hash i = me_hash env raw) (invitations d))) of
        [] \<Rightarrow> None | x # _ \<Rightarrow> Some x)"
  unfolding lookup_invitation_by_token_def joined_def Let_def by simp

lemma joined_frame: "mail_frame d d' \<Longrightarrow> joined d' = joined d"
  by (rule ext) (simp only: mail_frame_def joined_def)

lemma filter_replaced_other:
  assumes "\<And>x. g (h x) = v" "v \<noteq> w" "\<And>x. x \<in> set xs \<Longrightarrow> key x = k \<Longrightarrow> g x \<noteq> w"
  shows "filter (\<lambda>x. g x = w) (map (\<lambda>x. if key x = k then h x else x) xs) = filter (\<lambda>x. g x = w) xs"
  using assms by (induction xs) auto

lemma filter_replaced_new:
  assumes "distinct (map key xs)" "x \<in> set xs" "key x = k" "\<And>x. g (h x) = v" "v \<notin> g ` set xs"
  shows "filter (\<lambda>x. g x = v) (map (\<lambda>x. if key x = k then h x else x) xs) = [h x]"
  using assms
proof (induction xs)
  case (Cons y ys)
  show ?case
  proof (cases "key y = k")
    case True
    then have "y = x" "\<forall>z \<in> set ys. key z \<noteq> k" using Cons.prems by (auto simp: image_iff)
    then have "map (\<lambda>x. if key x = k then h x else x) ys = ys" by (intro map_idI) auto
    moreover have "filter (\<lambda>x. g x = v) ys = []" using Cons.prems(5) by (auto simp: filter_empty_conv)
    ultimately show ?thesis using True \<open>y = x\<close> Cons.prems(4) by simp
  next
    case False
    then show ?thesis using Cons by auto
  qed
qed simp

lemma filter_replaced_old:
  assumes "distinct (map g xs)" "x \<in> set xs" "key x = k" "\<And>x. g (h x) = v" "v \<noteq> g x"
  shows "filter (\<lambda>y. g y = g x) (map (\<lambda>y. if key y = k then h y else y) xs) = []"
proof -
  have "g (if key y = k then h y else y) \<noteq> g x" if "y \<in> set xs" for y
  proof (cases "key y = k")
    case False
    then have "y \<noteq> x" using assms(3) by blast
    then have "g y \<noteq> g x" using assms(1,2) that by (auto simp: distinct_map dest: inj_onD)
    with False show ?thesis by simp
  qed (simp add: assms(4,5))
  then show ?thesis unfolding filter_empty_conv set_map by blast
qed

text \<open>
  C21. A send that succeeds queues an email whose body carries the invitation's new link, and
  the link's token finds exactly that invitation, now \<open>sent\<close>, with its session and reviewer;
  the token the invitation had before finds nothing; every other token finds what it found.
\<close>

theorem sent_link_resolves:
  assumes "fresh_mail env" "mail_ok d" "distinct (map rr_id (reviewers d))"
    and "send_invitation env build u trg corr sid s r k d = Inr (d', oid, raw)"
    and "iv \<in> set (invitations d)" "inv_id iv = k" "inv_session iv = sid" "inv_reviewer iv = rr_id r"
    and "sessions d sid = Some s'" "s_status s' \<noteq> Archived"
    and "r \<in> set (reviewers d)" "rr_status r = ''active''" "build raw \<noteq> []"
  shows "(\<exists>i. lookup_invitation_by_token env d' raw = Some (i, s', r) \<and> inv_id i = k \<and> inv_status i = ''sent'')
    \<and> (\<exists>row \<in> set (outbox d'). ob_id row = oid \<and> ob_status row = ''queued'' \<and> is_substring (build raw) (ob_body row))
    \<and> (\<forall>old. me_hash env old = inv_token_hash iv \<longrightarrow> lookup_invitation_by_token env d' old = None)
    \<and> (\<forall>other. me_hash env other \<noteq> inv_token_hash iv \<and> me_hash env other \<noteq> me_hash env raw
         \<longrightarrow> lookup_invitation_by_token env d' other = lookup_invitation_by_token env d other)"
proof -
  note sent = send_Inr [OF assms(4)]
  let ?h = "\<lambda>i. i\<lparr>inv_token_hash := me_hash env raw, inv_status := ''sent'',
      inv_sent_at := Some (Aware (wall d)), inv_opened_at := None\<rparr>"
  have new: "me_hash env raw \<notin> inv_token_hash ` set (invitations d)"
    using assms(1) sent(1) by (simp add: fresh_mail_def)
  have keys: "distinct (map inv_id (invitations d))" "distinct (map inv_token_hash (invitations d))"
    using assms(2) by (simp_all add: mail_ok_def)
  have only: "y = iv" if "y \<in> set (invitations d)" "inv_id y = k" for y
    using keys(1) assms(5,6) that by (auto simp: distinct_map inj_on_def)
  have "filter (\<lambda>i. inv_token_hash i = me_hash env raw) (invitations d') = [?h iv]"
    unfolding sent(2) by (rule filter_replaced_new [OF keys(1) assms(5,6) _ new]) simp
  moreover have "joined d (?h iv) = [(?h iv, s', r)]"
    using filter_active_one [OF assms(3,11,12)] assms(7-10) by (simp add: joined_def)
  ultimately have 1: "lookup_invitation_by_token env d' raw = Some (?h iv, s', r)"
    by (simp add: lookup_joined joined_frame [OF sent(5)])
  have "invitation_row env build corr sid s r k d \<in> set (outbox d')" by (simp add: sent(3))
  then have 2: "\<exists>row \<in> set (outbox d'). ob_id row = oid \<and> ob_status row = ''queued'' \<and> is_substring (build raw) (ob_body row)"
    using with_link_has_link [OF assms(13)] sent(1,4)
    by (intro bexI [of _ "invitation_row env build corr sid s r k d"])
      (simp_all add: invitation_row_def outbox_row_for_def render_invitation_def Let_def)
  have 3: "lookup_invitation_by_token env d' old = None" if "me_hash env old = inv_token_hash iv" for old
  proof -
    have "filter (\<lambda>i. inv_token_hash i = inv_token_hash iv) (invitations d') = []"
      unfolding sent(2) using new assms(5)
      by (intro filter_replaced_old [where g = inv_token_hash, where v = "me_hash env raw", where x = iv and key = inv_id and xs = "invitations d", OF keys(2) assms(5,6)]) auto
    then show ?thesis by (simp add: lookup_joined that)
  qed
  have 4: "lookup_invitation_by_token env d' other = lookup_invitation_by_token env d other"
    if "me_hash env other \<noteq> inv_token_hash iv" "me_hash env other \<noteq> me_hash env raw" for other
  proof -
    have "filter (\<lambda>i. inv_token_hash i = me_hash env other) (invitations d')
        = filter (\<lambda>i. inv_token_hash i = me_hash env other) (invitations d)"
      unfolding sent(2) using that only
      by (intro filter_replaced_other [where v = "me_hash env raw"]) auto
    then show ?thesis by (simp add: lookup_joined joined_frame [OF sent(5)])
  qed
  show ?thesis using 1 2 3 4 assms(6) by auto
qed

section \<open>A refused send\<close>

lemma get_upd_invitation:
  assumes "\<And>i. inv_id (f i) = inv_id i"
  shows "get_invitation (upd_invitation k f d) k = map_option f (get_invitation d k)"
proof -
  have "find (\<lambda>i. inv_id i = k) (map (\<lambda>i. if inv_id i = k then f i else i) xs)
      = map_option f (find (\<lambda>i. inv_id i = k) xs)" for xs
    by (induction xs) (simp_all add: assms)
  then show ?thesis by (simp add: get_invitation_def upd_invitation_def)
qed

lemma get_same: "invitations d' = invitations d \<Longrightarrow> get_invitation d' k = get_invitation d k"
  by (simp add: get_invitation_def)

lemma lock_same: "mail_frame d d' \<Longrightarrow> lock_session d' sid sh = lock_session d sid sh"
  by (simp add: mail_frame_def lock_session_def)

text \<open>A dispatch the transport refuses, of the newest row of the outbox.\<close>

lemma dispatch_refused:
  assumes "outbox d = old @ [row]" "\<forall>x \<in> set old. ob_id x \<noteq> ob_id row" "ob_status row = ''queued''"
    and "\<forall>m. \<not> sr_ok (transport m)"
    and e_def: "e = fst (dispatch transport backend actor opts from now id (ob_id row) d)"
  shows "\<exists>row'. outbox e = old @ [row'] \<and> ob_id row' = ob_id row \<and> ob_status row' = ''failed''
      \<and> ob_invitation row' = ob_invitation row"
    and "invitations e = invitations d" "mail_frame d e"
proof -
  let ?row = "row\<lparr>ob_status := ''sending''\<rparr>"
  have keep: "map (\<lambda>x. if ob_id x = ob_id row then f x else x) old = old"
    "map (\<lambda>x. if ob_id x = ob_id row \<and> P x then f x else x) old = old" for f P
    using assms(2) by (auto intro!: map_idI)
  have claim: "claim (ob_id row) d = (d\<lparr>outbox := old @ [?row]\<rparr>, True)"
    using assms(1,3) keep by (simp add: claim_def)
  have "find (\<lambda>x. ob_id x = ob_id row) old = None"
    using assms(2) by (auto simp: find_None_iff)
  then have found: "find (\<lambda>x. ob_id x = ob_id row) (old @ [?row]) = Some ?row"
    by (induction old) (auto split: if_splits)
  have e: "e = stamp_dispatch backend actor from (now_or now (d\<lparr>outbox := old @ [?row]\<rparr>)) ?row
      (transport (message_for ?row opts)) (d\<lparr>outbox := old @ [?row]\<rparr>)"
    by (simp add: e_def dispatch_def claim found Let_def)
  show "\<exists>row'. outbox e = old @ [row'] \<and> ob_id row' = ob_id row \<and> ob_status row' = ''failed''
      \<and> ob_invitation row' = ob_invitation row"
    using assms(4) keep by (simp add: e stamp_dispatch_def Let_def upd_outbox_def)
  show "invitations e = invitations d" "mail_frame d e"
    using assms(4) by (simp_all add: e stamp_dispatch_def Let_def upd_outbox_def mail_frame_def write_event_def)
qed

text \<open>The restore once it has its row and its invitation.\<close>

lemma restore_Inr:
  assumes "lock_session d sid False = Inr s0" "outbox d = old @ [row]" "ob_status row = ''failed''"
    and "\<forall>x \<in> set old. ob_id x < ob_id row" "ob_invitation row = Some k"
    and "get_invitation d k = Some i" "inv_id i = k" "restored_changes b s (stamps_of i) \<noteq> []"
  shows "\<exists>d'. restore_after_failed_send u sid (ob_id row) b s d = Inr (d', True)
    \<and> get_invitation d' k = Some (restore_stamps b s i) \<and> mail_frame d d'"
proof -
  have "find (\<lambda>x. ob_id x = ob_id row) old = None" using assms(4) by (auto simp: find_None_iff)
  then have found: "find (\<lambda>x. ob_id x = ob_id row) (outbox d) = Some row"
    unfolding assms(2) by (induction old) (auto split: if_splits)
  have newest: "\<not> list_ex (\<lambda>x. ob_invitation x = Some (inv_id i) \<and> ob_id row < ob_id x) (outbox d)"
    using assms(2,4) by (auto simp: list_ex_iff)
  let ?d = "write_event ''invitation.send_reverted'' (Some u) (Some sid) (Changes (restored_changes b s (stamps_of i)))
     None [(''invitation_id'', inv_id i), (''reviewer_id'', inv_reviewer i), (''outbox_id'', ob_id row)] []
     (upd_invitation (inv_id i) (restore_stamps b s) d)"
  have "restore_after_failed_send u sid (ob_id row) b s d = Inr (?d, True)"
    using newest by (simp add: restore_after_failed_send_def assms(1,3,5,6,8) found Let_def)
  moreover have "get_invitation ?d k = Some (restore_stamps b s i)"
    using get_upd_invitation [of "restore_stamps b s" k d] assms(6,7)
    by (simp add: restore_stamps_def get_same [OF write_event_simps(11)])
  moreover have "mail_frame d ?d" by (simp add: mail_frame_def write_event_def upd_invitation_def)
  ultimately show ?thesis by blast
qed

lemma get_invitation_id: "get_invitation d k = Some i \<Longrightarrow> inv_id i = k"
  by (auto simp: get_invitation_def find_Some_iff)

text \<open>What a send leaves: the invitation stamped, and its row the newest of the outbox.\<close>

lemma send_leaves:
  assumes "fresh_mail env" "send_invitation env build u trg corr sid s r k d = Inr (d', oid, raw)"
    and "get_invitation d k = Some iv"
  obtains row where "outbox d' = outbox d @ [row]" "ob_id row = oid" "ob_status row = ''queued''"
    "ob_invitation row = Some k" "\<forall>x \<in> set (outbox d). ob_id x < oid"
    "get_invitation d' k = Some (iv\<lparr>inv_token_hash := me_hash env raw, inv_status := ''sent'',
        inv_sent_at := Some (Aware (wall d)), inv_opened_at := None\<rparr>)"
proof -
  note sent = send_Inr [OF assms(2)]
  let ?f = "\<lambda>i. i\<lparr>inv_token_hash := me_hash env raw, inv_status := ''sent'',
      inv_sent_at := Some (Aware (wall d)), inv_opened_at := None\<rparr>"
  have "get_invitation d' k = get_invitation (upd_invitation k ?f d) k"
    by (rule get_same) (simp add: sent(2) upd_invitation_def)
  also have "\<dots> = Some (?f iv)" by (simp add: get_upd_invitation assms(3))
  finally have "get_invitation d' k = Some (?f iv)" .
  moreover have "oid = me_outbox_id env (outbox d)"
    by (simp add: sent(4) invitation_row_def outbox_row_for_ok(2))
  moreover have "\<forall>x \<in> set (outbox d). ob_id x < me_outbox_id env (outbox d)"
    using assms(1) unfolding fresh_mail_def by blast
  ultimately show ?thesis using sent(3,4)
    by (intro that [of "invitation_row env build corr sid s r k d"])
      (simp_all add: invitation_row_def outbox_row_for_def)
qed

definition stamps_agree :: "stamps \<Rightarrow> stamps \<Rightarrow> bool" where
  "stamps_agree a b = (st_status a = st_status b \<and> same_stamp (st_sent_at a) (st_sent_at b)
     \<and> same_stamp (st_opened_at a) (st_opened_at b)
     \<and> same_stamp (st_last_reminder_at a) (st_last_reminder_at b))"

lemma same_stamp_refl [simp]: "same_stamp x x"
  by (simp add: same_stamp_def)

lemma put_back_stamp: "same_stamp (if puts_back same_stamp was wrote wrote then was else wrote) was"
  by (cases "same_stamp was wrote") (simp_all add: puts_back_def, simp add: same_stamp_def)

lemma put_back_status: "(if puts_back (=) was wrote wrote then was else wrote) = was"
  by (simp add: puts_back_def)

lemma restore_all: "stamps_agree (stamps_of (restore_stamps b (stamps_of i) i)) b"
  by (simp add: stamps_agree_def stamps_of_def restore_stamps_def put_back_stamp put_back_status
      del: if_split)

lemma ticket_of_send:
  assumes "fresh_mail env" "send_one_invitation env build u sid r k d = Inr (d1, oid, Some b, Some s)"
  obtains iv raw s0 where "get_invitation d k = Some iv" "inv_status iv = ''pending''" "b = stamps_of iv"
    "lock_session d sid False = Inr s0"
    "send_invitation env build (Some u) ''operator'' None sid s0 r k d = Inr (d1, oid, raw)"
    "s = (stamps_of iv)\<lparr>st_status := ''sent'', st_sent_at := Some (Aware (wall d)), st_opened_at := None\<rparr>"
proof -
  obtain s0 iv raw where *: "require_validated_or_ready d sid = Inr s0" "get_invitation d k = Some iv"
      "inv_status iv = ''pending''" "b = stamps_of iv" "stamps_at d1 k = Some s"
      "send_invitation env build (Some u) ''operator'' None sid s0 r k d = Inr (d1, oid, raw)"
    using assms(2) by (auto simp: send_one_invitation_def stamps_at_def split: option.splits if_splits)
  obtain row where "get_invitation d1 k = Some (iv\<lparr>inv_token_hash := me_hash env raw, inv_status := ''sent'',
        inv_sent_at := Some (Aware (wall d)), inv_opened_at := None\<rparr>)"
    by (rule send_leaves [OF assms(1) *(6,2)]) blast
  with * show ?thesis
    by (intro that [of iv s0 raw]) (simp_all add: stamps_at_def stamps_of_def require_validated_or_ready_def require_state_Inr)
qed

text \<open>
  C22. When the transport refuses the email of a per-row Send, the restore puts every stamp of the
  invitation back as it was. When the reviewer opened the link in between, the open stays and
  only the send's own stamp goes back.
\<close>

theorem refused_send_is_undone:
  assumes "fresh_mail env" "send_one_invitation env build u sid r k d = Inr (d1, oid, Some b, Some s)"
    and "\<forall>m. \<not> sr_ok (transport m)" "st_sent_at b = None"
    and d2: "d2 = fst (dispatch transport backend actor opts from now id oid d1)"
  shows "(\<exists>d3 c. restore_after_failed_send u sid oid b s d2 = Inr (d3, True)
        \<and> stamps_at d3 k = Some c \<and> stamps_agree c b)
    \<and> (\<forall>u' e. record_open u' k d2 = Inr (e, True) \<longrightarrow>
        (\<exists>d3 i. restore_after_failed_send u sid oid b s e = Inr (d3, True) \<and> get_invitation d3 k = Some i
          \<and> inv_status i = ''opened'' \<and> inv_opened_at i = Some (Aware (wall d)) \<and> inv_sent_at i = None))"
proof -
  obtain iv raw s0 where t: "get_invitation d k = Some iv" "inv_status iv = ''pending''" "b = stamps_of iv"
    "lock_session d sid False = Inr s0"
    "send_invitation env build (Some u) ''operator'' None sid s0 r k d = Inr (d1, oid, raw)"
    "s = (stamps_of iv)\<lparr>st_status := ''sent'', st_sent_at := Some (Aware (wall d)), st_opened_at := None\<rparr>"
    by (rule ticket_of_send [OF assms(1,2)])
  let ?iv = "iv\<lparr>inv_token_hash := me_hash env raw, inv_status := ''sent'',
      inv_sent_at := Some (Aware (wall d)), inv_opened_at := None\<rparr>"
  obtain row where row: "outbox d1 = outbox d @ [row]" "ob_id row = oid" "ob_status row = ''queued''"
    "ob_invitation row = Some k" "\<forall>x \<in> set (outbox d). ob_id x < oid" "get_invitation d1 k = Some ?iv"
    by (rule send_leaves [OF assms(1) t(5,1)])
  have "\<forall>x \<in> set (outbox d). ob_id x \<noteq> ob_id row" using row(2,5) by auto
  note ref = dispatch_refused [OF row(1) this row(3) assms(3) d2 [folded row(2)]]
  obtain row' where row': "outbox d2 = outbox d @ [row']" "ob_id row' = oid" "ob_status row' = ''failed''"
    "ob_invitation row' = Some k"
    using ref(1) row(2,4) by auto
  have frame: "mail_frame d d2"
    by (rule mail_frame_trans [OF send_Inr(5) [OF t(5)] ref(3)])
  have got: "get_invitation d2 k = Some ?iv" using get_same [OF ref(2)] row(6) by simp
  have id: "inv_id ?iv = k" using get_invitation_id [OF t(1)] by simp
  have older: "\<forall>x \<in> set (outbox d). ob_id x < ob_id row'" using row(5) row'(2) by simp
  have ch: "restored_changes b s (stamps_of ?iv) \<noteq> []"
    using t(2) by (simp add: t(3,6) restored_changes_def puts_back_def stamps_of_def)
  have "stamps_of ?iv = s" by (simp add: t(6) stamps_of_def)
  then have whole: "stamps_agree (stamps_of (restore_stamps b s ?iv)) b" using restore_all by metis
  have 1: "\<exists>d3 c. restore_after_failed_send u sid oid b s d2 = Inr (d3, True)
        \<and> stamps_at d3 k = Some c \<and> stamps_agree c b"
    using restore_Inr [OF _ row'(1,3) older row'(4) got id ch] lock_same [OF frame] t(4) whole row'(2)
    by (fastforce simp: stamps_at_def)
  have 2: "\<exists>d3 i. restore_after_failed_send u sid oid b s e = Inr (d3, True) \<and> get_invitation d3 k = Some i
          \<and> inv_status i = ''opened'' \<and> inv_opened_at i = Some (Aware (wall d)) \<and> inv_sent_at i = None"
    if "record_open u' k d2 = Inr (e, True)" for u' e
  proof -
    let ?o = "?iv\<lparr>inv_opened_at := Some (Aware (wall d)), inv_status := ''opened''\<rparr>"
    have wall: "wall d2 = wall d" using frame by (simp add: mail_frame_def)
    have e: "e = write_event ''invitation.opened'' (Some u') (Some (inv_session ?iv)) NoPayload None
        [(''invitation_id'', k), (''reviewer_id'', inv_reviewer ?iv)] []
        (upd_invitation k (\<lambda>i. i\<lparr>inv_opened_at := Some (Aware (wall d)), inv_status := ''opened''\<rparr>) d2)"
      using that got wall by (auto simp: record_open_def)
    have frame': "mail_frame d2 e" by (simp add: e mail_frame_def write_event_def upd_invitation_def)
    have got': "get_invitation e k = Some ?o"
      using get_upd_invitation [of "\<lambda>i. i\<lparr>inv_opened_at := Some (Aware (wall d)), inv_status := ''opened''\<rparr>" k d2] got
      by (simp add: e get_same [OF write_event_simps(11)])
    have out: "outbox e = outbox d @ [row']" using row'(1) by (simp add: e upd_invitation_def)
    have ch': "restored_changes b s (stamps_of ?o) \<noteq> []"
      using assms(4) by (simp add: t(3,6) restored_changes_def puts_back_def stamps_of_def same_stamp_def as_utc_def)
    have fields: "inv_status (restore_stamps b s ?o) = ''opened''"
      "inv_opened_at (restore_stamps b s ?o) = Some (Aware (wall d))" "inv_sent_at (restore_stamps b s ?o) = None"
      using assms(4) by (simp_all add: t(3,6) restore_stamps_def puts_back_def stamps_of_def same_stamp_def as_utc_def)
    show ?thesis
      using restore_Inr [OF _ out row'(3) older row'(4) got' _ ch'] id fields row'(2) t(4)
        lock_same [OF mail_frame_trans [OF frame frame']] by fastforce
  qed
  from 1 2 show ?thesis by blast
qed

text \<open>What a reminder that fell back to a fresh invitation leaves.\<close>

lemma fallback_leaves:
  assumes "fresh_mail env" "send_one_reminder env build u sid r k d = Inr (d1, oid, True, Some b, Some s)"
  obtains iv row where "get_invitation d k = Some iv" "b = stamps_of iv"
    "outbox d1 = outbox d @ [row]" "ob_id row = oid" "ob_status row = ''queued''"
    "ob_invitation row = Some k" "\<forall>x \<in> set (outbox d). ob_id x < oid" "mail_frame d d1"
    "st_status s = ''sent''" "st_sent_at s = Some (Aware (wall d))" "st_opened_at s = None"
    "st_last_reminder_at s = Some (Aware (wall d))"
proof -
  obtain s0 iv e where iv: "get_invitation d k = Some iv" "b = stamps_of iv"
    and e: "send_reminder env build (Some u) None sid s0 r iv d = Inr (e, oid, True)"
    "d1 = write_reminders_sent u sid [(k, rr_id r)] 1 e" "stamps_at e k = Some s"
    using assms(2) by (fastforce simp: send_one_reminder_def stamps_at_def split: option.splits)
  have k: "inv_id iv = k" by (rule get_invitation_id [OF iv(1)])
  obtain f raw where f: "send_invitation env build (Some u) ''operator'' None sid s0 r k d = Inr (f, oid, raw)"
    "e = stamp_reminder k f"
    using e(1) k by (auto simp: send_reminder_def Let_def split: option.splits if_splits)
  let ?iv = "iv\<lparr>inv_token_hash := me_hash env raw, inv_status := ''sent'',
      inv_sent_at := Some (Aware (wall d)), inv_opened_at := None\<rparr>"
  obtain row where row: "outbox f = outbox d @ [row]" "ob_id row = oid" "ob_status row = ''queued''"
    "ob_invitation row = Some k" "\<forall>x \<in> set (outbox d). ob_id x < oid" "get_invitation f k = Some ?iv"
    by (rule send_leaves [OF assms(1) f(1) iv(1)])
  have wall: "wall f = wall d" using send_Inr(5) [OF f(1)] by (simp add: mail_frame_def)
  have "s = stamps_of (?iv\<lparr>inv_last_reminder_at := Some (Aware (wall d))\<rparr>)"
    using e(3) row(6) wall by (simp add: stamps_at_def f(2) stamp_reminder_def get_upd_invitation)
  moreover have "outbox d1 = outbox d @ [row]"
    using row(1) by (simp add: e(2) f(2) write_reminders_sent_def stamp_reminder_def upd_invitation_def)
  moreover have "mail_frame f d1"
    by (simp add: e(2) f(2) mail_frame_def write_reminders_sent_def stamp_reminder_def upd_invitation_def write_event_def)
  then have "mail_frame d d1" by (rule mail_frame_trans [OF send_Inr(5) [OF f(1)]])
  ultimately show ?thesis using iv(1,2) row by (intro that [of iv row]) (simp_all add: stamps_of_def)
qed

lemma regenerate_leaves:
  assumes "regenerate_token env u k d = Inr (d', raw)" "outbox d = old @ [row]" "ob_status row = ''failed''"
  obtains old' i where "outbox d' = old' @ [row]" "map ob_id old' = map ob_id old" "mail_frame d d'"
    "get_invitation d' k = Some i" "inv_status i = ''pending''" "inv_sent_at i = None"
    "inv_opened_at i = None" "inv_last_reminder_at i = None" "inv_id i = k"
    "lock_session d (inv_session i) False = lock_session d' (inv_session i) False"
    "\<exists>s. lock_session d (inv_session i) False = Inr s"
proof -
  obtain iv where iv: "get_invitation d k = Some iv" "\<exists>s. lock_session d (inv_session iv) False = Inr s"
    "d' = write_event ''invitation.regenerated'' (Some u) (Some (inv_session iv)) NoPayload None
        [(''invitation_id'', k), (''reviewer_id'', inv_reviewer iv)] []
        (supersede_queued [k] (reset_invitation env k d))"
    using assms(1) by (auto simp: regenerate_token_def require_validated_or_ready_def require_state_Inr
        split: option.splits)
  let ?i = "iv\<lparr>inv_token_hash := me_hash env (me_token env d), inv_status := ''pending'', inv_sent_at := None,
     inv_opened_at := None, inv_last_reminder_at := None\<rparr>"
  have "get_invitation d' k = get_invitation (reset_invitation env k d) k"
    by (rule get_same) (simp add: iv(3) supersede_queued_def)
  then have got: "get_invitation d' k = Some ?i"
    by (simp add: reset_invitation_def get_upd_invitation iv(1))
  let ?old = "outbox (supersede_queued [k] (d\<lparr>outbox := old\<rparr>))"
  have "outbox d' = ?old @ [row]"
    using assms(2,3) by (simp add: iv(3) supersede_queued_def reset_invitation_def upd_invitation_def)
  moreover have "map ob_id ?old = map ob_id old" by (simp add: supersede_queued_def)
  moreover have frame: "mail_frame d d'"
    by (simp add: iv(3) mail_frame_def supersede_queued_def reset_invitation_def upd_invitation_def write_event_def)
  ultimately show ?thesis
    using got iv(2) get_invitation_id [OF got] lock_same [OF frame] by (intro that [of ?old ?i]) simp_all
qed

text \<open>
  C23. The race the compare-and-set does not see. A reminder of an opened invitation fell back to
  a fresh link, the transport refused it, and the link was regenerated before the restore: the
  regenerated, \<open>pending\<close> invitation gets its old opening stamp back, since \<open>None\<close> is both what the
  send wrote and what the regenerate wrote. Following the new link then records nothing: the
  invitation never becomes \<open>opened\<close>.
\<close>

theorem restore_undoes_a_regenerate:
  assumes "fresh_mail env" "send_one_reminder env build u sid r k d = Inr (d1, oid, True, Some b, Some s)"
    and "st_opened_at b \<noteq> None" "\<forall>m. \<not> sr_ok (transport m)" "lock_session d sid False = Inr s0"
    and d2: "d2 = fst (dispatch transport backend actor opts from now id oid d1)"
    and regenerated: "regenerate_token env u' k d2 = Inr (d3, raw)"
  shows "\<exists>d4 i. restore_after_failed_send u sid oid b s d3 = Inr (d4, True) \<and> get_invitation d4 k = Some i
    \<and> inv_status i = ''pending'' \<and> inv_opened_at i = st_opened_at b
    \<and> (\<forall>v. record_open v k d4 = Inr (d4, False))"
proof -
  obtain iv row where f: "get_invitation d k = Some iv" "b = stamps_of iv"
    "outbox d1 = outbox d @ [row]" "ob_id row = oid" "ob_status row = ''queued''"
    "ob_invitation row = Some k" "\<forall>x \<in> set (outbox d). ob_id x < oid" "mail_frame d d1"
    "st_status s = ''sent''" "st_sent_at s = Some (Aware (wall d))" "st_opened_at s = None"
    "st_last_reminder_at s = Some (Aware (wall d))"
    by (rule fallback_leaves [OF assms(1,2)])
  have "\<forall>x \<in> set (outbox d). ob_id x \<noteq> ob_id row" using f(4,7) by auto
  note ref = dispatch_refused [OF f(3) this f(5) assms(4) d2 [folded f(4)]]
  obtain row' where row': "outbox d2 = outbox d @ [row']" "ob_id row' = oid" "ob_status row' = ''failed''"
    "ob_invitation row' = Some k"
    using ref(1) f(4,6) by auto
  obtain old i where g: "outbox d3 = old @ [row']" "map ob_id old = map ob_id (outbox d)" "mail_frame d2 d3"
    "get_invitation d3 k = Some i" "inv_status i = ''pending''" "inv_sent_at i = None"
    "inv_opened_at i = None" "inv_last_reminder_at i = None" "inv_id i = k"
    "lock_session d2 (inv_session i) False = lock_session d3 (inv_session i) False"
    "\<exists>s. lock_session d2 (inv_session i) False = Inr s"
    by (rule regenerate_leaves [OF regenerated row'(1,3)])
  have frame: "mail_frame d d3" by (rule mail_frame_trans [OF mail_frame_trans [OF f(8) ref(3)] g(3)])
  have older: "\<forall>x \<in> set old. ob_id x < ob_id row'"
  proof
    fix x assume "x \<in> set old"
    then have "ob_id x \<in> set (map ob_id (outbox d))" unfolding g(2) [symmetric] by simp
    then show "ob_id x < ob_id row'" using f(7) row'(2) by auto
  qed
  have ch: "restored_changes b s (stamps_of i) \<noteq> []"
    using assms(3) f(11) g(7) by (auto simp: restored_changes_def puts_back_def stamps_of_def same_stamp_def as_utc_def)
  obtain d4 where d4: "restore_after_failed_send u sid (ob_id row') b s d3 = Inr (d4, True)"
    "get_invitation d4 k = Some (restore_stamps b s i)" "mail_frame d3 d4"
    using restore_Inr [OF _ g(1) row'(3) older row'(4) g(4,9) ch] lock_same [OF frame] assms(5) by fastforce
  have fields: "inv_status (restore_stamps b s i) = ''pending''" "inv_opened_at (restore_stamps b s i) = st_opened_at b"
    "inv_session (restore_stamps b s i) = inv_session i"
    using assms(3) f(9,11) g(5,7) by (auto simp: restore_stamps_def puts_back_def same_stamp_def as_utc_def)
  have "\<exists>x. lock_session d4 (inv_session i) False = Inr x"
    using g(10,11) lock_same [OF d4(3)] by simp
  then have "record_open v k d4 = Inr (d4, False)" for v
    using d4(2) fields assms(3) by (auto simp: record_open_def)
  then show ?thesis using d4(1,2) fields row'(2) by auto
qed

section \<open>Witnesses\<close>

definition mail_demo_env :: mail_env where
  "mail_demo_env = \<lparr>me_token = (\<lambda>d. ''t'' @ concat (map inv_token_hash (invitations d))), me_hash = id,
     me_invitation_id = (\<lambda>is. foldr (\<lambda>i m. max m (inv_id i + 1)) is 1),
     me_outbox_id = (\<lambda>os. foldr (\<lambda>o' m. max m (ob_id o' + 1)) os 1),
     me_zone_text = (\<lambda>_ _. ''soon''), me_refuses = (\<lambda>_. False)\<rparr>"

lemma foldr_max_above: "x \<in> set xs \<Longrightarrow> f x < foldr (\<lambda>x m. max m (f x + 1)) xs (1 :: int)"
  by (induction xs) auto

lemma fresh_mail_demo: "fresh_mail mail_demo_env"
proof -
  have ids: "me_invitation_id mail_demo_env (invitations d) \<notin> inv_id ` set (invitations d)" for d :: db
    using foldr_max_above [of _ "invitations d" inv_id] by (fastforce simp: mail_demo_env_def)
  have out: "\<forall>o' \<in> set (outbox d). ob_id o' < me_outbox_id mail_demo_env (outbox d)" for d :: db
    using foldr_max_above [of _ "outbox d" ob_id] by (simp add: mail_demo_env_def)
  have long: "h \<in> set hs \<Longrightarrow> length h \<le> length (concat hs)" for h :: string and hs
    by (induction hs) auto
  have tokens: "me_hash mail_demo_env (me_token mail_demo_env d) \<notin> inv_token_hash ` set (invitations d)" for d
  proof
    assume "me_hash mail_demo_env (me_token mail_demo_env d) \<in> inv_token_hash ` set (invitations d)"
    then have "length (''t'' @ concat (map inv_token_hash (invitations d)))
        \<le> length (concat (map inv_token_hash (invitations d)))"
      by (intro long) (simp add: mail_demo_env_def)
    then show False by simp
  qed
  from ids out tokens show ?thesis unfolding fresh_mail_def by blast
qed

definition mail_person :: reviewer where
  "mail_person = \<lparr>rr_id = 7, rr_session = 1, rr_name = ''Ana'', rr_email = ''a@x.edu'', rr_status = ''active'',
     rr_tag1 = None, rr_tag2 = None, rr_tag3 = None, rr_object_id = None, rr_directory_mail = None\<rparr>"

definition mail_invitation :: "string \<Rightarrow> stamp option \<Rightarrow> invitation" where
  "mail_invitation status opened = \<lparr>inv_id = 4, inv_session = 1, inv_reviewer = 7, inv_token_hash = ''h'',
     inv_status = status, inv_sent_at = None, inv_opened_at = opened, inv_last_reminder_at = None\<rparr>"

definition mail_demo :: "invitation list \<Rightarrow> db" where
  "mail_demo is = blank_db\<lparr>sessions := [1 \<mapsto> demo_session\<lparr>s_status := Ready\<rparr>], reviewers := [mail_person],
     assignments := [\<lparr>a_id = 1, a_session = 1, a_reviewer = 7, a_reviewee = 1, a_instrument = 1,
       a_include = True, a_self_review = False\<rparr>], invitations := is, wall := 50\<rparr>"

definition demo_link :: "string \<Rightarrow> string" where
  "demo_link tok = ''https://x/me/invite/'' @ tok"

definition refused :: "email_message \<Rightarrow> send_result" where
  "refused m = \<lparr>sr_ok = False, sr_error = Some ''403'', sr_response = None, sr_failure_kind = Some ''forbidden''\<rparr>"

definition no_options :: send_options where
  "no_options = \<lparr>so_save_to_sent_items = False, so_bcc_self = None, so_reply_to = None\<rparr>"

lemma mail_demo_ok: "mail_ok (mail_demo [mail_invitation ''pending'' None])"
  by (simp add: mail_ok_def mail_demo_def mail_invitation_def inv_ok_def blank_db_def)

definition demo_calls :: "(mail_call \<times> int) list" where
  "demo_calls = [(SendOne mail_person 4, 1), (Claim 1, 1), (Claim 1, 1), (Open 4, 1)]"

lemma demo_calls_legal: "\<forall>c \<in> set demo_calls. legal_call (fst c)"
  by (simp add: demo_calls_def)

lemma demo_calls_run:
  "settled_ids (after_calls mail_demo_env demo_link 1 demo_calls (mail_demo [mail_invitation ''pending'' None])) = {1}"
  "granted mail_demo_env demo_link 1 demo_calls (mail_demo [mail_invitation ''pending'' None]) = [1]"
  by code_simp+

theorem mail_calls_keep_types_witness:
  "mail_ok (after_calls mail_demo_env demo_link 1 demo_calls (mail_demo [mail_invitation ''pending'' None]))
   \<and> settled_ids (after_calls mail_demo_env demo_link 1 demo_calls (mail_demo [mail_invitation ''pending'' None])) = {1}"
  using mail_calls_keep_types [OF fresh_mail_demo mail_demo_ok demo_calls_legal, of demo_link 1] demo_calls_run(1)
  by blast

theorem one_dispatch_per_row_witness:
  "distinct (granted mail_demo_env demo_link 1 demo_calls (mail_demo [mail_invitation ''pending'' None]))
   \<and> granted mail_demo_env demo_link 1 demo_calls (mail_demo [mail_invitation ''pending'' None]) = [1]"
  using one_dispatch_per_row [OF fresh_mail_demo mail_demo_ok demo_calls_legal, of demo_link 1] demo_calls_run(2)
  by blast

text \<open>The pieces of the demonstration runs, by evaluation.\<close>

definition demo_pending :: db where
  "demo_pending = mail_demo [mail_invitation ''pending'' None]"

definition demo_send :: "(db \<times> int \<times> string) result" where
  "demo_send = send_invitation mail_demo_env demo_link (Some 1) ''operator'' None 1
     (demo_session\<lparr>s_status := Ready\<rparr>) mail_person 4 demo_pending"

theorem sent_link_resolves_witness:
  "\<exists>d' oid raw i s'. demo_send = Inr (d', oid, raw)
     \<and> lookup_invitation_by_token mail_demo_env d' raw = Some (i, s', mail_person) \<and> inv_status i = ''sent''"
proof -
  obtain d' oid raw where sent: "demo_send = Inr (d', oid, raw)"
  proof -
    have "(case demo_send of Inl _ \<Rightarrow> False | Inr _ \<Rightarrow> True)" by code_simp
    then show ?thesis using that by (auto split: sum.splits)
  qed
  have "sessions demo_pending 1 = Some (demo_session\<lparr>s_status := Ready\<rparr>)" "invitations demo_pending = [mail_invitation ''pending'' None]"
    "reviewers demo_pending = [mail_person]" "mail_ok demo_pending"
    using mail_demo_ok by (simp_all add: demo_pending_def mail_demo_def blank_db_def)
  then have "\<exists>i. lookup_invitation_by_token mail_demo_env d' raw = Some (i, demo_session\<lparr>s_status := Ready\<rparr>, mail_person)
      \<and> inv_id i = 4 \<and> inv_status i = ''sent''"
    by (intro conjunct1 [OF sent_link_resolves [OF fresh_mail_demo _ _ sent [unfolded demo_send_def],
        where iv = "mail_invitation ''pending'' None" and s' = "demo_session\<lparr>s_status := Ready\<rparr>"]])
      (simp_all add: mail_invitation_def mail_person_def demo_link_def)
  with sent show ?thesis by blast
qed

definition demo_one :: "(db \<times> int \<times> stamps option \<times> stamps option) result" where
  "demo_one = send_one_invitation mail_demo_env demo_link 1 1 mail_person 4 demo_pending"

theorem refused_send_is_undone_witness:
  "\<exists>d1 oid b s d3. demo_one = Inr (d1, oid, Some b, Some s)
     \<and> restore_after_failed_send 1 1 oid b s (fst (dispatch refused ''graph'' (Some 1) no_options None (Some 60) id oid d1))
       = Inr (d3, True)"
proof -
  obtain d1 oid b s where one: "demo_one = Inr (d1, oid, Some b, Some s)" "st_sent_at b = None"
  proof -
    have "(case demo_one of Inr (_, _, Some b, Some s) \<Rightarrow> st_sent_at b = None | _ \<Rightarrow> False)" by code_simp
    then show ?thesis using that by (auto split: sum.splits prod.splits option.splits)
  qed
  have "\<forall>m. \<not> sr_ok (refused m)" by (simp add: refused_def)
  from refused_send_is_undone [OF fresh_mail_demo one(1) [unfolded demo_one_def] this one(2) refl] one(1)
  show ?thesis by blast
qed

definition demo_opened :: db where
  "demo_opened = mail_demo [mail_invitation ''opened'' (Some (Aware 40))]"

definition demo_remind :: "(db \<times> int \<times> bool \<times> stamps option \<times> stamps option) result" where
  "demo_remind = send_one_reminder mail_demo_env demo_link 1 1 mail_person 4 demo_opened"

definition demo_regenerated :: "(db \<times> string) result" where
  "demo_regenerated = (case demo_remind of Inl e \<Rightarrow> Inl e
     | Inr (d1, oid, _) \<Rightarrow> regenerate_token mail_demo_env 2 4
         (fst (dispatch refused ''graph'' (Some 1) no_options None (Some 60) id oid d1)))"

theorem restore_undoes_a_regenerate_witness:
  "\<exists>oid b s d3 d4 raw. demo_regenerated = Inr (d3, raw) \<and> restore_after_failed_send 1 1 oid b s d3 = Inr (d4, True)
     \<and> record_open 9 4 d4 = Inr (d4, False)"
proof -
  obtain d1 oid b s where one: "demo_remind = Inr (d1, oid, True, Some b, Some s)" "st_opened_at b \<noteq> None"
  proof -
    have "(case demo_remind of Inr (_, _, True, Some b, Some s) \<Rightarrow> st_opened_at b \<noteq> None | _ \<Rightarrow> False)" by code_simp
    then show ?thesis using that by (auto split: sum.splits prod.splits option.splits bool.splits)
  qed
  obtain d3 raw where d3: "demo_regenerated = Inr (d3, raw)"
  proof -
    have "(case demo_regenerated of Inl _ \<Rightarrow> False | Inr _ \<Rightarrow> True)" by code_simp
    then show ?thesis using that by (auto split: sum.splits)
  qed
  have lock: "lock_session demo_opened 1 False = Inr (demo_session\<lparr>s_status := Ready\<rparr>)"
    by (simp add: lock_session_def demo_opened_def mail_demo_def blank_db_def lock_conflicts_def)
  have "\<forall>m. \<not> sr_ok (refused m)" by (simp add: refused_def)
  moreover have "regenerate_token mail_demo_env 2 4
      (fst (dispatch refused ''graph'' (Some 1) no_options None (Some 60) id oid d1)) = Inr (d3, raw)"
    using d3 unfolding demo_regenerated_def one(1) by simp
  ultimately have "\<exists>d4 i. restore_after_failed_send 1 1 oid b s d3 = Inr (d4, True) \<and> get_invitation d4 4 = Some i
    \<and> inv_status i = ''pending'' \<and> inv_opened_at i = st_opened_at b \<and> (\<forall>v. record_open v 4 d4 = Inr (d4, False))"
    by (intro restore_undoes_a_regenerate [OF fresh_mail_demo one(1) [unfolded demo_remind_def] one(2) _ lock refl])
  with d3 show ?thesis by blast
qed

end
