(* ===== verification/Schedule_Times.thy ===== *)
theory Schedule_Times
  imports Invitations Answer_Values
begin

text \<open>
  \<open>app/services/scheduled_events\<close>: durations (\<open>_duration.py\<close>), the parsers of the schedule's
  boxes and the order of the schedule's datetimes (\<open>_activation.py\<close>, \<open>_invites.py\<close>,
  \<open>_reminders.py\<close>, \<open>_release.py\<close>), and the record of entries already sent (\<open>_fired.py\<close>). Times are
  microseconds; the calendar of a Python datetime and the range of a timedelta are bounded.
\<close>

section \<open>Durations\<close>

definition DT_MIN :: int where "DT_MIN = -62135596800000000"
definition DT_MAX :: int where "DT_MAX = 253402300799999999"

text \<open>\<open>datetime + timedelta\<close>.\<close>

definition add_dt :: "int \<Rightarrow> int \<Rightarrow> int result" where
  "add_dt t delta = (if DT_MIN \<le> t + delta \<and> t + delta \<le> DT_MAX then Inr (t + delta) else Inl OverflowError)"

text \<open>A \<open>timedelta\<close>'s days stay within 999999999 either way.\<close>

definition timedelta_ok :: "int \<Rightarrow> bool" where
  "timedelta_ok us = (\<bar>us div days 1\<bar> \<le> 999999999)"

text \<open>One optional \<open>(\d+)X\<close> group: its digits, and what follows it.\<close>

definition duration_group :: "char \<Rightarrow> string \<Rightarrow> string option \<times> string" where
  "duration_group c s =
     (let ds = takeWhile is_digit s; rest = dropWhile is_digit s
      in if ds \<noteq> [] \<and> rest \<noteq> [] \<and> hd rest = c then (Some ds, tl rest) else (None, s))"

text \<open>\<open>_ISO_DURATION_RE.fullmatch\<close>: the sign and the six groups.\<close>

definition match_duration :: "string \<Rightarrow> (bool \<times> string option list) option" where
  "match_duration s =
     (let neg = (s \<noteq> [] \<and> hd s = CHR ''-''); s1 = (if neg then tl s else s)
      in if s1 = [] \<or> hd s1 \<noteq> CHR ''P'' then None
         else (let (y, s2) = duration_group CHR ''Y'' (tl s1);
                   (mo, s3) = duration_group CHR ''M'' s2;
                   (dd, s4) = duration_group CHR ''D'' s3
               in if s4 = [] then Some (neg, [y, mo, dd, None, None, None])
                  else if hd s4 \<noteq> CHR ''T'' then None
                  else (let (h, s5) = duration_group CHR ''H'' (tl s4);
                            (mi, s6) = duration_group CHR ''M'' s5;
                            (se, s7) = duration_group CHR ''S'' s6
                        in if s7 = [] then Some (neg, [y, mo, dd, h, mi, se]) else None)))"

text \<open>\<open>int(part or 0)\<close>.\<close>

definition part_value :: "string option \<Rightarrow> int result" where
  "part_value p = (case p of None \<Rightarrow> Inr 0
     | Some ds \<Rightarrow> if INT_MAX_STR_DIGITS < length ds then Inl (ValueError ''too_many_digits'')
                  else Inr (int (nat_of_digits ds)))"

definition parse_iso_duration :: "string \<Rightarrow> int result" where
  "parse_iso_duration text =
     (case match_duration (py_strip text) of
        None \<Rightarrow> Inl (ValueError ''not_iso_duration'')
      | Some (neg, parts) \<Rightarrow>
          if list_all (\<lambda>p. p = None) parts then Inl (ValueError ''empty_duration'')
          else bindE (part_value (parts ! 0)) (\<lambda>y. bindE (part_value (parts ! 1)) (\<lambda>mo.
               bindE (part_value (parts ! 2)) (\<lambda>dd. bindE (part_value (parts ! 3)) (\<lambda>h.
               bindE (part_value (parts ! 4)) (\<lambda>mi. bindE (part_value (parts ! 5)) (\<lambda>se.
                 let total = days (y * 365 + mo * 30 + dd) + hours h + minutes mi + se * 1000000;
                     signed = (if neg then - total else total)
                 in if timedelta_ok total \<and> timedelta_ok signed then Inr signed
                    else Inl (ValueError ''duration_out_of_range''))))))))"

definition resolve_offset :: "stamp option \<Rightarrow> string option \<Rightarrow> int option result" where
  "resolve_offset anchor offset =
     (case (anchor, offset) of
        (Some a, Some raw) \<Rightarrow>
          (case parse_iso_duration raw of Inl _ \<Rightarrow> Inr None
           | Inr delta \<Rightarrow> bindE (add_dt (instant a) delta) (\<lambda>t. Inr (Some t)))
      | _ \<Rightarrow> Inr None)"

definition OFFSET_MAX :: int where "OFFSET_MAX = days 10"
definition RELEASE_WINDOW_MAX :: int where "RELEASE_WINDOW_MAX = days 365"
definition STAMP_GRACE :: int where "STAMP_GRACE = days 1"

section \<open>The boxes\<close>

text \<open>
  What the parsers take from outside: \<open>parse_local_datetime\<close> in the form's zone (naive UTC), and
  the two settings in hours.
\<close>

record box_env =
  be_parse_local :: "string \<Rightarrow> int result"
  be_lead_hours :: int
  be_notice_hours :: int

definition parse_scheduled_activate_at ::
  "box_env \<Rightarrow> int \<Rightarrow> bool \<Rightarrow> string option \<Rightarrow> int option result" where
  "parse_scheduled_activate_at env now aged_exempt raw =
     (if or_empty raw = [] then Inr None
      else (case be_parse_local env (or_empty raw) of
          Inl _ \<Rightarrow> Inl (ScheduledActivateError ''start_invalid'')
        | Inr t \<Rightarrow> if \<not> aged_exempt \<and> t - now < hours (be_lead_hours env)
                   then Inl (ScheduledActivateError ''start_too_soon'') else Inr (Some t)))"

definition parse_responses_release_at :: "box_env \<Rightarrow> string option \<Rightarrow> int option result" where
  "parse_responses_release_at env raw =
     (if or_empty raw = [] then Inr None
      else (case be_parse_local env (or_empty raw) of
          Inl _ \<Rightarrow> Inl (ScheduledActivateError ''release_at_invalid'') | Inr t \<Rightarrow> Inr (Some t)))"

definition parse_responses_release_until ::
  "box_env \<Rightarrow> stamp option \<Rightarrow> string option \<Rightarrow> int option result" where
  "parse_responses_release_until env release_at raw =
     (if or_empty raw = [] then Inr None
      else (case be_parse_local env (or_empty raw) of
          Inl _ \<Rightarrow> Inl (ScheduledActivateError ''release_until_invalid'')
        | Inr t \<Rightarrow> (case as_utc release_at of
              None \<Rightarrow> Inr (Some t)
            | Some a \<Rightarrow>
                if t \<le> a then Inl (ScheduledActivateError ''release_until_not_after'')
                else if RELEASE_WINDOW_MAX < t - a then Inl (ScheduledActivateError ''release_window_too_long'')
                else Inr (Some t))))"

definition validate_schedule_ordering ::
  "stamp option \<Rightarrow> stamp option \<Rightarrow> stamp option \<Rightarrow> stamp option \<Rightarrow> unit result" where
  "validate_schedule_ordering start deadline release_at release_until =
     (let lt = (\<lambda>a b. case (as_utc a, as_utc b) of (Some x, Some y) \<Rightarrow> x < y | _ \<Rightarrow> False);
          le = (\<lambda>a b. case (as_utc a, as_utc b) of (Some x, Some y) \<Rightarrow> x \<le> y | _ \<Rightarrow> False)
      in if le deadline start then Inl (ScheduledActivateError ''end_not_after_start'')
         else if lt release_at deadline then Inl (ScheduledActivateError ''release_before_end'')
         else if deadline = None \<and> le release_at start then Inl (ScheduledActivateError ''release_not_after_start'')
         else if le release_until release_at then Inl (ScheduledActivateError ''release_until_not_after'')
         else Inr ())"

text \<open>
  The invite and the reminder parser: the same loop, on Start and on End. \<open>aged_exempt\<close> lists per
  position the entries that may stay past the lead-time floor.
\<close>

fun check_entries ::
  "box_env \<Rightarrow> int \<Rightarrow> int option \<Rightarrow> string list list \<Rightarrow> nat \<Rightarrow> string list \<Rightarrow> string list result" where
  "check_entries env now anchor aged_exempt index [] = Inr []"
| "check_entries env now anchor aged_exempt index (entry # rest) =
     (case parse_iso_duration entry of
        Inl _ \<Rightarrow> Inl (ScheduledActivateError ''offset_not_iso_duration'')
      | Inr delta \<Rightarrow>
          if OFFSET_MAX < \<bar>delta\<bar> then Inl (ScheduledActivateError ''offset_too_large'')
          else bindE (case anchor of
              None \<Rightarrow> Inr ()
            | Some a \<Rightarrow> (case add_dt a delta of
                Inl _ \<Rightarrow> Inl (ScheduledActivateError ''offset_outside_calendar'')
              | Inr fire_at \<Rightarrow>
                  (let exempt = (index < length aged_exempt \<and> entry \<in> set (aged_exempt ! index))
                   in if \<not> exempt \<and> fire_at - now < hours (be_lead_hours env)
                      then Inl (ScheduledActivateError ''offset_too_soon'')
                      else if \<bar>delta\<bar> < hours (be_notice_hours env)
                      then Inl (ScheduledActivateError ''offset_short_notice'')
                      else if 0 \<le> delta then Inl (ScheduledActivateError ''offset_not_before'')
                      else Inr ())))
            (\<lambda>_. bindE (check_entries env now anchor aged_exempt (Suc index) rest)
                   (\<lambda>cleaned. Inr (entry # cleaned))))"

definition parse_offsets ::
  "box_env \<Rightarrow> int \<Rightarrow> stamp option \<Rightarrow> string list list \<Rightarrow> string option \<Rightarrow> string list option result" where
  "parse_offsets env now anchor aged_exempt raw =
     (if py_strip (or_empty raw) = [] then Inr None
      else (let entries = csv_items (or_empty raw)
            in if entries = [] then Inr None
               else bindE (check_entries env now (as_utc anchor) aged_exempt 0 entries) (\<lambda>c. Inr (Some c))))"

definition parse_invite_offsets ::
  "box_env \<Rightarrow> int \<Rightarrow> stamp option \<Rightarrow> string list list \<Rightarrow> string option \<Rightarrow> string list option result" where
  "parse_invite_offsets env now start aged_exempt raw = parse_offsets env now start aged_exempt raw"

definition parse_reminder_offsets ::
  "box_env \<Rightarrow> int \<Rightarrow> stamp option \<Rightarrow> string list list \<Rightarrow> string option \<Rightarrow> string list option result" where
  "parse_reminder_offsets env now deadline aged_exempt raw = parse_offsets env now deadline aged_exempt raw"

definition split_offsets :: "string option \<Rightarrow> string list" where
  "split_offsets raw = csv_items (or_empty raw)"

section \<open>Entries already sent\<close>

datatype send_kind = InviteKind | ReminderKind

fun fired_event_types :: "send_kind \<Rightarrow> string list" where
  "fired_event_types InviteKind = [''session.scheduled_invites_fired'',
     ''session.scheduled_invites_skipped'', ''session.scheduled_invites_handled'']"
| "fired_event_types ReminderKind = [''session.scheduled_reminders_fired'',
     ''session.scheduled_reminders_skipped'', ''session.scheduled_reminders_handled'']"

fun kind_anchor :: "send_kind \<Rightarrow> review_session \<Rightarrow> stamp option" where
  "kind_anchor InviteKind s = s_scheduled_activate_at s"
| "kind_anchor ReminderKind s = s_deadline s"

fun kind_offsets :: "send_kind \<Rightarrow> review_session \<Rightarrow> string list" where
  "kind_offsets InviteKind s = (case s_invite_offsets s of None \<Rightarrow> [] | Some xs \<Rightarrow> xs)"
| "kind_offsets ReminderKind s = (case s_reminder_offsets s of None \<Rightarrow> [] | Some xs \<Rightarrow> xs)"

definition context_instant :: "audit_event \<Rightarrow> string \<Rightarrow> int option" where
  "context_instant e k = (case dict_get (ev_context e) k of Some (JTime t) \<Rightarrow> Some (instant t) | _ \<Rightarrow> None)"

text \<open>\<open>isinstance(index, int)\<close>: a JSON boolean is one.\<close>

definition context_index :: "audit_event \<Rightarrow> int option" where
  "context_index e = (case dict_get (ev_context e) ''offset_index'' of
     Some (JInt k) \<Rightarrow> Some k | Some (JBool b) \<Rightarrow> Some (if b then 1 else 0) | _ \<Rightarrow> None)"

definition context_entry :: "audit_event \<Rightarrow> string" where
  "context_entry e = (case dict_get (ev_context e) ''offset'' of Some (JStr s) \<Rightarrow> s | _ \<Rightarrow> [])"

definition record_fired :: "int \<Rightarrow> (int \<times> string) list \<Rightarrow> audit_event \<Rightarrow> (int \<times> string) list" where
  "record_fired anchor fired e =
     (if context_instant e ''anchor_at'' \<noteq> Some anchor then fired
      else (case context_index e of None \<Rightarrow> fired
        | Some i \<Rightarrow> if dict_get fired i = None then dict_put i (context_entry e) fired else fired))"

definition fired_offsets :: "db \<Rightarrow> int \<Rightarrow> send_kind \<Rightarrow> stamp option \<Rightarrow> (int \<times> string) list" where
  "fired_offsets d sid kind anchor =
     (case as_utc anchor of None \<Rightarrow> []
      | Some a \<Rightarrow> foldl (record_fired a) [] (filter (\<lambda>e. ev_session e = Some sid
            \<and> ev_type e \<in> set (fired_event_types kind)) (audit_log d)))"

definition offsets_lead_exempt ::
  "db \<Rightarrow> int \<Rightarrow> review_session \<Rightarrow> send_kind \<Rightarrow> stamp option \<Rightarrow> bool \<Rightarrow> string list list" where
  "offsets_lead_exempt d sid s kind anchor anchor_unedited =
     (let stored = (if anchor_unedited then kind_offsets kind s else []);
          fired = fired_offsets d sid kind anchor;
          size = foldl max (int (length stored)) (map (\<lambda>(i, _). i + 1) fired)
      in map (\<lambda>i. filter (\<lambda>e. e \<noteq> [])
             [if i < length stored then stored ! i else [],
              case dict_get fired (int i) of None \<Rightarrow> [] | Some e \<Rightarrow> e]) [0..<nat size])"

definition same_instant :: "stamp option \<Rightarrow> stamp option \<Rightarrow> bool" where
  "same_instant a b = (as_utc a = as_utc b)"

text \<open>\<open>xs[i]\<close>, from the end for a negative \<open>i\<close>; \<open>None\<close> is an \<open>IndexError\<close>.\<close>

definition py_index :: "'a list \<Rightarrow> int \<Rightarrow> 'a option" where
  "py_index xs i = (let k = (if i < 0 then int (length xs) + i else i)
     in if 0 \<le> k \<and> k < int (length xs) then Some (xs ! nat k) else None)"

text \<open>The first recorded position a list would put another entry on.\<close>

fun first_moved :: "string list \<Rightarrow> (int \<times> string) list \<Rightarrow> int option result" where
  "first_moved entries [] = Inr None"
| "first_moved entries ((i, sent) # rest) =
     (if sent = [] then first_moved entries rest
      else if i < int (length entries) then
        (case py_index entries i of
           None \<Rightarrow> Inl (KeyError ''index'')
         | Some e \<Rightarrow> if e \<noteq> sent then Inr (Some i) else first_moved entries rest)
      else first_moved entries rest)"

definition list_errors ::
  "db \<Rightarrow> int \<Rightarrow> review_session \<Rightarrow> send_kind \<Rightarrow> string list \<Rightarrow> stamp option \<Rightarrow> (send_kind \<times> int) list result" where
  "list_errors d sid s kind entries anchor =
     (if entries = kind_offsets kind s \<and> same_instant anchor (kind_anchor kind s) then Inr []
      else bindE (first_moved entries (sort_key fst (fired_offsets d sid kind anchor)))
             (\<lambda>r. Inr (case r of None \<Rightarrow> [] | Some i \<Rightarrow> [(kind, i)])))"

definition fired_offset_errors ::
  "db \<Rightarrow> int \<Rightarrow> stamp option \<Rightarrow> string list \<Rightarrow> stamp option \<Rightarrow> string list \<Rightarrow> (send_kind \<times> int) list result" where
  "fired_offset_errors d sid start invite_offsets deadline reminder_offsets =
     bindE (lock_session d sid False) (\<lambda>s.
       bindE (list_errors d sid s InviteKind invite_offsets start) (\<lambda>es.
         bindE (list_errors d sid s ReminderKind reminder_offsets deadline) (\<lambda>es'. Inr (es @ es'))))"

text \<open>A save that edits End alone; \<open>seen\<close> is the row the request loaded.\<close>

definition validate_deadline_change ::
  "box_env \<Rightarrow> db \<Rightarrow> int \<Rightarrow> review_session \<Rightarrow> stamp option \<Rightarrow> unit result" where
  "validate_deadline_change env d sid seen deadline =
     (if same_instant (s_deadline seen) deadline then Inr ()
      else bindE (lock_session d sid False) (\<lambda>s.
        bindE (validate_schedule_ordering (s_scheduled_activate_at s) deadline (s_responses_release_at s) None)
          (\<lambda>_. bindE (fired_offset_errors d sid (s_scheduled_activate_at s) (kind_offsets InviteKind s)
                  deadline (kind_offsets ReminderKind s))
            (\<lambda>errors. if errors \<noteq> [] then Inl (ScheduledActivateError ''entry_already_sent'')
               else bindE (parse_reminder_offsets env (wall d) deadline
                   (offsets_lead_exempt d sid s ReminderKind deadline False)
                   (Some (join_text '', '' (kind_offsets ReminderKind s)))) (\<lambda>_. Inr ())))))"

end
