(* ===== verification/Scheduled_Events.thy ===== *)
theory Scheduled_Events
  imports Schedule_Times Lifecycle_History
begin

text \<open>
  The observers of \<open>app/services/scheduled_events\<close>: scheduled activation, auto-sent invites and
  reminders, the release window's stamps, the pass over all of them and the in-app clock. A
  pass is several transactions; the world threads the committed database, the session row as
  the request last loaded it (\<open>w_row\<close>, the identity-mapped object, gone when the row is), and
  what other requests commit before each lock is granted (\<open>w_next\<close>, taken in order).
\<close>

record schedule_env =
  se_mail :: mail_env
  se_validate :: "db \<Rightarrow> int \<Rightarrow> issue list result"
  se_repr :: "error \<Rightarrow> string"
  se_send_enabled :: bool

record world =
  w_db :: db
  w_row :: "review_session option"
  w_next :: "(db \<Rightarrow> db) list"

section \<open>Transactions\<close>

text \<open>
  What others commit before this request's next statement; the mark of the clock's pass is this
  thread's own.
\<close>

definition others :: "(db \<Rightarrow> db) \<Rightarrow> db \<Rightarrow> db" where
  "others f d = (f (d\<lparr>fired_by := None\<rparr>))\<lparr>fired_by := fired_by d\<rparr>"

definition interfered :: "world \<Rightarrow> world" where
  "interfered w = (case w_next w of [] \<Rightarrow> w | f # fs \<Rightarrow> w\<lparr>w_db := others f (w_db w), w_next := fs\<rparr>)"

text \<open>\<open>lock_session\<close>: wait for the lock, then read the row into the loaded object.\<close>

definition acquire :: "int \<Rightarrow> world \<Rightarrow> world \<times> review_session result" where
  "acquire sid w =
     (let w1 = interfered w in
      case lock_session (w_db w1) sid False of
        Inl e \<Rightarrow> (w1, Inl e)
      | Inr s \<Rightarrow> (w1\<lparr>w_row := Some s\<rparr>, Inr s))"

text \<open>\<open>db.rollback()\<close>: what was committed stands, and the row is read again when next used.\<close>

definition reloaded :: "int \<Rightarrow> world \<Rightarrow> world" where
  "reloaded sid w = w\<lparr>w_row := sessions (w_db w) sid\<rparr>"

definition committed :: "int \<Rightarrow> db \<Rightarrow> world \<Rightarrow> world" where
  "committed sid d w = w\<lparr>w_db := d, w_row := sessions d sid\<rparr>"

section \<open>Auto-send entries\<close>

definition resolve_one :: "stamp option \<Rightarrow> string \<Rightarrow> int option result" where
  "resolve_one anchor raw = (case anchor of
      None \<Rightarrow> Inr None
    | Some a \<Rightarrow> (case parse_iso_duration raw of Inl _ \<Rightarrow> Inr None
        | Inr delta \<Rightarrow> bindE (add_dt (instant a) delta) (\<lambda>t. Inr (Some t))))"

fun resolve_list :: "nat \<Rightarrow> stamp option \<Rightarrow> string list \<Rightarrow> (nat \<times> string \<times> int option) list result" where
  "resolve_list i anchor [] = Inr []"
| "resolve_list i anchor (raw # rest) =
     bindE (resolve_one anchor raw) (\<lambda>t. bindE (resolve_list (Suc i) anchor rest) (\<lambda>fs. Inr ((i, raw, t) # fs)))"

text \<open>\<open>_resolve_invite_fires\<close> and \<open>_resolve_reminder_fires\<close>.\<close>

definition resolve_fires :: "send_kind \<Rightarrow> review_session \<Rightarrow> (nat \<times> string \<times> int option) list result" where
  "resolve_fires kind s = resolve_list 0 (kind_anchor kind s) (kind_offsets kind s)"

definition due_fires :: "int \<Rightarrow> (nat \<times> string \<times> int option) list \<Rightarrow> (int \<times> nat \<times> string) list" where
  "due_fires now fires = List.map_filter (\<lambda>(i, raw, t). case t of None \<Rightarrow> None
     | Some t \<Rightarrow> if t \<le> now then Some (t, i, raw) else None) fires"

text \<open>The entries still to fire, in chronological order.\<close>

definition pending_fires ::
  "int \<Rightarrow> (int \<times> string) list \<Rightarrow> nat set \<Rightarrow> (nat \<times> string \<times> int option) list \<Rightarrow> (int \<times> nat \<times> string) list" where
  "pending_fires now consumed handled fires =
     sort_key (\<lambda>(t, i, _). (t, i))
       (filter (\<lambda>(t, i, _). int i \<notin> set (dict_keys consumed) \<and> i \<notin> handled) (due_fires now fires))"

definition entry_context :: "int \<Rightarrow> nat \<Rightarrow> string \<Rightarrow> int \<Rightarrow> (string \<times> jval) list" where
  "entry_context anchor i raw fire_at =
     [(''anchor_at'', JTime (Aware anchor)), (''offset_index'', JInt (int i)), (''offset'', JStr raw),
      (''scheduled_at'', JTime (Aware fire_at))]"

definition write_skip ::
  "string \<Rightarrow> int \<Rightarrow> string \<Rightarrow> (string \<times> jval) list \<Rightarrow> db \<Rightarrow> db" where
  "write_skip ty sid reason ctx d = write_event ty None (Some sid) NoPayload (Some reason) [] ctx d"

definition write_fired ::
  "string \<Rightarrow> int \<Rightarrow> int \<Rightarrow> int \<Rightarrow> (string \<times> jval) list \<Rightarrow> db \<Rightarrow> db" where
  "write_fired ty sid sent now ctx d = write_event ty None (Some sid) (Counts [(''sent'', sent)]) None []
     (ctx @ [(''actual_fired_at'', JTime (Aware now))]) d"

definition dispatch_pending_invitations ::
  "mail_env \<Rightarrow> (string \<Rightarrow> string) \<Rightarrow> int \<Rightarrow> review_session \<Rightarrow> db \<Rightarrow> (db \<times> int) result" where
  "dispatch_pending_invitations env build sid s d =
     (let rows = list_sendable_invitations d sid
      in bindE (send_rows env build None ''scheduled'' sid s rows d) (\<lambda>d'. Inr (d', int (length rows))))"

definition fire_invite_entry ::
  "mail_env \<Rightarrow> (string \<Rightarrow> string) \<Rightarrow> int \<Rightarrow> int \<Rightarrow> review_session \<Rightarrow> int \<Rightarrow> int \<times> nat \<times> string \<Rightarrow> db \<Rightarrow> db result" where
  "fire_invite_entry env build now sid s anchor entry d = (case entry of (fire_at, i, raw) \<Rightarrow>
     (let ctx = entry_context anchor i raw fire_at in
      if \<not> (is_validated s \<or> is_ready s)
      then Inr (write_skip ''session.scheduled_invites_skipped'' sid ''not_prepared'' ctx d)
      else if \<not> has_invitations d sid
      then Inr (write_skip ''session.scheduled_invites_skipped'' sid ''invitations_not_created'' ctx d)
      else bindE (dispatch_pending_invitations env build sid s d) (\<lambda>(d', sent).
             Inr (write_fired ''session.scheduled_invites_fired'' sid sent now ctx d'))))"

text \<open>The idempotency key of a scheduled reminder, \<open>f"reminder:{sid}:{rid}:{offset_index}"\<close>.\<close>

definition reminder_key :: "int \<Rightarrow> int \<Rightarrow> nat \<Rightarrow> string" where
  "reminder_key sid rid i = ''reminder:'' @ show_int sid @ '':'' @ show_int rid @ '':'' @ show_nat i"

definition remind_entry_step ::
  "mail_env \<Rightarrow> (string \<Rightarrow> string) \<Rightarrow> int \<Rightarrow> review_session \<Rightarrow> nat \<Rightarrow> reviewer \<times> invitation
     \<Rightarrow> db \<times> int \<Rightarrow> (db \<times> int) result" where
  "remind_entry_step env build sid s i x acc = (case x of (r, iv) \<Rightarrow> case acc of (d, sent) \<Rightarrow>
     (let cid = reminder_key sid (rr_id r) i;
          existing = filter (\<lambda>o'. ob_correlation o' = Some cid) (outbox d)
      in if 1 < length existing then Inl (DatabaseError ''multiple_results'')
         else if existing \<noteq> [] then Inr (d, sent)
         else bindE (send_reminder env build None (Some cid) sid s r iv d) (\<lambda>(d', _, _). Inr (d', sent + 1))))"

definition dispatch_scheduled_reminders ::
  "mail_env \<Rightarrow> (string \<Rightarrow> string) \<Rightarrow> int \<Rightarrow> review_session \<Rightarrow> nat \<Rightarrow> db \<Rightarrow> (db \<times> int) result" where
  "dispatch_scheduled_reminders env build sid s i d =
     foldE (remind_entry_step env build sid s i) (to_remind d sid) (d, 0)"

definition fire_reminder_entry ::
  "mail_env \<Rightarrow> (string \<Rightarrow> string) \<Rightarrow> int \<Rightarrow> int \<Rightarrow> review_session \<Rightarrow> int \<Rightarrow> int \<times> nat \<times> string \<Rightarrow> db \<Rightarrow> db result" where
  "fire_reminder_entry env build now sid s anchor entry d = (case entry of (fire_at, i, raw) \<Rightarrow>
     (let ctx = entry_context anchor i raw fire_at in
      if \<not> is_ready s
      then Inr (write_skip ''session.scheduled_reminders_skipped'' sid ''not_ready'' ctx d)
      else if \<not> has_invitations d sid
      then Inr (write_skip ''session.scheduled_reminders_skipped'' sid ''no_invitations'' ctx d)
      else if (case as_utc (s_deadline s) of None \<Rightarrow> True | Some t \<Rightarrow> t \<le> now)
      then Inr (write_skip ''session.scheduled_reminders_skipped'' sid ''outside_response_window'' ctx d)
      else bindE (dispatch_scheduled_reminders env build sid s i d) (\<lambda>(d', sent).
             Inr (write_fired ''session.scheduled_reminders_fired'' sid sent now ctx d'))))"

fun fire_entry ::
  "send_kind \<Rightarrow> mail_env \<Rightarrow> (string \<Rightarrow> string) \<Rightarrow> int \<Rightarrow> int \<Rightarrow> review_session \<Rightarrow> int \<Rightarrow> int \<times> nat \<times> string
     \<Rightarrow> db \<Rightarrow> db result" where
  "fire_entry InviteKind = fire_invite_entry"
| "fire_entry ReminderKind = fire_reminder_entry"

text \<open>A fired entry leaves every session row: the loop below re-reads the same lists.\<close>

lemma send_sessions: "send_invitation env build u trg corr sid s r k d = Inr (d', x) \<Longrightarrow> sessions d' = sessions d"
  by (cases x) (auto simp: send_invitation_def Let_def upd_invitation_def add_outbox_def split: if_splits)

lemma map_sum_fst: "map_sum id fst r = Inr d' \<Longrightarrow> \<exists>x. r = Inr (d', x)"
  by (cases r) auto

lemma send_rows_sessions:
  "send_rows env build u trg sid s rows d = Inr d' \<Longrightarrow> sessions d' = sessions d"
  unfolding send_rows_def
  by (rule foldE_keeps [where P = "\<lambda>x. sessions x = sessions d"])
    (auto dest!: map_sum_fst send_sessions split: prod.splits)

lemma send_reminder_sessions:
  "send_reminder env build u corr sid s r iv d = Inr (d', x) \<Longrightarrow> sessions d' = sessions d"
  by (auto simp: send_reminder_def send_invitation_def stamp_reminder_def Let_def upd_invitation_def
      add_outbox_def split: option.splits if_splits)

lemma remind_entry_sessions:
  assumes "foldE (remind_entry_step env build sid s i) xs (d, n) = Inr (d', n')"
  shows "sessions d' = sessions d"
  using foldE_keeps [OF _ assms, where P = "\<lambda>x. sessions (fst x) = sessions d"] send_reminder_sessions
  by (fastforce simp: remind_entry_step_def Let_def split: if_splits)

lemma fire_entry_sessions:
  assumes "fire_entry kind env build now sid s anchor entry d = Inr d'"
  shows "sessions d' = sessions d"
proof (cases entry)
  case (fields t i raw)
  show ?thesis
  proof (cases kind)
    case InviteKind
    then show ?thesis using assms fields send_rows_sessions
      by (auto simp: fire_invite_entry_def dispatch_pending_invitations_def write_skip_def write_fired_def Let_def
          split: if_splits)
  next
    case ReminderKind
    then show ?thesis using assms fields remind_entry_sessions
      by (auto simp: fire_reminder_entry_def dispatch_scheduled_reminders_def write_skip_def write_fired_def Let_def
          split: if_splits)
  qed
qed

lemma resolve_list_index:
  "resolve_list k anchor xs = Inr fires \<Longrightarrow> (i, raw, t) \<in> set fires \<Longrightarrow> k \<le> i \<and> i < k + length xs"
  by (induction xs arbitrary: k fires) fastforce+

lemma pending_index:
  assumes "resolve_fires kind s = Inr fires" "(t, i, raw) \<in> set (pending_fires now consumed handled fires)"
  shows "i < length (kind_offsets kind s)" "i \<notin> handled"
  using assms resolve_list_index [of 0]
  by (fastforce simp: pending_fires_def due_fires_def resolve_fires_def set_map_filter split: option.splits if_splits)+

text \<open>
  The loop of \<open>_observe_scheduled_invites\<close> and \<open>_observe_scheduled_reminders\<close>: one entry per
  transaction, the row and the record read again under the lock each time.
\<close>

definition unhandled :: "send_kind \<Rightarrow> int \<Rightarrow> nat set \<Rightarrow> db \<Rightarrow> nat" where
  "unhandled kind sid handled d = (case sessions d sid of None \<Rightarrow> 0
     | Some s \<Rightarrow> card ({..<length (kind_offsets kind s)} - handled))"

function fire_loop ::
  "send_kind \<Rightarrow> mail_env \<Rightarrow> (string \<Rightarrow> string) \<Rightarrow> int \<Rightarrow> int \<Rightarrow> nat set \<Rightarrow> world \<Rightarrow> world \<times> unit result" where
  "fire_loop kind env build now sid handled w =
     (case acquire sid w of
        (w1, Inl e) \<Rightarrow> (w1, Inl e)
      | (w1, Inr s) \<Rightarrow>
          (case kind_anchor kind s of
             None \<Rightarrow> (w1, Inr ())
           | Some anchor \<Rightarrow>
               if kind_offsets kind s = [] then (w1, Inr ())
               else (case resolve_fires kind s of
                  Inl e \<Rightarrow> (w1, Inl e)
                | Inr fires \<Rightarrow>
                   (case pending_fires now (fired_offsets (w_db w1) sid kind (kind_anchor kind s)) handled fires of
                      [] \<Rightarrow> (w1, Inr ())
                    | entry # _ \<Rightarrow>
                        (case fire_entry kind env build now sid s (instant anchor) entry (w_db w1) of
                           Inl e \<Rightarrow> (w1, Inl e)
                         | Inr d' \<Rightarrow> fire_loop kind env build now sid (insert (fst (snd entry)) handled)
                                       (w1\<lparr>w_db := d'\<rparr>))))))"
  by pat_completeness auto
termination
proof (relation "inv_image (less_than <*lex*> less_than)
    (\<lambda>(kind, env, build, now, sid, handled, w). (length (w_next w), unhandled kind sid handled (w_db w)))")
  fix kind env build now sid handled w w1 r s anchor fires entry rest d'
  assume acq: "(w1, r) = acquire sid w" "r = Inr s"
    and res: "resolve_fires kind s = Inr fires"
    and pend: "pending_fires now (fired_offsets (w_db w1) sid kind (kind_anchor kind s)) handled fires = entry # rest"
    and fire: "fire_entry kind env build now sid s (instant anchor) entry (w_db w1) = Inr d'"
  obtain t i raw where entry: "entry = (t, i, raw)" by (cases entry)
  have i: "i < length (kind_offsets kind s)" "i \<notin> handled"
    using pending_index [OF res, of t i raw now "fired_offsets (w_db w1) sid kind (kind_anchor kind s)" handled]
      pend entry by auto
  have w1: "w_next w1 = tl (w_next w)" "sessions (w_db w1) sid = Some s"
      "w_next w = [] \<Longrightarrow> w_db w1 = w_db w"
    using acq by (auto simp: acquire_def interfered_def Let_def dest: lock_session_Inr split: list.splits sum.splits)
  have d': "sessions d' = sessions (w_db w1)" by (rule fire_entry_sessions [OF fire])
  have "unhandled kind sid (insert i handled) d' < unhandled kind sid handled (w_db w1)"
  proof -
    have "{..<length (kind_offsets kind s)} - insert i handled \<subset> {..<length (kind_offsets kind s)} - handled"
      using i by auto
    then show ?thesis by (simp add: unhandled_def d' w1(2) psubset_card_mono)
  qed
  then show "((kind, env, build, now, sid, insert (fst (snd entry)) handled, w1\<lparr>w_db := d'\<rparr>),
        kind, env, build, now, sid, handled, w)
      \<in> inv_image (less_than <*lex*> less_than)
          (\<lambda>(kind, env, build, now, sid, handled, w). (length (w_next w), unhandled kind sid handled (w_db w)))"
    using w1(1,3) by (cases "w_next w") (simp_all add: entry)
qed (intro wf_inv_image wf_lex_prod wf_less_than)

declare fire_loop.simps [simp del]

definition observe_entries ::
  "send_kind \<Rightarrow> mail_env \<Rightarrow> (string \<Rightarrow> string) option \<Rightarrow> int \<Rightarrow> int \<Rightarrow> review_session \<Rightarrow> world \<Rightarrow> world \<times> unit result" where
  "observe_entries kind env build now sid row w =
     (if kind_offsets kind row = [] \<or> kind_anchor kind row = None then (w, Inr ())
      else (case build of None \<Rightarrow> (w, Inr ())
        | Some b \<Rightarrow> (case resolve_fires kind row of
             Inl e \<Rightarrow> (w, Inl e)
           | Inr fires \<Rightarrow> if due_fires now fires = [] then (w, Inr ())
                          else fire_loop kind env b now sid {} w)))"

section \<open>Scheduled activation\<close>

definition ACTIVATION_MAX_RETRIES :: int where "ACTIVATION_MAX_RETRIES = 3"

definition clear_start :: "int \<Rightarrow> db \<Rightarrow> db" where
  "clear_start sid d = upd_session sid (\<lambda>s. s\<lparr>s_scheduled_activate_at := None\<rparr>) d"

definition emit_activation_skipped :: "string \<Rightarrow> int \<Rightarrow> session_status \<Rightarrow> int \<Rightarrow> db \<Rightarrow> db" where
  "emit_activation_skipped reason scheduled_at status sid d =
     clear_start sid (write_event ''session.scheduled_activation_skipped'' None (Some sid) NoPayload (Some reason) []
       [(''scheduled_at'', JTime (Aware scheduled_at)), (''status_at_fire'', JStr (status_value status))] d)"

definition count_recent_retries :: "db \<Rightarrow> int \<Rightarrow> int \<Rightarrow> int" where
  "count_recent_retries d sid scheduled_at =
     int (length (filter (\<lambda>e. ev_session e = Some sid \<and> ev_type e = ''session.scheduled_activation_retry''
        \<and> dict_get (ev_context e) ''scheduled_at'' = Some (JTime (Aware scheduled_at))) (audit_log d)))"

definition emit_activation_retry_or_failed :: "string \<Rightarrow> int \<Rightarrow> int \<Rightarrow> db \<Rightarrow> db" where
  "emit_activation_retry_or_failed text scheduled_at sid d =
     (let n = count_recent_retries d sid scheduled_at in
      if ACTIVATION_MAX_RETRIES \<le> n
      then clear_start sid (write_event ''session.scheduled_activation_failed_persistent'' None (Some sid) NoPayload
             (Some text) [] [(''scheduled_at'', JTime (Aware scheduled_at)), (''attempts'', JInt (n + 1))] d)
      else write_event ''session.scheduled_activation_retry'' None (Some sid) NoPayload (Some text) []
             [(''scheduled_at'', JTime (Aware scheduled_at)), (''attempt'', JInt (n + 1))] d)"

definition start_due :: "int \<Rightarrow> review_session \<Rightarrow> bool" where
  "start_due now s = (case as_utc (s_scheduled_activate_at s) of None \<Rightarrow> False | Some t \<Rightarrow> t \<le> now)"

definition one_shot :: "string list" where
  "one_shot = [''not_validated'', ''has_errors'', ''needs_acknowledge'']"

text \<open>The code of a precondition failure, which is skipped once rather than retried.\<close>

fun one_shot_code :: "error \<Rightarrow> string option" where
  "one_shot_code (LifecycleError code) = (if code \<in> set one_shot then Some code else None)"
| "one_shot_code (SessionStateConflict code) = (if code \<in> set one_shot then Some code else None)"
| "one_shot_code _ = None"

text \<open>
  The rollback of a failed activation releases the lock, so others may commit before the retry's
  event is written on the row read again.
\<close>

definition retry_activation :: "string \<Rightarrow> int \<Rightarrow> int \<Rightarrow> world \<Rightarrow> world \<times> unit result" where
  "retry_activation text scheduled_at sid w =
     (let w2 = interfered w in
      case sessions (w_db w2) sid of
        None \<Rightarrow> (reloaded sid w2, Inl ObjectDeletedError)
      | Some _ \<Rightarrow> (committed sid (emit_activation_retry_or_failed text scheduled_at sid (w_db w2)) w2, Inr ()))"

text \<open>\<open>_observe_scheduled_activation\<close>.\<close>

definition observe_activation ::
  "schedule_env \<Rightarrow> int \<Rightarrow> int \<Rightarrow> review_session \<Rightarrow> world \<Rightarrow> world \<times> unit result" where
  "observe_activation env now sid row w =
     (if \<not> start_due now row then (w, Inr ())
      else (case acquire sid w of
         (w1, Inl e) \<Rightarrow> (w1, Inl e)
       | (w1, Inr s) \<Rightarrow>
          (let d = w_db w1 in
           case as_utc (s_scheduled_activate_at s) of
             None \<Rightarrow> (w1, Inr ())
           | Some tm \<Rightarrow>
              if now < tm then (w1, Inr ())
              else if \<not> is_validated s
              then (committed sid (emit_activation_skipped ''not_validated'' tm (s_status s) sid d) w1, Inr ())
              else (case bindE (se_validate env d sid) (\<lambda>issues.
                        activate_session None (build_readiness_report issues) True ''scheduled'' sid d) of
                  Inr d' \<Rightarrow> (committed sid d' w1, Inr ())
                | Inl e \<Rightarrow>
                   (case one_shot_code e of
                      Some code \<Rightarrow> (committed sid (emit_activation_skipped code tm (s_status s) sid d) w1, Inr ())
                    | None \<Rightarrow> retry_activation (take 200 (se_repr env e)) tm sid w1)))))"

section \<open>The release window's stamps\<close>

text \<open>A due crossing: its event type, its context key and its moment.\<close>

definition due_release_stamps :: "int \<Rightarrow> review_session \<Rightarrow> (string \<times> string \<times> int) list" where
  "due_release_stamps now s =
     (if \<not> is_expired s then []
      else (case as_utc (s_responses_release_at s) of None \<Rightarrow> []
        | Some start \<Rightarrow>
           (if now - STAMP_GRACE < start \<and> start \<le> now
            then [(''session.release_window_opened'', ''release_at'', start)] else [])
           @ (case as_utc (s_responses_release_until s) of None \<Rightarrow> []
              | Some until \<Rightarrow> if start < until \<and> now - STAMP_GRACE < until \<and> until \<le> now
                  then [(''session.release_window_ended'', ''release_until'', until)] else [])))"

definition is_stamped :: "db \<Rightarrow> int \<Rightarrow> string \<times> string \<times> int \<Rightarrow> bool" where
  "is_stamped d sid x = (case x of (ty, k, moment) \<Rightarrow>
     list_ex (\<lambda>e. ev_session e = Some sid \<and> ev_type e = ty \<and> context_instant e k = Some moment) (audit_log d))"

definition unstamped :: "db \<Rightarrow> int \<Rightarrow> (string \<times> string \<times> int) list \<Rightarrow> (string \<times> string \<times> int) list" where
  "unstamped d sid due = filter (\<lambda>x. \<not> is_stamped d sid x) due"

definition write_stamp :: "int \<Rightarrow> db \<Rightarrow> string \<times> string \<times> int \<Rightarrow> db" where
  "write_stamp sid d x = (case x of (ty, k, moment) \<Rightarrow>
     write_event ty None (Some sid) NoPayload None [] [(k, JTime (Aware moment))] d)"

definition observe_release_window ::
  "int \<Rightarrow> int \<Rightarrow> review_session \<Rightarrow> world \<Rightarrow> world \<times> nat result" where
  "observe_release_window now sid row w =
     (let due = due_release_stamps now row in
      if due = [] \<or> unstamped (w_db w) sid due = [] then (w, Inr 0)
      else (case acquire sid w of
         (w1, Inl e) \<Rightarrow> (w1, Inl e)
       | (w1, Inr s) \<Rightarrow>
          (let todo = unstamped (w_db w1) sid (due_release_stamps now s)
           in (w1\<lparr>w_db := foldl (write_stamp sid) (w_db w1) todo\<rparr>, Inr (length todo)))))"

section \<open>The pass\<close>

text \<open>The close at the review's end, on what the request saw and what it finds under the lock.\<close>

definition observe_end :: "int \<Rightarrow> int \<Rightarrow> review_session \<Rightarrow> world \<Rightarrow> world \<times> unit result" where
  "observe_end now sid row w =
     (let seen = (w_db w)\<lparr>sessions := (sessions (w_db w))(sid \<mapsto> row)\<rparr>; w1 = interfered w in
      case observe_deadline (Some now) sid seen (w_db w1) of
        Inl e \<Rightarrow> (w1, Inl e)
      | Inr (d', _) \<Rightarrow> (committed sid d' w1, Inr ()))"

text \<open>The latest failure recorded for a trigger of the session.\<close>

definition last_failure :: "db \<Rightarrow> int \<Rightarrow> string \<Rightarrow> string option option" where
  "last_failure d sid trigger =
     (case filter (\<lambda>e. ev_session e = Some sid \<and> ev_type e = ''session.scheduled_event_failed''
         \<and> dict_get (ev_context e) ''trigger'' = Some (JStr trigger)) (rev (audit_log d)) of
        [] \<Rightarrow> None | e # _ \<Rightarrow> Some (ev_reason e))"

definition record_failure :: "int \<Rightarrow> string \<Rightarrow> string \<Rightarrow> world \<Rightarrow> world" where
  "record_failure sid trigger text w =
     (case sessions (w_db w) sid of
        None \<Rightarrow> reloaded sid w
      | Some _ \<Rightarrow> (case acquire sid w of
           (w1, Inl e) \<Rightarrow> reloaded sid w1
         | (w1, Inr s) \<Rightarrow>
             if last_failure (w_db w1) sid trigger = Some (Some text) then reloaded sid w1
             else w1\<lparr>w_db := write_event ''session.scheduled_event_failed'' None (Some sid) NoPayload (Some text) []
                       [(''trigger'', JStr trigger)] (w_db w1)\<rparr>))"

definition run_guarded ::
  "schedule_env \<Rightarrow> int \<Rightarrow> string \<Rightarrow> (review_session \<Rightarrow> world \<Rightarrow> world \<times> 'a result) \<Rightarrow> world \<Rightarrow> world \<times> bool result" where
  "run_guarded env sid trigger fire w =
     (case w_row w of
        None \<Rightarrow> (w, Inl ObjectDeletedError)
      | Some row \<Rightarrow> (case fire row w of
           (w1, Inr _) \<Rightarrow> (w1, Inr True)
         | (w1, Inl e) \<Rightarrow>
             if e = SessionBusy then (reloaded sid w1, Inl SessionBusy)
             else (record_failure sid trigger (take 200 (se_repr env e)) (reloaded sid w1), Inr False)))"

text \<open>The next step of a pass, unless the one before it ended the pass.\<close>

definition then_step ::
  "world \<times> bool result \<Rightarrow> (bool \<Rightarrow> world \<Rightarrow> world \<times> bool result) \<Rightarrow> world \<times> bool result" where
  "then_step x f = (case x of (w, Inl e) \<Rightarrow> (w, Inl e) | (w, Inr b) \<Rightarrow> f b w)"

text \<open>Reading an attribute of the loaded row raises when the row is gone.\<close>

definition with_row :: "world \<Rightarrow> (review_session \<Rightarrow> world \<times> bool result) \<Rightarrow> world \<times> bool result" where
  "with_row w f = (case w_row w of None \<Rightarrow> (w, Inl ObjectDeletedError) | Some row \<Rightarrow> f row)"

definition observe_all ::
  "schedule_env \<Rightarrow> (string \<Rightarrow> string) option \<Rightarrow> int \<Rightarrow> int \<Rightarrow> world \<Rightarrow> world \<times> bool result" where
  "observe_all env build now sid w =
     (let send = se_send_enabled env;
          invites = (if send \<and> build = None
             then with_row w (\<lambda>row. if kind_offsets InviteKind row \<noteq> [] then (w, Inr False)
                    else run_guarded env sid ''invites'' (\<lambda>row w. observe_entries InviteKind (se_mail env) build now sid row w) w)
             else if \<not> send then (w, Inr True)
             else run_guarded env sid ''invites'' (\<lambda>row w. observe_entries InviteKind (se_mail env) build now sid row w) w)
      in then_step invites (\<lambda>invites_ok w.
         then_step (if invites_ok then run_guarded env sid ''activation'' (observe_activation env now sid) w else (w, Inr True))
         (\<lambda>_ w.
         then_step (if send then run_guarded env sid ''reminders'' (\<lambda>row w. observe_entries ReminderKind (se_mail env) build now sid row w) w
                    else (w, Inr True)) (\<lambda>_ w.
         then_step (with_row w (\<lambda>row. if is_ready row \<and> deadline_has_passed now row
                      then run_guarded env sid ''deadline'' (observe_end now sid) w else (w, Inr True))) (\<lambda>_ w.
           run_guarded env sid ''release'' (observe_release_window now sid) w)))))"

text \<open>
  \<open>observe_scheduled_events\<close>: \<open>False\<close> when a busy session cut the pass short. Any other error
  escapes (the row was deleted under the request).
\<close>

definition observe_scheduled_events ::
  "schedule_env \<Rightarrow> (string \<Rightarrow> string) option \<Rightarrow> int option \<Rightarrow> int \<Rightarrow> world \<Rightarrow> world \<times> bool result" where
  "observe_scheduled_events env build now sid w =
     (case observe_all env build (now_or now (w_db w)) sid w of
        (w1, Inl e) \<Rightarrow> if e = SessionBusy then (w1, Inr False) else (w1, Inl e)
      | (w1, Inr _) \<Rightarrow> (w1, Inr True))"

section \<open>The clock\<close>

definition RETRY_SPACING :: int where "RETRY_SPACING = minutes 15"

definition retried_recently :: "db \<Rightarrow> int \<Rightarrow> int \<Rightarrow> bool" where
  "retried_recently d now sid =
     (case filter (\<lambda>e. ev_session e = Some sid \<and> ev_type e = ''session.scheduled_activation_retry'')
         (rev (audit_log d)) of
        [] \<Rightarrow> False | e # _ \<Rightarrow> now - instant (ev_created_at e) < RETRY_SPACING)"

definition start_step_due :: "int \<Rightarrow> review_session \<Rightarrow> bool" where
  "start_step_due now s = (\<not> is_archived s \<and> start_due now s)"

definition other_step_due :: "int \<Rightarrow> review_session \<Rightarrow> bool" where
  "other_step_due now s =
     (let due = (\<lambda>v. case as_utc v of None \<Rightarrow> False | Some t \<Rightarrow> t \<le> now);
          crossed = (\<lambda>v. case as_utc v of None \<Rightarrow> False | Some t \<Rightarrow> now - STAMP_GRACE \<le> t \<and> t \<le> now)
      in \<not> is_archived s
        \<and> ((is_ready s \<and> (due (s_deadline s) \<or> (s_deadline s = None \<and> due (s_responses_release_at s))))
          \<or> (is_expired s \<and> (crossed (s_responses_release_at s) \<or> crossed (s_responses_release_until s)))))"

text \<open>\<open>due_session_ids\<close>; \<open>ids\<close> lists the sessions table's keys.\<close>

definition due_session_ids :: "int list \<Rightarrow> int \<Rightarrow> db \<Rightarrow> int list" where
  "due_session_ids ids now d =
     (let row_is = (\<lambda>P sid. case sessions d sid of None \<Rightarrow> False | Some s \<Rightarrow> P s)
      in sort (remdups (filter (\<lambda>sid. row_is (other_step_due now) sid
           \<or> (row_is (start_step_due now) sid \<and> \<not> retried_recently d now sid)) ids)))"

record clock_status =
  cs_passes :: nat
  cs_last_visited :: "nat option"
  cs_held_elsewhere :: nat
  cs_busy_sessions :: nat
  cs_failures :: nat

text \<open>
  One session of a pass, in a database session of its own: the row is loaded, every event is
  marked as the clock's, and a failure rolls back only what that session had not committed.
\<close>

definition clock_session ::
  "schedule_env \<Rightarrow> int \<Rightarrow> int \<Rightarrow> db \<times> (db \<Rightarrow> db) list \<times> clock_status \<times> nat
     \<Rightarrow> db \<times> (db \<Rightarrow> db) list \<times> clock_status \<times> nat" where
  "clock_session env now sid acc = (case acc of (d, fs, st, visited) \<Rightarrow>
     (case sessions d sid of
        None \<Rightarrow> (d, fs, st, visited)
      | Some row \<Rightarrow>
         (let (w, r) = observe_scheduled_events env None (Some now) sid
                \<lparr>w_db = d\<lparr>fired_by := Some ''clock''\<rparr>, w_row = Some row, w_next = fs\<rparr>;
              d' = (w_db w)\<lparr>fired_by := fired_by d\<rparr>
          in case r of
               Inr True \<Rightarrow> (d', w_next w, st, visited + 1)
             | Inr False \<Rightarrow> (d', w_next w, st\<lparr>cs_busy_sessions := cs_busy_sessions st + 1\<rparr>, visited)
             | Inl e \<Rightarrow> (d', w_next w,
                 if e = SessionBusy then st\<lparr>cs_busy_sessions := cs_busy_sessions st + 1\<rparr>
                 else st\<lparr>cs_failures := cs_failures st + 1\<rparr>, visited))))"

text \<open>
  \<open>run_pass\<close>: \<open>granted\<close> is whether the advisory lock was granted, \<open>stopped k\<close> whether the stop
  event is set when the pass reaches its \<open>k\<close>-th session; \<open>None\<close> stands for \<open>-1\<close>.
\<close>

fun clock_loop ::
  "schedule_env \<Rightarrow> int \<Rightarrow> (nat \<Rightarrow> bool) \<Rightarrow> nat \<Rightarrow> int list \<Rightarrow> db \<times> (db \<Rightarrow> db) list \<times> clock_status \<times> nat
     \<Rightarrow> db \<times> (db \<Rightarrow> db) list \<times> clock_status \<times> nat" where
  "clock_loop env now stopped k [] acc = acc"
| "clock_loop env now stopped k (sid # rest) acc =
     (if stopped k then acc else clock_loop env now stopped (Suc k) rest (clock_session env now sid acc))"

definition run_pass ::
  "schedule_env \<Rightarrow> int list \<Rightarrow> int option \<Rightarrow> bool \<Rightarrow> (nat \<Rightarrow> bool) \<Rightarrow> (db \<Rightarrow> db) list \<Rightarrow> clock_status \<Rightarrow> db
     \<Rightarrow> db \<times> clock_status \<times> nat option" where
  "run_pass env ids now granted stopped fs st d =
     (if \<not> granted then (d, st\<lparr>cs_held_elsewhere := cs_held_elsewhere st + 1\<rparr>, None)
      else (let current = now_or now d in
        case clock_loop env current stopped 0 (due_session_ids ids current d) (d, fs, st, 0) of
          (d', _, st', visited) \<Rightarrow>
            (d', st'\<lparr>cs_passes := cs_passes st' + 1, cs_last_visited := Some visited\<rparr>, Some visited)))"

end
