(* ===== verification/Due_Actions.thy ===== *)
theory Due_Actions
  imports Scheduled_Events
begin

text \<open>
  \<open>app/services/due_actions.py\<close>: while scheduled email is off, the entries of the two lists that
  are due become prompts; \<open>mark_done\<close> records one as handled, in the record the observers read.
\<close>

record due_action =
  da_kind :: send_kind
  da_index :: nat
  da_offset :: string
  da_due_at :: int
  da_anchor :: int
  da_count :: nat

fun handled_event :: "send_kind \<Rightarrow> string" where
  "handled_event InviteKind = ''session.scheduled_invites_handled''"
| "handled_event ReminderKind = ''session.scheduled_reminders_handled''"

fun left_to_act_on :: "db \<Rightarrow> int \<Rightarrow> review_session \<Rightarrow> send_kind \<Rightarrow> nat" where
  "left_to_act_on d sid s InviteKind =
     (if \<not> (is_validated s \<or> is_ready s) then 0 else length (list_sendable_invitations d sid))"
| "left_to_act_on d sid s ReminderKind = (if \<not> is_ready s then 0 else length (to_remind d sid))"

text \<open>
  One list's due entries. An entry that does not parse is passed over; an \<open>OverflowError\<close> at the
  edge of the calendar is no \<open>ValueError\<close> and escapes.
\<close>

fun due_entries ::
  "int \<Rightarrow> int \<Rightarrow> (int \<times> string) list \<Rightarrow> nat \<Rightarrow> string list \<Rightarrow> (nat \<times> string \<times> int) list result" where
  "due_entries now anchor consumed i [] = Inr []"
| "due_entries now anchor consumed i (raw # rest) =
     (if int i \<in> set (dict_keys consumed) then due_entries now anchor consumed (Suc i) rest
      else (case parse_iso_duration raw of
          Inl _ \<Rightarrow> due_entries now anchor consumed (Suc i) rest
        | Inr delta \<Rightarrow> bindE (add_dt anchor delta) (\<lambda>t.
            bindE (due_entries now anchor consumed (Suc i) rest) (\<lambda>es.
              Inr (if t \<le> now then (i, raw, t) # es else es)))))"

definition kind_due :: "db \<Rightarrow> int \<Rightarrow> review_session \<Rightarrow> int \<Rightarrow> send_kind \<Rightarrow> due_action list result" where
  "kind_due d sid s now kind =
     (case as_utc (kind_anchor kind s) of
        None \<Rightarrow> Inr []
      | Some anchor \<Rightarrow>
          if kind_offsets kind s = [] then Inr []
          else bindE (due_entries now anchor (fired_offsets d sid kind (kind_anchor kind s)) 0 (kind_offsets kind s))
            (\<lambda>es. let count = left_to_act_on d sid s kind in
               Inr (if es = [] \<or> count = 0 then []
                    else map (\<lambda>(i, raw, t). \<lparr>da_kind = kind, da_index = i, da_offset = raw, da_due_at = t,
                           da_anchor = anchor, da_count = count\<rparr>) es)))"

definition due_actions :: "bool \<Rightarrow> db \<Rightarrow> int \<Rightarrow> review_session \<Rightarrow> int option \<Rightarrow> due_action list result" where
  "due_actions send d sid s now =
     (if send then Inr []
      else bindE (kind_due d sid s (now_or now d) InviteKind) (\<lambda>xs.
           bindE (kind_due d sid s (now_or now d) ReminderKind) (\<lambda>ys.
             Inr (sort_key da_due_at (xs @ ys)))))"

text \<open>
  \<open>mark_done\<close>: \<open>posted\<close> is the anchor the form carried, as \<open>fromisoformat\<close> reads it.
\<close>

definition mark_done ::
  "bool \<Rightarrow> int \<Rightarrow> send_kind \<Rightarrow> int \<Rightarrow> string \<Rightarrow> stamp option \<Rightarrow> int \<Rightarrow> db \<Rightarrow> (db \<times> due_action) result" where
  "mark_done send user kind offset_index offset posted sid d =
     bindE (lock_session d sid False) (\<lambda>s.
       bindE (due_actions send d sid s None) (\<lambda>actions.
         case find (\<lambda>a. da_kind a = kind \<and> int (da_index a) = offset_index \<and> da_offset a = offset
                \<and> as_utc posted = Some (da_anchor a)) actions of
           None \<Rightarrow> Inl NotDue
         | Some a \<Rightarrow> Inr (write_event (handled_event kind) (Some user) (Some sid) NoPayload None []
                (entry_context (da_anchor a) (da_index a) (da_offset a) (da_due_at a)) d, a)))"

definition ACTIVATION_GAVE_UP :: string where
  "ACTIVATION_GAVE_UP = ''session.scheduled_activation_failed_persistent''"

definition gave_up :: "db \<Rightarrow> int \<Rightarrow> bool" where
  "gave_up d sid = (case filter (\<lambda>e. ev_session e = Some sid) (rev (audit_log d)) of
     [] \<Rightarrow> False | e # _ \<Rightarrow> ev_type e = ACTIVATION_GAVE_UP)"

fun sessions_with_something_due ::
  "bool \<Rightarrow> db \<Rightarrow> (int \<times> review_session) list \<Rightarrow> int set result" where
  "sessions_with_something_due send d [] = Inr {}"
| "sessions_with_something_due send d ((sid, s) # rest) =
     bindE (due_actions send d sid s None) (\<lambda>actions.
       bindE (sessions_with_something_due send d rest) (\<lambda>flagged.
         Inr (if actions \<noteq> [] \<or> (\<not> is_ready s \<and> gave_up d sid) then insert sid flagged else flagged)))"

end
