(* ===== verification/Schedule_Facts.thy ===== *)
theory Schedule_Facts
  imports Due_Actions Mail_Facts
begin

text \<open>
  What a pass keeps. A locale gives, for any condition on the database that each write of a pass
  keeps, that every pass, every clock sweep and every mark keeps it, whatever other requests
  commit at the locks; it is interpreted for the record of sent entries and stamps and for the
  reminders' keys. The rest are the facts about the record itself.
\<close>

section \<open>The events an operation adds\<close>

definition grows :: "(audit_event \<Rightarrow> bool) \<Rightarrow> db \<Rightarrow> db \<Rightarrow> bool" where
  "grows P d d' = (\<exists>es. audit_log d' = audit_log d @ es \<and> (\<forall>e \<in> set es. P e))"

lemma grows_same: "audit_log d' = audit_log d \<Longrightarrow> grows P d d'"
  by (auto simp: grows_def)

lemma grows_trans: "grows P d e \<Longrightarrow> grows P e f \<Longrightarrow> grows P d f"
  unfolding grows_def by (metis (no_types) UnE append.assoc set_append)

lemma grows_log: "grows P d e \<Longrightarrow> audit_log f = audit_log e \<Longrightarrow> grows P d f"
  by (simp add: grows_def)

lemma grows_event:
  assumes "grows P d e" "\<And>m. P \<lparr>ev_type = ty, ev_session = s, ev_actor = a, ev_payload = pl, ev_reason = rs,
      ev_refs = rf, ev_context = with_fired_by e ty cx, ev_created_at = Aware m\<rparr>"
  shows "grows P d (write_event ty a s pl rs rf cx e)"
  by (rule grows_trans [OF assms(1)]) (simp add: grows_def write_event_def assms(2))

lemma grows_foldl: "(\<And>d x. grows P d (f d x)) \<Longrightarrow> grows P d (foldl f d xs)"
  by (induction xs arbitrary: d) (auto intro: grows_same grows_trans)

lemma grows_foldE:
  assumes "\<And>x b b'. f x b = Inr b' \<Longrightarrow> grows P (g b) (g b')"
  shows "foldE f xs b = Inr b' \<Longrightarrow> grows P (g b) (g b')"
  by (induction xs arbitrary: b) (auto intro: grows_same grows_trans [OF assms])

section \<open>The record of entries and stamps\<close>

datatype ledger_key = Fired int send_kind int int | Stamped int string int

text \<open>What an event records: an entry's position on an anchor, or a crossing of the release window.\<close>

definition ledger_key_of :: "audit_event \<Rightarrow> ledger_key option" where
  "ledger_key_of e = (case ev_session e of None \<Rightarrow> None
     | Some sid \<Rightarrow>
        if ev_type e \<in> set (fired_event_types InviteKind) \<union> set (fired_event_types ReminderKind)
        then (case (context_instant e ''anchor_at'', context_index e) of
            (Some a, Some i) \<Rightarrow> Some (Fired sid
               (if ev_type e \<in> set (fired_event_types InviteKind) then InviteKind else ReminderKind) a i)
          | _ \<Rightarrow> None)
        else if ev_type e = ''session.release_window_opened''
        then map_option (Stamped sid (ev_type e)) (context_instant e ''release_at'')
        else if ev_type e = ''session.release_window_ended''
        then map_option (Stamped sid (ev_type e)) (context_instant e ''release_until'') else None)"

definition ledger :: "db \<Rightarrow> ledger_key list" where
  "ledger d = List.map_filter ledger_key_of (audit_log d)"

definition recorded_once :: "db \<Rightarrow> bool" where
  "recorded_once d = distinct (ledger d)"

definition quiet_type :: "string \<Rightarrow> bool" where
  "quiet_type ty = (ty \<notin> set (fired_event_types InviteKind) \<union> set (fired_event_types ReminderKind)
     \<union> {''session.release_window_opened'', ''session.release_window_ended''})"

definition quiet :: "audit_event \<Rightarrow> bool" where
  "quiet e = quiet_type (ev_type e)"

lemma quiet_types [simp]:
  "quiet_type ''session.activated''" "quiet_type ''session.scheduled_activation_skipped''"
  "quiet_type ''session.scheduled_activation_failed_persistent''" "quiet_type ''session.scheduled_activation_retry''"
  "quiet_type ''session.scheduled_event_failed''" "quiet_type ''session.expired''"
  "quiet_type ''session.deadline_reached''" "quiet_type ''instrument.opened''" "quiet_type ''instrument.closed''"
  "quiet_type ''invitation.sent''" "quiet_type ''reminders.sent''"
  by (simp_all add: quiet_type_def)

lemma quiet_key: "quiet e \<Longrightarrow> ledger_key_of e = None"
  by (simp add: quiet_def quiet_type_def ledger_key_of_def split: option.split)

lemma map_filter_none: "(\<And>x. x \<in> set xs \<Longrightarrow> f x = None) \<Longrightarrow> List.map_filter f xs = []"
  by (induction xs) (auto simp: List.map_filter_def)

lemma map_filter_append: "List.map_filter f (xs @ ys) = List.map_filter f xs @ List.map_filter f ys"
  by (simp add: List.map_filter_def)

lemma ledger_quiet: "grows quiet d d' \<Longrightarrow> ledger d' = ledger d"
  unfolding grows_def ledger_def
  by (elim exE conjE) (simp add: map_filter_append map_filter_none quiet_key)

lemma ledger_marked [simp]: "ledger (d\<lparr>fired_by := m\<rparr>) = ledger d"
  by (simp add: ledger_def)

lemma with_fired_get: "k \<noteq> ''fired_by'' \<Longrightarrow> dict_get (with_fired_by d ty cx) k = dict_get cx k"
  by (simp add: with_fired_by_def dict_get_put split: option.split)

text \<open>The positions an anchor has on record.\<close>

lemma keys_recorded:
  "set (dict_keys (foldl (record_fired a) f es))
     = set (dict_keys f) \<union> {i. \<exists>e \<in> set es. context_instant e ''anchor_at'' = Some a \<and> context_index e = Some i}"
proof (induction es arbitrary: f)
  case (Cons e es)
  have missing: "dict_get f i = None \<longleftrightarrow> i \<notin> set (dict_keys f)" for i
    using dom_dict_get [of f] by blast
  have "set (dict_keys (record_fired a f e)) = set (dict_keys f)
      \<union> {i. context_instant e ''anchor_at'' = Some a \<and> context_index e = Some i}"
    by (auto simp: record_fired_def dict_keys_put missing split: option.split)
  then show ?case by (auto simp: Cons.IH)
qed simp

lemma kind_types_disjoint: "ty \<in> set (fired_event_types InviteKind) \<Longrightarrow> ty \<notin> set (fired_event_types ReminderKind)"
  by auto

lemma stamp_types_unfired: "''session.release_window_opened'' \<notin> set (fired_event_types kind)"
    "''session.release_window_ended'' \<notin> set (fired_event_types kind)"
  by (cases kind; simp)+

lemma ledger_key_fired:
  "ledger_key_of e = Some (Fired sid kind a i) \<longleftrightarrow> ev_session e = Some sid
     \<and> ev_type e \<in> set (fired_event_types kind) \<and> context_instant e ''anchor_at'' = Some a \<and> context_index e = Some i"
  unfolding ledger_key_of_def using kind_types_disjoint [of "ev_type e"]
  by (cases kind) (auto split: option.splits simp del: fired_event_types.simps)

lemma ledger_key_stamped:
  "ledger_key_of e = Some (Stamped sid ty m) \<longleftrightarrow> ev_session e = Some sid \<and> ev_type e = ty
     \<and> (ty = ''session.release_window_opened'' \<and> context_instant e ''release_at'' = Some m
        \<or> ty = ''session.release_window_ended'' \<and> context_instant e ''release_until'' = Some m)"
  by (auto simp: ledger_key_of_def split: option.splits if_splits)

lemma in_ledger: "k \<in> set (ledger d) \<longleftrightarrow> (\<exists>e \<in> set (audit_log d). ledger_key_of e = Some k)"
  by (force simp: ledger_def set_map_filter)

lemma consumed_ledger:
  "i \<in> set (dict_keys (fired_offsets d sid kind (Some anchor))) \<longleftrightarrow> Fired sid kind (instant anchor) i \<in> set (ledger d)"
proof -
  have "set (dict_keys ([] :: (int \<times> string) list)) = {}" by (simp add: dict_keys_def)
  then show ?thesis by (auto simp: fired_offsets_def as_utc_def keys_recorded in_ledger ledger_key_fired)
qed

lemma due_stamp:
  assumes "(ty, k, m) \<in> set (due_release_stamps now s)"
  shows "ty = ''session.release_window_opened'' \<and> k = ''release_at''
    \<or> ty = ''session.release_window_ended'' \<and> k = ''release_until''"
  using assms by (auto simp: due_release_stamps_def split: option.splits if_splits)

lemma stamped_ledger:
  assumes "(ty, k, m) \<in> set (due_release_stamps now s)"
  shows "is_stamped d sid (ty, k, m) \<longleftrightarrow> Stamped sid ty m \<in> set (ledger d)"
  using due_stamp [OF assms] by (auto simp: is_stamped_def list_ex_iff in_ledger ledger_key_stamped)

text \<open>An event written under a fresh key keeps every key recorded once.\<close>

lemma ledger_write: "ledger (write_event ty a s pl rs rf cx d)
  = ledger d @ (case ledger_key_of \<lparr>ev_type = ty, ev_session = s, ev_actor = a, ev_payload = pl, ev_reason = rs,
      ev_refs = rf, ev_context = with_fired_by d ty cx, ev_created_at = Aware (wall d)\<rparr> of None \<Rightarrow> [] | Some k \<Rightarrow> [k])"
  by (simp add: ledger_def write_event_def map_filter_append List.map_filter_def split: option.split)

lemma ledger_entry:
  assumes "ty \<in> set (fired_event_types kind)" "dict_get cx ''anchor_at'' = Some (JTime (Aware a))"
    and "dict_get cx ''offset_index'' = Some (JInt i)"
  shows "ledger (write_event ty act (Some sid) pl rs rf cx d) = ledger d @ [Fired sid kind a i]"
proof -
  have "ledger_key_of \<lparr>ev_type = ty, ev_session = Some sid, ev_actor = act, ev_payload = pl, ev_reason = rs,
      ev_refs = rf, ev_context = with_fired_by d ty cx, ev_created_at = Aware (wall d)\<rparr> = Some (Fired sid kind a i)"
    using assms by (simp add: ledger_key_fired context_instant_def context_index_def with_fired_get)
  then show ?thesis by (simp add: ledger_write)
qed

section \<open>What each write of a pass records\<close>

lemma grows_quiet: "quiet_type ty \<Longrightarrow> grows quiet d e \<Longrightarrow> grows quiet d (write_event ty a s pl rs rf cx e)"
  by (rule grows_event) (simp_all add: quiet_def)

lemma quiet_write: "quiet_type ty \<Longrightarrow> audit_log e = audit_log d \<Longrightarrow> grows quiet d (write_event ty a s pl rs rf cx e)"
  by (rule grows_quiet [OF _ grows_same])

lemma quiet_lifecycle:
  "activate_session None rep ack trg sid d = Inr d' \<Longrightarrow> grows quiet d d'"
  by (auto simp: activate_session_def upd_session_def upd_instruments_def
      intro!: quiet_write split: if_splits)

lemma quiet_clear: "grows quiet d e \<Longrightarrow> grows quiet d (clear_start sid e)"
  by (erule grows_log) (simp add: clear_start_def upd_session_def)

lemma quiet_emits:
  "grows quiet d (emit_activation_skipped r t st sid d)"
  "grows quiet d (emit_activation_retry_or_failed x t sid d)"
  "grows quiet d (write_event ''session.scheduled_event_failed'' None (Some sid) NoPayload rs [] cx d)"
  by (auto simp: emit_activation_skipped_def emit_activation_retry_or_failed_def Let_def
      intro!: quiet_clear quiet_write)

lemma quiet_observe:
  assumes "observe_deadline now sid seen d = Inr (d', n)"
  shows "grows quiet d d'"
  using assms
proof (cases rule: observe_cases)
  have expire: "grows quiet d e \<Longrightarrow> grows quiet d (expire_at_end sid n e)" for e n
    by (auto simp: expire_at_end_def set_status_def upd_session_def
        intro: grows_log intro!: grows_quiet split: option.split)
  have reached: "grows quiet d e \<Longrightarrow> grows quiet d (write_deadline_reached sid e)" for e
    by (auto simp: write_deadline_reached_def Let_def intro!: grows_quiet split: option.split)
  have one: "grows quiet d (reopen_instrument sid d i)" "grows quiet d (close_at_end sid s c d i)" for d i s c
    by (auto simp: reopen_instrument_def close_at_end_def intro!: quiet_write)
  { case quiet then show ?thesis by (simp add: grows_same) }
  { case healed then show ?thesis using one(1) by (auto intro: grows_foldl) }
  { case shut then show ?thesis using expire [OF reached [OF grows_same [OF refl]]] by simp }
  { case closed_now then show ?thesis using one(2) by (auto intro!: expire reached grows_foldl) }
qed

section \<open>One due entry\<close>

lemma quiet_send: "send_invitation env build u trg corr sid s r k d = Inr (d', x) \<Longrightarrow> grows quiet d d'"
  by (cases x) (auto simp: send_invitation_def Let_def upd_invitation_def add_outbox_def
      intro!: quiet_write split: if_splits)

lemma quiet_send_rows:
  assumes "send_rows env build u trg sid s rows d = Inr d'"
  shows "grows quiet d d'"
  using assms unfolding send_rows_def
  by (rule grows_foldE [where g = "\<lambda>x. x", rotated]) (auto dest!: map_sum_fst quiet_send split: prod.splits)

lemma quiet_dispatch_invitations:
  assumes "dispatch_pending_invitations env build sid s d = Inr (d', n)"
  shows "grows quiet d d'"
  using assms quiet_send_rows [of env build None "''scheduled''" sid s "list_sendable_invitations d sid" d]
  by (simp add: dispatch_pending_invitations_def Let_def bindE_Inr_iff)

lemma quiet_remind: "send_reminder env build u corr sid s r iv d = Inr (d', x) \<Longrightarrow> grows quiet d d'"
proof -
  have stamp: "grows quiet d e \<Longrightarrow> grows quiet d (stamp_reminder k e)" for d e k
    by (erule grows_log) (simp add: stamp_reminder_def upd_invitation_def)
  assume "send_reminder env build u corr sid s r iv d = Inr (d', x)"
  then show ?thesis
    by (cases x) (auto simp: send_reminder_def Let_def add_outbox_def dest: quiet_send
        intro!: stamp intro: grows_same split: option.splits if_splits)
qed

lemma quiet_remind_entries:
  assumes "dispatch_scheduled_reminders env build sid s i d = Inr (d', n)"
  shows "grows quiet d d'"
proof -
  have "grows quiet (fst b) (fst b')" if "remind_entry_step env build sid s i x b = Inr b'" for x b b'
    using that quiet_remind by (cases x; cases b) (auto simp: remind_entry_step_def Let_def
        intro: grows_same split: if_splits)
  from grows_foldE [where g = fst, OF this assms [unfolded dispatch_scheduled_reminders_def]]
  show ?thesis by simp
qed

text \<open>What one entry's transaction leaves: the mail, and one event at its position.\<close>

lemma fire_entry_Inr:
  assumes "fire_entry kind env build now sid s anchor (t, i, raw) d = Inr d'"
  obtains e ty pl rs cx where "grows quiet d e" "outbox d' = outbox e"
    "d' = write_event ty None (Some sid) pl rs [] (entry_context anchor i raw t @ cx) e"
    "ty \<in> set (fired_event_types kind)"
    "e = d \<or> kind = InviteKind \<and> (\<exists>n. dispatch_pending_invitations env build sid s d = Inr (e, n))
       \<or> kind = ReminderKind \<and> (\<exists>n. dispatch_scheduled_reminders env build sid s i d = Inr (e, n))"
proof (cases kind)
  case InviteKind
  show ?thesis
  proof (cases "\<not> (is_validated s \<or> is_ready s) \<or> \<not> has_invitations d sid")
    case True
    then obtain rs where "d' = write_skip ''session.scheduled_invites_skipped'' sid rs (entry_context anchor i raw t) d"
      using assms by (auto simp: InviteKind fire_invite_entry_def Let_def split: if_splits)
    then show ?thesis
      by (intro that [of d "''session.scheduled_invites_skipped''" NoPayload "Some rs" "[]"])
        (simp_all add: InviteKind grows_same write_skip_def)
  next
    case False
    then obtain e n where e: "dispatch_pending_invitations env build sid s d = Inr (e, n)"
        "d' = write_fired ''session.scheduled_invites_fired'' sid n now (entry_context anchor i raw t) e"
      using assms by (auto simp: InviteKind fire_invite_entry_def Let_def)
    then show ?thesis using quiet_dispatch_invitations [OF e(1)]
      by (intro that [of e "''session.scheduled_invites_fired''" "Counts [(''sent'', n)]" None])
        (auto simp: InviteKind write_fired_def)
  qed
next
  case ReminderKind
  show ?thesis
  proof (cases "\<not> is_ready s \<or> \<not> has_invitations d sid
      \<or> (case as_utc (s_deadline s) of None \<Rightarrow> True | Some t \<Rightarrow> t \<le> now)")
    case True
    then obtain rs where "d' = write_skip ''session.scheduled_reminders_skipped'' sid rs (entry_context anchor i raw t) d"
      using assms by (auto simp: ReminderKind fire_reminder_entry_def Let_def split: if_splits)
    then show ?thesis
      by (intro that [of d "''session.scheduled_reminders_skipped''" NoPayload "Some rs" "[]"])
        (simp_all add: ReminderKind grows_same write_skip_def)
  next
    case False
    then obtain e n where e: "dispatch_scheduled_reminders env build sid s i d = Inr (e, n)"
        "d' = write_fired ''session.scheduled_reminders_fired'' sid n now (entry_context anchor i raw t) e"
      using assms by (auto simp: ReminderKind fire_reminder_entry_def Let_def split: option.splits)
    then show ?thesis using quiet_remind_entries [OF e(1)]
      by (intro that [of e "''session.scheduled_reminders_fired''" "Counts [(''sent'', n)]" None])
        (auto simp: ReminderKind write_fired_def)
  qed
qed

lemma fire_entry_ledger:
  assumes "fire_entry kind env build now sid s anchor (t, i, raw) d = Inr d'"
  shows "ledger d' = ledger d @ [Fired sid kind anchor (int i)]"
proof (rule fire_entry_Inr [OF assms])
  fix e ty pl rs cx
  assume *: "grows quiet d e" "ty \<in> set (fired_event_types kind)"
    and d': "d' = write_event ty None (Some sid) pl rs [] (entry_context anchor i raw t @ cx) e"
  have "ledger d' = ledger e @ [Fired sid kind anchor (int i)]"
    unfolding d' by (rule ledger_entry [OF *(2)]) (simp_all add: entry_context_def dict_get_def)
  then show ?thesis by (simp add: ledger_quiet [OF *(1)])
qed

text \<open>The stamps of one transaction.\<close>

lemma ledger_stamp:
  assumes "(ty, k, m) \<in> set (due_release_stamps now s)"
  shows "ledger (write_stamp sid d (ty, k, m)) = ledger d @ [Stamped sid ty m]"
proof -
  have "ledger_key_of \<lparr>ev_type = ty, ev_session = Some sid, ev_actor = None, ev_payload = NoPayload, ev_reason = None,
      ev_refs = [], ev_context = with_fired_by d ty [(k, JTime (Aware m))], ev_created_at = Aware (wall d)\<rparr>
      = Some (Stamped sid ty m)"
    using due_stamp [OF assms]
    by (auto simp: ledger_key_stamped context_instant_def with_fired_get) (simp_all add: dict_get_def)
  then show ?thesis by (simp add: write_stamp_def ledger_write)
qed

lemma ledger_stamps:
  "set xs \<subseteq> set (due_release_stamps now s) \<Longrightarrow>
     ledger (foldl (write_stamp sid) d xs) = ledger d @ map (\<lambda>(ty, _, m). Stamped sid ty m) xs"
  by (induction xs arbitrary: d) (auto simp: ledger_stamp)

lemma due_stamps_distinct: "distinct (map (\<lambda>(ty, _, m). Stamped sid ty m) (due_release_stamps now s))"
  by (cases "as_utc (s_responses_release_at s)"; cases "as_utc (s_responses_release_until s)")
    (auto simp: due_release_stamps_def)

lemma stamps_once:
  assumes "recorded_once d"
  shows "recorded_once (foldl (write_stamp sid) d (unstamped d sid (due_release_stamps now s)))"
proof -
  have "distinct (map (\<lambda>(ty, _, m). Stamped sid ty m) (unstamped d sid (due_release_stamps now s)))"
    unfolding unstamped_def by (rule distinct_map_filter [OF due_stamps_distinct])
  moreover have "Stamped sid ty m \<notin> set (ledger d)" if "(ty, k, m) \<in> set (unstamped d sid (due_release_stamps now s))"
    for ty k m using that stamped_ledger [of ty k m now s d sid] by (auto simp: unstamped_def)
  ultimately show ?thesis using assms
    by (auto simp: recorded_once_def unstamped_def ledger_stamps [where now = now and s = s])
qed


section \<open>What a pass keeps\<close>

text \<open>
  The condition and the writes of a pass that keep it. Under them every transaction of the pass
  keeps it, provided what other requests commit in between does (\<open>calm\<close>).
\<close>

definition calm :: "(db \<Rightarrow> bool) \<Rightarrow> (db \<Rightarrow> db) \<Rightarrow> bool" where
  "calm ok f = (\<forall>d. ok d \<longrightarrow> ok (f d))"

locale pass_keeps =
  fixes ok :: "db \<Rightarrow> bool"
    and env :: schedule_env
  assumes mark: "ok (d\<lparr>fired_by := m\<rparr>) = ok d"
    and entry: "ok d \<Longrightarrow> sessions d sid = Some s \<Longrightarrow>
      int i \<notin> set (dict_keys (fired_offsets d sid kind (Some anchor))) \<Longrightarrow>
      fire_entry kind (se_mail env) b now sid s (instant anchor) (t, i, raw) d = Inr d' \<Longrightarrow> ok d'"
    and activated: "ok d \<Longrightarrow> activate_session None rep True ''scheduled'' sid d = Inr d' \<Longrightarrow> ok d'"
    and skipped: "ok d \<Longrightarrow> ok (emit_activation_skipped r tm st sid d)"
    and retried: "ok d \<Longrightarrow> ok (emit_activation_retry_or_failed x tm sid d)"
    and ended: "ok d \<Longrightarrow> observe_deadline (Some now) sid seen d = Inr (d', n) \<Longrightarrow> ok d'"
    and stamped: "ok d \<Longrightarrow> ok (foldl (write_stamp sid) d (unstamped d sid (due_release_stamps now s)))"
    and failed: "ok d \<Longrightarrow>
      ok (write_event ''session.scheduled_event_failed'' None (Some sid) NoPayload rs [] cx d)"
begin

definition safe :: "world \<Rightarrow> bool" where
  "safe w = (ok (w_db w) \<and> (\<forall>f \<in> set (w_next w). calm ok f))"

definition kept :: "world \<Rightarrow> world \<Rightarrow> bool" where
  "kept w w' = (safe w \<longrightarrow> safe w')"

lemma kept_refl [simp]: "kept w w"
  by (simp add: kept_def)

lemma kept_trans: "kept w w' \<Longrightarrow> kept w' w'' \<Longrightarrow> kept w w''"
  by (simp add: kept_def)

lemma kept_interfered: "kept w (interfered w)"
  using mark by (auto simp: kept_def safe_def interfered_def others_def calm_def split: list.splits)

lemma kept_acquire: "acquire sid w = (w1, r) \<Longrightarrow> kept w w1"
  using kept_interfered [of w] by (auto simp: acquire_def Let_def kept_def safe_def split: sum.splits)

lemma kept_reloaded: "kept w w' \<Longrightarrow> kept w (reloaded sid w')"
  by (simp add: kept_def safe_def reloaded_def)

lemma kept_write: "kept w w' \<Longrightarrow> (ok (w_db w') \<Longrightarrow> ok d) \<Longrightarrow> kept w (w'\<lparr>w_db := d\<rparr>)"
  by (auto simp: kept_def safe_def)

lemma kept_committed: "kept w w' \<Longrightarrow> (ok (w_db w') \<Longrightarrow> ok d) \<Longrightarrow> kept w (committed sid d w')"
  by (auto simp: kept_def safe_def committed_def)

lemma acquired: "acquire sid w = (w1, Inr s) \<Longrightarrow> sessions (w_db w1) sid = Some s"
  by (auto simp: acquire_def Let_def dest: lock_session_Inr split: sum.splits)

lemma loop_kept: "kept w (fst (fire_loop kind (se_mail env) b now sid handled w))"
proof (induction kind "se_mail env" b now sid handled w rule: fire_loop.induct)
  case (1 kind b now sid handled w)
  obtain w1 r where acq: "acquire sid w = (w1, r)" by (cases "acquire sid w")
  note k = kept_acquire [OF acq]
  show ?case
  proof (cases "\<exists>s anchor fires t i raw rest d'. r = Inr s \<and> kind_anchor kind s = Some anchor
      \<and> kind_offsets kind s \<noteq> [] \<and> resolve_fires kind s = Inr fires
      \<and> pending_fires now (fired_offsets (w_db w1) sid kind (kind_anchor kind s)) handled fires = (t, i, raw) # rest
      \<and> fire_entry kind (se_mail env) b now sid s (instant anchor) (t, i, raw) (w_db w1) = Inr d'")
    case False
    then have "fst (fire_loop kind (se_mail env) b now sid handled w) = w1"
      by (subst fire_loop.simps)
        (auto simp: acq split: sum.split option.split list.split prod.split)
    then show ?thesis using k by simp
  next
    case True
    then obtain s anchor fires t i raw rest d' where *: "r = Inr s" "kind_anchor kind s = Some anchor"
      "kind_offsets kind s \<noteq> []" "resolve_fires kind s = Inr fires"
      "pending_fires now (fired_offsets (w_db w1) sid kind (kind_anchor kind s)) handled fires = (t, i, raw) # rest"
      "fire_entry kind (se_mail env) b now sid s (instant anchor) (t, i, raw) (w_db w1) = Inr d'"
      by blast
    have new: "int i \<notin> set (dict_keys (fired_offsets (w_db w1) sid kind (Some anchor)))"
    proof -
      have "(t, i, raw) \<in> set (pending_fires now (fired_offsets (w_db w1) sid kind (kind_anchor kind s)) handled fires)"
        by (simp add: *(5))
      then show ?thesis by (simp add: pending_fires_def *(2))
    qed
    have "kept w (w1\<lparr>w_db := d'\<rparr>)"
      using entry [OF _ acquired new *(6)] acq *(1) by (intro kept_write [OF k]) simp
    moreover have "kept (w1\<lparr>w_db := d'\<rparr>)
        (fst (fire_loop kind (se_mail env) b now sid (insert i handled) (w1\<lparr>w_db := d'\<rparr>)))"
      using 1 [OF acq [symmetric] *(1,2,3,4,5,6)] by simp
    moreover have "fire_loop kind (se_mail env) b now sid handled w
        = fire_loop kind (se_mail env) b now sid (insert i handled) (w1\<lparr>w_db := d'\<rparr>)"
      using * by (subst fire_loop.simps) (simp add: acq)
    ultimately show ?thesis by (metis kept_trans)
  qed
qed

lemma entries_kept: "kept w (fst (observe_entries kind (se_mail env) build now sid row w))"
  using loop_kept by (simp add: observe_entries_def split: option.split sum.split)

lemma activation_kept: "kept w (fst (observe_activation env now sid row w))"
proof -
  have retry: "kept w1 (fst (retry_activation x tm sid w1))" for x tm w1
    using kept_interfered [of w1] retried
    by (auto simp: retry_activation_def Let_def intro!: kept_reloaded kept_committed split: option.split)
  obtain w1 r where acq: "acquire sid w = (w1, r)" by (cases "acquire sid w")
  note k = kept_acquire [OF acq]
  show ?thesis using activated skipped kept_trans [OF k retry] k
    by (auto simp: observe_activation_def acq Let_def intro!: kept_committed split: sum.split option.split)
qed

lemma release_kept: "kept w (fst (observe_release_window now sid row w))"
proof -
  obtain w1 r where acq: "acquire sid w = (w1, r)" by (cases "acquire sid w")
  show ?thesis using kept_acquire [OF acq] stamped
    by (auto simp: observe_release_window_def acq Let_def intro!: kept_write split: sum.split)
qed

lemma end_kept: "kept w (fst (observe_end now sid row w))"
  using kept_interfered [of w] ended
  by (auto simp: observe_end_def Let_def intro!: kept_committed split: sum.split)

lemma failure_kept: "kept w (record_failure sid trg x w)"
proof -
  obtain w1 r where acq: "acquire sid w = (w1, r)" by (cases "acquire sid w")
  show ?thesis using kept_acquire [OF acq] failed
    by (auto simp: record_failure_def acq intro!: kept_reloaded kept_write split: sum.split option.split)
qed

lemma guarded_kept:
  assumes "\<And>row w. kept w (fst (fire row w))"
  shows "kept w (fst (run_guarded env sid trg fire w))"
proof (cases "w_row w")
  case (Some row)
  obtain w1 r where fire: "fire row w = (w1, r)" by (cases "fire row w")
  have "kept w w1" using assms [of w row] fire by simp
  then show ?thesis using kept_trans [OF kept_reloaded failure_kept, of w w1]
    by (auto simp: run_guarded_def Some fire intro: kept_reloaded split: sum.split)
qed (simp add: run_guarded_def)

lemma then_kept:
  assumes "kept w (fst x)" "\<And>b w'. kept w' (fst (f b w'))"
  shows "kept w (fst (then_step x f))"
  using assms kept_trans by (auto simp: then_step_def split: prod.splits sum.splits)

lemma with_row_kept: "(\<And>row. kept w (fst (f row))) \<Longrightarrow> kept w (fst (with_row w f))"
  by (simp add: with_row_def split: option.split)

lemma pass_kept: "kept w (fst (observe_scheduled_events env build now sid w))"
proof -
  have "kept w (fst (observe_all env build tm sid w))" for tm
    unfolding observe_all_def Let_def
    by (intro then_kept)
      (auto intro!: with_row_kept guarded_kept entries_kept activation_kept end_kept release_kept)
  moreover have "fst (observe_scheduled_events env build now sid w)
      = fst (observe_all env build (now_or now (w_db w)) sid w)"
    by (simp add: observe_scheduled_events_def split: prod.split sum.split)
  ultimately show ?thesis by simp
qed

definition calm_acc :: "db \<times> (db \<Rightarrow> db) list \<times> clock_status \<times> nat \<Rightarrow> bool" where
  "calm_acc acc = (case acc of (d, fs, _) \<Rightarrow> ok d \<and> (\<forall>f \<in> set fs. calm ok f))"

lemma clock_session_kept:
  assumes "calm_acc acc"
  shows "calm_acc (clock_session env now sid acc)"
proof (cases acc)
  case (fields d fs st visited)
  show ?thesis
  proof (cases "sessions d sid")
    case (Some row)
    let ?w = "\<lparr>w_db = d\<lparr>fired_by := Some ''clock''\<rparr>, w_row = Some row, w_next = fs\<rparr>"
    obtain w r where w: "observe_scheduled_events env None (Some now) sid ?w = (w, r)" by (cases "observe_scheduled_events env None (Some now) sid ?w")
    have "safe ?w" using assms mark by (simp add: fields calm_acc_def safe_def)
    then have "safe w" using pass_kept [of ?w None "Some now" sid] by (simp add: w kept_def)
    then show ?thesis using mark by (auto simp: fields clock_session_def Some w Let_def calm_acc_def safe_def split: sum.split bool.split)
  qed (use assms in \<open>simp add: fields clock_session_def\<close>)
qed

lemma clock_loop_kept: "calm_acc acc \<Longrightarrow> calm_acc (clock_loop env now stopped k ids acc)"
  by (induction ids arbitrary: k acc) (simp_all add: clock_session_kept)

lemma run_pass_kept:
  assumes "ok d" "\<forall>f \<in> set fs. calm ok f"
  shows "ok (fst (run_pass env ids now granted stopped fs st d))"
  using assms clock_loop_kept [of "(d, fs, st, 0)" "now_or now d" stopped 0 "due_session_ids ids (now_or now d) d"]
  by (auto simp: run_pass_def calm_acc_def Let_def split: prod.splits)

end


section \<open>Sequences of passes and marks\<close>

text \<open>
  A request's pass on the row it loaded, a sweep of the clock, and a mark of the page; the lists
  are what other requests commit at each lock of the pass.
\<close>

datatype sweep =
    Visit "(string \<Rightarrow> string) option" "int option" "review_session option" "(db \<Rightarrow> db) list"
  | ClockPass "int list" "int option" bool "nat \<Rightarrow> bool" clock_status "(db \<Rightarrow> db) list"
  | MarkDone bool int send_kind int string "stamp option"

fun run_sweep :: "schedule_env \<Rightarrow> sweep \<Rightarrow> int \<Rightarrow> db \<Rightarrow> db result" where
  "run_sweep env (Visit build now row fs) sid d =
     Inr (w_db (fst (observe_scheduled_events env build now sid \<lparr>w_db = d, w_row = row, w_next = fs\<rparr>)))"
| "run_sweep env (ClockPass ids now granted stopped st fs) sid d =
     Inr (fst (run_pass env ids now granted stopped fs st d))"
| "run_sweep env (MarkDone send user kind i offset posted) sid d =
     map_sum id fst (mark_done send user kind i offset posted sid d)"

fun calm_sweep :: "(db \<Rightarrow> bool) \<Rightarrow> sweep \<Rightarrow> bool" where
  "calm_sweep ok (Visit build now row fs) = list_all (calm ok) fs"
| "calm_sweep ok (ClockPass ids now granted stopped st fs) = list_all (calm ok) fs"
| "calm_sweep ok (MarkDone send user kind i offset posted) = True"

locale sweeps_keep = pass_keeps +
  assumes handled: "ok d \<Longrightarrow> mark_done send user kind i offset posted sid d = Inr (d', a) \<Longrightarrow> ok d'"
begin

lemma sweep_kept: "ok d \<Longrightarrow> calm_sweep ok a \<Longrightarrow> run_sweep env a sid d = Inr d' \<Longrightarrow> ok d'"
proof (cases a)
  case (Visit build now row fs)
  assume "ok d" "calm_sweep ok a" "run_sweep env a sid d = Inr d'"
  then show ?thesis using pass_kept [of "\<lparr>w_db = d, w_row = row, w_next = fs\<rparr>" build now sid]
    by (auto simp: Visit kept_def safe_def list_all_iff)
next
  case ClockPass
  assume "ok d" "calm_sweep ok a" "run_sweep env a sid d = Inr d'"
  then show ?thesis using run_pass_kept by (auto simp: ClockPass list_all_iff)
next
  case MarkDone
  assume "ok d" "calm_sweep ok a" "run_sweep env a sid d = Inr d'"
  then show ?thesis using handled by (auto simp: MarkDone)
qed

end

sublocale sweeps_keep \<subseteq> sweeps: transactions "run_sweep env" "calm_sweep ok" ok "\<lambda>_ _. True"
  by unfold_locales (use sweep_kept in simp_all)

end
