(* ===== verification/Schedule_Properties.thy ===== *)
theory Schedule_Properties
  imports Schedule_Facts Mail_Properties
begin

text \<open>
  What the scheduled events promise: each entry and each stamp on record once whatever passes
  race, one scheduled reminder per reviewer and position, every due entry fired in order, the
  retries of a failing activation, and a clock that skips no session a pass would change.
\<close>

section \<open>On record once\<close>

lemma due_entries_fresh:
  "due_entries now anchor consumed k xs = Inr es \<Longrightarrow> (i, raw, t) \<in> set es \<Longrightarrow> int i \<notin> set (dict_keys consumed)"
proof (induction xs arbitrary: k es)
  case (Cons r rest)
  then show ?case
    by (cases "parse_iso_duration r"; cases "int k \<in> set (dict_keys consumed)") (auto split: if_splits)
qed simp

lemma kind_due_fresh:
  assumes "kind_due d sid s now kind = Inr as" "a \<in> set as"
  shows "da_kind a = kind" "Fired sid kind (da_anchor a) (int (da_index a)) \<notin> set (ledger d)"
proof -
  obtain anchor where anchor: "kind_anchor kind s = Some anchor"
    using assms by (cases "kind_anchor kind s") (simp_all add: kind_due_def as_utc_def)
  obtain es where es: "due_entries now (instant anchor) (fired_offsets d sid kind (Some anchor)) 0 (kind_offsets kind s) = Inr es"
      "as = [] \<or> as = map (\<lambda>(i, raw, t). \<lparr>da_kind = kind, da_index = i, da_offset = raw, da_due_at = t,
         da_anchor = instant anchor, da_count = left_to_act_on d sid s kind\<rparr>) es"
    using assms(1) by (auto simp: kind_due_def as_utc_def anchor Let_def split: if_splits)
  then obtain i raw t where "(i, raw, t) \<in> set es" "da_kind a = kind" "da_index a = i" "da_anchor a = instant anchor"
    using assms(2) by auto
  then show "da_kind a = kind" "Fired sid kind (da_anchor a) (int (da_index a)) \<notin> set (ledger d)"
    using due_entries_fresh [OF es(1)] by (auto simp: consumed_ledger)
qed

lemma find_hit: "find P xs = Some x \<Longrightarrow> x \<in> set xs \<and> P x"
  by (auto simp: find_Some_iff)

lemma mark_done_ledger:
  assumes "mark_done send user kind i offset posted sid d = Inr (d', a)"
  shows "Fired sid kind (da_anchor a) (int (da_index a)) \<notin> set (ledger d)"
    and "ledger d' = ledger d @ [Fired sid kind (da_anchor a) (int (da_index a))]" "outbox d' = outbox d"
proof -
  obtain s actions where lock: "lock_session d sid False = Inr s" "due_actions send d sid s None = Inr actions"
    using assms by (auto simp: mark_done_def)
  then have found: "find (\<lambda>a. da_kind a = kind \<and> int (da_index a) = i \<and> da_offset a = offset
      \<and> as_utc posted = Some (da_anchor a)) actions = Some a"
    and d': "d' = write_event (handled_event kind) (Some user) (Some sid) NoPayload None []
        (entry_context (da_anchor a) (da_index a) (da_offset a) (da_due_at a)) d"
    using assms by (simp_all add: mark_done_def split: option.splits)
  note * = lock(2) find_hit [OF found]
  obtain xs ys where "kind_due d sid s (now_or None d) InviteKind = Inr xs"
      "kind_due d sid s (now_or None d) ReminderKind = Inr ys" "a \<in> set xs \<union> set ys"
    using * by (auto simp: due_actions_def split: if_splits)
  then show "Fired sid kind (da_anchor a) (int (da_index a)) \<notin> set (ledger d)"
    using kind_due_fresh * by fastforce
  show "ledger d' = ledger d @ [Fired sid kind (da_anchor a) (int (da_index a))]" "outbox d' = outbox d"
    unfolding d' by (rule ledger_entry; cases kind) (simp_all add: entry_context_def dict_get_def)
qed

interpretation once: sweeps_keep recorded_once env for env
proof unfold_locales
  fix d sid s i kind anchor b now t raw d'
  assume "recorded_once d" "int i \<notin> set (dict_keys (fired_offsets d sid kind (Some anchor)))"
    "fire_entry kind (se_mail env) b now sid s (instant anchor) (t, i, raw) d = Inr d'"
  then show "recorded_once d'" by (simp add: recorded_once_def fire_entry_ledger consumed_ledger)
next
  fix d send user kind i offset posted sid d' a
  assume "recorded_once d" "mark_done send user kind i offset posted sid d = Inr (d', a)"
  then show "recorded_once d'" by (simp add: recorded_once_def mark_done_ledger)
qed (auto simp: recorded_once_def ledger_quiet [OF quiet_lifecycle] ledger_quiet [OF quiet_observe]
    ledger_quiet [OF quiet_emits(1)] ledger_quiet [OF quiet_emits(2)] ledger_quiet [OF quiet_emits(3)]
    stamps_once [unfolded recorded_once_def])

abbreviation after_sweeps :: "schedule_env \<Rightarrow> (sweep \<times> int) list \<Rightarrow> db \<Rightarrow> db" where
  "after_sweeps env sweeps d \<equiv> foldl (\<lambda>d c. attempt (run_sweep env) c d) d sweeps"

text \<open>
  C24. Whatever passes of requests and of the clock, and marks of the page, run in whatever order,
  on rows however stale, and whatever others commit at their locks that keeps this so: the log
  records each position of each list on each anchor once at most (sent, skipped or handled),
  and each crossing of a release window once.
\<close>

theorem entries_and_stamps_recorded_once:
  assumes "recorded_once d" "\<forall>c \<in> set sweeps. calm_sweep recorded_once (fst c)"
  shows "recorded_once (after_sweeps env sweeps d)"
  using once.sweeps.calls [OF assms] by simp

section \<open>One reminder per reviewer and position\<close>

definition keyed_rows :: "db \<Rightarrow> string list" where
  "keyed_rows d = List.map_filter ob_correlation (outbox d)"

definition reminded_once :: "db \<Rightarrow> bool" where
  "reminded_once d = distinct (keyed_rows d)"

lemma keyed_rows_same: "outbox d' = outbox d \<Longrightarrow> keyed_rows d' = keyed_rows d"
  by (simp add: keyed_rows_def)

lemma keyed_more: "outbox d' = outbox d @ rows \<Longrightarrow> keyed_rows d' = keyed_rows d @ List.map_filter ob_correlation rows"
  by (simp add: keyed_rows_def map_filter_append)

lemma send_outbox: "send_invitation env build u trg corr sid s r k d = Inr (d', x) \<Longrightarrow>
    \<exists>row. outbox d' = outbox d @ [row] \<and> ob_correlation row = corr"
  by (cases x) (auto simp: send_invitation_def Let_def upd_invitation_def add_outbox_def invitation_row_def
      outbox_row_for_def split: if_splits)

lemma remind_outbox: "send_reminder env build u corr sid s r iv d = Inr (d', x) \<Longrightarrow>
    \<exists>row. outbox d' = outbox d @ [row] \<and> ob_correlation row = corr"
proof -
  have stamp: "outbox (stamp_reminder k e) = outbox e" for k e by (simp add: stamp_reminder_def upd_invitation_def)
  assume "send_reminder env build u corr sid s r iv d = Inr (d', x)"
  then show ?thesis
    by (cases x) (auto simp: send_reminder_def Let_def stamp add_outbox_def reminder_row_def outbox_row_for_def
        dest: send_outbox split: option.splits if_splits)
qed

lemma send_rows_keyed:
  "send_rows env build u trg sid s rows d = Inr d' \<Longrightarrow> keyed_rows d' = keyed_rows d"
  unfolding send_rows_def
  by (rule foldE_keeps [where P = "\<lambda>x. keyed_rows x = keyed_rows d"])
    (auto dest!: map_sum_fst send_outbox simp: keyed_more List.map_filter_def split: prod.splits)

lemma keyed_count: "length (filter (\<lambda>o'. ob_correlation o' = Some c) (outbox d)) = count (mset (keyed_rows d)) c"
proof -
  have "length (filter (\<lambda>o'. ob_correlation o' = Some c) xs) = count (mset (List.map_filter ob_correlation xs)) c" for xs
    by (induction xs) (auto simp: List.map_filter_def)
  then show ?thesis by (simp add: keyed_rows_def)
qed

lemma one_row: "reminded_once d \<Longrightarrow> length (filter (\<lambda>o'. ob_correlation o' = Some c) (outbox d))
    = (if c \<in> set (keyed_rows d) then 1 else 0)"
  by (simp add: keyed_count reminded_once_def distinct_count_atmost_1)

lemma remind_step_keyed:
  assumes "reminded_once d" "remind_entry_step env build sid s i (r, iv) (d, n) = Inr (d', n')"
  shows "keyed_rows d' = (if reminder_key sid (rr_id r) i \<in> set (keyed_rows d) then keyed_rows d
     else keyed_rows d @ [reminder_key sid (rr_id r) i])"
proof -
  let ?c = "reminder_key sid (rr_id r) i"
  define ex where "ex = filter (\<lambda>o'. ob_correlation o' = Some ?c) (outbox d)"
  have rows: "length ex = (if ?c \<in> set (keyed_rows d) then 1 else 0)"
    unfolding ex_def by (rule one_row [OF assms(1)])
  have step: "(if ex \<noteq> [] then Inr (d, n) else bindE (send_reminder env build None (Some ?c) sid s r iv d)
      (\<lambda>(d', _, _). Inr (d', n + 1))) = Inr (d', n')"
    using assms(2) rows by (simp add: remind_entry_step_def Let_def flip: ex_def split: if_splits)
  show ?thesis
  proof (cases "?c \<in> set (keyed_rows d)")
    case True
    then have "ex \<noteq> []" using rows by auto
    with step True show ?thesis by simp
  next
    case False
    then have "ex = []" using rows by simp
    then obtain row where "outbox d' = outbox d @ [row]" "ob_correlation row = Some ?c"
      using step by (auto dest: remind_outbox)
    then show ?thesis using False by (simp add: keyed_more List.map_filter_def)
  qed
qed

lemma dispatch_keyed:
  assumes "reminded_once d" "foldE (remind_entry_step env build sid s i) xs (d, n) = Inr (d', n')"
  shows "reminded_once d' \<and> set (keyed_rows d')
    = set (keyed_rows d) \<union> (\<lambda>(r, _). reminder_key sid (rr_id r) i) ` set xs"
  using assms
proof (induction xs arbitrary: d n)
  case (Cons x xs)
  obtain r iv e m where x: "x = (r, iv)" and e: "remind_entry_step env build sid s i (r, iv) (d, n) = Inr (e, m)"
      "foldE (remind_entry_step env build sid s i) xs (e, m) = Inr (d', n')"
    using Cons.prems(2) by (cases x) auto
  note keyed = remind_step_keyed [OF Cons.prems(1) e(1)]
  have "reminded_once e" using Cons.prems(1) keyed by (simp add: reminded_once_def)
  from Cons.IH [OF this e(2)] keyed show ?case by (auto simp: x)
qed simp

lemma entry_keyed:
  assumes "reminded_once d" "fire_entry kind env b now sid s anchor (t, i, raw) d = Inr d'"
  shows "reminded_once d'"
proof (rule fire_entry_Inr [OF assms(2)])
  fix e
  assume "outbox d' = outbox e" "e = d \<or> kind = InviteKind \<and> (\<exists>n. dispatch_pending_invitations env b sid s d = Inr (e, n))
       \<or> kind = ReminderKind \<and> (\<exists>n. dispatch_scheduled_reminders env b sid s i d = Inr (e, n))"
  then show ?thesis
    using assms(1) dispatch_keyed [OF assms(1)] send_rows_keyed keyed_rows_same [of d' e]
    by (auto simp: dispatch_pending_invitations_def dispatch_scheduled_reminders_def Let_def reminded_once_def)
qed


lemma observe_outbox: "observe_deadline now sid seen d = Inr (d', n) \<Longrightarrow> outbox d' = outbox d"
proof (erule observe_cases)
  have expire: "outbox (expire_at_end sid n e) = outbox e" for e n
    by (simp add: expire_at_end_def set_status_def upd_session_def split: option.split)
  have reached: "outbox (write_deadline_reached sid e) = outbox e" for e
    by (simp add: write_deadline_reached_def Let_def split: option.split)
  have loops: "outbox (foldl (reopen_instrument sid) e is) = outbox e"
    "outbox (foldl (close_at_end sid s tm) e is) = outbox e" for e s tm "is"
    by (induction "is" arbitrary: e) (simp_all add: reopen_instrument_def close_at_end_def)
  show "d' = d \<Longrightarrow> ?thesis" by simp
  show ?thesis if "d' = foldl (reopen_instrument sid) d (closed_instruments d sid)"
    using that loops by simp
  show ?thesis if "d' = expire_at_end sid 0 (write_deadline_reached sid d)"
    using that by (simp add: expire reached)
  show ?thesis if "d' = expire_at_end sid n (write_deadline_reached sid
      (foldl (close_at_end sid s (now_or now d)) d (open_instruments d sid)))" for s
    using that loops by (simp add: expire reached)
qed

interpretation reminded: sweeps_keep reminded_once env for env
proof unfold_locales
  fix d sid s i kind anchor b now t raw d'
  assume "reminded_once d" "fire_entry kind (se_mail env) b now sid s (instant anchor) (t, i, raw) d = Inr d'"
  then show "reminded_once d'" by (rule entry_keyed)
next
  fix d send user kind i offset posted sid d' a
  assume "reminded_once d" "mark_done send user kind i offset posted sid d = Inr (d', a)"
  then show "reminded_once d'" by (simp only: reminded_once_def keyed_rows_same [OF mark_done_ledger(3)])
next
  fix d tm sid seen d' n
  assume "reminded_once d" "observe_deadline (Some tm) sid seen d = Inr (d', n)"
  then show "reminded_once d'" by (simp only: reminded_once_def keyed_rows_same [OF observe_outbox])
next
  fix d :: db and sid s tm
  have "outbox (foldl (write_stamp sid) d xs) = outbox d" for xs
    by (induction xs arbitrary: d) (auto simp: write_stamp_def)
  then show "reminded_once d \<Longrightarrow> reminded_once (foldl (write_stamp sid) d (unstamped d sid (due_release_stamps tm s)))"
    by (simp add: reminded_once_def keyed_rows_def)
qed (auto simp: reminded_once_def keyed_rows_def emit_activation_skipped_def emit_activation_retry_or_failed_def
    clear_start_def upd_session_def upd_instruments_def activate_session_def Let_def split: if_splits)

lemma colon_parts:
  "a @ CHR '':'' # b = a' @ CHR '':'' # b' \<Longrightarrow> CHR '':'' \<notin> set a \<Longrightarrow> CHR '':'' \<notin> set a' \<Longrightarrow> a = a' \<and> b = b'"
proof (induction a arbitrary: a')
  case Nil
  then show ?case by (cases a') auto
next
  case (Cons c a)
  then show ?case by (cases a') auto
qed

lemma no_colon: "CHR '':'' \<notin> set (show_int n)"
  using show_int_chars [of "CHR '':''" n] by (auto simp: is_digit_def)

text \<open>A reminder key names its session, reviewer and position.\<close>

lemma reminder_key_parts:
  assumes "reminder_key sid r i = reminder_key sid' r' i'"
  shows "sid = sid' \<and> r = r' \<and> i = i'"
proof -
  have "show_int sid @ CHR '':'' # (show_int r @ CHR '':'' # show_nat i)
      = show_int sid' @ CHR '':'' # (show_int r' @ CHR '':'' # show_nat i')"
    using assms by (simp add: reminder_key_def)
  from colon_parts [OF this no_colon no_colon] have "show_int sid = show_int sid'"
    "show_int r @ CHR '':'' # show_nat i = show_int r' @ CHR '':'' # show_nat i'" by simp_all
  with colon_parts [OF this(2) no_colon no_colon] show ?thesis using show_int_inj show_nat_inj by blast
qed

text \<open>
  C25. Whatever passes and marks run, no two emails of the outbox carry one reminder key, and
  a key names one session, reviewer and position: no reviewer is sent the same position of a
  session's list twice, even when End moves and the position comes due again. A dispatch that
  succeeds leaves exactly one email under the key of each reviewer it was to remind.
\<close>

theorem one_scheduled_reminder_per_position:
  assumes "reminded_once d" "\<forall>c \<in> set sweeps. calm_sweep reminded_once (fst c)"
    and "dispatch_scheduled_reminders (se_mail env) b sid s i (after_sweeps env sweeps d) = Inr (d', n)"
  shows "distinct (keyed_rows d') \<and> (\<forall>r iv. (r, iv) \<in> set (to_remind (after_sweeps env sweeps d) sid) \<longrightarrow>
    length (filter (\<lambda>o'. ob_correlation o' = Some (reminder_key sid (rr_id r) i)) (outbox d')) = 1)
    \<and> inj (\<lambda>(sid, r, i). reminder_key sid r i)"
proof -
  have "reminded_once (after_sweeps env sweeps d)" using reminded.sweeps.calls [OF assms(1,2)] by simp
  note sent = dispatch_keyed [OF this assms(3) [unfolded dispatch_scheduled_reminders_def]]
  have "inj (\<lambda>(sid, r, i). reminder_key sid r i)"
    by (rule injI) (auto dest: reminder_key_parts)
  with sent show ?thesis by (force simp: one_row reminded_once_def [symmetric])
qed


section \<open>Every due entry, in order\<close>

lemma send_frame: "send_invitation env build u trg corr sid s r k d = Inr (d', x) \<Longrightarrow> mail_frame d d'"
  by (cases x) (auto dest: send_Inr(5))

lemma remind_frame: "send_reminder env build u corr sid s r iv d = Inr (d', x) \<Longrightarrow> mail_frame d d'"
proof -
  have stamp: "mail_frame d e \<Longrightarrow> mail_frame d (stamp_reminder k e)" for d e k
    by (simp add: mail_frame_def stamp_reminder_def upd_invitation_def)
  assume "send_reminder env build u corr sid s r iv d = Inr (d', x)"
  then show ?thesis
    by (cases x) (auto simp: send_reminder_def Let_def add_outbox_def dest: send_frame
        intro!: stamp split: option.splits if_splits)
qed

lemma foldE_frame:
  assumes "foldE f xs b = Inr b'" "\<And>x b b'. f x b = Inr b' \<Longrightarrow> mail_frame (g b) (g b')"
  shows "mail_frame (g b) (g b')"
  using assms(1) by (induction xs arbitrary: b) (auto dest: assms(2) intro: mail_frame_trans)

lemma fire_entry_frame:
  assumes "fire_entry kind env b now sid s anchor (t, i, raw) d = Inr d'"
  shows "mail_frame d d'"
proof (rule fire_entry_Inr [OF assms])
  fix e ty pl rs cx
  assume d': "d' = write_event ty None (Some sid) pl rs [] (entry_context anchor i raw t @ cx) e"
    and e: "e = d \<or> kind = InviteKind \<and> (\<exists>n. dispatch_pending_invitations env b sid s d = Inr (e, n))
       \<or> kind = ReminderKind \<and> (\<exists>n. dispatch_scheduled_reminders env b sid s i d = Inr (e, n))"
  have "mail_frame d e" if "dispatch_scheduled_reminders env b sid s i d = Inr (e, n)" for n
  proof -
    have "mail_frame (fst x) (fst y)" if "remind_entry_step env b sid s i p x = Inr y" for p x y
      using that remind_frame by (cases p; cases x) (auto simp: remind_entry_step_def Let_def split: if_splits)
    from foldE_frame [where g = fst, OF that [unfolded dispatch_scheduled_reminders_def] this] show ?thesis by simp
  qed
  moreover have "mail_frame d e" if "dispatch_pending_invitations env b sid s d = Inr (e, n)" for n
  proof -
    have "foldE (\<lambda>(i, r) d. map_sum id fst (send_invitation env b None ''scheduled'' None sid s r (inv_id i) d))
        (list_sendable_invitations d sid) d = Inr e"
      using that by (auto simp: dispatch_pending_invitations_def send_rows_def Let_def)
    from foldE_frame [where g = "\<lambda>x. x", OF this] show ?thesis
      by (auto dest!: map_sum_fst send_frame split: prod.splits)
  qed
  ultimately have "mail_frame d e" using e by auto
  then show ?thesis unfolding d' using mail_frame_trans mail_frame_tables(3) by blast
qed

text \<open>An entry fails only when the database refuses an email.\<close>

lemma send_total:
  assumes "\<And>row. \<not> me_refuses env row"
  shows "\<exists>d' x. send_invitation env build u trg corr sid s r k d = Inr (d', x)"
    "\<exists>d' x. send_reminder env build u corr sid s r iv d = Inr (d', x)"
proof -
  show 1: "\<exists>d' x. send_invitation env build u trg corr sid s r k d = Inr (d', x)" for trg r k
    using assms by (simp add: send_invitation_def Let_def)
  show "\<exists>d' x. send_reminder env build u corr sid s r iv d = Inr (d', x)"
    using assms 1 [of "''operator''" r "inv_id iv"] by (auto simp: send_reminder_def Let_def split: option.split)
qed

lemma foldE_total:
  assumes "\<And>x b. P b \<Longrightarrow> \<exists>b'. f x b = Inr b' \<and> P b'"
  shows "P b \<Longrightarrow> \<exists>b'. foldE f xs b = Inr b'"
proof (induction xs arbitrary: b)
  case (Cons x xs)
  then obtain b' where "f x b = Inr b'" "P b'" using assms by blast
  with Cons.IH show ?case by fastforce
qed simp

lemma entry_total:
  assumes "\<And>row. \<not> me_refuses env row" "reminded_once d"
  shows "\<exists>d'. fire_entry kind env b now sid s anchor entry d = Inr d'"
proof -
  obtain t i raw where entry: "entry = (t, i, raw)" by (cases entry)
  have "\<exists>e. foldE (remind_entry_step env b sid s i) xs (d, 0) = Inr e" for xs
  proof (rule foldE_total [where P = "\<lambda>x. reminded_once (fst x)"])
    fix x :: "reviewer \<times> invitation" and acc :: "db \<times> int" assume ok: "reminded_once (fst acc)"
    obtain r iv e n where x: "x = (r, iv)" "acc = (e, n)" by (cases x; cases acc)
    obtain e' y where "send_reminder env b None (Some (reminder_key sid (rr_id r) i)) sid s r iv e = Inr (e', y)"
      using send_total(2) [OF assms(1)] by blast
    moreover have "length (filter (\<lambda>o'. ob_correlation o' = Some (reminder_key sid (rr_id r) i)) (outbox e)) \<le> 1"
      using one_row [of e] ok x by simp
    ultimately have "\<exists>z. remind_entry_step env b sid s i x acc = Inr z"
      by (cases y) (simp add: x remind_entry_step_def Let_def)
    then show "\<exists>z. remind_entry_step env b sid s i x acc = Inr z \<and> reminded_once (fst z)"
      using remind_step_keyed ok x by (fastforce simp: reminded_once_def split: if_splits)
  qed (simp add: assms(2))
  moreover have "\<exists>e. foldE (\<lambda>(i, r) d. map_sum id fst (send_invitation env b None ''scheduled'' None sid s r (inv_id i) d)) xs d = Inr e"
    for xs
    by (rule foldE_total [where P = "\<lambda>_. True"])
      (use send_total(1) [OF assms(1)] in \<open>force split: prod.split\<close>, simp)
  ultimately have "\<exists>e n. dispatch_scheduled_reminders env b sid s i d = Inr (e, n)"
      "\<exists>e n. dispatch_pending_invitations env b sid s d = Inr (e, n)"
    by (simp_all add: dispatch_scheduled_reminders_def dispatch_pending_invitations_def send_rows_def Let_def) blast
  then show ?thesis
    by (cases kind) (auto simp: entry fire_invite_entry_def fire_reminder_entry_def Let_def split: option.split)
qed


lemma resolve_list_distinct: "resolve_list k anchor xs = Inr fires \<Longrightarrow> distinct (map fst fires)"
proof (induction xs arbitrary: k fires)
  case (Cons x xs)
  then obtain t fs where fs: "resolve_list (Suc k) anchor xs = Inr fs" "fires = (k, x, t) # fs" by auto
  have "k \<notin> fst ` set fs" using resolve_list_index [OF fs(1)] by fastforce
  then show ?case using Cons.IH [OF fs(1)] by (simp add: fs(2))
qed simp

lemma distinct_sort_filter: "distinct (map g xs) \<Longrightarrow> distinct (map g (sort_key f (filter P xs)))"
  by (auto simp: distinct_map inj_on_def)

lemma sorted_moments: "sorted (map (\<lambda>(t, i, _). (t, i)) xs) \<Longrightarrow> sorted (map fst (xs :: (int \<times> nat \<times> string) list))"
  by (induction xs) (auto simp: less_eq_prod_def)

lemma due_fires_Cons:
  "due_fires now ((i, raw, t) # fires) = (case t of None \<Rightarrow> [] | Some t \<Rightarrow> if t \<le> now then [(t, i, raw)] else [])
     @ due_fires now fires"
  by (simp add: due_fires_def List.map_filter_def split: option.split)

lemma due_fires_index: "(t, i, raw) \<in> set (due_fires now fires) \<Longrightarrow> i \<in> fst ` set fires"
  by (force simp: due_fires_def set_map_filter split: option.splits if_splits)

lemma due_fires_distinct: "distinct (map fst fires) \<Longrightarrow> distinct (map (fst \<circ> snd) (due_fires now fires))"
proof (induction fires)
  case (Cons x fires)
  obtain i raw t where x: "x = (i, raw, t)" by (cases x)
  have "i \<notin> (fst \<circ> snd) ` set (due_fires now fires)" using Cons.prems due_fires_index by (fastforce simp: x)
  then show ?case using Cons by (simp add: x due_fires_Cons split: option.split)
qed (simp add: due_fires_def List.map_filter_def)

lemma pending_next:
  assumes "resolve_fires kind s = Inr fires"
    and "pending_fires now consumed handled fires = (t, i, raw) # rest"
    and "set (dict_keys consumed') = insert (int i) (set (dict_keys consumed))"
  shows "pending_fires now consumed' (insert i handled) fires = rest"
proof -
  have "distinct (map (fst \<circ> snd) (due_fires now fires))"
    using resolve_list_distinct [OF assms(1) [unfolded resolve_fires_def]] by (rule due_fires_distinct)
  then have "distinct (map (fst \<circ> snd) (pending_fires now consumed handled fires))"
    unfolding pending_fires_def by (rule distinct_sort_filter)
  then have others: "\<forall>x \<in> set rest. fst (snd x) \<noteq> i" using assms(2) by (auto simp: image_iff)
  have "filter (\<lambda>(t, j, _). int j \<notin> set (dict_keys consumed') \<and> j \<notin> insert i handled) (due_fires now fires)
      = filter (\<lambda>x. fst (snd x) \<noteq> i) (filter (\<lambda>(t, j, _). int j \<notin> set (dict_keys consumed) \<and> j \<notin> handled)
          (due_fires now fires))"
    unfolding filter_filter by (rule filter_cong) (auto simp: assms(3))
  then have "pending_fires now consumed' (insert i handled) fires
      = filter (\<lambda>x. fst (snd x) \<noteq> i) (pending_fires now consumed handled fires)"
    by (simp only: pending_fires_def filter_sort)
  also have "\<dots> = rest" using others assms(2) by simp
  finally show ?thesis .
qed

lemma loop_runs:
  assumes "\<And>row. \<not> me_refuses env row" "reminded_once (w_db w)" "w_next w = []"
    and "lock_session (w_db w) sid False = Inr s" "kind_anchor kind s = Some anchor" "kind_offsets kind s \<noteq> []"
    and "resolve_fires kind s = Inr fires"
  shows "\<exists>w'. fire_loop kind env b now sid handled w = (w', Inr ())
    \<and> ledger (w_db w') = ledger (w_db w) @ map (\<lambda>(t, i, raw). Fired sid kind (instant anchor) (int i))
        (pending_fires now (fired_offsets (w_db w) sid kind (Some anchor)) handled fires)
    \<and> mail_frame (w_db w) (w_db w')"
  using assms(2-4)
proof (induction "pending_fires now (fired_offsets (w_db w) sid kind (Some anchor)) handled fires" arbitrary: w handled)
  case Nil
  have acq: "acquire sid w = (w\<lparr>w_row := Some s\<rparr>, Inr s)"
    using Nil.prems by (simp add: acquire_def interfered_def)
  have "fire_loop kind env b now sid handled w = (w\<lparr>w_row := Some s\<rparr>, Inr ())"
    using Nil.hyps assms(5-7) by (subst fire_loop.simps) (simp add: acq)
  then show ?case using Nil.hyps by simp
next
  case (Cons entry rest)
  obtain t i raw where entry: "entry = (t, i, raw)" by (cases entry)
  have acq: "acquire sid w = (w\<lparr>w_row := Some s\<rparr>, Inr s)"
    using Cons.prems by (simp add: acquire_def interfered_def)
  obtain d' where fire: "fire_entry kind env b now sid s (instant anchor) (t, i, raw) (w_db w) = Inr d'"
    using entry_total [OF assms(1) Cons.prems(1)] by blast
  note frame = fire_entry_frame [OF fire]
  note recorded = fire_entry_ledger [OF fire]
  let ?w = "w\<lparr>w_row := Some s, w_db := d'\<rparr>"
  have keys: "set (dict_keys (fired_offsets d' sid kind (Some anchor)))
      = insert (int i) (set (dict_keys (fired_offsets (w_db w) sid kind (Some anchor))))"
    by (auto simp: consumed_ledger recorded)
  have next_entries: "pending_fires now (fired_offsets d' sid kind (Some anchor)) (insert i handled) fires = rest"
    by (rule pending_next [OF assms(7) _ keys]) (simp add: Cons.hyps(2) [symmetric] entry)
  have "reminded_once (w_db ?w)" using entry_keyed [OF Cons.prems(1) fire] by simp
  moreover have "lock_session (w_db ?w) sid False = Inr s"
    using Cons.prems(3) lock_same [OF frame] by simp
  ultimately obtain w' where w': "fire_loop kind env b now sid (insert i handled) ?w = (w', Inr ())"
      "ledger (w_db w') = ledger d' @ map (\<lambda>(t, i, raw). Fired sid kind (instant anchor) (int i)) rest"
      "mail_frame d' (w_db w')"
    using Cons.hyps(1) [of ?w "insert i handled"] Cons.prems(2) next_entries by auto
  have "fire_loop kind env b now sid handled w = fire_loop kind env b now sid (insert i handled) ?w"
    using Cons.hyps(2) [symmetric] assms(5-7) fire
    by (subst fire_loop.simps) (simp add: acq entry)
  then show ?case
    using w' recorded frame mail_frame_trans by (auto simp: Cons.hyps(2) [symmetric] entry)
qed

text \<open>
  C26. When no request holds the session's lock, none commits in between and the database refuses
  no email, the pass over a list ends, and it has put on record exactly the entries that were
  due and not yet on record for the anchor, each once, in the order of their moments; it touched
  no table but the invitations, the outbox and the log.
\<close>

theorem due_entries_fire_in_order:
  assumes "\<And>row. \<not> me_refuses env row" "reminded_once (w_db w)" "w_next w = []"
    and "lock_session (w_db w) sid False = Inr s" "kind_anchor kind s = Some anchor"
    and "resolve_fires kind s = Inr fires"
  shows "\<exists>w'. observe_entries kind env (Some b) now sid s w = (w', Inr ())
    \<and> ledger (w_db w') = ledger (w_db w) @ map (\<lambda>(t, i, raw). Fired sid kind (instant anchor) (int i))
        (pending_fires now (fired_offsets (w_db w) sid kind (Some anchor)) {} fires)
    \<and> sorted (map fst (pending_fires now (fired_offsets (w_db w) sid kind (Some anchor)) {} fires))
    \<and> mail_frame (w_db w) (w_db w')"
proof -
  let ?p = "pending_fires now (fired_offsets (w_db w) sid kind (Some anchor)) {} fires"
  have order: "sorted (map fst ?p)" by (rule sorted_moments) (simp add: pending_fires_def)
  show ?thesis
  proof (cases "kind_offsets kind s = [] \<or> due_fires now fires = []")
    case True
    then have "?p = []" using assms(6) by (auto simp: pending_fires_def due_fires_def resolve_fires_def)
    then show ?thesis using True assms(5,6) by (auto simp: observe_entries_def)
  next
    case False
    then show ?thesis using loop_runs [OF assms(1-5) _ assms(6), of b now "{}"] assms(5,6) order
      by (auto simp: observe_entries_def)
  qed
qed


section \<open>Witnesses\<close>

text \<open>
  A session a day from its end, its two reminders due, and two requests that visit it at once:
  the second commits its whole pass just before the first gets its lock.
\<close>

definition sched_env :: schedule_env where
  "sched_env = \<lparr>se_mail = mail_demo_env, se_validate = (\<lambda>_ _. Inl (DatabaseError ''down'')),
     se_repr = (\<lambda>_. ''down''), se_send_enabled = True\<rparr>"

definition sched_row :: review_session where
  "sched_row = demo_session\<lparr>s_status := Ready, s_deadline := Some (Aware (days 10)),
     s_reminder_offsets := Some [''-P1D'', ''-P2D'']\<rparr>"

definition sched_demo :: db where
  "sched_demo = (mail_demo [mail_invitation ''pending'' None])\<lparr>sessions := [1 \<mapsto> sched_row], wall := days 9\<rparr>"

definition sched_visit :: "(db \<Rightarrow> db) list \<Rightarrow> sweep \<times> int" where
  "sched_visit fs = (Visit (Some demo_link) None (Some sched_row) fs, 1)"

definition sched_race :: "(sweep \<times> int) list" where
  "sched_race = [sched_visit [after_sweeps sched_env [sched_visit []]], sched_visit []]"

lemma sched_demo_fresh: "recorded_once sched_demo" "reminded_once sched_demo"
  by code_simp+

lemma sched_race_calm: "\<forall>c \<in> set sched_race. calm_sweep recorded_once (fst c)"
  using once.sweeps.calls [of _ "[sched_visit []]" sched_env]
  by (simp add: sched_race_def sched_visit_def calm_def)

lemma sched_race_run:
  "ledger (after_sweeps sched_env sched_race sched_demo)
     = [Fired 1 ReminderKind (days 10) 1, Fired 1 ReminderKind (days 10) 0]"
  by code_simp

lemma sched_visit_calm: "\<forall>c \<in> set [sched_visit []]. calm_sweep reminded_once (fst c)"
  by (simp add: sched_visit_def)

lemma sched_visit_dispatch:
  "map_sum id snd (dispatch_scheduled_reminders (se_mail sched_env) demo_link 1 sched_row 1
     (after_sweeps sched_env [sched_visit []] sched_demo)) = Inr 0"
  by code_simp

lemma sched_visit_remind: "map fst (to_remind (after_sweeps sched_env [sched_visit []] sched_demo) 1) = [mail_person]"
  by code_simp

theorem entries_and_stamps_recorded_once_witness:
  "recorded_once (after_sweeps sched_env sched_race sched_demo)
   \<and> ledger (after_sweeps sched_env sched_race sched_demo)
     = [Fired 1 ReminderKind (days 10) 1, Fired 1 ReminderKind (days 10) 0]"
  using entries_and_stamps_recorded_once [OF sched_demo_fresh(1) sched_race_calm, of sched_env] sched_race_run
  by blast

theorem one_scheduled_reminder_per_position_witness:
  "\<exists>d'. dispatch_scheduled_reminders (se_mail sched_env) demo_link 1 sched_row 1
       (after_sweeps sched_env [sched_visit []] sched_demo) = Inr (d', 0)
   \<and> length (filter (\<lambda>o'. ob_correlation o' = Some (reminder_key 1 7 1)) (outbox d')) = 1"
proof -
  obtain d' where d': "dispatch_scheduled_reminders (se_mail sched_env) demo_link 1 sched_row 1
       (after_sweeps sched_env [sched_visit []] sched_demo) = Inr (d', 0)"
    using sched_visit_dispatch
    by (cases "dispatch_scheduled_reminders (se_mail sched_env) demo_link 1 sched_row 1
       (after_sweeps sched_env [sched_visit []] sched_demo)") auto
  have "mail_person \<in> fst ` set (to_remind (after_sweeps sched_env [sched_visit []] sched_demo) 1)"
    using sched_visit_remind by (metis list.set_intros(1) list.set_map)
  then obtain iv where "(mail_person, iv) \<in> set (to_remind (after_sweeps sched_env [sched_visit []] sched_demo) 1)" by auto
  then have "length (filter (\<lambda>o'. ob_correlation o' = Some (reminder_key 1 (rr_id mail_person) 1)) (outbox d')) = 1"
    using one_scheduled_reminder_per_position [OF sched_demo_fresh(2) sched_visit_calm d'] by blast
  then show ?thesis using d' by (auto simp: mail_person_def)
qed

lemma sched_demo_facts:
  "\<not> me_refuses mail_demo_env row" "lock_session sched_demo 1 False = Inr sched_row"
  "kind_anchor ReminderKind sched_row = Some (Aware (days 10))"
  "resolve_fires ReminderKind sched_row = Inr [(0, ''-P1D'', Some (days 9)), (1, ''-P2D'', Some (days 8))]"
  "pending_fires (days 9) (fired_offsets sched_demo 1 ReminderKind (Some (Aware (days 10)))) {}
     [(0, ''-P1D'', Some (days 9)), (1, ''-P2D'', Some (days 8))] = [(days 8, 1, ''-P2D''), (days 9, 0, ''-P1D'')]"
  "ledger sched_demo = []"
  by (simp add: mail_demo_env_def) code_simp+

theorem due_entries_fire_in_order_witness:
  "\<exists>w'. observe_entries ReminderKind mail_demo_env (Some demo_link) (days 9) 1 sched_row
       \<lparr>w_db = sched_demo, w_row = Some sched_row, w_next = []\<rparr> = (w', Inr ())
     \<and> ledger (w_db w') = [Fired 1 ReminderKind (days 10) 1, Fired 1 ReminderKind (days 10) 0]"
  using due_entries_fire_in_order [OF sched_demo_facts(1), of "\<lparr>w_db = sched_demo, w_row = Some sched_row, w_next = []\<rparr>"
      1 sched_row ReminderKind "Aware (days 10)" _ demo_link "days 9", OF _ _ _ sched_demo_facts(3,4)]
    sched_demo_fresh(2) sched_demo_facts(2,5,6)
  by auto

end
