(* ===== verification/Schedule_Clock.thy ===== *)
theory Schedule_Clock
  imports Due_Actions Mail_Properties
begin

text \<open>
  Scheduled activation over several passes and under a concurrent save, the sessions the clock
  visits, and what the boxes of the two entry lists accept.
\<close>

section \<open>A failing activation\<close>

abbreviation activation_pass :: "schedule_env \<Rightarrow> int \<Rightarrow> world \<Rightarrow> int \<Rightarrow> world" where
  "activation_pass env sid w now \<equiv> fst (run_guarded env sid ''activation'' (observe_activation env now sid) w)"

definition gave_up_count :: "db \<Rightarrow> int \<Rightarrow> int" where
  "gave_up_count d sid = int (length (filter (\<lambda>e. ev_session e = Some sid
     \<and> ev_type e = ACTIVATION_GAVE_UP) (audit_log d)))"

text \<open>The row after \<open>n\<close> failed passes.\<close>

definition row_after :: "nat \<Rightarrow> review_session \<Rightarrow> review_session" where
  "row_after n s = (if n \<le> 3 then s else s\<lparr>s_scheduled_activate_at := None\<rparr>)"

definition failing :: "schedule_env \<Rightarrow> int \<Rightarrow> error \<Rightarrow> bool" where
  "failing env sid e = ((\<forall>d. se_validate env d sid = Inl e) \<and> one_shot_code e = None)"

lemma retries_event:
  "count_recent_retries (write_event ty a (Some sid) pl rs rf ((''scheduled_at'', JTime (Aware tm)) # cx) d) sid tm
     = count_recent_retries d sid tm + (if ty = ''session.scheduled_activation_retry'' then 1 else 0)"
  by (simp add: count_recent_retries_def write_event_def with_fired_by_def dict_get_put split: option.split)
    (simp add: dict_get_def)

lemma lock_same_row:
  assumes "lock_session d sid False = Inr s" "held d' = held d" "postgres d' = postgres d" "sessions d' sid = Some s'"
  shows "lock_session d' sid False = Inr s'"
  using assms by (simp add: lock_session_def split: if_splits)

lemma failed_pass:
  assumes "failing env sid e" "tm \<le> now" "as_utc (s_scheduled_activate_at s) = Some tm" "is_validated s"
    and "w_next w = []" "w_row w = Some (row_after n s)" "lock_session (w_db w) sid False = Inr (row_after n s)"
    and "count_recent_retries (w_db w) sid tm = int (min n 3)"
  defines "w' \<equiv> activation_pass env sid w now"
  shows "w_next w' = [] \<and> w_row w' = Some (row_after (Suc n) s) \<and> lock_session (w_db w') sid False = Inr (row_after (Suc n) s)
    \<and> count_recent_retries (w_db w') sid tm = int (min (Suc n) 3)
    \<and> gave_up_count (w_db w') sid = gave_up_count (w_db w) sid + (if n = 3 then 1 else 0)
    \<and> length (audit_log (w_db w')) = length (audit_log (w_db w)) + (if n \<le> 3 then 1 else 0)"
proof (cases "n \<le> 3")
  case False
  then have "w' = w" using assms(6)
    by (simp add: w'_def run_guarded_def observe_activation_def start_due_def row_after_def as_utc_def)
  then show ?thesis using False assms(5-8) by (simp add: row_after_def)
next
  case True
  let ?d = "emit_activation_retry_or_failed (take 200 (se_repr env e)) tm sid (w_db w)"
  have row: "row_after n s = s" using True by (simp add: row_after_def)
  have sess: "sessions (w_db w) sid = Some s" using lock_session_Inr [OF assms(7)] row by simp
  have w': "w' = committed sid ?d (w\<lparr>w_row := Some s\<rparr>)"
    using assms(1-7) sess
    by (simp add: w'_def run_guarded_def observe_activation_def start_due_def row acquire_def interfered_def
        failing_def retry_activation_def Let_def)
  have retries: "count_recent_retries (w_db w) sid tm = int n" using assms(8) True by simp
  have free: "held ?d = held (w_db w)" "postgres ?d = postgres (w_db w)"
    by (simp_all add: emit_activation_retry_or_failed_def Let_def clear_start_def upd_session_def)
  show ?thesis
  proof (cases "n = 3")
    case give_up: True
    have d: "?d = clear_start sid (write_event ''session.scheduled_activation_failed_persistent'' None (Some sid) NoPayload
        (Some (take 200 (se_repr env e))) [] [(''scheduled_at'', JTime (Aware tm)), (''attempts'', JInt 4)] (w_db w))"
      using retries give_up by (simp add: emit_activation_retry_or_failed_def ACTIVATION_MAX_RETRIES_def Let_def)
    have s': "sessions ?d sid = Some (row_after (Suc n) s)"
      by (simp add: d clear_start_def upd_session_def sess row_after_def give_up)
    have "count_recent_retries ?d sid tm = 3"
      using retries give_up retries_event [where ty = "''session.scheduled_activation_failed_persistent''"]
      by (simp add: d clear_start_def upd_session_def count_recent_retries_def)
    then show ?thesis using s' lock_same_row [OF assms(7) free s'] assms(5)
      by (simp add: w' committed_def give_up gave_up_count_def)
        (simp add: d clear_start_def upd_session_def ACTIVATION_GAVE_UP_def write_event_def)
  next
    case False
    then have n: "n < 3" using True by simp
    then have d: "?d = write_event ''session.scheduled_activation_retry'' None (Some sid) NoPayload
        (Some (take 200 (se_repr env e))) [] [(''scheduled_at'', JTime (Aware tm)), (''attempt'', JInt (int n + 1))] (w_db w)"
      using retries by (simp add: emit_activation_retry_or_failed_def ACTIVATION_MAX_RETRIES_def Let_def)
    have s': "sessions ?d sid = Some (row_after (Suc n) s)" using n sess by (simp add: d row_after_def)
    have "count_recent_retries ?d sid tm = int n + 1" by (simp add: d retries_event retries)
    moreover have "gave_up_count ?d sid = gave_up_count (w_db w) sid" "length (audit_log ?d) = Suc (length (audit_log (w_db w)))"
      by (simp_all add: d gave_up_count_def ACTIVATION_GAVE_UP_def write_event_def)
    ultimately show ?thesis using s' lock_same_row [OF assms(7) free s'] assms(5) n
      by (simp add: w' committed_def)
  qed
qed

lemma failed_passes:
  assumes "failing env sid e" "\<forall>now \<in> set nows. tm \<le> now" "as_utc (s_scheduled_activate_at s) = Some tm" "is_validated s"
    and "w_next w = []" "w_row w = Some (row_after n s)" "lock_session (w_db w) sid False = Inr (row_after n s)"
    and "count_recent_retries (w_db w) sid tm = int (min n 3)"
  defines "w' \<equiv> foldl (activation_pass env sid) w nows"
  shows "sessions (w_db w') sid = Some (row_after (n + length nows) s)
    \<and> count_recent_retries (w_db w') sid tm = int (min (n + length nows) 3)
    \<and> gave_up_count (w_db w') sid = gave_up_count (w_db w) sid + (if n \<le> 3 \<and> 3 < n + length nows then 1 else 0)
    \<and> length (audit_log (w_db w')) + min n 4 = length (audit_log (w_db w)) + min (n + length nows) 4"
  unfolding w'_def using assms(2,5-8)
proof (induction nows arbitrary: w n)
  case Nil
  then show ?case by (auto dest: lock_session_Inr)
next
  case (Cons now nows)
  have tm: "tm \<le> now" "\<forall>now \<in> set nows. tm \<le> now" using Cons.prems(1) by auto
  note step = failed_pass [OF assms(1) tm(1) assms(3,4) Cons.prems(2-5)]
  show ?case
    using Cons.IH [of "activation_pass env sid w now" "Suc n", OF tm(2)] step by (auto split: if_splits)
qed

text \<open>
  C27. An activation that keeps failing with an error a retry may cure is retried by three passes
  and given up by the fourth, which clears Start; each of the four leaves one event, and no
  later pass does anything. The session stays validated throughout.
\<close>

theorem failing_activation_gives_up:
  assumes "failing env sid e" "\<forall>now \<in> set nows. tm \<le> now" "as_utc (s_scheduled_activate_at s) = Some tm" "is_validated s"
    and "w_next w = []" "w_row w = Some s" "lock_session (w_db w) sid False = Inr s"
    and "count_recent_retries (w_db w) sid tm = 0"
  defines "w' \<equiv> foldl (activation_pass env sid) w nows"
  shows "sessions (w_db w') sid = Some (if length nows \<le> 3 then s else s\<lparr>s_scheduled_activate_at := None\<rparr>)
    \<and> count_recent_retries (w_db w') sid tm = int (min (length nows) 3)
    \<and> gave_up_count (w_db w') sid = gave_up_count (w_db w) sid + (if length nows \<le> 3 then 0 else 1)
    \<and> length (audit_log (w_db w')) = length (audit_log (w_db w)) + min (length nows) 4"
  using failed_passes [of env sid e nows tm s w 0] assms by (auto simp: row_after_def)


section \<open>A Start saved meanwhile\<close>

definition save_start :: "int \<Rightarrow> stamp option \<Rightarrow> db \<Rightarrow> db" where
  "save_start sid start d = upd_session sid (\<lambda>s. s\<lparr>s_scheduled_activate_at := start\<rparr>) d"

lemma save_start_rows:
  "sessions (save_start sid start d) sid = map_option (\<lambda>s. s\<lparr>s_scheduled_activate_at := start\<rparr>) (sessions d sid)"
  "audit_log (save_start sid start d) = audit_log d" "held (save_start sid start d) = held d"
  "postgres (save_start sid start d) = postgres d" "fired_by (save_start sid start d) = fired_by d"
  by (simp_all add: save_start_def upd_session_def split: option.split)

text \<open>
  C28. A save that moves Start to a later moment before the pass gets its lock wins: the pass
  leaves the session alone. The same save committed once the failed activation has rolled back,
  before the give-up is written, is lost: the new Start is cleared with the old one.
\<close>

theorem give_up_drops_a_saved_start:
  assumes "failing env sid e" "sessions d sid = Some s" "is_validated s" "lock_session d sid False = Inr s"
    and "as_utc (s_scheduled_activate_at s) = Some tm" "tm \<le> now" "now < instant new"
    and "3 \<le> count_recent_retries d sid tm"
  shows "(\<exists>w. observe_activation env now sid s \<lparr>w_db = d, w_row = Some s, w_next = [save_start sid (Some new)]\<rparr> = (w, Inr ())
      \<and> w_db w = save_start sid (Some new) d)
    \<and> (\<exists>w. observe_activation env now sid s \<lparr>w_db = d, w_row = Some s, w_next = [\<lambda>d. d, save_start sid (Some new)]\<rparr> = (w, Inr ())
      \<and> sessions (w_db w) sid = Some (s\<lparr>s_scheduled_activate_at := None\<rparr>))"
proof -
  have due: "start_due now s" using assms(5,6) by (simp add: start_due_def)
  have same: "others (\<lambda>d. d) d = d" by (simp add: others_def)
  have saved: "others (save_start sid (Some new)) d = save_start sid (Some new) d"
    by (simp add: others_def save_start_def upd_session_def assms(2))
  let ?d = "save_start sid (Some new) d" and ?s = "s\<lparr>s_scheduled_activate_at := Some new\<rparr>"
  have s': "sessions ?d sid = Some ?s" by (simp add: save_start_rows assms(2))
  have "lock_session ?d sid False = Inr ?s"
    by (rule lock_same_row [OF assms(4) _ _ s']) (simp_all add: save_start_rows)
  then have early: "observe_activation env now sid s \<lparr>w_db = d, w_row = Some s, w_next = [save_start sid (Some new)]\<rparr>
      = (\<lparr>w_db = ?d, w_row = Some ?s, w_next = []\<rparr>, Inr ())"
    using due assms(7) by (simp add: observe_activation_def acquire_def interfered_def saved as_utc_def)
  have "count_recent_retries ?d sid tm = count_recent_retries d sid tm"
    by (simp add: count_recent_retries_def save_start_rows)
  then have give_up: "sessions (emit_activation_retry_or_failed x tm sid ?d) sid = Some (s\<lparr>s_scheduled_activate_at := None\<rparr>)" for x
    using assms(8) s' by (simp add: emit_activation_retry_or_failed_def ACTIVATION_MAX_RETRIES_def clear_start_def
        upd_session_def Let_def)
  have "observe_activation env now sid s \<lparr>w_db = d, w_row = Some s, w_next = [\<lambda>d. d, save_start sid (Some new)]\<rparr>
      = (committed sid (emit_activation_retry_or_failed (take 200 (se_repr env e)) tm sid ?d)
          \<lparr>w_db = ?d, w_row = Some s, w_next = []\<rparr>, Inr ())"
    using due assms(1,3-6) s'
    by (simp add: observe_activation_def acquire_def interfered_def same saved failing_def retry_activation_def Let_def)
  with early give_up show ?thesis by (simp add: committed_def)
qed

section \<open>The sessions the clock visits\<close>

text \<open>
  C29. With sending off, a pass over a session the clock does not visit changes nothing, not even
  the row it loaded: the clock's query names every session a pass has work on, save the
  archived and those whose activation was retried within the last quarter of an hour.
\<close>

theorem unvisited_pass_is_idle:
  assumes "sessions (w_db w) sid = Some s" "w_row w = Some s" "sid \<in> set ids" "\<not> se_send_enabled env"
    and "\<not> is_archived s" "\<not> retried_recently (w_db w) now sid" "sid \<notin> set (due_session_ids ids now (w_db w))"
  shows "observe_scheduled_events env build (Some now) sid w = (w, Inr True)"
proof -
  have idle: "\<not> other_step_due now s" "\<not> start_step_due now s"
    using assms(1,3,6,7) by (simp_all add: due_session_ids_def Let_def)
  have "\<not> start_due now s" using idle(2) assms(5) by (simp add: start_step_due_def)
  then have 1: "run_guarded env sid ''activation'' (observe_activation env now sid) w = (w, Inr True)"
    by (simp add: run_guarded_def assms(2) observe_activation_def)
  have 2: "\<not> (is_ready s \<and> deadline_has_passed now s)"
    using idle(1) assms(5) by (auto simp: other_step_due_def deadline_has_passed_def review_end_def as_utc_def
        Let_def split: option.splits)
  have "due_release_stamps now s = []"
    using idle(1) assms(5) by (auto simp: due_release_stamps_def other_step_due_def Let_def split: option.splits)
  then have 3: "run_guarded env sid ''release'' (observe_release_window now sid) w = (w, Inr True)"
    by (simp add: run_guarded_def assms(2) observe_release_window_def)
  show ?thesis
    by (simp add: observe_scheduled_events_def observe_all_def Let_def then_step_def with_row_def assms(2,4) 1 2 3 now_or_def)
qed


section \<open>What the boxes accept\<close>

text \<open>The rules of one entry at its position.\<close>

definition entry_ok :: "box_env \<Rightarrow> int \<Rightarrow> int option \<Rightarrow> string list list \<Rightarrow> nat \<Rightarrow> string \<Rightarrow> bool" where
  "entry_ok env now anchor exempt i entry = (case parse_iso_duration entry of
      Inl _ \<Rightarrow> False
    | Inr delta \<Rightarrow> \<bar>delta\<bar> \<le> OFFSET_MAX \<and> (case anchor of None \<Rightarrow> True
        | Some a \<Rightarrow> DT_MIN \<le> a + delta \<and> a + delta \<le> DT_MAX \<and> delta < 0 \<and> hours (be_notice_hours env) \<le> \<bar>delta\<bar>
            \<and> (i < length exempt \<and> entry \<in> set (exempt ! i) \<or> hours (be_lead_hours env) \<le> a + delta - now)))"

lemma check_one: "entry_ok env now anchor exempt k entry \<Longrightarrow> check_entries env now anchor exempt k (entry # rest)
    = bindE (check_entries env now anchor exempt (Suc k) rest) (\<lambda>cleaned. Inr (entry # cleaned))"
  by (auto simp: entry_ok_def add_dt_def Let_def split: sum.splits option.splits)

lemma check_bad: "\<not> entry_ok env now anchor exempt k entry \<Longrightarrow>
    \<exists>e. check_entries env now anchor exempt k (entry # rest) = Inl e"
  by (auto simp: entry_ok_def add_dt_def Let_def split: sum.splits option.splits)

lemma check_entries_iff:
  "check_entries env now anchor exempt k es = Inr es' \<longleftrightarrow>
     es' = es \<and> list_all (\<lambda>(i, e). entry_ok env now anchor exempt i e) (enumerate k es)"
proof (induction es arbitrary: k es')
  case (Cons e es)
  show ?case
  proof (cases "entry_ok env now anchor exempt k e")
    case True
    show ?thesis unfolding check_one [OF True] using True Cons.IH by auto
  next
    case False
    then show ?thesis using check_bad [OF False, of es] by auto
  qed
qed auto

lemma strip_space: "py_strip (CHR '' '' # p) = py_strip p"
  by (simp add: py_strip_def py_space_def)

lemma set_dropWhile: "set (dropWhile P xs) \<subseteq> set xs"
  by (auto dest: set_dropWhileD)

lemma strip_chars: "set (py_strip s) \<subseteq> set s"
  unfolding py_strip_def using set_dropWhile by (metis order.trans set_rev)

lemma split_chars: "p \<in> set (split_char c s) \<Longrightarrow> c \<notin> set p"
  by (induction c s arbitrary: p rule: split_char.induct) (fastforce split: if_splits list.splits)+

lemma csv_item: "e \<in> set (csv_items s) \<Longrightarrow> e \<noteq> [] \<and> py_strip e = e \<and> CHR '','' \<notin> set e"
  using strip_chars split_chars by (fastforce simp: csv_items_def)

lemma csv_join:
  assumes "\<forall>e \<in> set es. e \<noteq> [] \<and> py_strip e = e \<and> CHR '','' \<notin> set e"
  shows "csv_items (join_text '', '' es) = es"
  using assms
proof (induction "'', ''" es rule: join_text.induct)
  case (3 p q ps)
  have sp: "csv_items (CHR '' '' # s) = csv_items s" for s
    by (cases "split_char CHR '','' s") (auto simp: csv_items_def strip_space)
  have "split_char CHR '','' (p @ CHR '','' # CHR '' '' # join_text '', '' (q # ps))
      = p # split_char CHR '','' (CHR '' '' # join_text '', '' (q # ps))"
    using 3(2) by (intro split_char_append) simp
  then have "csv_items (join_text '', '' (p # q # ps)) = p # csv_items (CHR '' '' # join_text '', '' (q # ps))"
    using 3(2) by (simp add: csv_items_def)
  then show ?case using 3 by (simp add: sp del: join_text.simps)
qed (simp_all add: csv_items_def split_char_plain)

lemma blank_chars: "py_strip s = [] \<Longrightarrow> c \<in> set s \<Longrightarrow> py_space c"
proof -
  assume *: "py_strip s = []" "c \<in> set s"
  have "\<forall>x \<in> set (dropWhile py_space s). py_space x" using *(1) by (simp add: py_strip_def)
  moreover have "c \<in> set (takeWhile py_space s) \<or> c \<in> set (dropWhile py_space s)"
    using *(2) by (metis Un_iff set_append takeWhile_dropWhile_id)
  ultimately show ?thesis by (auto dest: set_takeWhileD)
qed

lemma blank_csv: "py_strip s = [] \<Longrightarrow> csv_items s = []"
proof -
  assume *: "py_strip s = []"
  have "CHR '','' \<notin> set s" using blank_chars [OF *, of "CHR '',''"] by (auto simp: py_space_def)
  then show ?thesis using * by (simp add: csv_items_def split_char_plain)
qed

text \<open>
  The list a box of entries yields is the comma-separated items of its text, each a duration
  within ten days and, once the anchor is set, before the anchor by the notice, on a moment the
  calendar can hold and past the lead time unless it may stay at its position; and the text the
  page shows the list back as is accepted again, as the same list.
\<close>

theorem accepted_offsets_meet_the_rules:
  assumes "parse_offsets env now anchor exempt raw = Inr (Some es)"
  shows "es = csv_items (or_empty raw) \<and> es \<noteq> []
    \<and> list_all (\<lambda>(i, e). entry_ok env now (as_utc anchor) exempt i e) (enumerate 0 es)
    \<and> parse_offsets env now anchor exempt (Some (join_text '', '' es)) = Inr (Some es)"
proof -
  have es: "es = csv_items (or_empty raw)" "es \<noteq> []" "check_entries env now (as_utc anchor) exempt 0 es = Inr es"
    using assms by (auto simp: parse_offsets_def Let_def check_entries_iff split: if_splits)
  have "csv_items (join_text '', '' es) = es" using csv_item es(1) by (intro csv_join) auto
  moreover have "py_strip (join_text '', '' es) \<noteq> []" using blank_csv calculation es(2) by metis
  ultimately have "parse_offsets env now anchor exempt (Some (join_text '', '' es)) = Inr (Some es)"
    using es by (simp add: parse_offsets_def or_empty_def)
  with es show ?thesis by (simp add: check_entries_iff)
qed


section \<open>Witnesses\<close>

definition clock_env :: schedule_env where
  "clock_env = \<lparr>se_mail = mail_demo_env, se_validate = (\<lambda>_ _. Inl (DatabaseError ''down'')),
     se_repr = (\<lambda>_. ''down''), se_send_enabled = False\<rparr>"

definition start_row :: review_session where
  "start_row = demo_session\<lparr>s_deadline := Some (Aware (days 10)), s_scheduled_activate_at := Some (Aware 50)\<rparr>"

definition start_world :: world where
  "start_world = \<lparr>w_db = blank_db\<lparr>sessions := [1 \<mapsto> start_row]\<rparr>, w_row = Some start_row, w_next = []\<rparr>"

lemma start_world_failing: "failing clock_env 1 (DatabaseError ''down'')"
  by (simp add: failing_def clock_env_def)

lemma start_world_facts:
  "as_utc (s_scheduled_activate_at start_row) = Some 50" "is_validated start_row" "w_next start_world = []"
  "w_row start_world = Some start_row" "lock_session (w_db start_world) 1 False = Inr start_row"
  "count_recent_retries (w_db start_world) 1 50 = 0" "gave_up_count (w_db start_world) 1 = 0"
  by code_simp+

theorem failing_activation_gives_up_witness:
  "sessions (w_db (foldl (activation_pass clock_env 1) start_world [60, 70, 80, 90, 100])) 1
     = Some (start_row\<lparr>s_scheduled_activate_at := None\<rparr>)
   \<and> gave_up_count (w_db (foldl (activation_pass clock_env 1) start_world [60, 70, 80, 90, 100])) 1 = 1"
  using failing_activation_gives_up [OF start_world_failing _ start_world_facts(1-6), where nows = "[60, 70, 80, 90, 100]"]
    start_world_facts(7)
  by simp

definition retried_db :: db where
  "retried_db = w_db (foldl (activation_pass clock_env 1) start_world [60, 70, 80])"

lemma retried_db_facts:
  "sessions retried_db 1 = Some start_row" "lock_session retried_db 1 False = Inr start_row"
  "3 \<le> count_recent_retries retried_db 1 50"
  by code_simp+

theorem give_up_drops_a_saved_start_witness:
  "\<exists>w. observe_activation clock_env 90 1 start_row
       \<lparr>w_db = retried_db, w_row = Some start_row, w_next = [\<lambda>d. d, save_start 1 (Some (Aware (days 1)))]\<rparr> = (w, Inr ())
     \<and> sessions (w_db w) 1 = Some (start_row\<lparr>s_scheduled_activate_at := None\<rparr>)"
  using give_up_drops_a_saved_start [OF start_world_failing retried_db_facts(1) start_world_facts(2) retried_db_facts(2)
      start_world_facts(1) _ _ retried_db_facts(3), where now = 90 and new = "Aware (days 1)"]
  by simp

lemma start_world_idle:
  "sessions (w_db start_world) 1 = Some start_row" "\<not> se_send_enabled clock_env" "\<not> is_archived start_row"
  "\<not> retried_recently (w_db start_world) 20 1" "1 \<notin> set (due_session_ids [1] 20 (w_db start_world))"
  by code_simp+

theorem unvisited_pass_is_idle_witness:
  "observe_scheduled_events clock_env None (Some 20) 1 start_world = (start_world, Inr True)"
  by (rule unvisited_pass_is_idle [OF start_world_idle(1) start_world_facts(4) _ start_world_idle(2-5)]) simp

definition two_hours :: box_env where
  "two_hours = \<lparr>be_parse_local = (\<lambda>_. Inl (ValueError ''none'')), be_lead_hours = 2, be_notice_hours = 4\<rparr>"

lemma two_offsets: "parse_offsets two_hours 0 (Some (Aware (days 3))) [] (Some ''-P1D ,-PT12H'') = Inr (Some [''-P1D'', ''-PT12H''])"
  by code_simp

theorem accepted_offsets_meet_the_rules_witness:
  "parse_offsets two_hours 0 (Some (Aware (days 3))) [] (Some (join_text '', '' [''-P1D'', ''-PT12H'']))
     = Inr (Some [''-P1D'', ''-PT12H''])"
  using accepted_offsets_meet_the_rules [OF two_offsets] by blast

end
