(* ===== verification/Spec2Isabelle.thy ===== *)
theory Spec2Isabelle
  imports Lifecycle_History Reviewer_Properties Visibility Cohort Generation_Properties
    Mail_Properties Schedule_Properties Schedule_Clock
begin

text \<open>
  A verification library of Review Robin, the web application under \<open>src/app\<close>: operators set up
  review sessions (reviewers, reviewees, instruments with response fields, assignments),
  activate them, reviewers answer and submit, and the results are released by policy.

  \<^bold>\<open>The program and its model.\<close> Each service module is a group of functions over database
  rows. A row is a \<open>record\<close> of the columns the services read; the tables together, with the
  wall clock, the row locks of other transactions and the audit log, are the record \<open>db\<close> of
  theory \<open>Store\<close>. A service call is a HOL function from the committed database to a new one, or
  to an \<open>error\<close>: one call is one transaction, and one that raises rolls back. A query is a list
  comprehension over the tables; \<open>ORDER BY\<close> is a stable sort. Strings are sequences of code
  points below 256. Calls that can interleave (a clock pass reading a row before it takes the
  lock) take the earlier read as a second argument.

  \<^item> \<open>RR_Prelude\<close>: results, Python strings, insertion-ordered dictionaries (locale
    \<open>ordered_dict\<close>, interpreted on the association lists the model uses).
  \<^item> \<open>Text_Identity\<close> (\<open>text.py\<close>, \<open>email_identity.py\<close>, \<open>roster_status.py\<close>), \<open>Py_Number\<close> (decimal
    literals and IEEE doubles as exact rationals), \<open>Store\<close> (\<open>app/db/models\<close>, \<open>session_guard.py\<close>,
    \<open>audit.py\<close>).
  \<^item> \<open>Branching\<close> (\<open>responses/_branching.py\<close>, \<open>_branch_rule.py\<close>): which fields apply, are
    required, are hidden, what a save deletes, when a structure is legal.
  \<^item> \<open>Grouping\<close> (\<open>responses/_group_reconciliation.py\<close>): group keys, fan-out, clearing.
  \<^item> \<open>Monitoring\<close> (\<open>responses/_rollups.py\<close>, \<open>monitoring.py\<close>): the two implementations of each
    progress figure and their equality.
  \<^item> \<open>Lifecycle\<close>, \<open>Lifecycle_History\<close> (\<open>session_lifecycle.py\<close>): the session state machine; the
    locale \<open>session_operations\<close> states what every call keeps, the step relation \<open>sys_step\<close>
    the reachable databases.
  \<^item> \<open>Answer_Values\<close>, \<open>Form_Keys\<close>, \<open>Responses\<close>, \<open>Responses_Facts\<close>, \<open>Reviewer_Writes\<close>,
    \<open>Reviewer_Properties\<close> (\<open>responses/_core.py\<close>, \<open>_form_keys.py\<close>): number formats, form names, a
    reviewer's four writes; the locale \<open>reviewer_operations\<close> states what each keeps. The sessions
    run with \<open>autoflush=False\<close> (\<open>db/session.py\<close>): the loop that writes the answers reads the rows as
    loaded, its inserts and deletes reach the table at its flush (\<open>flush_rows\<close>), where two inserts
    of one cell break the unique constraint.
  \<^item> \<open>Visibility\<close> (\<open>visibility_policies.py\<close>): what an audience sees, the check on a policy row, the
    editor's writes. \<open>Cohort\<close> (\<open>observer_cohort.py\<close>, \<open>schemas/observer_cohort_rule.py\<close>): which
    assignments an observer's rule selects.
  \<^item> \<open>Rule_Schema\<close>, \<open>Rule_Predicates\<close>, \<open>Rule_Engine\<close>, \<open>Rule_Quota\<close>, \<open>Rule_Verdicts\<close>, \<open>Rule_Outcome\<close>
    (\<open>schemas/rules.py\<close>, \<open>rules/\<close>): the assignment rules, their checks, a run of the engine; the
    reading of a rule (\<open>says\<close>, \<open>kept_by\<close>) the run is proved against.
  \<^item> \<open>Self_Review\<close> (\<open>assignments/_self_review.py\<close>): which assignments are self-reviews, with the
    rule over the roster (\<open>reviews_self\<close>) the classification is proved equal to.
  \<^item> \<open>Assignment_Generation\<close>, \<open>Reconcile\<close>, \<open>Reconcile_Facts\<close>, \<open>Generation_Run\<close>,
    \<open>Generation_Properties\<close> (\<open>assignments/_generate.py\<close>): the diff of an instrument's rows, the run
    that writes it, the dry run the operator confirms, the staleness verdict. A run over one
    instrument leaves the \<open>focus\<close> of every other, so the loop keeps the dry run's sums.
  \<^item> \<open>Email_Templates\<close>, \<open>Invitations\<close>, \<open>Email_Dispatch\<close>, \<open>Mail_Facts\<close>, \<open>Mail_Properties\<close>
    (\<open>email_templates.py\<close>, \<open>invitations.py\<close>, \<open>email_dispatch.py\<close>): the rendered emails, the tokens and
    stamps of invitations, the outbox and its dispatch. The locale \<open>transactions\<close> lifts what one
    call keeps to any sequence of calls.
  \<^item> \<open>Schedule_Times\<close>, \<open>Scheduled_Events\<close>, \<open>Due_Actions\<close>, \<open>Schedule_Facts\<close>, \<open>Schedule_Properties\<close>,
    \<open>Schedule_Clock\<close> (\<open>scheduled_events/\<close>, \<open>due_actions.py\<close>): the schedule's boxes, the pass over a
    session's triggers and the clock. A pass is several transactions, so its state is a
    \<open>world\<close>: the committed database, the row as last loaded, and a list of functions, what
    other requests commit before each lock is granted. The locale \<open>pass_keeps\<close> (with marks,
    \<open>sweeps_keep\<close>) gives for any condition the writes of a pass keep that every pass and clock
    sweep keeps it; it is interpreted for the record of sent entries (\<open>once\<close>) and for the
    reminders' keys (\<open>reminded\<close>).

  \<^bold>\<open>Parameters.\<close> HMAC-SHA256, the regular-expression search and compiler, \<open>random.sample\<close>
  (hypothesis \<open>samples\<close>: as many distinct indices as asked, in range) and the ids the database
  gives new rows (hypothesis \<open>fresh_ids\<close>) are arguments of the definitions that use them. So are, in
  the records \<open>mail_env\<close>, \<open>schedule_env\<close> and \<open>box_env\<close>: the random tokens and SHA-256 (hypothesis
  \<open>fresh_mail\<close>: a new token's hash and a new row's id are no other row's), a date's text in a
  zone and the parse of a local time, the readiness checks, the mail transport, the settings,
  and which rows the database refuses.

  \<^bold>\<open>Bounds.\<close> Every loop is structural recursion or a fold over a finite list but three: the walk up a
  chain of parents, bounded by the ids already seen; the search for a repeated rule id, a
  \<open>while_option\<close> proved to return on every rule tree; and \<open>fire_loop\<close>, the pass over the due
  entries, which ends because each turn either meets an interference of the finite list or
  handles a position no turn handled before. Times are microseconds; a datetime outside the
  Python calendar and a timedelta outside its range are errors.

  \<^bold>\<open>Not modelled.\<close> HTTP routes, templates and pages; the wording of messages; CSV and zip
  output; the mail and directory services; the readiness checks (the lifecycle takes their report
  as an argument); the clock's asyncio loop; the reconcile cache (the verdict is the one computed on a miss); display fields; the
  schema migrations and the companion applications mounted beside this one.
\<close>

end
